(* ===== verification/Zap_Prelude.thy ===== *)
theory Zap_Prelude
  imports Main "HOL-Library.Word" "HOL-Library.Monad_Syntax"
begin

text \<open>
  Shared vocabulary of the development.

  \<^item> Go's fixed-width integers are words of their width; a Go \<open>int\<close> (64-bit on every
    platform the code supports) is an \<open>int\<close>. Offsets that come off the wire are below
    \<open>2 ^ 32\<close> and field offsets are schema constants, so sums of the two stay far inside
    the 64-bit range; where an operation really can wrap (request ids, epochs, nonce
    counters, clock skews) the model uses words.
  \<^item> A run-time panic (index or slice out of range, nil dereference) is \<^term>\<open>None\<close>;
    a computation that cannot panic returns its value directly.
  \<^item> An error return is \<^term>\<open>Inl e\<close> of a sum type, the value is \<^term>\<open>Inr v\<close>.
\<close>

type_synonym byte = "8 word"
type_synonym bytes = "8 word list"
type_synonym u8 = "8 word"
type_synonym u16 = "16 word"
type_synonym u32 = "32 word"
type_synonym u64 = "64 word"

named_theorems codec_simps \<open>byte codecs of fixed width\<close>
named_theorems bounds_simps \<open>slices, indexing and in-place writes\<close>

section \<open>Error returns\<close>

definition bindE :: "'e + 'a \<Rightarrow> ('a \<Rightarrow> 'e + 'b) \<Rightarrow> 'e + 'b" where
  "bindE m f = (case m of Inl e \<Rightarrow> Inl e | Inr x \<Rightarrow> f x)"

lemma bindE_simps [simp]:
  "bindE (Inl e) f = Inl e"
  "bindE (Inr x) f = f x"
  by (simp_all add: bindE_def)

lemma bindE_eq_Inr_iff:
  "bindE m f = Inr y \<longleftrightarrow> (\<exists>x. m = Inr x \<and> f x = Inr y)"
  by (cases m) simp_all

lemma bindE_eq_Inl_iff:
  "bindE m f = Inl e \<longleftrightarrow> m = Inl e \<or> (\<exists>x. m = Inr x \<and> f x = Inl e)"
  by (cases m) simp_all

definition guardE :: "bool \<Rightarrow> 'e \<Rightarrow> 'e + unit" where
  "guardE p e = (if p then Inr () else Inl e)"

lemma guardE_eq_Inr_iff [simp]: "guardE p e = Inr u \<longleftrightarrow> p"
  by (simp add: guardE_def)

lemma guardE_eq_Inl_iff [simp]: "guardE p e = Inl e' \<longleftrightarrow> \<not> p \<and> e' = e"
  by (auto simp: guardE_def)

section \<open>Fixed-width integers as bytes\<close>

text \<open>
  Little-endian value of a byte string and the first \<open>n\<close> little-endian bytes of a
  number: the content of Go's \<open>binary.LittleEndian\<close> accessors, one definition for every
  width. Big-endian is the same over the reversed string.
\<close>

fun le_nat :: "bytes \<Rightarrow> nat" where
  "le_nat [] = 0"
| "le_nat (b # bs) = unat b + 256 * le_nat bs"

fun le_bytes :: "nat \<Rightarrow> nat \<Rightarrow> bytes" where
  "le_bytes 0 v = []"
| "le_bytes (Suc n) v = of_nat v # le_bytes n (v div 256)"

definition be_nat :: "bytes \<Rightarrow> nat" where
  "be_nat bs = le_nat (rev bs)"

definition be_bytes :: "nat \<Rightarrow> nat \<Rightarrow> bytes" where
  "be_bytes n v = rev (le_bytes n v)"

lemma length_le_bytes [simp]: "length (le_bytes n v) = n"
  by (induction n arbitrary: v) auto

lemma length_be_bytes [simp]: "length (be_bytes n v) = n"
  by (simp add: be_bytes_def)

lemma le_bytes_eq_Nil_iff [simp]: "le_bytes n v = [] \<longleftrightarrow> n = 0"
  by (cases n) auto

lemma unat_byte_of_nat: "unat (of_nat v :: byte) = v mod 256"
  by (simp add: unat_of_nat)

lemma unat_bounds:
  "unat (b :: byte) < 256" "unat (h :: u16) < 256 ^ 2" "unat (w :: u32) < 256 ^ 4"
  "unat (d :: u64) < 256 ^ 8"
  using unsigned_less [of b, where 'a = nat] unsigned_less [of h, where 'a = nat]
    unsigned_less [of w, where 'a = nat] unsigned_less [of d, where 'a = nat]
  by simp_all

lemma uint_int_unat: "uint w = int (unat w)"
  by simp

lemma le_nat_le_bytes: "le_nat (le_bytes n v) = v mod 256 ^ n"
proof (induction n arbitrary: v)
  case 0
  then show ?case by simp
next
  case (Suc n)
  then show ?case by (simp add: unat_byte_of_nat mod_mult2_eq add.commute)
qed

lemma le_nat_bound: "le_nat bs < 256 ^ length bs"
proof (induction bs)
  case Nil
  then show ?case by simp
next
  case (Cons b bs)
  with unat_bounds(1) [of b] show ?case by simp
qed

lemma le_bytes_le_nat: "le_bytes (length bs) (le_nat bs) = bs"
proof (induction bs)
  case Nil
  then show ?case by simp
next
  case (Cons b bs)
  have b: "unat b < 256" by (rule unat_bounds)
  then have "(unat b + 256 * le_nat bs) div 256 = le_nat bs" by simp
  moreover have "(of_nat (unat b + 256 * le_nat bs) :: byte) = b"
    using b by (simp only: word_unat_eq_iff unat_byte_of_nat) simp
  ultimately show ?case using Cons by simp
qed

lemma le_nat_inj: "length xs = length ys \<Longrightarrow> le_nat xs = le_nat ys \<Longrightarrow> xs = ys"
  by (metis le_bytes_le_nat)

text \<open>The accessors at the widths the code uses. They are applied to exact-width strings.\<close>

definition u16_le :: "bytes \<Rightarrow> u16" where "u16_le bs = of_nat (le_nat bs)"
definition u32_le :: "bytes \<Rightarrow> u32" where "u32_le bs = of_nat (le_nat bs)"
definition u64_le :: "bytes \<Rightarrow> u64" where "u64_le bs = of_nat (le_nat bs)"
definition u32_be :: "bytes \<Rightarrow> u32" where "u32_be bs = of_nat (be_nat bs)"
definition u64_be :: "bytes \<Rightarrow> u64" where "u64_be bs = of_nat (be_nat bs)"

definition le16 :: "u16 \<Rightarrow> bytes" where "le16 v = le_bytes 2 (unat v)"
definition le32 :: "u32 \<Rightarrow> bytes" where "le32 v = le_bytes 4 (unat v)"
definition le64 :: "u64 \<Rightarrow> bytes" where "le64 v = le_bytes 8 (unat v)"
definition be32 :: "u32 \<Rightarrow> bytes" where "be32 v = be_bytes 4 (unat v)"
definition be64 :: "u64 \<Rightarrow> bytes" where "be64 v = be_bytes 8 (unat v)"

lemmas int_codec_defs =
  u16_le_def u32_le_def u64_le_def u32_be_def u64_be_def
  le16_def le32_def le64_def be32_def be64_def

lemma length_int_codecs [simp]:
  "length (le16 a) = 2" "length (le32 b) = 4" "length (le64 c) = 8"
  "length (be32 b) = 4" "length (be64 c) = 8"
  by (simp_all add: int_codec_defs)

lemma int_codecs_roundtrip [simp, codec_simps]:
  "u16_le (le16 a) = a" "u32_le (le32 b) = b" "u64_le (le64 c) = c"
  "u32_be (be32 b) = b" "u64_be (be64 c) = c"
proof -
  have "unat a mod 256 ^ 2 = unat a" "unat b mod 256 ^ 4 = unat b" "unat c mod 256 ^ 8 = unat c"
    by (intro mod_less unat_bounds)+
  then show "u16_le (le16 a) = a" "u32_le (le32 b) = b" "u64_le (le64 c) = c"
    "u32_be (be32 b) = b" "u64_be (be64 c) = c"
    by (simp_all add: int_codec_defs be_nat_def be_bytes_def le_nat_le_bytes del: power.simps power_numeral)
qed

lemma codec_roundtrip_bytes [codec_simps]:
  "length bs = 2 \<Longrightarrow> le16 (u16_le bs) = bs"
  "length bs = 4 \<Longrightarrow> le32 (u32_le bs) = bs"
  "length bs = 8 \<Longrightarrow> le64 (u64_le bs) = bs"
  "length bs = 4 \<Longrightarrow> be32 (u32_be bs) = bs"
  "length bs = 8 \<Longrightarrow> be64 (u64_be bs) = bs"
  using le_nat_bound [of bs] le_bytes_le_nat [of bs]
    le_nat_bound [of "rev bs"] le_bytes_le_nat [of "rev bs"]
  by (simp_all add: int_codec_defs be_nat_def be_bytes_def unat_of_nat)

lemma int_codec_inj [simp]:
  "le16 a = le16 a' \<longleftrightarrow> a = a'"
  "le32 b = le32 b' \<longleftrightarrow> b = b'"
  "le64 c = le64 c' \<longleftrightarrow> c = c'"
  "be32 b = be32 b' \<longleftrightarrow> b = b'"
  "be64 c = be64 c' \<longleftrightarrow> c = c'"
      apply (metis int_codecs_roundtrip(1))
     apply (metis int_codecs_roundtrip(2))
    apply (metis int_codecs_roundtrip(3))
   apply (metis int_codecs_roundtrip(4))
  apply (metis int_codecs_roundtrip(5))
  done

lemma be_bytes_bytes_eq:
  "u32_be bs = v \<Longrightarrow> length bs = 4 \<Longrightarrow> bs = be32 v"
  by (metis codec_roundtrip_bytes(4))

section \<open>Slices\<close>

text \<open>
  \<open>d[lo:hi]\<close>, \<open>d[i]\<close>, an in-place write of a byte string at a position
  (\<open>binary.PutUint32(d[i:], v)\<close>, a loop of stores) and Go's \<open>copy(d[i:], src)\<close>, which
  stops at the end of the destination. Out-of-range arguments panic.
\<close>

definition slice_at :: "bytes \<Rightarrow> int \<Rightarrow> int \<Rightarrow> bytes option" where
  "slice_at d lo hi =
     (if 0 \<le> lo \<and> lo \<le> hi \<and> hi \<le> int (length d)
      then Some (take (nat (hi - lo)) (drop (nat lo) d)) else None)"

definition index_at :: "bytes \<Rightarrow> int \<Rightarrow> byte option" where
  "index_at d i = (if 0 \<le> i \<and> i < int (length d) then Some (d ! nat i) else None)"

definition put_at :: "bytes \<Rightarrow> int \<Rightarrow> bytes \<Rightarrow> bytes option" where
  "put_at d i bs =
     (if 0 \<le> i \<and> i + int (length bs) \<le> int (length d)
      then Some (take (nat i) d @ bs @ drop (nat i + length bs) d) else None)"

definition copy_at :: "bytes \<Rightarrow> int \<Rightarrow> bytes \<Rightarrow> bytes option" where
  "copy_at d i src =
     (if 0 \<le> i \<and> i \<le> int (length d)
      then put_at d i (take (nat (int (length d) - i)) src) else None)"

lemma slice_eq_Some_iff:
  "slice_at d lo hi = Some xs \<longleftrightarrow>
     0 \<le> lo \<and> lo \<le> hi \<and> hi \<le> int (length d) \<and> xs = take (nat (hi - lo)) (drop (nat lo) d)"
  by (auto simp: slice_at_def)

lemma slice_in_range: "slice_at d lo hi = Some xs \<Longrightarrow> hi \<le> int (length d)"
  by (simp add: slice_eq_Some_iff)

lemma slice_length: "slice_at d lo hi = Some xs \<Longrightarrow> int (length xs) = hi - lo"
  by (auto simp: slice_at_def split: if_splits)

lemma put_length: "put_at d i bs = Some d' \<Longrightarrow> length d' = length d"
  by (auto simp: put_at_def split: if_splits)

lemma put_take:
  assumes "put_at d i bs = Some d'" and "int n \<le> i"
  shows "take n d' = take n d"
proof -
  have "d' = take (nat i) d @ bs @ drop (nat i + length bs) d" "n \<le> nat i" "nat i \<le> length d"
    using assms by (auto simp: put_at_def split: if_splits)
  then show ?thesis by (simp add: min_def)
qed

lemma put_drop:
  assumes "put_at d i bs = Some d'" and "i + int (length bs) \<le> int n"
  shows "drop n d' = drop n d"
proof -
  have d': "d' = take (nat i) d @ bs @ drop (nat i + length bs) d"
    and i: "nat i + length bs \<le> length d" "nat i + length bs \<le> n"
    using assms by (auto simp: put_at_def split: if_splits)
  have "drop n d' = drop (n - nat i - length bs) (drop (nat i + length bs) d)"
    using i by (simp add: d' min_def)
  with i show ?thesis by simp
qed

lemma put_slice_same:
  assumes "put_at d i bs = Some d'"
  shows "slice_at d' i (i + int (length bs)) = Some bs"
  using assms by (auto simp: put_at_def slice_at_def min_def split: if_splits)

lemma slice_at_alt:
  "0 \<le> lo \<Longrightarrow> lo \<le> hi \<Longrightarrow> hi \<le> int (length d) \<Longrightarrow>
   slice_at d lo hi = Some (drop (nat lo) (take (nat hi) d))"
  by (simp add: slice_at_def drop_take nat_diff_distrib)

lemma slice_take_cong:
  assumes "take n d = take n d'" and "hi \<le> int n" and "length d = length d'"
  shows "slice_at d lo hi = slice_at d' lo hi"
proof (cases "0 \<le> lo \<and> lo \<le> hi \<and> hi \<le> int (length d)")
  case True
  have "min (nat hi) n = nat hi" using assms(2) by simp
  then have "take (nat hi) d = take (nat hi) d'"
    by (metis assms(1) take_take)
  with True assms(3) show ?thesis by (simp add: slice_at_alt)
next
  case False
  with assms(3) show ?thesis by (auto simp: slice_at_def)
qed

lemma slice_drop_cong:
  assumes "drop n d = drop n d'" and "int n \<le> lo" and "length d = length d'"
  shows "slice_at d lo hi = slice_at d' lo hi"
proof (cases "0 \<le> lo \<and> lo \<le> hi \<and> hi \<le> int (length d)")
  case True
  have "nat lo - n + n = nat lo" using assms(2) by simp
  then have "drop (nat lo) d = drop (nat lo) d'"
    by (metis assms(1) drop_drop)
  with True assms(3) show ?thesis by (simp add: slice_at_def)
next
  case False
  with assms(3) show ?thesis by (auto simp: slice_at_def)
qed

text \<open>A write elsewhere does not change what a slice reads.\<close>

lemma put_slice_other:
  assumes w: "put_at d i bs = Some d'"
    and disjoint: "hi \<le> i \<or> i + int (length bs) \<le> lo"
  shows "slice_at d' lo hi = slice_at d lo hi"
  using disjoint
proof
  assume hi: "hi \<le> i"
  have i: "0 \<le> i" using w by (auto simp: put_at_def split: if_splits)
  then have "take (nat i) d' = take (nat i) d" using put_take [OF w] by simp
  then show ?thesis using hi i put_length [OF w] by (intro slice_take_cong) auto
next
  assume lo: "i + int (length bs) \<le> lo"
  have i: "0 \<le> i" using w by (auto simp: put_at_def split: if_splits)
  then have "drop (nat i + length bs) d' = drop (nat i + length bs) d"
    using put_drop [OF w] by simp
  then show ?thesis using lo i put_length [OF w] by (intro slice_drop_cong) auto
qed

lemma slice_append_left:
  "hi \<le> int (length xs) \<Longrightarrow> slice_at (xs @ ys) lo hi = slice_at xs lo hi"
  by (auto simp: slice_at_def nat_diff_distrib)

lemma slice_within:
  assumes "slice_at d lo hi = Some xs" and "lo \<le> a" "a \<le> b" "b \<le> hi"
  shows "slice_at d a b = slice_at xs (a - lo) (b - lo)"
proof -
  have xs: "xs = take (nat (hi - lo)) (drop (nat lo) d)" and lo: "0 \<le> lo" "hi \<le> int (length d)"
    using assms(1) by (auto simp: slice_at_def split: if_splits)
  have "drop (nat (a - lo)) xs = take (nat (hi - lo) - nat (a - lo)) (drop (nat (a - lo) + nat lo) d)"
    by (simp add: xs drop_take)
  moreover have "nat (a - lo) + nat lo = nat a" "nat (hi - lo) - nat (a - lo) = nat (hi - a)"
    using assms lo by simp_all
  ultimately have "take (nat (b - a)) (drop (nat (a - lo)) xs) = take (nat (b - a)) (drop (nat a) d)"
    using assms by (simp add: min_def)
  moreover have "int (length xs) = hi - lo" using slice_length [OF assms(1)] .
  ultimately show ?thesis using assms lo by (simp add: slice_at_def)
qed

text \<open>\<open>binary.LittleEndian.Uint32(d[i:])\<close> and its relatives: they panic past the end.\<close>

definition get_u16 :: "bytes \<Rightarrow> int \<Rightarrow> u16 option" where
  "get_u16 d i = map_option u16_le (slice_at d i (i + 2))"

definition get_u32 :: "bytes \<Rightarrow> int \<Rightarrow> u32 option" where
  "get_u32 d i = map_option u32_le (slice_at d i (i + 4))"

definition get_u64 :: "bytes \<Rightarrow> int \<Rightarrow> u64 option" where
  "get_u64 d i = map_option u64_le (slice_at d i (i + 8))"

lemmas get_defs = get_u16_def get_u32_def get_u64_def

lemma get_in_range:
  "0 \<le> i \<Longrightarrow> i + 2 \<le> int (length d) \<Longrightarrow> \<exists>v. get_u16 d i = Some v"
  "0 \<le> i \<Longrightarrow> i + 4 \<le> int (length d) \<Longrightarrow> \<exists>v. get_u32 d i = Some v"
  "0 \<le> i \<Longrightarrow> i + 8 \<le> int (length d) \<Longrightarrow> \<exists>v. get_u64 d i = Some v"
  by (simp_all add: get_defs slice_at_def)

lemma put_get [bounds_simps]:
  "put_at d i (le16 a) = Some d' \<Longrightarrow> get_u16 d' i = Some a"
  "put_at d i (le32 b) = Some d' \<Longrightarrow> get_u32 d' i = Some b"
  "put_at d i (le64 c) = Some d' \<Longrightarrow> get_u64 d' i = Some c"
  using put_slice_same [of d i "le16 a" d'] put_slice_same [of d i "le32 b" d']
    put_slice_same [of d i "le64 c" d']
  by (simp_all add: get_defs)

end
