(* ===== verification/Zap_Wire.thy ===== *)
theory Zap_Wire
  imports Zap_Prelude
begin

text \<open>
  The zero-copy reader of \<open>src/zap.go\<close>: header validation (\<open>Parse\<close>,
  \<open>ParseHeader\<close>), messages, and the object and list views with every accessor. A view
  holds the message it points into (\<^term>\<open>None\<close> is Go's nil pointer) and a byte offset;
  an accessor returns \<^term>\<open>None\<close> where the code panics. A nil byte slice is
  \<^term>\<open>None :: bytes option\<close>, a present one \<^term>\<open>Some\<close> of its content.
\<close>

section \<open>Header\<close>

definition HeaderSize :: int where "HeaderSize = 16"
definition Magic :: bytes where "Magic = [0x5A, 0x41, 0x50, 0x00]"
definition Version1 :: u16 where "Version1 = 1"
definition Version2 :: u16 where "Version2 = 2"
definition Alignment :: int where "Alignment = 8"

datatype zap_error =
    ErrInvalidMagic | ErrInvalidVersion | ErrBufferTooSmall | ErrOutOfBounds | ErrInvalidOffset

record Message =
  msg_data :: bytes
  msg_refs :: "nat option"

definition Parse :: "bytes \<Rightarrow> zap_error + Message" where
  "Parse data =
     (if int (length data) < HeaderSize then Inl ErrBufferTooSmall
      else if take 4 data \<noteq> Magic then Inl ErrInvalidMagic
      else
        let version = u16_le (take 2 (drop 4 data)) in
        if version \<noteq> Version1 \<and> version \<noteq> Version2 then Inl ErrInvalidVersion
        else
          let size = u32_le (take 4 (drop 12 data)) in
          if uint size < HeaderSize \<or> int (length data) < uint size then Inl ErrBufferTooSmall
          else Inr \<lparr>msg_data = take (unat size) data, msg_refs = None\<rparr>)"

definition parseHeaderImpl :: "bytes \<Rightarrow> zap_error + (bytes \<times> int)" where
  "parseHeaderImpl data =
     (if int (length data) < HeaderSize then Inl ErrBufferTooSmall
      else if take 4 data \<noteq> Magic then Inl ErrInvalidMagic
      else
        let version = u16_le (take 2 (drop 4 data)) in
        if version \<noteq> Version1 \<and> version \<noteq> Version2 then Inl ErrInvalidVersion
        else
          let size = u32_le (take 4 (drop 12 data)) in
          if uint size < HeaderSize \<or> int (length data) < uint size then Inl ErrBufferTooSmall
          else
            let rootOff = uint (u32_le (take 4 (drop 8 data)))
            in Inr (take (unat size) data, rootOff))"

definition ParseHeader :: "bytes \<Rightarrow> zap_error + (bytes \<times> int)" where
  "ParseHeader data = parseHeaderImpl data"

definition WrapBuffer :: "bytes \<Rightarrow> Message" where
  "WrapBuffer data = \<lparr>msg_data = data, msg_refs = None\<rparr>"

definition Message_Version :: "Message \<Rightarrow> u16 option" where
  "Message_Version m = get_u16 (msg_data m) 4"

definition Message_Flags :: "Message \<Rightarrow> u16 option" where
  "Message_Flags m = get_u16 (msg_data m) 6"

definition Message_Size :: "Message \<Rightarrow> int" where
  "Message_Size m = int (length (msg_data m))"

definition Message_Bytes :: "Message \<Rightarrow> bytes" where
  "Message_Bytes m = msg_data m"

section \<open>Object views\<close>

record Object =
  o_msg :: "Message option"
  o_offset :: int

definition null_object :: Object where
  "null_object = \<lparr>o_msg = None, o_offset = 0\<rparr>"

definition RootObjectAt :: "Message \<Rightarrow> int \<Rightarrow> Object" where
  "RootObjectAt m off = \<lparr>o_msg = Some m, o_offset = off\<rparr>"

definition Message_Root :: "Message \<Rightarrow> Object option" where
  "Message_Root m = do {
     off \<leftarrow> get_u32 (msg_data m) 8;
     Some \<lparr>o_msg = Some m, o_offset = uint off\<rparr> }"

definition Object_IsNull :: "Object \<Rightarrow> bool" where
  "Object_IsNull o1 \<longleftrightarrow> o_offset o1 = 0"

definition Object_Uint8 :: "Object \<Rightarrow> int \<Rightarrow> u8 option" where
  "Object_Uint8 o1 fieldOffset = do {
     m \<leftarrow> o_msg o1;
     let pos = o_offset o1 + fieldOffset;
     if int (length (msg_data m)) \<le> pos then Some 0 else index_at (msg_data m) pos }"

definition Object_Bool :: "Object \<Rightarrow> int \<Rightarrow> bool option" where
  "Object_Bool o1 fieldOffset = map_option (\<lambda>v. v \<noteq> 0) (Object_Uint8 o1 fieldOffset)"

definition Object_Uint16 :: "Object \<Rightarrow> int \<Rightarrow> u16 option" where
  "Object_Uint16 o1 fieldOffset = do {
     m \<leftarrow> o_msg o1;
     let pos = o_offset o1 + fieldOffset;
     if int (length (msg_data m)) < pos + 2 then Some 0 else get_u16 (msg_data m) pos }"

definition Object_Uint32 :: "Object \<Rightarrow> int \<Rightarrow> u32 option" where
  "Object_Uint32 o1 fieldOffset = do {
     m \<leftarrow> o_msg o1;
     let pos = o_offset o1 + fieldOffset;
     if int (length (msg_data m)) < pos + 4 then Some 0 else get_u32 (msg_data m) pos }"

definition Object_Uint64 :: "Object \<Rightarrow> int \<Rightarrow> u64 option" where
  "Object_Uint64 o1 fieldOffset = do {
     m \<leftarrow> o_msg o1;
     let pos = o_offset o1 + fieldOffset;
     if int (length (msg_data m)) < pos + 8 then Some 0 else get_u64 (msg_data m) pos }"

text \<open>The signed readers reinterpret the unsigned word as two's complement.\<close>

definition Object_Int8 :: "Object \<Rightarrow> int \<Rightarrow> int option" where
  "Object_Int8 o1 fieldOffset = map_option sint (Object_Uint8 o1 fieldOffset)"

definition Object_Int16 :: "Object \<Rightarrow> int \<Rightarrow> int option" where
  "Object_Int16 o1 fieldOffset = map_option sint (Object_Uint16 o1 fieldOffset)"

definition Object_Int32 :: "Object \<Rightarrow> int \<Rightarrow> int option" where
  "Object_Int32 o1 fieldOffset = map_option sint (Object_Uint32 o1 fieldOffset)"

definition Object_Int64 :: "Object \<Rightarrow> int \<Rightarrow> int option" where
  "Object_Int64 o1 fieldOffset = map_option sint (Object_Uint64 o1 fieldOffset)"

text \<open>A float is its IEEE 754 bit pattern; \<open>math.Float32frombits\<close> reinterprets the bits.\<close>

datatype float32 = Float32frombits (Float32bits: u32)
datatype float64 = Float64frombits (Float64bits: u64)

definition Object_Float32 :: "Object \<Rightarrow> int \<Rightarrow> float32 option" where
  "Object_Float32 o1 fieldOffset = map_option Float32frombits (Object_Uint32 o1 fieldOffset)"

definition Object_Float64 :: "Object \<Rightarrow> int \<Rightarrow> float64 option" where
  "Object_Float64 o1 fieldOffset = map_option Float64frombits (Object_Uint64 o1 fieldOffset)"

definition Object_BytesFixedSlice :: "Object \<Rightarrow> int \<Rightarrow> int \<Rightarrow> bytes option option" where
  "Object_BytesFixedSlice o1 fieldOffset n =
     (if n \<le> 0 then Some None
      else do {
        m \<leftarrow> o_msg o1;
        let pos = o_offset o1 + fieldOffset;
        if int (length (msg_data m)) < pos + n then Some None
        else map_option Some (slice_at (msg_data m) pos (pos + n)) })"

definition Object_Bytes :: "Object \<Rightarrow> int \<Rightarrow> bytes option option" where
  "Object_Bytes o1 fieldOffset = do {
     m \<leftarrow> o_msg o1;
     let d = msg_data m;
     let pos = o_offset o1 + fieldOffset;
     if int (length d) < pos + 4 then Some None
     else do {
       relOffset \<leftarrow> get_u32 d pos;
       if relOffset = 0 then Some None
       else
         let lenPos = pos + 4 in
         if int (length d) < lenPos + 4 then Some None
         else do {
           length1 \<leftarrow> get_u32 d lenPos;
           let absPos = pos + uint relOffset;
           if absPos < HeaderSize then Some None
           else if int (length d) < absPos + uint length1 then Some None
           else map_option Some (slice_at d absPos (absPos + uint length1)) } } }"

definition Object_Text :: "Object \<Rightarrow> int \<Rightarrow> bytes option" where
  "Object_Text o1 fieldOffset = do {
     b \<leftarrow> Object_Bytes o1 fieldOffset;
     case b of None \<Rightarrow> Some [] | Some xs \<Rightarrow> Some xs }"

definition Object_Object :: "Object \<Rightarrow> int \<Rightarrow> Object option" where
  "Object_Object o1 fieldOffset = do {
     m \<leftarrow> o_msg o1;
     let d = msg_data m;
     let pos = o_offset o1 + fieldOffset;
     if int (length d) < pos + 4 then Some null_object
     else do {
       rel \<leftarrow> get_u32 d pos;
       let relOffset = sint rel;
       if relOffset = 0 then Some null_object
       else
         let absOffset = pos + relOffset in
         if absOffset < HeaderSize \<or> int (length d) \<le> absOffset then Some null_object
         else Some \<lparr>o_msg = o_msg o1, o_offset = absOffset\<rparr> } }"

section \<open>List views\<close>

record List =
  l_msg :: "Message option"
  l_offset :: int
  l_length :: int

definition null_list :: List where
  "null_list = \<lparr>l_msg = None, l_offset = 0, l_length = 0\<rparr>"

definition Object_List :: "Object \<Rightarrow> int \<Rightarrow> List option" where
  "Object_List o1 fieldOffset = do {
     m \<leftarrow> o_msg o1;
     let d = msg_data m;
     let pos = o_offset o1 + fieldOffset;
     if int (length d) < pos + 8 then Some null_list
     else do {
       rel \<leftarrow> get_u32 d pos;
       let relOffset = sint rel;
       if relOffset = 0 then Some null_list
       else do {
         length1 \<leftarrow> get_u32 d (pos + 4);
         if int (length d) < uint length1 then Some null_list
         else
           let absOffset = pos + relOffset in
           if absOffset < HeaderSize \<or> int (length d) \<le> absOffset then Some null_list
           else Some \<lparr>l_msg = o_msg o1, l_offset = absOffset, l_length = uint length1\<rparr> } } }"

definition Object_ListStride :: "Object \<Rightarrow> int \<Rightarrow> u32 \<Rightarrow> List option" where
  "Object_ListStride o1 fieldOffset minStride = do {
     m \<leftarrow> o_msg o1;
     let d = msg_data m;
     let pos = o_offset o1 + fieldOffset;
     if int (length d) < pos + 8 then Some null_list
     else do {
       rel \<leftarrow> get_u32 d pos;
       let relOffset = sint rel;
       if relOffset = 0 then Some null_list
       else do {
         length1 \<leftarrow> get_u32 d (pos + 4);
         let absOffset = pos + relOffset;
         if absOffset < HeaderSize \<or> int (length d) \<le> absOffset then Some null_list
         else
           let bufRem = (word_of_int (int (length d) - absOffset) :: u64) in
           if minStride > 0 then
             (if (ucast length1 :: u64) * ucast minStride > bufRem then Some null_list
              else Some \<lparr>l_msg = o_msg o1, l_offset = absOffset, l_length = uint length1\<rparr>)
           else if (ucast length1 :: u64) > word_of_int (int (length d)) then Some null_list
           else Some \<lparr>l_msg = o_msg o1, l_offset = absOffset, l_length = uint length1\<rparr> } } }"

definition List_Len :: "List \<Rightarrow> int" where
  "List_Len l = l_length l"

definition List_IsNull :: "List \<Rightarrow> bool" where
  "List_IsNull l \<longleftrightarrow> l_msg l = None"

definition List_Uint8 :: "List \<Rightarrow> int \<Rightarrow> u8 option" where
  "List_Uint8 l i =
     (if i < 0 \<or> l_length l \<le> i then Some 0
      else do {
        m \<leftarrow> l_msg l;
        let pos = l_offset l + i;
        if int (length (msg_data m)) \<le> pos then Some 0 else index_at (msg_data m) pos })"

definition List_Uint32 :: "List \<Rightarrow> int \<Rightarrow> u32 option" where
  "List_Uint32 l i =
     (if i < 0 \<or> l_length l \<le> i then Some 0
      else do {
        m \<leftarrow> l_msg l;
        let pos = l_offset l + i * 4;
        if int (length (msg_data m)) < pos + 4 then Some 0 else get_u32 (msg_data m) pos })"

definition List_Uint64 :: "List \<Rightarrow> int \<Rightarrow> u64 option" where
  "List_Uint64 l i =
     (if i < 0 \<or> l_length l \<le> i then Some 0
      else do {
        m \<leftarrow> l_msg l;
        let pos = l_offset l + i * 8;
        if int (length (msg_data m)) < pos + 8 then Some 0 else get_u64 (msg_data m) pos })"

definition List_Object :: "List \<Rightarrow> int \<Rightarrow> int \<Rightarrow> Object" where
  "List_Object l i elemSize =
     (if i < 0 \<or> l_length l \<le> i then null_object
      else \<lparr>o_msg = l_msg l, o_offset = l_offset l + i * elemSize\<rparr>)"

definition List_ObjectPtr :: "List \<Rightarrow> int \<Rightarrow> Object option" where
  "List_ObjectPtr l i =
     (if i < 0 \<or> l_length l \<le> i then Some null_object
      else do {
        m \<leftarrow> l_msg l;
        let d = msg_data m;
        let pos = l_offset l + i * 4;
        if int (length d) < pos + 4 then Some null_object
        else do {
          rel1 \<leftarrow> get_u32 d pos;
          let rel = sint rel1;
          if rel = 0 then Some null_object
          else
            let absOffset = pos + rel in
            if absOffset < HeaderSize \<or> int (length d) \<le> absOffset then Some null_object
            else Some \<lparr>o_msg = l_msg l, o_offset = absOffset\<rparr> } })"

definition List_Bytes :: "List \<Rightarrow> bytes option option" where
  "List_Bytes l =
     (case l_msg l of
        None \<Rightarrow> Some None
      | Some m \<Rightarrow>
          if int (length (msg_data m)) < l_offset l + l_length l then Some None
          else map_option Some (slice_at (msg_data m) (l_offset l) (l_offset l + l_length l)))"


section \<open>Parsing\<close>

lemmas header_defs = HeaderSize_def Magic_def Version1_def Version2_def Alignment_def

lemma length_Magic [simp]: "length Magic = 4"
  by (simp add: Magic_def)

definition valid_header :: "bytes \<Rightarrow> bool" where
  "valid_header d \<longleftrightarrow>
     16 \<le> length d \<and> take 4 d = Magic \<and>
     u16_le (take 2 (drop 4 d)) \<in> {1, 2} \<and>
     16 \<le> unat (u32_le (take 4 (drop 12 d))) \<and>
     unat (u32_le (take 4 (drop 12 d))) \<le> length d"

lemma Parse_eq_Inr_iff:
  "Parse d = Inr m \<longleftrightarrow>
     valid_header d \<and> m = \<lparr>msg_data = take (unat (u32_le (take 4 (drop 12 d)))) d, msg_refs = None\<rparr>"
proof -
  have i: "uint w < 16 \<longleftrightarrow> unat w < 16" "int n < uint w \<longleftrightarrow> n < unat w" for w :: u32 and n
    unfolding uint_int_unat by arith+
  show ?thesis
    by (auto simp: Parse_def valid_header_def header_defs Let_def i not_less)
qed

lemma Parse_msg_length:
  assumes "Parse d = Inr m"
  shows "16 \<le> length (msg_data m)" "length (msg_data m) < 2 ^ 32" "length (msg_data m) \<le> length d"
proof -
  have "unat (u32_le (take 4 (drop 12 d))) < 2 ^ 32"
    using unat_bounds(3) [of "u32_le (take 4 (drop 12 d))"] by simp
  with assms show "16 \<le> length (msg_data m)" "length (msg_data m) < 2 ^ 32"
    "length (msg_data m) \<le> length d"
    by (auto simp: Parse_eq_Inr_iff valid_header_def)
qed

lemma Message_Root_parsed:
  assumes "Parse d = Inr m"
  shows "\<exists>w. Message_Root m = Some \<lparr>o_msg = Some m, o_offset = uint (w :: u32)\<rparr>"
  using Parse_msg_length(1) [OF assms] get_in_range(2) [of 8 "msg_data m"]
  by (auto simp: Message_Root_def)

section \<open>Views into one message\<close>

text \<open>
  The views a reader can form from a message: the root, and whatever the pointer, list
  and element accessors return without a null. Offsets are arbitrary, subject to Go's
  convention that a field offset, a stride and an index are not negative.
\<close>

inductive obj_view :: "Message \<Rightarrow> Object \<Rightarrow> bool"
  and list_view :: "Message \<Rightarrow> List \<Rightarrow> bool"
where
  root: "Message_Root m = Some o1 \<Longrightarrow> obj_view m o1"
| nested: "obj_view m o1 \<Longrightarrow> 0 \<le> fo \<Longrightarrow> Object_Object o1 fo = Some o2 \<Longrightarrow> \<not> Object_IsNull o2 \<Longrightarrow>
    obj_view m o2"
| elem: "list_view m l \<Longrightarrow> 0 \<le> i \<Longrightarrow> i < List_Len l \<Longrightarrow> 0 \<le> es \<Longrightarrow> obj_view m (List_Object l i es)"
| elem_ptr: "list_view m l \<Longrightarrow> List_ObjectPtr l i = Some o1 \<Longrightarrow> \<not> Object_IsNull o1 \<Longrightarrow> obj_view m o1"
| list: "obj_view m o1 \<Longrightarrow> 0 \<le> fo \<Longrightarrow> Object_List o1 fo = Some l \<Longrightarrow> \<not> List_IsNull l \<Longrightarrow> list_view m l"
| list_stride: "obj_view m o1 \<Longrightarrow> 0 \<le> fo \<Longrightarrow> Object_ListStride o1 fo st = Some l \<Longrightarrow>
    \<not> List_IsNull l \<Longrightarrow> list_view m l"

definition obj_ok :: "Message \<Rightarrow> Object \<Rightarrow> bool" where
  "obj_ok m o1 \<longleftrightarrow> o_msg o1 = Some m \<and> 0 \<le> o_offset o1"

definition list_ok :: "Message \<Rightarrow> List \<Rightarrow> bool" where
  "list_ok m l \<longleftrightarrow> l_msg l = Some m \<and> HeaderSize \<le> l_offset l \<and>
     l_offset l < int (length (msg_data m)) \<and> 0 \<le> l_length l"

lemma Object_Object_ok:
  assumes "obj_ok m o1" and "Object_Object o1 fo = Some o2" and "\<not> Object_IsNull o2"
  shows "o_msg o2 = Some m \<and> HeaderSize \<le> o_offset o2 \<and> o_offset o2 < int (length (msg_data m))"
  using assms
  by (auto simp: Object_Object_def obj_ok_def Object_IsNull_def null_object_def Let_def
      split: if_splits Option.bind_splits)

lemma List_ObjectPtr_ok:
  assumes "list_ok m l" and "List_ObjectPtr l i = Some o1" and "\<not> Object_IsNull o1"
  shows "o_msg o1 = Some m \<and> HeaderSize \<le> o_offset o1 \<and> o_offset o1 < int (length (msg_data m))"
  using assms
  by (auto simp: List_ObjectPtr_def list_ok_def Object_IsNull_def null_object_def Let_def
      split: if_splits Option.bind_splits)

lemma Object_List_ok:
  assumes "obj_ok m o1" and "Object_List o1 fo = Some l" and "\<not> List_IsNull l"
  shows "list_ok m l" "l_length l \<le> int (length (msg_data m))"
  using assms
  by (auto simp: Object_List_def obj_ok_def list_ok_def List_IsNull_def null_list_def Let_def
      split: if_splits Option.bind_splits)

lemma Object_ListStride_ok:
  assumes "obj_ok m o1" and "Object_ListStride o1 fo st = Some l" and "\<not> List_IsNull l"
  shows "list_ok m l"
  using assms
  by (auto simp: Object_ListStride_def obj_ok_def list_ok_def List_IsNull_def null_list_def Let_def
      split: if_splits Option.bind_splits)

lemma views_ok:
  "obj_view m o1 \<Longrightarrow> obj_ok m o1"
  "list_view m l \<Longrightarrow> list_ok m l"
proof (induction rule: obj_view_list_view.inducts)
  case (root m o1)
  then show ?case by (auto simp: Message_Root_def obj_ok_def split: Option.bind_splits)
next
  case (nested m o1 fo o2)
  then show ?case using Object_Object_ok [of m o1 fo o2] by (simp add: obj_ok_def HeaderSize_def)
next
  case (elem m l i es)
  then show ?case by (auto simp: list_ok_def List_Object_def List_Len_def obj_ok_def HeaderSize_def)
next
  case (elem_ptr m l i o1)
  then show ?case using List_ObjectPtr_ok [of m l i o1] by (simp add: obj_ok_def HeaderSize_def)
next
  case (list m o1 fo l)
  then show ?case using Object_List_ok by blast
next
  case (list_stride m o1 fo st l)
  then show ?case using Object_ListStride_ok by blast
qed

text \<open>On a view that is in range, no accessor panics, whatever the bytes are.\<close>

lemma get_total:
  "0 \<le> i \<Longrightarrow> \<not> int (length d) < i + 2 \<Longrightarrow> get_u16 d i \<noteq> None"
  "0 \<le> i \<Longrightarrow> \<not> int (length d) < i + 4 \<Longrightarrow> get_u32 d i \<noteq> None"
  "0 \<le> i \<Longrightarrow> \<not> int (length d) < i + 8 \<Longrightarrow> get_u64 d i \<noteq> None"
  "0 \<le> i \<Longrightarrow> \<not> int (length d) \<le> i \<Longrightarrow> index_at d i \<noteq> None"
  "0 \<le> i \<Longrightarrow> i \<le> j \<Longrightarrow> \<not> int (length d) < j \<Longrightarrow> slice_at d i j \<noteq> None"
  by (simp_all add: get_defs slice_at_def index_at_def)

lemma obj_scalar_total:
  assumes "obj_ok m o1" and "0 \<le> fo"
  shows "Object_Uint8 o1 fo \<noteq> None" "Object_Uint16 o1 fo \<noteq> None" "Object_Uint32 o1 fo \<noteq> None"
    "Object_Uint64 o1 fo \<noteq> None" "Object_BytesFixedSlice o1 fo n \<noteq> None"
  using assms get_total
  by (auto simp: obj_ok_def Object_Uint8_def Object_Uint16_def Object_Uint32_def Object_Uint64_def
      Object_BytesFixedSlice_def Let_def)

lemma obj_bytes_total:
  assumes "obj_ok m o1" and "0 \<le> fo"
  shows "Object_Bytes o1 fo \<noteq> None"
proof -
  let ?d = "msg_data m" and ?pos = "o_offset o1 + fo"
  have pos: "0 \<le> ?pos" using assms by (simp add: obj_ok_def)
  have m: "o_msg o1 = Some m" using assms by (simp add: obj_ok_def)
  show ?thesis
  proof (cases "int (length ?d) < ?pos + 4")
    case True
    then show ?thesis by (simp add: Object_Bytes_def m Let_def)
  next
    case False
    then obtain rel where rel: "get_u32 ?d ?pos = Some rel" using get_total(2) pos by blast
    show ?thesis
    proof (cases "int (length ?d) < ?pos + 4 + 4")
      case True
      with False rel show ?thesis by (simp add: Object_Bytes_def m Let_def)
    next
      case in8: False
      then obtain len where len: "get_u32 ?d (?pos + 4) = Some len"
        using get_total(2) [of "?pos + 4"] pos by auto
      have "slice_at ?d (?pos + uint rel) (?pos + uint rel + uint len) \<noteq> None"
        if "\<not> int (length ?d) < ?pos + uint rel + uint len"
        using that pos by (intro get_total(5)) simp_all
      with False in8 rel len show ?thesis by (simp add: Object_Bytes_def m Let_def)
    qed
  qed
qed

lemma obj_pointer_total:
  assumes "obj_ok m o1" and "0 \<le> fo"
  shows "Object_Object o1 fo \<noteq> None" "Object_List o1 fo \<noteq> None" "Object_ListStride o1 fo st \<noteq> None"
proof -
  let ?d = "msg_data m" and ?pos = "o_offset o1 + fo"
  have pos: "0 \<le> ?pos" and m: "o_msg o1 = Some m" using assms by (simp_all add: obj_ok_def)
  show "Object_Object o1 fo \<noteq> None"
    using get_total(2) [of ?pos ?d] pos by (auto simp: Object_Object_def m Let_def)
  show "Object_List o1 fo \<noteq> None" "Object_ListStride o1 fo st \<noteq> None"
    using get_total(2) [of ?pos ?d] get_total(2) [of "?pos + 4" ?d] pos
    by (auto simp: Object_List_def Object_ListStride_def m Let_def)
qed

lemma list_total:
  assumes "list_ok m l"
  shows "List_Uint8 l i \<noteq> None" "List_Uint32 l i \<noteq> None" "List_Uint64 l i \<noteq> None"
    "List_ObjectPtr l i \<noteq> None" "List_Bytes l \<noteq> None"
  using assms get_total(4) [of "l_offset l + i" "msg_data m"]
    get_total(2) [of "l_offset l + i * 4" "msg_data m"]
    get_total(3) [of "l_offset l + i * 8" "msg_data m"]
    get_total(5) [of "l_offset l" "l_offset l + l_length l" "msg_data m"]
  by (auto simp: list_ok_def HeaderSize_def List_Uint8_def List_Uint32_def List_Uint64_def
      List_ObjectPtr_def List_Bytes_def Let_def)

lemma Object_Text_total: "Object_Bytes o1 fo \<noteq> None \<Longrightarrow> Object_Text o1 fo \<noteq> None"
  by (auto simp: Object_Text_def split: option.splits)

lemmas view_total = obj_scalar_total obj_bytes_total obj_pointer_total list_total

section \<open>Bounds of the pointer accessors\<close>

lemma Object_Bytes_SomeD:
  assumes "o_msg o1 = Some m" and "Object_Bytes o1 fo = Some (Some xs)"
  shows "\<exists>p. HeaderSize \<le> p \<and> p + int (length xs) \<le> int (length (msg_data m)) \<and>
           o_offset o1 + fo < p \<and> slice_at (msg_data m) p (p + int (length xs)) = Some xs"
proof -
  let ?d = "msg_data m" and ?pos = "o_offset o1 + fo"
  obtain rel len where rel: "rel \<noteq> (0 :: u32)"
    and p: "HeaderSize \<le> ?pos + uint rel" "?pos + uint rel + uint (len :: u32) \<le> int (length ?d)"
    and xs: "slice_at ?d (?pos + uint rel) (?pos + uint rel + uint len) = Some xs"
    using assms by (auto simp: Object_Bytes_def Let_def not_less split: if_splits Option.bind_splits)
  have "int (length xs) = uint len" using slice_length [OF xs] by simp
  moreover have "0 < uint rel" using rel by (simp add: word_neq_0_conv word_less_def)
  ultimately show ?thesis using p xs by (intro exI [of _ "?pos + uint rel"]) simp
qed

text \<open>The 64-bit product of two 32-bit operands in \<open>ListStride\<close> cannot wrap.\<close>

lemma stride_product_exact:
  fixes n s :: u32
  assumes "0 \<le> r" and "r < 2 ^ 63"
  shows "(word_of_int r :: u64) < ucast n * ucast s \<longleftrightarrow> r < uint n * uint s"
proof -
  have b: "uint n < 2 ^ 32" "uint s < 2 ^ 32"
    using unsigned_less [of n, where 'a = int] unsigned_less [of s, where 'a = int] by simp_all
  then have "uint n * uint s \<le> (2 ^ 32 - 1) * (2 ^ 32 - 1)" by (intro mult_mono) simp_all
  with b have "uint ((ucast n :: u64) * ucast s) = uint n * uint s"
    by (simp add: uint_word_ariths unsigned_ucast_eq take_bit_eq_mod)
  moreover have "uint (word_of_int r :: u64) = r"
    using assms by (simp add: uint_word_of_int)
  ultimately show ?thesis by (simp add: word_less_def)
qed

lemma Object_ListStride_bound:
  assumes ok: "o_msg o1 = Some m" and len: "length (msg_data m) < 2 ^ 63"
    and st: "0 < st" and l: "Object_ListStride o1 fo st = Some l" "\<not> List_IsNull l"
  shows "l_offset l + l_length l * uint st \<le> int (length (msg_data m))"
    "HeaderSize \<le> l_offset l" "0 \<le> l_length l"
proof -
  obtain p n where l_eq: "l = \<lparr>l_msg = Some m, l_offset = p, l_length = uint (n :: u32)\<rparr>"
    and p: "HeaderSize \<le> p" "p < int (length (msg_data m))"
    and le: "\<not> (word_of_int (int (length (msg_data m)) - p) :: u64) < ucast n * ucast st"
    using ok st l by (auto simp: Object_ListStride_def List_IsNull_def null_list_def Let_def
        split: if_splits Option.bind_splits)
  have "0 \<le> int (length (msg_data m)) - p" "int (length (msg_data m)) - p < 2 ^ 63"
    using p len by (simp_all add: HeaderSize_def)
  with le have "uint n * uint st \<le> int (length (msg_data m)) - p"
    using stride_product_exact [of "int (length (msg_data m)) - p" n st] by linarith
  then show "l_offset l + l_length l * uint st \<le> int (length (msg_data m))"
    "HeaderSize \<le> l_offset l" "0 \<le> l_length l"
    using p by (simp_all add: l_eq)
qed

section \<open>Properties\<close>

text \<open>A well-formed frame: root at 16, whose field 0 points at the two bytes at 24.\<close>

definition sample_frame :: bytes where
  "sample_frame =
     [0x5A, 0x41, 0x50, 0, 2, 0, 0, 1, 16, 0, 0, 0, 32, 0, 0, 0,
      8, 0, 0, 0, 2, 0, 0, 0, 0xAA, 0xBB, 0, 0, 0, 0, 0, 0]"

definition sample_message :: Message where
  "sample_message = \<lparr>msg_data = sample_frame, msg_refs = None\<rparr>"

definition sample_root :: Object where
  "sample_root = \<lparr>o_msg = Some sample_message, o_offset = 16\<rparr>"

lemma sample_facts:
  "Parse sample_frame = Inr sample_message"
  "Message_Root sample_message = Some sample_root"
  "Object_Bytes sample_root 0 = Some (Some [0xAA, 0xBB])"
  "Object_List sample_root 0 = Some \<lparr>l_msg = Some sample_message, l_offset = 24, l_length = 2\<rparr>"
  by code_simp+

lemma sample_view: "obj_view sample_message sample_root"
  by (rule obj_view_list_view.root) (rule sample_facts)



text \<open>The same for list views: for every index, negative or past the end included, the
  element accessors of a list reached from a parsed message return.
\<close>

lemma list_reads_never_panic:
  assumes "Parse d = Inr m" and "list_view m l"
  shows "List_Uint8 l i \<noteq> None \<and> List_Uint32 l i \<noteq> None \<and> List_Uint64 l i \<noteq> None \<and>
    List_ObjectPtr l i \<noteq> None \<and> List_Bytes l \<noteq> None"
  using list_total [OF views_ok(2) [OF assms(2)]] by simp



text \<open>\<open>ParseHeader\<close> is \<open>Parse\<close> without the allocation: it fails with the same error on the
  same inputs, and otherwise returns the message bytes and the offset of \<open>Root\<close>.
\<close>

lemma parse_header_agrees:
  "ParseHeader d =
     (case Parse d of
        Inl e \<Rightarrow> Inl e
      | Inr m \<Rightarrow> Inr (Message_Bytes m, o_offset (the (Message_Root m))))"
proof (cases "Parse d")
  case (Inl e)
  then show ?thesis
    by (auto simp: ParseHeader_def parseHeaderImpl_def Parse_def Let_def split: if_splits)
next
  case (Inr m)
  then have h: "valid_header d" and m: "msg_data m = take (unat (u32_le (take 4 (drop 12 d)))) d"
    by (auto simp: Parse_eq_Inr_iff)
  have "get_u32 (msg_data m) 8 = Some (u32_le (take 4 (drop 8 d)))"
    using h by (auto simp: get_u32_def slice_at_def m valid_header_def drop_take min_def)
  with Inr m show ?thesis
    by (auto simp: ParseHeader_def parseHeaderImpl_def Parse_def Let_def Message_Root_def
        Message_Bytes_def split: if_splits)
qed

text \<open>A list accepted with a stride fits: under \<open>ListStride\<close> with a positive stride every
  element of the list lies inside the message, so the accepted length is at most what the
  rest of the buffer can hold; with stride 0 it accepts exactly what \<open>List\<close> accepts.
\<close>

lemma list_stride_sound:
  assumes "Parse d = Inr m" and "obj_view m o1"
  shows "(\<forall>l i. 0 < st \<and> Object_ListStride o1 fo st = Some l \<and> \<not> List_IsNull l \<and>
             0 \<le> i \<and> i < List_Len l \<longrightarrow>
             HeaderSize \<le> o_offset (List_Object l i (uint st)) \<and>
             o_offset (List_Object l i (uint st)) + uint st \<le> Message_Size m) \<and>
         Object_ListStride o1 fo 0 = Object_List o1 fo"
proof (intro conjI allI impI)
  have msg: "o_msg o1 = Some m" using views_ok(1) [OF assms(2)] by (simp add: obj_ok_def)
  have len: "length (msg_data m) < 2 ^ 63" using Parse_msg_length(2) [OF assms(1)] by simp
  fix l i assume l: "0 < st \<and> Object_ListStride o1 fo st = Some l \<and> \<not> List_IsNull l \<and>
    0 \<le> i \<and> i < List_Len l"
  note b = Object_ListStride_bound [OF msg len, of st fo l]
  have st: "0 \<le> uint st" by simp
  have "(i + 1) * uint st \<le> l_length l * uint st"
    using l st by (intro mult_right_mono) (simp_all add: List_Len_def)
  with b l show "o_offset (List_Object l i (uint st)) + uint st \<le> Message_Size m"
    by (simp add: List_Object_def List_Len_def Message_Size_def algebra_simps)
  have "0 \<le> i * uint st" using l st by simp
  moreover have "HeaderSize \<le> l_offset l" using b l by simp
  moreover have "o_offset (List_Object l i (uint st)) = l_offset l + i * uint st"
    using l by (simp add: List_Object_def List_Len_def)
  ultimately show "HeaderSize \<le> o_offset (List_Object l i (uint st))" by linarith
next
  have msg: "o_msg o1 = Some m" using views_ok(1) [OF assms(2)] by (simp add: obj_ok_def)
  have len: "int (length (msg_data m)) < 2 ^ 63" using Parse_msg_length(2) [OF assms(1)] by simp
  have cmp: "(word_of_nat (length (msg_data m)) :: u64) < ucast n \<longleftrightarrow>
      int (length (msg_data m)) < uint n" for n :: u32
    using stride_product_exact [OF _ len, of n 1] by simp
  show "Object_ListStride o1 fo 0 = Object_List o1 fo"
    by (auto simp: Object_ListStride_def Object_List_def msg Let_def cmp intro!: bind_option_cong)
qed

end
