(* ===== verification/Zap_Builder.thy ===== *)
theory Zap_Builder
  imports Zap_Wire
begin

text \<open>
  The message builder of \<open>src/builder.go\<close>. The Go methods mutate the \<open>Builder\<close> they are
  attached to; here every operation takes the builder and returns the new one, and an
  \<open>ObjectBuilder\<close> or \<open>ListBuilder\<close> carries only its own fields. \<^term>\<open>None\<close> is a panic.

  The correctness argument goes through an abstraction, the \<^emph>\<open>live prefix\<close>: the bytes of
  the backing array before the write cursor. Every operation is an append to the live prefix
  or an overwrite inside it, whatever the capacity and the old content of the array are.
\<close>

section \<open>Builder\<close>

record Builder =
  b_buf :: bytes
  b_pos :: int
  b_rootOffset :: int

definition newBuilder :: "int \<Rightarrow> u16 \<Rightarrow> Builder" where
  "newBuilder capacity version =
     (let cap = (if capacity < HeaderSize then 256 else capacity);
          buf = replicate (nat cap) 0
      in \<lparr>b_buf = Magic @ le16 version @ drop 6 buf, b_pos = HeaderSize, b_rootOffset = 0\<rparr>)"

definition NewBuilder :: "int \<Rightarrow> Builder" where
  "NewBuilder capacity = newBuilder capacity Version2"

definition NewBuilderV1 :: "int \<Rightarrow> Builder" where
  "NewBuilderV1 capacity = newBuilder capacity Version1"

definition Builder_Reset :: "Builder \<Rightarrow> Builder" where
  "Builder_Reset b = b\<lparr>b_pos := HeaderSize, b_rootOffset := 0\<rparr>"

definition grow :: "Builder \<Rightarrow> int \<Rightarrow> Builder option" where
  "grow b n =
     (if b_pos b + n \<le> int (length (b_buf b)) then Some b
      else do {
        let newCap0 = int (length (b_buf b)) * 2;
        let newCap = (if newCap0 < b_pos b + n then b_pos b + n else newCap0);
        let newBuf = replicate (nat newCap) 0;
        old \<leftarrow> slice_at (b_buf b) 0 (b_pos b);
        newBuf' \<leftarrow> copy_at newBuf 0 old;
        Some (b\<lparr>b_buf := newBuf'\<rparr>) })"

text \<open>The zero-filling loops of \<open>align\<close> and \<open>ensureField\<close>: \<open>n\<close> stores from index \<open>i\<close> on.\<close>

fun zero_fill :: "nat \<Rightarrow> int \<Rightarrow> bytes \<Rightarrow> bytes option" where
  "zero_fill 0 i buf = Some buf"
| "zero_fill (Suc n) i buf = do { buf' \<leftarrow> put_at buf i [0]; zero_fill n (i + 1) buf' }"

definition align :: "Builder \<Rightarrow> int \<Rightarrow> Builder option" where
  "align b alignment = do {
     let padding = (alignment - (b_pos b mod alignment)) mod alignment;
     b1 \<leftarrow> grow b padding;
     buf \<leftarrow> zero_fill (nat padding) (b_pos b1) (b_buf b1);
     Some (b1\<lparr>b_buf := buf, b_pos := b_pos b1 + padding\<rparr>) }"

definition Builder_Finish :: "Builder \<Rightarrow> (Builder \<times> bytes) option" where
  "Builder_Finish b = do {
     buf1 \<leftarrow> put_at (b_buf b) 8 (le32 (word_of_int (b_rootOffset b)));
     buf2 \<leftarrow> put_at buf1 12 (le32 (word_of_int (b_pos b)));
     out \<leftarrow> slice_at buf2 0 (b_pos b);
     Some (b\<lparr>b_buf := buf2\<rparr>, out) }"

definition FinishWithFlags :: "Builder \<Rightarrow> u16 \<Rightarrow> (Builder \<times> bytes) option" where
  "FinishWithFlags b flags = do {
     buf \<leftarrow> put_at (b_buf b) 6 (le16 flags);
     Builder_Finish (b\<lparr>b_buf := buf\<rparr>) }"

section \<open>Objects\<close>

record ObjectBuilder =
  ob_startPos :: int
  ob_dataSize :: int

definition ensureField :: "Builder \<Rightarrow> ObjectBuilder \<Rightarrow> int \<Rightarrow> Builder option" where
  "ensureField b ob endOffset =
     (let needed = ob_startPos ob + endOffset in
      if b_pos b < needed then do {
        b1 \<leftarrow> grow b (needed - b_pos b);
        buf \<leftarrow> zero_fill (nat (needed - b_pos b1)) (b_pos b1) (b_buf b1);
        Some (b1\<lparr>b_buf := buf, b_pos := needed\<rparr>) }
      else Some b)"

definition StartObject :: "Builder \<Rightarrow> int \<Rightarrow> (Builder \<times> ObjectBuilder) option" where
  "StartObject b dataSize = do {
     b1 \<leftarrow> align b Alignment;
     let ob = \<lparr>ob_startPos = b_pos b1, ob_dataSize = dataSize\<rparr>;
     b2 \<leftarrow> ensureField b1 ob dataSize;
     Some (b2, ob) }"

definition store :: "Builder \<Rightarrow> int \<Rightarrow> bytes \<Rightarrow> Builder option" where
  "store b i bs = map_option (\<lambda>buf. b\<lparr>b_buf := buf\<rparr>) (put_at (b_buf b) i bs)"

definition SetUint8 :: "Builder \<Rightarrow> ObjectBuilder \<Rightarrow> int \<Rightarrow> u8 \<Rightarrow> Builder option" where
  "SetUint8 b ob fieldOffset v = do {
     b1 \<leftarrow> ensureField b ob (fieldOffset + 1);
     store b1 (ob_startPos ob + fieldOffset) [v] }"

definition SetBool :: "Builder \<Rightarrow> ObjectBuilder \<Rightarrow> int \<Rightarrow> bool \<Rightarrow> Builder option" where
  "SetBool b ob fieldOffset v =
     (if v then SetUint8 b ob fieldOffset 1 else SetUint8 b ob fieldOffset 0)"

definition SetUint16 :: "Builder \<Rightarrow> ObjectBuilder \<Rightarrow> int \<Rightarrow> u16 \<Rightarrow> Builder option" where
  "SetUint16 b ob fieldOffset v = do {
     b1 \<leftarrow> ensureField b ob (fieldOffset + 2);
     store b1 (ob_startPos ob + fieldOffset) (le16 v) }"

definition SetUint32 :: "Builder \<Rightarrow> ObjectBuilder \<Rightarrow> int \<Rightarrow> u32 \<Rightarrow> Builder option" where
  "SetUint32 b ob fieldOffset v = do {
     b1 \<leftarrow> ensureField b ob (fieldOffset + 4);
     store b1 (ob_startPos ob + fieldOffset) (le32 v) }"

definition SetUint64 :: "Builder \<Rightarrow> ObjectBuilder \<Rightarrow> int \<Rightarrow> u64 \<Rightarrow> Builder option" where
  "SetUint64 b ob fieldOffset v = do {
     b1 \<leftarrow> ensureField b ob (fieldOffset + 8);
     store b1 (ob_startPos ob + fieldOffset) (le64 v) }"

definition SetInt8 :: "Builder \<Rightarrow> ObjectBuilder \<Rightarrow> int \<Rightarrow> int \<Rightarrow> Builder option" where
  "SetInt8 b ob fieldOffset v = SetUint8 b ob fieldOffset (word_of_int v)"

definition SetInt16 :: "Builder \<Rightarrow> ObjectBuilder \<Rightarrow> int \<Rightarrow> int \<Rightarrow> Builder option" where
  "SetInt16 b ob fieldOffset v = SetUint16 b ob fieldOffset (word_of_int v)"

definition SetInt32 :: "Builder \<Rightarrow> ObjectBuilder \<Rightarrow> int \<Rightarrow> int \<Rightarrow> Builder option" where
  "SetInt32 b ob fieldOffset v = SetUint32 b ob fieldOffset (word_of_int v)"

definition SetInt64 :: "Builder \<Rightarrow> ObjectBuilder \<Rightarrow> int \<Rightarrow> int \<Rightarrow> Builder option" where
  "SetInt64 b ob fieldOffset v = SetUint64 b ob fieldOffset (word_of_int v)"

definition SetFloat32 :: "Builder \<Rightarrow> ObjectBuilder \<Rightarrow> int \<Rightarrow> float32 \<Rightarrow> Builder option" where
  "SetFloat32 b ob fieldOffset v = SetUint32 b ob fieldOffset (Float32bits v)"

definition SetFloat64 :: "Builder \<Rightarrow> ObjectBuilder \<Rightarrow> int \<Rightarrow> float64 \<Rightarrow> Builder option" where
  "SetFloat64 b ob fieldOffset v = SetUint64 b ob fieldOffset (Float64bits v)"

definition SetBytesFixed :: "Builder \<Rightarrow> ObjectBuilder \<Rightarrow> int \<Rightarrow> bytes \<Rightarrow> Builder option" where
  "SetBytesFixed b ob fieldOffset v =
     (if v = [] then Some b
      else do {
        b1 \<leftarrow> ensureField b ob (fieldOffset + int (length v));
        buf \<leftarrow> copy_at (b_buf b1) (ob_startPos ob + fieldOffset) v;
        Some (b1\<lparr>b_buf := buf\<rparr>) })"

text \<open>\<open>grow(n)\<close>, a store at the cursor and the cursor's advance: the body of every append.\<close>

definition append_raw :: "Builder \<Rightarrow> bytes \<Rightarrow> Builder option" where
  "append_raw b v = do {
     b1 \<leftarrow> grow b (int (length v));
     b2 \<leftarrow> store b1 (b_pos b1) v;
     Some (b2\<lparr>b_pos := b_pos b2 + int (length v)\<rparr>) }"

definition SetBytes :: "Builder \<Rightarrow> ObjectBuilder \<Rightarrow> int \<Rightarrow> bytes \<Rightarrow> Builder option" where
  "SetBytes b ob fieldOffset v =
     (if v = [] then do {
        b1 \<leftarrow> store b (ob_startPos ob + fieldOffset) (le32 0);
        store b1 (ob_startPos ob + fieldOffset + 4) (le32 0) }
      else do {
        let dataPos = b_pos b;
        b1 \<leftarrow> append_raw b v;
        let fieldAbsPos = ob_startPos ob + fieldOffset;
        b2 \<leftarrow> store b1 fieldAbsPos (le32 (word_of_int (dataPos - fieldAbsPos)));
        store b2 (fieldAbsPos + 4) (le32 (word_of_int (int (length v)))) })"

definition SetText :: "Builder \<Rightarrow> ObjectBuilder \<Rightarrow> int \<Rightarrow> bytes \<Rightarrow> Builder option" where
  "SetText b ob fieldOffset v = SetBytes b ob fieldOffset v"

definition SetObject :: "Builder \<Rightarrow> ObjectBuilder \<Rightarrow> int \<Rightarrow> int \<Rightarrow> Builder option" where
  "SetObject b ob fieldOffset objOffset = do {
     b1 \<leftarrow> ensureField b ob (fieldOffset + 4);
     if objOffset = 0 then store b1 (ob_startPos ob + fieldOffset) (le32 0)
     else
       let relOffset = objOffset - (ob_startPos ob + fieldOffset)
       in store b1 (ob_startPos ob + fieldOffset) (le32 (word_of_int relOffset)) }"

definition SetList :: "Builder \<Rightarrow> ObjectBuilder \<Rightarrow> int \<Rightarrow> int \<Rightarrow> int \<Rightarrow> Builder option" where
  "SetList b ob fieldOffset listOffset length1 = do {
     b1 \<leftarrow> ensureField b ob (fieldOffset + 8);
     if listOffset = 0 \<or> length1 = 0 then do {
       b2 \<leftarrow> store b1 (ob_startPos ob + fieldOffset) (le32 0);
       store b2 (ob_startPos ob + fieldOffset + 4) (le32 0) }
     else do {
       let relOffset = listOffset - (ob_startPos ob + fieldOffset);
       b2 \<leftarrow> store b1 (ob_startPos ob + fieldOffset) (le32 (word_of_int relOffset));
       store b2 (ob_startPos ob + fieldOffset + 4) (le32 (word_of_int length1)) } }"

definition ReserveFixed :: "Builder \<Rightarrow> ObjectBuilder \<Rightarrow> int \<Rightarrow> Builder option" where
  "ReserveFixed b ob dataSize = ensureField b ob dataSize"

definition ObjectBuilder_Finish :: "ObjectBuilder \<Rightarrow> int" where
  "ObjectBuilder_Finish ob = ob_startPos ob"

definition FinishAsRoot :: "Builder \<Rightarrow> ObjectBuilder \<Rightarrow> Builder \<times> int" where
  "FinishAsRoot b ob =
     (let offset = ObjectBuilder_Finish ob in (b\<lparr>b_rootOffset := offset\<rparr>, offset))"

section \<open>Raw bytes and lists\<close>

definition WriteBytes :: "Builder \<Rightarrow> bytes \<Rightarrow> (Builder \<times> int) option" where
  "WriteBytes b data =
     (if data = [] then Some (b, 0)
      else do {
        b1 \<leftarrow> align b Alignment;
        let offset = b_pos b1;
        b2 \<leftarrow> append_raw b1 data;
        Some (b2, offset) })"

definition WriteText :: "Builder \<Rightarrow> bytes \<Rightarrow> (Builder \<times> int) option" where
  "WriteText b s = WriteBytes b s"

record ListBuilder =
  lb_startPos :: int
  lb_count :: int

definition StartList :: "Builder \<Rightarrow> int \<Rightarrow> (Builder \<times> ListBuilder) option" where
  "StartList b elemSize = do {
     b1 \<leftarrow> align b Alignment;
     Some (b1, \<lparr>lb_startPos = b_pos b1, lb_count = 0\<rparr>) }"

definition AddUint8 :: "Builder \<Rightarrow> ListBuilder \<Rightarrow> u8 \<Rightarrow> (Builder \<times> ListBuilder) option" where
  "AddUint8 b lb v = do {
     b1 \<leftarrow> append_raw b [v];
     Some (b1, lb\<lparr>lb_count := lb_count lb + 1\<rparr>) }"

definition AddUint32 :: "Builder \<Rightarrow> ListBuilder \<Rightarrow> u32 \<Rightarrow> (Builder \<times> ListBuilder) option" where
  "AddUint32 b lb v = do {
     b1 \<leftarrow> append_raw b (le32 v);
     Some (b1, lb\<lparr>lb_count := lb_count lb + 1\<rparr>) }"

definition AddUint64 :: "Builder \<Rightarrow> ListBuilder \<Rightarrow> u64 \<Rightarrow> (Builder \<times> ListBuilder) option" where
  "AddUint64 b lb v = do {
     b1 \<leftarrow> append_raw b (le64 v);
     Some (b1, lb\<lparr>lb_count := lb_count lb + 1\<rparr>) }"

definition AddBytes :: "Builder \<Rightarrow> ListBuilder \<Rightarrow> bytes \<Rightarrow> (Builder \<times> ListBuilder) option" where
  "AddBytes b lb data = do {
     b1 \<leftarrow> append_raw b data;
     Some (b1, lb\<lparr>lb_count := lb_count lb + int (length data)\<rparr>) }"

definition AddObjectPtr :: "Builder \<Rightarrow> ListBuilder \<Rightarrow> int \<Rightarrow> (Builder \<times> ListBuilder) option" where
  "AddObjectPtr b lb targetPos = do {
     b1 \<leftarrow> append_raw b
       (if targetPos = 0 then le32 0 else le32 (word_of_int (targetPos - b_pos b)));
     Some (b1, lb\<lparr>lb_count := lb_count lb + 1\<rparr>) }"

definition ListBuilder_Finish :: "ListBuilder \<Rightarrow> int \<times> int" where
  "ListBuilder_Finish lb = (lb_startPos lb, lb_count lb)"

section \<open>Builder pool\<close>

text \<open>
  \<open>sync.Pool.Get\<close> returns some pooled builder or, when the pool has none to give, a fresh
  one; which of the two is the pool's choice, given here as an argument.
\<close>

definition GetBuilder :: "Builder option \<Rightarrow> Builder" where
  "GetBuilder pooled = Builder_Reset (case pooled of Some b \<Rightarrow> b | None \<Rightarrow> NewBuilder 512)"

definition PutBuilder :: "Builder list \<Rightarrow> Builder \<Rightarrow> Builder list" where
  "PutBuilder pool b = b # pool"


section \<open>The live prefix\<close>

definition bwf :: "Builder \<Rightarrow> bool" where
  "bwf b \<longleftrightarrow> 0 \<le> b_pos b \<and> b_pos b \<le> int (length (b_buf b))"

definition live :: "Builder \<Rightarrow> bytes" where
  "live b = take (nat (b_pos b)) (b_buf b)"

text \<open>An operation returns, and turns the live prefix of \<open>b\<close> into \<open>xs\<close>.\<close>

definition becomes :: "Builder option \<Rightarrow> Builder \<Rightarrow> bytes \<Rightarrow> bool" where
  "becomes r b xs \<longleftrightarrow>
     (\<exists>b'. r = Some b' \<and> bwf b' \<and> b_rootOffset b' = b_rootOffset b \<and> live b' = xs)"

definition lput :: "bytes \<Rightarrow> int \<Rightarrow> bytes \<Rightarrow> bytes" where
  "lput xs i bs = take (nat i) xs @ bs @ drop (nat i + length bs) xs"

lemma becomesI [intro?]:
  "r = Some b' \<Longrightarrow> bwf b' \<Longrightarrow> b_rootOffset b' = b_rootOffset b \<Longrightarrow> live b' = xs \<Longrightarrow> becomes r b xs"
  by (auto simp: becomes_def)

lemma pos_eq_live: "bwf b \<Longrightarrow> b_pos b = int (length (live b))"
  by (auto simp: bwf_def live_def min_def)

lemma length_lput [simp]:
  "0 \<le> i \<Longrightarrow> i + int (length bs) \<le> int (length xs) \<Longrightarrow> length (lput xs i bs) = length xs"
  by (auto simp: lput_def min_def)

lemma lput_put_at:
  "0 \<le> i \<Longrightarrow> i + int (length bs) \<le> int (length xs) \<Longrightarrow> put_at xs i bs = Some (lput xs i bs)"
  by (simp add: lput_def put_at_def)

lemma lput_append_left:
  assumes "0 \<le> i" and "i + int (length bs) \<le> int (length xs)"
  shows "lput (xs @ ys) i bs = lput xs i bs @ ys"
proof -
  have "nat i + length bs \<le> length xs" using assms by linarith
  then show ?thesis by (simp add: lput_def)
qed

lemma lput_lput_adjacent:
  assumes "0 \<le> i" and "j = i + int (length u)" and "j + int (length v) \<le> int (length xs)"
  shows "lput (lput xs i u) j v = lput xs i (u @ v)"
proof -
  have j: "nat j = nat i + length u" "nat i + length u + length v \<le> length xs"
    using assms by linarith+
  then have i: "nat i \<le> length xs" by simp
  have "take (nat j) (lput xs i u) = take (nat i) xs @ u" using i j(1) by (simp add: lput_def min_absorb2)
  moreover have "drop (nat j + length v) (lput xs i u) = drop (nat i + length u + length v) xs"
    using i j by (simp add: lput_def min_absorb2 add.commute add.left_commute)
  ultimately show ?thesis by (simp add: lput_def [of "lput xs i u"] lput_def [of xs i "u @ v"] add.assoc)
qed

lemma slice_lput_same:
  "0 \<le> i \<Longrightarrow> i + int (length bs) \<le> int (length xs) \<Longrightarrow>
   slice_at (lput xs i bs) i (i + int (length bs)) = Some bs"
  by (rule put_slice_same [OF lput_put_at])

lemma slice_lput_other:
  "0 \<le> i \<Longrightarrow> i + int (length bs) \<le> int (length xs) \<Longrightarrow> hi \<le> i \<or> i + int (length bs) \<le> lo \<Longrightarrow>
   slice_at (lput xs i bs) lo hi = slice_at xs lo hi"
  by (rule put_slice_other [OF lput_put_at])

lemma grow_live:
  assumes "bwf b" and "0 \<le> n"
  shows "\<exists>b'. grow b n = Some b' \<and> b_pos b' = b_pos b \<and> b_rootOffset b' = b_rootOffset b \<and>
           live b' = live b \<and> b_pos b + n \<le> int (length (b_buf b'))"
proof (cases "b_pos b + n \<le> int (length (b_buf b))")
  case True
  then show ?thesis by (simp add: grow_def)
next
  case False
  define c where "c = (if int (length (b_buf b)) * 2 < b_pos b + n then b_pos b + n
    else int (length (b_buf b)) * 2)"
  have c: "b_pos b + n \<le> c" "b_pos b \<le> c" using assms(2) by (simp_all add: c_def)
  have old: "slice_at (b_buf b) 0 (b_pos b) = Some (live b)" and len: "length (live b) = nat (b_pos b)"
    using assms(1) by (auto simp: slice_at_def bwf_def live_def min_def)
  have "copy_at (replicate (nat c) 0) 0 (live b) =
      Some (live b @ replicate (nat c - nat (b_pos b)) 0)"
    using c len assms(1) by (simp add: copy_at_def put_at_def bwf_def)
  with False old have g: "grow b n = Some (b\<lparr>b_buf := live b @ replicate (nat c - nat (b_pos b)) 0\<rparr>)"
    by (simp add: grow_def Let_def c_def)
  have "b_pos b + n \<le> int (length (live b @ replicate (nat c - nat (b_pos b)) (0 :: byte)))"
    using c len assms by (simp add: bwf_def)
  with g len show ?thesis by (simp add: live_def)
qed

lemma store_live:
  assumes "bwf b" and "0 \<le> i" and "i + int (length bs) \<le> b_pos b"
  shows "becomes (store b i bs) b (lput (live b) i bs)"
proof -
  have len: "i + int (length bs) \<le> int (length (b_buf b))" using assms by (simp add: bwf_def)
  have "b_buf b = live b @ drop (nat (b_pos b)) (b_buf b)" by (simp add: live_def)
  then have "lput (b_buf b) i bs = lput (live b) i bs @ drop (nat (b_pos b)) (b_buf b)"
    using assms pos_eq_live [OF assms(1)] by (metis lput_append_left)
  moreover have "length (lput (live b) i bs) = nat (b_pos b)"
    using assms pos_eq_live [OF assms(1)] by simp
  ultimately have "take (nat (b_pos b)) (lput (b_buf b) i bs) = lput (live b) i bs" by simp
  then show ?thesis
    using assms len lput_put_at [OF assms(2) len]
    by (intro becomesI [of _ "b\<lparr>b_buf := lput (b_buf b) i bs\<rparr>"])
      (simp_all add: store_def bwf_def live_def)
qed

lemma take_lput_at:
  assumes "0 \<le> p" and "take (nat p) buf = L" and "p + int (length v) \<le> int (length buf)"
  shows "take (nat (p + int (length v))) (lput buf p v) = L @ v"
proof -
  have "length L = nat p" using assms by auto
  with assms show ?thesis by (simp add: lput_def nat_add_distrib)
qed

lemma append_live:
  assumes "bwf b"
  shows "becomes (append_raw b v) b (live b @ v)"
proof -
  obtain b1 where g: "grow b (int (length v)) = Some b1" and b1: "b_pos b1 = b_pos b"
    "b_rootOffset b1 = b_rootOffset b" "live b1 = live b"
    "b_pos b + int (length v) \<le> int (length (b_buf b1))"
    using grow_live [OF assms, of "int (length v)"] by auto
  have pos: "0 \<le> b_pos b" using assms by (simp add: bwf_def)
  have p: "put_at (b_buf b1) (b_pos b) v = Some (lput (b_buf b1) (b_pos b) v)"
    using pos b1 by (intro lput_put_at) simp_all
  have "take (nat (b_pos b + int (length v))) (lput (b_buf b1) (b_pos b) v) = live b @ v"
    using pos b1 by (intro take_lput_at) (simp_all add: live_def)
  then show ?thesis
    using pos b1 p
    by (intro becomesI [of _ "b1\<lparr>b_buf := lput (b_buf b1) (b_pos b) v, b_pos := b_pos b + int (length v)\<rparr>"])
      (simp_all add: append_raw_def store_def g bwf_def live_def)
qed

lemma zero_fill_eq:
  "0 \<le> i \<Longrightarrow> i + int n \<le> int (length buf) \<Longrightarrow> zero_fill n i buf = Some (lput buf i (replicate n 0))"
proof (induction n arbitrary: i buf)
  case 0
  then show ?case by (simp add: lput_def)
next
  case (Suc n)
  have "put_at buf i [0] = Some (lput buf i [0])" using Suc.prems by (intro lput_put_at) simp_all
  moreover have "zero_fill n (i + 1) (lput buf i [0]) =
      Some (lput (lput buf i [0]) (i + 1) (replicate n 0))"
    using Suc.prems by (intro Suc.IH) simp_all
  moreover have "lput (lput buf i [0]) (i + 1) (replicate n 0) = lput buf i ([0] @ replicate n 0)"
    using Suc.prems by (intro lput_lput_adjacent) simp_all
  ultimately show ?case by simp
qed

lemma zero_run_live:
  assumes "bwf b" and "0 \<le> n"
  shows "becomes (do {
           b1 \<leftarrow> grow b n;
           buf \<leftarrow> zero_fill (nat n) (b_pos b1) (b_buf b1);
           Some (b1\<lparr>b_buf := buf, b_pos := b_pos b1 + n\<rparr>) }) b (live b @ replicate (nat n) 0)"
proof -
  obtain b1 where g: "grow b n = Some b1" and b1: "b_pos b1 = b_pos b"
    "b_rootOffset b1 = b_rootOffset b" "live b1 = live b" "b_pos b + n \<le> int (length (b_buf b1))"
    using grow_live [OF assms] by auto
  have pos: "0 \<le> b_pos b" using assms by (simp add: bwf_def)
  have z: "zero_fill (nat n) (b_pos b) (b_buf b1) = Some (lput (b_buf b1) (b_pos b) (replicate (nat n) 0))"
    using pos assms b1 by (intro zero_fill_eq) simp_all
  have "take (nat (b_pos b + n)) (lput (b_buf b1) (b_pos b) (replicate (nat n) 0)) =
      live b @ replicate (nat n) 0"
    using take_lput_at [of "b_pos b" "b_buf b1" "live b" "replicate (nat n) 0"] pos b1 assms
    by (simp add: live_def)
  then show ?thesis
    using pos b1 z assms
    by (intro becomesI [of _ "b1\<lparr>b_buf := lput (b_buf b1) (b_pos b) (replicate (nat n) 0), b_pos := b_pos b + n\<rparr>"])
      (simp_all add: g bwf_def live_def)
qed

lemma ensureField_live:
  assumes "bwf b"
  shows "becomes (ensureField b ob e) b (live b @ replicate (nat (ob_startPos ob + e - b_pos b)) 0)"
proof (cases "b_pos b < ob_startPos ob + e")
  case True
  then obtain b1 where g: "grow b (ob_startPos ob + e - b_pos b) = Some b1" and b1: "b_pos b1 = b_pos b"
    using grow_live [OF assms, of "ob_startPos ob + e - b_pos b"] by auto
  have "ensureField b ob e = do {
      b1 \<leftarrow> grow b (ob_startPos ob + e - b_pos b);
      buf \<leftarrow> zero_fill (nat (ob_startPos ob + e - b_pos b)) (b_pos b1) (b_buf b1);
      Some (b1\<lparr>b_buf := buf, b_pos := b_pos b1 + (ob_startPos ob + e - b_pos b)\<rparr>) }"
    using True by (simp add: ensureField_def Let_def g b1)
  then show ?thesis using zero_run_live [OF assms, of "ob_startPos ob + e - b_pos b"] True by simp
next
  case False
  then show ?thesis using assms by (simp add: ensureField_def Let_def becomes_def)
qed

lemma align_live:
  assumes "bwf b" and "0 < a"
  shows "becomes (align b a) b (live b @ replicate (nat ((a - b_pos b mod a) mod a)) 0)"
  using zero_run_live [OF assms(1), of "(a - b_pos b mod a) mod a"] assms(2)
  by (simp add: align_def Let_def)

lemma align_dvd: "0 < a \<Longrightarrow> a dvd p + (a - p mod a) mod a" for p a :: int
  by (simp add: dvd_eq_mod_eq_0 mod_add_right_eq minus_mod_eq_mult_div)

section \<open>Field programs\<close>

text \<open>
  The calls a client makes on one object between \<open>StartObject\<close> and \<open>Finish\<close>, as data, so
  that a statement can range over every sequence of them.
\<close>

datatype field_op =
    OpUint8 int u8
  | OpUint16 int u16
  | OpUint32 int u32
  | OpUint64 int u64
  | OpBytesFixed int bytes
  | OpBytes int bytes
  | OpObject int int
  | OpList int int int

fun run_op :: "Builder \<Rightarrow> ObjectBuilder \<Rightarrow> field_op \<Rightarrow> Builder option" where
  "run_op b ob (OpUint8 fo v) = SetUint8 b ob fo v"
| "run_op b ob (OpUint16 fo v) = SetUint16 b ob fo v"
| "run_op b ob (OpUint32 fo v) = SetUint32 b ob fo v"
| "run_op b ob (OpUint64 fo v) = SetUint64 b ob fo v"
| "run_op b ob (OpBytesFixed fo v) = SetBytesFixed b ob fo v"
| "run_op b ob (OpBytes fo v) = SetBytes b ob fo v"
| "run_op b ob (OpObject fo p) = SetObject b ob fo p"
| "run_op b ob (OpList fo p n) = SetList b ob fo p n"

fun run_ops :: "Builder \<Rightarrow> ObjectBuilder \<Rightarrow> field_op list \<Rightarrow> Builder option" where
  "run_ops b ob [] = Some b"
| "run_ops b ob (op # ops) = do { b' \<leftarrow> run_op b ob op; run_ops b' ob ops }"

definition build_root :: "Builder \<Rightarrow> int \<Rightarrow> field_op list \<Rightarrow> (Builder \<times> bytes) option" where
  "build_root b dataSize ops = do {
     (b1, ob) \<leftarrow> StartObject b dataSize;
     b2 \<leftarrow> run_ops b1 ob ops;
     Builder_Finish (fst (FinishAsRoot b2 ob)) }"

fun op_off :: "field_op \<Rightarrow> int" where
  "op_off (OpUint8 fo v) = fo"
| "op_off (OpUint16 fo v) = fo"
| "op_off (OpUint32 fo v) = fo"
| "op_off (OpUint64 fo v) = fo"
| "op_off (OpBytesFixed fo v) = fo"
| "op_off (OpBytes fo v) = fo"
| "op_off (OpObject fo p) = fo"
| "op_off (OpList fo p n) = fo"

text \<open>The bytes a call leaves in its slot of the fixed section, given the slot's absolute
  position and the cursor before the call.\<close>

fun op_cell :: "int \<Rightarrow> int \<Rightarrow> field_op \<Rightarrow> bytes" where
  "op_cell slot cur (OpUint8 fo v) = [v]"
| "op_cell slot cur (OpUint16 fo v) = le16 v"
| "op_cell slot cur (OpUint32 fo v) = le32 v"
| "op_cell slot cur (OpUint64 fo v) = le64 v"
| "op_cell slot cur (OpBytesFixed fo v) = v"
| "op_cell slot cur (OpBytes fo v) =
     (if v = [] then le32 0 @ le32 0
      else le32 (word_of_int (cur - slot)) @ le32 (word_of_int (int (length v))))"
| "op_cell slot cur (OpObject fo p) = (if p = 0 then le32 0 else le32 (word_of_int (p - slot)))"
| "op_cell slot cur (OpList fo p n) =
     (if p = 0 \<or> n = 0 then le32 0 @ le32 0
      else le32 (word_of_int (p - slot)) @ le32 (word_of_int n))"

fun op_tail :: "field_op \<Rightarrow> bytes" where
  "op_tail (OpBytes fo v) = v"
| "op_tail _ = []"

definition op_width :: "field_op \<Rightarrow> int" where
  "op_width op = int (length (op_cell 0 0 op))"

lemma op_width_nonneg: "0 \<le> op_width op"
  by (simp add: op_width_def)

lemma length_op_cell [simp]: "int (length (op_cell slot cur op)) = op_width op"
  by (cases op) (simp_all add: op_width_def)

definition op_in :: "int \<Rightarrow> field_op \<Rightarrow> bool" where
  "op_in dataSize op \<longleftrightarrow> 0 \<le> op_off op \<and> op_off op + op_width op \<le> dataSize"

definition ops_disjoint :: "field_op \<Rightarrow> field_op \<Rightarrow> bool" where
  "ops_disjoint a b \<longleftrightarrow>
     op_off a + op_width a \<le> op_off b \<or> op_off b + op_width b \<le> op_off a"

text \<open>What one call does to the live prefix, and what a sequence does.\<close>

definition a_op :: "int \<Rightarrow> field_op \<Rightarrow> bytes \<Rightarrow> bytes" where
  "a_op start op xs =
     lput (xs @ op_tail op) (start + op_off op)
       (op_cell (start + op_off op) (int (length xs)) op)"

fun a_ops :: "int \<Rightarrow> field_op list \<Rightarrow> bytes \<Rightarrow> bytes" where
  "a_ops start [] xs = xs"
| "a_ops start (op # ops) xs = a_ops start ops (a_op start op xs)"

lemma length_a_op:
  assumes "0 \<le> start" "op_in sz op" "start + sz \<le> int (length xs)"
  shows "length (a_op start op xs) = length xs + length (op_tail op)"
  using assms by (simp add: a_op_def op_in_def)

lemma ensure_store_live:
  assumes "bwf b" and "0 \<le> ob_startPos ob + fo" and "ob_startPos ob + fo + int (length bs) \<le> b_pos b"
  shows "becomes (do { b1 \<leftarrow> ensureField b ob (fo + int (length bs));
                       store b1 (ob_startPos ob + fo) bs })
           b (lput (live b) (ob_startPos ob + fo) bs)"
proof -
  have "ensureField b ob (fo + int (length bs)) = Some b"
    using assms(3) by (simp add: ensureField_def add.assoc)
  then show ?thesis using store_live [OF assms] by simp
qed

lemma store_store_live:
  assumes "bwf b" and "0 \<le> i" and "i + int (length u) + int (length v) \<le> b_pos b"
    and j: "j = i + int (length u)"
  shows "becomes (do { b1 \<leftarrow> store b i u; store b1 j v }) b (lput (live b) i (u @ v))"
proof -
  obtain b1 where b1: "store b i u = Some b1" "bwf b1" "b_rootOffset b1 = b_rootOffset b"
    "live b1 = lput (live b) i u"
    using store_live [OF assms(1,2), of u] assms(3) by (auto simp: becomes_def)
  have len: "i + int (length u) + int (length v) \<le> int (length (live b))"
    using assms(3) pos_eq_live [OF assms(1)] by simp
  have "b_pos b1 = b_pos b"
    using pos_eq_live [OF b1(2)] pos_eq_live [OF assms(1)] len assms(2) by (simp add: b1(4))
  then obtain b2 where "store b1 j v = Some b2" "bwf b2" "b_rootOffset b2 = b_rootOffset b1"
    "live b2 = lput (live b1) j v"
    using store_live [OF b1(2), of j v] assms(2,3) j by (auto simp: becomes_def)
  moreover have "lput (lput (live b) i u) j v = lput (live b) i (u @ v)"
    using assms(2) len j by (intro lput_lput_adjacent) simp_all
  ultimately show ?thesis using b1 by (auto simp: becomes_def)
qed

lemma run_op_live:
  assumes wf: "bwf b" and start: "0 \<le> ob_startPos ob" and "in": "op_in sz op"
    and res: "ob_startPos ob + sz \<le> b_pos b"
  shows "becomes (run_op b ob op) b (a_op (ob_startPos ob) op (live b))"
proof -
  let ?p = "ob_startPos ob + op_off op"
  have p: "0 \<le> ?p" "?p + op_width op \<le> b_pos b" using "in" res start by (simp_all add: op_in_def)
  have no_grow: "ensureField b ob e = Some b" if "e \<le> op_off op + op_width op" for e
    using p that by (simp add: ensureField_def)
  show ?thesis
  proof (cases op)
    case (OpBytes fo v)
    show ?thesis
    proof (cases "v = []")
      case True
      then show ?thesis
        using store_store_live [OF wf p(1), of "le32 0" "le32 0" "?p + 4"] p OpBytes
        by (simp add: SetBytes_def a_op_def op_width_def)
    next
      case False
      obtain b1 where b1: "append_raw b v = Some b1" "bwf b1" "b_rootOffset b1 = b_rootOffset b"
        "live b1 = live b @ v"
        using append_live [OF wf, of v] by (auto simp: becomes_def)
      have "b_pos b \<le> b_pos b1"
        using pos_eq_live [OF wf] pos_eq_live [OF b1(2)] by (simp add: b1(4))
      then have "becomes (do {
            b2 \<leftarrow> store b1 ?p (le32 (word_of_int (b_pos b - ?p)));
            store b2 (?p + 4) (le32 (word_of_int (int (length v)))) }) b1
          (lput (live b1) ?p (le32 (word_of_int (b_pos b - ?p)) @ le32 (word_of_int (int (length v)))))"
        using p OpBytes False
        by (intro store_store_live b1(2)) (simp_all add: op_width_def)
      then show ?thesis
        using OpBytes False b1 pos_eq_live [OF wf]
        by (simp add: SetBytes_def Let_def a_op_def becomes_def)
    qed
  next
    case (OpObject fo q)
    then show ?thesis
      using ensure_store_live [OF wf, of ob fo "op_cell ?p (b_pos b) op"] p pos_eq_live [OF wf]
      by (auto simp: SetObject_def a_op_def op_width_def Let_def)
  next
    case (OpList fo q n)
    then show ?thesis
      using store_store_live [OF wf p(1), of "le32 0" "le32 0" "?p + 4"]
        store_store_live [OF wf p(1), of "le32 (word_of_int (q - ?p))" "le32 (word_of_int n)" "?p + 4"]
        p no_grow [of "fo + 8"]
      by (auto simp: SetList_def a_op_def op_width_def Let_def)
  next
    case (OpBytesFixed fo v)
    show ?thesis
    proof (cases "v = []")
      case True
      then show ?thesis using OpBytesFixed wf by (simp add: SetBytesFixed_def a_op_def lput_def becomes_def)
    next
      case False
      have len: "?p + int (length v) \<le> int (length (b_buf b))"
        using p OpBytesFixed wf by (simp add: op_width_def bwf_def)
      then have "copy_at (b_buf b) ?p v = put_at (b_buf b) ?p v"
        using p(1) by (simp add: copy_at_def)
      then have "SetBytesFixed b ob fo v = store b ?p v"
        using False no_grow [of "fo + int (length v)"] OpBytesFixed
        by (simp add: SetBytesFixed_def store_def op_width_def map_conv_bind_option o_def)
      then show ?thesis
        using store_live [OF wf p(1), of v] p OpBytesFixed by (simp add: a_op_def op_width_def)
    qed
  qed (use ensure_store_live [OF wf, of ob "op_off op" "op_cell ?p (b_pos b) op"] p pos_eq_live [OF wf]
       in \<open>simp_all add: SetUint8_def SetUint16_def SetUint32_def SetUint64_def a_op_def op_width_def\<close>)
qed

lemma run_ops_live:
  assumes "bwf b" and "0 \<le> ob_startPos ob" and "\<forall>op \<in> set ops. op_in sz op"
    and "ob_startPos ob + sz \<le> b_pos b"
  shows "becomes (run_ops b ob ops) b (a_ops (ob_startPos ob) ops (live b))"
  using assms
proof (induction ops arbitrary: b)
  case Nil
  then show ?case by (simp add: becomes_def)
next
  case (Cons op ops)
  then obtain b1 where b1: "run_op b ob op = Some b1" "bwf b1" "b_rootOffset b1 = b_rootOffset b"
    "live b1 = a_op (ob_startPos ob) op (live b)"
    using run_op_live [of b ob sz op] by (auto simp: becomes_def)
  have "length (live b) \<le> length (live b1)"
    using Cons.prems pos_eq_live [OF Cons.prems(1)] length_a_op [of "ob_startPos ob" sz op "live b"]
    by (simp add: b1(4))
  then have "b_pos b \<le> b_pos b1"
    using pos_eq_live [OF Cons.prems(1)] pos_eq_live [OF b1(2)] by simp
  then have "becomes (run_ops b1 ob ops) b1 (a_ops (ob_startPos ob) ops (live b1))"
    using Cons.prems b1 by (intro Cons.IH) simp_all
  then show ?case using b1 by (simp add: becomes_def)
qed

section \<open>Reading back what was built\<close>

text \<open>The slot of a call holds its cell, and its tail lies after the fixed section.\<close>

definition op_reads :: "int \<Rightarrow> int \<Rightarrow> field_op \<Rightarrow> bytes \<Rightarrow> bool" where
  "op_reads start sz op xs \<longleftrightarrow>
     (\<exists>cur. start + sz \<le> cur \<and>
        slice_at xs (start + op_off op) (start + op_off op + op_width op) =
          Some (op_cell (start + op_off op) cur op) \<and>
        slice_at xs cur (cur + int (length (op_tail op))) = Some (op_tail op))"

lemma slice_append_right:
  "p = int (length xs) \<Longrightarrow> slice_at (xs @ ys) p (p + int (length ys)) = Some ys"
  by (simp add: slice_at_def)

lemma a_op_reads:
  assumes "0 \<le> start" and "op_in sz op" and "start + sz \<le> int (length xs)"
  shows "op_reads start sz op (a_op start op xs)"
proof -
  let ?p = "start + op_off op" and ?ys = "xs @ op_tail op" and ?c = "op_cell (start + op_off op) (int (length xs)) op"
  have p: "0 \<le> ?p" "?p + int (length ?c) \<le> int (length xs)" using assms by (simp_all add: op_in_def)
  have "slice_at (a_op start op xs) ?p (?p + op_width op) = Some ?c"
    using slice_lput_same [of ?p ?c ?ys] p by (simp add: a_op_def)
  moreover have "slice_at (a_op start op xs) (int (length xs)) (int (length xs) + int (length (op_tail op))) =
      Some (op_tail op)"
    using slice_lput_other [of ?p ?c ?ys] slice_append_right p by (simp add: a_op_def)
  ultimately show ?thesis using assms unfolding op_reads_def by blast
qed

lemma a_op_preserves:
  assumes "0 \<le> start" and "op_in sz op" and "start + sz \<le> int (length xs)"
    and "op_in sz r" and "ops_disjoint r op" and r: "op_reads start sz r xs"
  shows "op_reads start sz r (a_op start op xs)"
proof -
  let ?p = "start + op_off op" and ?ys = "xs @ op_tail op" and ?c = "op_cell (start + op_off op) (int (length xs)) op"
  have p: "0 \<le> ?p" "?p + int (length ?c) \<le> int (length xs)" using assms by (simp_all add: op_in_def)
  obtain cur where cur: "start + sz \<le> cur"
    and slot: "slice_at xs (start + op_off r) (start + op_off r + op_width r) =
      Some (op_cell (start + op_off r) cur r)"
    and tail: "slice_at xs cur (cur + int (length (op_tail r))) = Some (op_tail r)"
    using r by (auto simp: op_reads_def)
  have keep: "slice_at (a_op start op xs) lo hi = slice_at xs lo hi"
    if "slice_at xs lo hi = Some ys" "hi \<le> ?p \<or> ?p + op_width op \<le> lo" for lo hi ys
  proof -
    have "hi \<le> int (length xs)" using that(1) by (auto simp: slice_at_def split: if_splits)
    then show ?thesis
      using that(2) p slice_lput_other [of ?p ?c ?ys hi lo]
      by (simp add: a_op_def slice_append_left)
  qed
  have "slice_at (a_op start op xs) (start + op_off r) (start + op_off r + op_width r) =
      Some (op_cell (start + op_off r) cur r)"
    using keep [OF slot] assms(5) by (auto simp: ops_disjoint_def slot)
  moreover have "slice_at (a_op start op xs) cur (cur + int (length (op_tail r))) = Some (op_tail r)"
    using keep [OF tail] assms(2) cur by (simp add: op_in_def tail)
  ultimately show ?thesis using cur unfolding op_reads_def by blast
qed

lemma a_ops_preserves:
  assumes "0 \<le> start" and "\<forall>op \<in> set ops. op_in sz op \<and> ops_disjoint r op"
    and "start + sz \<le> int (length xs)" and "op_in sz r" and "op_reads start sz r xs"
  shows "op_reads start sz r (a_ops start ops xs)"
  using assms
proof (induction ops arbitrary: xs)
  case Nil
  then show ?case by simp
next
  case (Cons op ops)
  have "op_reads start sz r (a_op start op xs)"
    using Cons.prems by (intro a_op_preserves) simp_all
  moreover have "start + sz \<le> int (length (a_op start op xs))"
    using Cons.prems length_a_op [of start sz op xs] by simp
  ultimately show ?case using Cons by simp
qed

lemma a_ops_reads:
  assumes "0 \<le> start" and "\<forall>op \<in> set ops. op_in sz op" and "sorted_wrt ops_disjoint ops"
    and "start + sz \<le> int (length xs)"
  shows "\<forall>op \<in> set ops. op_reads start sz op (a_ops start ops xs)"
  using assms
proof (induction ops arbitrary: xs)
  case Nil
  then show ?case by simp
next
  case (Cons op ops)
  have len: "start + sz \<le> int (length (a_op start op xs))"
    using Cons.prems length_a_op [of start sz op xs] by simp
  have "op_reads start sz op (a_ops start ops (a_op start op xs))"
    using Cons.prems len a_op_reads [of start sz op xs] by (intro a_ops_preserves) simp_all
  with Cons len show ?case by simp
qed

lemma a_ops_length:
  assumes "0 \<le> start" and "\<forall>op \<in> set ops. op_in sz op" and "start + sz \<le> int (length xs)"
  shows "length (a_ops start ops xs) = length xs + sum_list (map (length \<circ> op_tail) ops)"
  using assms
proof (induction ops arbitrary: xs)
  case Nil
  then show ?case by simp
next
  case (Cons op ops)
  have "length (a_op start op xs) = length xs + length (op_tail op)"
    using Cons.prems by (intro length_a_op) simp_all
  with Cons.IH [of "a_op start op xs"] Cons.prems show ?case by simp
qed

text \<open>No call touches anything before the object it belongs to.\<close>

lemma a_ops_take:
  assumes "0 \<le> start" and "\<forall>op \<in> set ops. op_in sz op" and "start + sz \<le> int (length xs)"
    and "int n \<le> start" and "0 \<le> sz"
  shows "take n (a_ops start ops xs) = take n xs"
  using assms
proof (induction ops arbitrary: xs)
  case Nil
  then show ?case by simp
next
  case (Cons op ops)
  have len: "length (a_op start op xs) = length xs + length (op_tail op)"
    using Cons.prems by (intro length_a_op) simp_all
  have "n \<le> nat (start + op_off op)" "n \<le> length xs"
    using Cons.prems by (auto simp: op_in_def)
  then have "take n (a_op start op xs) = take n xs" by (simp add: a_op_def lput_def min_def)
  with Cons len show ?case by simp
qed

lemma Builder_Finish_live:
  assumes "bwf b" and "16 \<le> b_pos b"
  shows "\<exists>b'. Builder_Finish b = Some (b', lput (live b) 8
           (le32 (word_of_int (b_rootOffset b)) @ le32 (word_of_int (b_pos b))))"
proof -
  have "becomes (do { b1 \<leftarrow> store b 8 (le32 (word_of_int (b_rootOffset b)));
      store b1 12 (le32 (word_of_int (b_pos b))) }) b
    (lput (live b) 8 (le32 (word_of_int (b_rootOffset b)) @ le32 (word_of_int (b_pos b))))"
    using assms by (intro store_store_live) simp_all
  then show ?thesis
    by (auto simp: Builder_Finish_def store_def becomes_def slice_at_def bwf_def live_def
        map_conv_bind_option split: Option.bind_splits)
qed

definition hdr_ok :: "bytes \<Rightarrow> bool" where
  "hdr_ok xs \<longleftrightarrow> take 4 xs = Magic \<and> u16_le (take 2 (drop 4 xs)) \<in> {Version1, Version2}"

definition builder_ready :: "Builder \<Rightarrow> bool" where
  "builder_ready b \<longleftrightarrow> bwf b \<and> HeaderSize \<le> b_pos b \<and> hdr_ok (live b)"

lemma newBuilder_ready:
  assumes "v = Version1 \<or> v = Version2"
  shows "builder_ready (newBuilder c v)"
proof -
  define n where "n = nat (if c < HeaderSize then 256 else c)"
  have n: "16 \<le> n" by (auto simp: n_def HeaderSize_def)
  have "live (newBuilder c v) = Magic @ le16 v @ replicate 10 0"
    using n by (auto simp: newBuilder_def live_def Let_def HeaderSize_def min_def)
  moreover have "length (b_buf (newBuilder c v)) = n"
    using n by (simp add: newBuilder_def Let_def flip: n_def)
  moreover have "b_pos (newBuilder c v) = 16"
    by (simp add: newBuilder_def HeaderSize_def Let_def)
  ultimately show ?thesis
    using n assms by (auto simp: builder_ready_def bwf_def hdr_ok_def HeaderSize_def)
qed

lemma Builder_Reset_ready: "builder_ready b \<Longrightarrow> builder_ready (Builder_Reset b)"
  by (auto simp: builder_ready_def Builder_Reset_def bwf_def hdr_ok_def live_def HeaderSize_def min_def
      drop_take split: if_splits)

definition pad8 :: "int \<Rightarrow> int" where
  "pad8 p = (8 - p mod 8) mod 8"

lemma pad8_bounds: "0 \<le> pad8 p" "pad8 p < 8"
  by (simp_all add: pad8_def)

lemma StartObject_live:
  assumes "bwf b" and "0 \<le> sz"
  shows "\<exists>b1 ob. StartObject b sz = Some (b1, ob) \<and> bwf b1 \<and> b_rootOffset b1 = b_rootOffset b \<and>
    ob_startPos ob = b_pos b + pad8 (b_pos b) \<and> ob_dataSize ob = sz \<and>
    live b1 = live b @ replicate (nat (pad8 (b_pos b) + sz)) 0"
proof -
  define pad where "pad = pad8 (b_pos b)"
  have pad: "0 \<le> pad" "pad < 8" by (simp_all add: pad_def pad8_bounds)
  obtain b1 where b1: "align b 8 = Some b1" "bwf b1" "b_rootOffset b1 = b_rootOffset b"
    "live b1 = live b @ replicate (nat pad) 0"
    using align_live [OF assms(1), of 8] by (auto simp: becomes_def pad_def pad8_def)
  have pos: "b_pos b1 = b_pos b + pad"
    using pos_eq_live [OF b1(2)] pos_eq_live [OF assms(1)] pad by (simp add: b1(4))
  let ?ob = "\<lparr>ob_startPos = b_pos b1, ob_dataSize = sz\<rparr>"
  obtain b2 where b2: "ensureField b1 ?ob sz = Some b2" "bwf b2" "b_rootOffset b2 = b_rootOffset b1"
    "live b2 = live b1 @ replicate (nat sz) 0"
    using ensureField_live [OF b1(2), of ?ob sz] by (auto simp: becomes_def)
  have "live b2 = live b @ replicate (nat (pad + sz)) 0"
    using b1(4) b2(4) pad assms(2) by (simp add: nat_add_distrib replicate_add)
  then show ?thesis
    using b1 b2 pos pad
    by (intro exI [of _ b2] exI [of _ ?ob]) (simp add: StartObject_def Alignment_def Let_def pad_def)
qed

fun field_reads :: "Object \<Rightarrow> field_op \<Rightarrow> bool" where
  "field_reads o1 (OpUint8 fo v) \<longleftrightarrow> Object_Uint8 o1 fo = Some v"
| "field_reads o1 (OpUint16 fo v) \<longleftrightarrow> Object_Uint16 o1 fo = Some v"
| "field_reads o1 (OpUint32 fo v) \<longleftrightarrow> Object_Uint32 o1 fo = Some v"
| "field_reads o1 (OpUint64 fo v) \<longleftrightarrow> Object_Uint64 o1 fo = Some v"
| "field_reads o1 (OpBytesFixed fo v) \<longleftrightarrow>
     Object_BytesFixedSlice o1 fo (int (length v)) = Some (if v = [] then None else Some v)"
| "field_reads o1 (OpBytes fo v) \<longleftrightarrow> Object_Bytes o1 fo = Some (if v = [] then None else Some v)"
| "field_reads o1 (OpObject fo p) \<longleftrightarrow>
     Object_Object o1 fo = Some (if p = 0 then null_object else o1\<lparr>o_offset := p\<rparr>)"
| "field_reads o1 (OpList fo p n) \<longleftrightarrow>
     Object_List o1 fo = Some (if p = 0 \<or> n = 0 then null_list
       else \<lparr>l_msg = o_msg o1, l_offset = p, l_length = n\<rparr>)"

text \<open>The offsets a client may pass to \<open>SetObject\<close> and \<open>SetList\<close>: 0, or a position written
  before the object was started; a list length is at most the size of what was written.\<close>

fun target_ok :: "int \<Rightarrow> field_op \<Rightarrow> bool" where
  "target_ok lim (OpObject fo p) \<longleftrightarrow> p = 0 \<or> HeaderSize \<le> p \<and> p < lim"
| "target_ok lim (OpList fo p n) \<longleftrightarrow> p = 0 \<or> n = 0 \<or> HeaderSize \<le> p \<and> p < lim \<and> 0 \<le> n \<and> n \<le> lim"
| "target_ok lim _ \<longleftrightarrow> True"

lemma get_u32_pair:
  assumes "slice_at d p (p + 8) = Some (le32 a @ le32 b)"
  shows "get_u32 d p = Some a" "get_u32 d (p + 4) = Some b"
proof -
  have "slice_at d p (p + 4) = Some (le32 a)" "slice_at d (p + 4) (p + 8) = Some (le32 b)"
    using slice_within [OF assms, of p "p + 4"] slice_within [OF assms, of "p + 4" "p + 8"]
    by (simp_all add: slice_at_def [of "le32 a @ le32 b"])
  then show "get_u32 d p = Some a" "get_u32 d (p + 4) = Some b"
    by (simp_all add: get_u32_def add.assoc)
qed

lemma word32_int:
  "0 \<le> x \<Longrightarrow> x < 2 ^ 32 \<Longrightarrow> uint (word_of_int x :: u32) = x"
  "- (2 ^ 31) \<le> x \<Longrightarrow> x < 2 ^ 31 \<Longrightarrow> sint (word_of_int x :: u32) = x"
  by (simp_all add: uint_word_of_int sint_sbintrunc' signed_take_bit_int_eq_self take_bit_int_eq_self)

lemma word32_ne_0: "0 < x \<Longrightarrow> x < 2 ^ 32 \<Longrightarrow> (word_of_int x :: u32) \<noteq> 0"
  using word32_int(1) [of x] by (metis less_irrefl order_less_imp_le uint_0_eq)

lemma op_reads_field:
  assumes o1: "o_msg o1 = Some m" "msg_data m = d" "o_offset o1 = start" and start: "HeaderSize \<le> start"
    and len: "int (length d) < 2 ^ 31" and r: "op_reads start sz op d" and "in": "op_in sz op"
    and tgt: "target_ok start op"
  shows "field_reads o1 op"
proof -
  let ?p = "start + op_off op"
  obtain cur where cur: "start + sz \<le> cur"
    and slot: "slice_at d ?p (?p + op_width op) = Some (op_cell ?p cur op)"
    and tail: "slice_at d cur (cur + int (length (op_tail op))) = Some (op_tail op)"
    using r by (auto simp: op_reads_def)
  have p: "0 \<le> ?p" "?p + op_width op \<le> int (length d)" "start \<le> ?p" "?p + op_width op \<le> cur"
    using slot "in" start cur by (auto simp: slice_at_def op_in_def HeaderSize_def split: if_splits)
  have c: "cur + int (length (op_tail op)) \<le> int (length d)"
    using tail by (auto simp: slice_at_def split: if_splits)
  note o_simps = o1 Let_def HeaderSize_def get_defs add.commute
  show ?thesis
  proof (cases op)
    case (OpUint8 fo v)
    then show ?thesis
      using slot p by (auto simp: o1 Object_Uint8_def Let_def index_at_def op_width_def slice_at_def
          take_Suc_conv_app_nth hd_drop_conv_nth take_Suc split: if_splits)
  next
    case (OpUint16 fo v)
    then show ?thesis using slot p by (simp add: o1 Object_Uint16_def Let_def op_width_def get_defs)
  next
    case (OpUint32 fo v)
    then show ?thesis using slot p by (simp add: o1 Object_Uint32_def Let_def op_width_def get_defs)
  next
    case (OpUint64 fo v)
    then show ?thesis using slot p by (simp add: o1 Object_Uint64_def Let_def op_width_def get_defs)
  next
    case (OpBytesFixed fo v)
    then show ?thesis
      using slot p by (auto simp: o1 Object_BytesFixedSlice_def Let_def op_width_def)
  next
    case (OpBytes fo v)
    show ?thesis
    proof (cases "v = []")
      case True
      then show ?thesis
        using OpBytes slot p get_u32_pair [of d ?p 0 0]
        by (simp add: o1 Object_Bytes_def Let_def op_width_def)
    next
      case False
      then have w8: "op_width op = 8" using OpBytes by (simp add: op_width_def)
      have rel: "0 < cur - ?p" "cur - ?p < 2 ^ 32" "int (length v) < 2 ^ 32"
        using p c len w8 OpBytes by simp_all
      have g: "get_u32 d ?p = Some (word_of_int (cur - ?p))"
        "get_u32 d (?p + 4) = Some (word_of_int (int (length v)))"
        using get_u32_pair [of d ?p] slot OpBytes False w8 by simp_all
      obtain w n where w: "get_u32 d ?p = Some w" "uint w = cur - ?p" "w \<noteq> 0"
        and n: "get_u32 d (?p + 4) = Some n" "uint n = int (length v)"
        using g rel word32_int(1) [of "cur - ?p"] word32_int(1) [of "int (length v)"]
          word32_ne_0 [OF rel(1,2)] by auto
      show ?thesis
        using OpBytes False w n p w8 c tail start
        by (simp add: o1 Object_Bytes_def Let_def HeaderSize_def)
    qed
  next
    case (OpObject fo q)
    show ?thesis
    proof (cases "q = 0")
      case True
      then show ?thesis
        using OpObject slot p by (simp add: o1 Object_Object_def Let_def op_width_def get_defs)
    next
      case False
      then have q: "HeaderSize \<le> q" "q < start" using tgt OpObject by simp_all
      have s: "sint (word_of_int (q - ?p) :: u32) = q - ?p"
        using q p len op_width_nonneg [of op] by (intro word32_int) (simp_all add: HeaderSize_def)
      have "get_u32 d ?p = Some (word_of_int (q - ?p))"
        using OpObject slot False by (simp add: op_width_def get_defs)
      then obtain w where w: "get_u32 d ?p = Some w" "sint w = q - ?p" using s by simp
      show ?thesis
        using OpObject w p False q
        by (simp add: o1 Object_Object_def Let_def op_width_def)
    qed
  next
    case (OpList fo q n)
    show ?thesis
    proof (cases "q = 0 \<or> n = 0")
      case True
      then show ?thesis
        using OpList slot p get_u32_pair [of d ?p 0 0]
        by (auto simp: o1 Object_List_def Let_def op_width_def)
    next
      case False
      then have q: "HeaderSize \<le> q" "q < start" "0 \<le> n" "n \<le> start" using tgt OpList by simp_all
      have w8: "op_width op = 8" using OpList False by (simp add: op_width_def)
      have g: "get_u32 d ?p = Some (word_of_int (q - ?p))" "get_u32 d (?p + 4) = Some (word_of_int n)"
        using get_u32_pair [of d ?p] slot OpList False w8 by simp_all
      have s: "sint (word_of_int (q - ?p) :: u32) = q - ?p"
        using q p len op_width_nonneg [of op] by (intro word32_int) (simp_all add: HeaderSize_def)
      have u: "uint (word_of_int n :: u32) = n"
        using q p len op_width_nonneg [of op] by (intro word32_int) simp_all
      obtain w k where w: "get_u32 d ?p = Some w" "sint w = q - ?p"
        and k: "get_u32 d (?p + 4) = Some k" "uint k = n"
        using g s u by simp
      show ?thesis
        using OpList False w k p q w8
        by (simp add: o1 Object_List_def Let_def)
    qed
  qed
qed

lemma hdr_ok_append: "hdr_ok xs \<Longrightarrow> 16 \<le> length xs \<Longrightarrow> hdr_ok (xs @ ys)"
  by (simp add: hdr_ok_def)

lemma hdr_ok_take: "take 6 xs = take 6 ys \<Longrightarrow> hdr_ok xs \<longleftrightarrow> hdr_ok ys"
proof -
  assume "take 6 xs = take 6 ys"
  then have "take 4 (take 6 xs) = take 4 (take 6 ys)" "drop 4 (take 6 xs) = drop 4 (take 6 ys)" by simp_all
  then show ?thesis by (simp add: hdr_ok_def drop_take)
qed

text \<open>Finishing a builder with a valid header yields a message that parses to its live bytes.\<close>

lemma finished_parses:
  assumes hdr: "hdr_ok xs" and len: "16 \<le> length xs" "int (length xs) < 2 ^ 32"
    and root: "0 \<le> r" "r < 2 ^ 32"
    and out: "out = lput xs 8 (le32 (word_of_int r) @ le32 (word_of_int (int (length xs))))"
  shows "\<exists>m. Parse out = Inr m \<and> msg_data m = out \<and>
           Message_Root m = Some \<lparr>o_msg = Some m, o_offset = r\<rparr>"
proof -
  let ?m = "\<lparr>msg_data = out, msg_refs = None\<rparr>"
  have l: "length out = length xs" using len by (simp add: out)
  have out': "out = take 8 xs @ le32 (word_of_int r) @ le32 (word_of_int (int (length xs))) @ drop 16 xs"
    by (simp add: out lput_def)
  have "take 6 out = take 6 xs" using len by (simp add: out')
  with hdr have "hdr_ok out" using hdr_ok_take by blast
  moreover have sz: "take 4 (drop 12 out) = le32 (word_of_int (int (length xs)))"
    using len by (simp add: out')
  have "uint (word_of_int (int (length xs)) :: u32) = int (length xs)"
    using len by (intro word32_int) simp_all
  then have "unat (word_of_int (int (length xs)) :: u32) = length xs"
    by (metis nat_int nat_uint_eq)
  ultimately have "Parse out = Inr ?m"
    using len l sz by (auto simp: Parse_eq_Inr_iff valid_header_def hdr_ok_def Version1_def Version2_def)
  moreover have "slice_at out 8 12 = Some (le32 (word_of_int r))"
    using len by (simp add: slice_at_def out')
  then have "Message_Root ?m = Some \<lparr>o_msg = Some ?m, o_offset = r\<rparr>"
    using word32_int(1) [of r] root by (simp add: Message_Root_def get_u32_def)
  ultimately show ?thesis by auto
qed

definition root_start :: "Builder \<Rightarrow> int" where
  "root_start b = b_pos b + pad8 (b_pos b)"

definition root_live :: "Builder \<Rightarrow> int \<Rightarrow> field_op list \<Rightarrow> bytes" where
  "root_live b sz ops =
     a_ops (root_start b) ops (live b @ replicate (nat (pad8 (b_pos b) + sz)) 0)"

definition root_out :: "Builder \<Rightarrow> int \<Rightarrow> field_op list \<Rightarrow> bytes" where
  "root_out b sz ops = lput (root_live b sz ops) 8
     (le32 (word_of_int (root_start b)) @ le32 (word_of_int (int (length (root_live b sz ops)))))"

lemma root_start_bounds:
  assumes "bwf b" and "HeaderSize \<le> b_pos b" and "0 \<le> sz"
  shows "0 \<le> root_start b" "HeaderSize \<le> root_start b" "b_pos b \<le> root_start b"
    "root_start b + sz \<le> int (length (live b @ replicate (nat (pad8 (b_pos b) + sz)) 0))"
  using assms pad8_bounds [of "b_pos b"] pos_eq_live [OF assms(1)]
  by (simp_all add: root_start_def HeaderSize_def)

lemma root_live_length:
  assumes "bwf b" and "HeaderSize \<le> b_pos b" and "0 \<le> sz" and "\<forall>op \<in> set ops. op_in sz op"
  shows "int (length (root_live b sz ops)) =
    b_pos b + pad8 (b_pos b) + sz + int (sum_list (map (length \<circ> op_tail) ops))"
  using a_ops_length [OF root_start_bounds(1) [OF assms(1-3)] assms(4) root_start_bounds(4) [OF assms(1-3)]]
    pos_eq_live [OF assms(1)] pad8_bounds [of "b_pos b"] assms(3)
  by (simp add: root_live_def)

lemma build_root_live:
  assumes b: "bwf b" "HeaderSize \<le> b_pos b" and sz: "0 \<le> sz" and ops: "\<forall>op \<in> set ops. op_in sz op"
  shows "\<exists>b'. build_root b sz ops = Some (b', root_out b sz ops)"
proof -
  obtain b1 ob where so: "StartObject b sz = Some (b1, ob)" "bwf b1"
    "ob_startPos ob = root_start b" "live b1 = live b @ replicate (nat (pad8 (b_pos b) + sz)) 0"
    using StartObject_live [OF b(1) sz] unfolding root_start_def by blast
  note st = root_start_bounds [OF b sz]
  have pos1: "ob_startPos ob + sz \<le> b_pos b1"
    using pos_eq_live [OF so(2)] st(4) so by simp
  obtain b2 where r: "run_ops b1 ob ops = Some b2" "bwf b2" "live b2 = root_live b sz ops"
    using run_ops_live [OF so(2) _ ops pos1] st(1) so(3,4) by (auto simp: becomes_def root_live_def)
  let ?b3 = "fst (FinishAsRoot b2 ob)"
  have b3: "bwf ?b3" "live ?b3 = live b2" "b_rootOffset ?b3 = root_start b" "b_pos ?b3 = b_pos b2"
    using r(2) so(3) by (simp_all add: FinishAsRoot_def Let_def ObjectBuilder_Finish_def bwf_def live_def)
  have "16 \<le> b_pos ?b3"
    using root_live_length [OF b sz ops] pos_eq_live [OF r(2)] b sz r(3) b3(4) pad8_bounds [of "b_pos b"]
    by (simp add: HeaderSize_def)
  then obtain b4 where "Builder_Finish ?b3 = Some (b4, lput (live b2) 8
      (le32 (word_of_int (root_start b)) @ le32 (word_of_int (b_pos b2))))"
    using Builder_Finish_live [OF b3(1)] b3 by auto
  then have "build_root b sz ops = Some (b4, root_out b sz ops)"
    using pos_eq_live [OF r(2)] by (simp add: build_root_def so(1) r root_out_def)
  then show ?thesis by blast
qed

text \<open>Everything a reader can rely on about a finished root, in one place.\<close>

lemma build_root_spec:
  assumes b: "builder_ready b" and sz: "0 \<le> sz"
    and ops: "\<forall>op \<in> set ops. op_in sz op \<and> target_ok (b_pos b) op" "sorted_wrt ops_disjoint ops"
    and small: "b_pos b + 8 + sz + int (sum_list (map (length \<circ> op_tail) ops)) < 2 ^ 31"
  shows "\<exists>b' out m o1. build_root b sz ops = Some (b', out) \<and> Parse out = Inr m \<and> msg_data m = out \<and>
           Message_Root m = Some o1 \<and> o_msg o1 = Some m \<and> (\<forall>op \<in> set ops. field_reads o1 op) \<and>
           (\<forall>lo hi. (16 \<le> lo \<or> hi \<le> 8) \<and> hi \<le> b_pos b \<longrightarrow>
              slice_at out lo hi = slice_at (live b) lo hi)"
proof -
  have wf: "bwf b" "HeaderSize \<le> b_pos b" and hdr: "hdr_ok (live b)" and "in": "\<forall>op \<in> set ops. op_in sz op"
    using b ops by (simp_all add: builder_ready_def)
  obtain b' where bld: "build_root b sz ops = Some (b', root_out b sz ops)"
    using build_root_live [OF wf sz "in"] by blast
  define start where "start = root_start b"
  define ys where "ys = live b @ replicate (nat (pad8 (b_pos b) + sz)) 0"
  define xs where "xs = root_live b sz ops"
  define out where "out = root_out b sz ops"
  have out: "out = lput xs 8 (le32 (word_of_int start) @ le32 (word_of_int (int (length xs))))"
    and xs: "xs = a_ops start ops ys"
    by (simp_all add: out_def root_out_def xs_def start_def root_live_def ys_def)
  note st = root_start_bounds [OF wf sz, folded start_def ys_def]
  have len: "int (length xs) < 2 ^ 31" "16 \<le> length xs" "start < 2 ^ 31"
    using root_live_length [OF wf sz "in"] small sz wf pad8_bounds [of "b_pos b"]
    by (simp_all add: xs_def start_def root_start_def HeaderSize_def)
  have keep: "take n xs = take n ys" if "int n \<le> start" for n
    unfolding xs using that by (intro a_ops_take [OF st(1) "in" st(4) _ sz])
  have live16: "16 \<le> length (live b)" using wf pos_eq_live [OF wf(1)] by (simp add: HeaderSize_def)
  then have hx: "hdr_ok xs"
    using hdr_ok_append [OF hdr] hdr_ok_take [of xs ys] keep [of 6] st(2) by (simp add: ys_def HeaderSize_def)
  obtain m where m: "Parse out = Inr m" "msg_data m = out"
    "Message_Root m = Some \<lparr>o_msg = Some m, o_offset = start\<rparr>"
    using finished_parses [OF hx len(2) _ st(1) _ out] len by auto
  have above: "slice_at out lo hi = slice_at xs lo hi" if "16 \<le> lo \<or> hi \<le> 8" for lo hi
    unfolding out using that len by (intro slice_lput_other) auto
  have "field_reads \<lparr>o_msg = Some m, o_offset = start\<rparr> op" if op: "op \<in> set ops" for op
  proof (rule op_reads_field [where d = out and sz = sz])
    have "op_reads start sz op xs"
      using a_ops_reads [OF st(1) "in" ops(2) st(4)] op by (simp add: xs)
    moreover have "0 \<le> op_off op" using "in" op by (simp add: op_in_def)
    ultimately show "op_reads start sz op out"
      using st(2) sz above by (auto simp: op_reads_def HeaderSize_def)
    show "target_ok start op" using ops(1) op st(3) by (cases op) auto
    show "int (length out) < 2 ^ 31" using len by (simp add: out)
  qed (use st "in" op m in simp_all)
  moreover have "slice_at out lo hi = slice_at (live b) lo hi" if "16 \<le> lo \<or> hi \<le> 8" "hi \<le> b_pos b" for lo hi
  proof -
    have pos: "b_pos b = int (length (live b))" using pos_eq_live [OF wf(1)] .
    have "take (length (live b)) xs = live b" using keep [of "length (live b)"] st(3) pos by (simp add: ys_def)
    then have "xs = live b @ drop (length (live b)) xs" by (metis append_take_drop_id)
    then show ?thesis using above that pos slice_append_left by metis
  qed
  ultimately show ?thesis
    using bld m out_def by (intro exI [of _ b'] exI [of _ out] exI [of _ m]) auto
qed

lemma NewBuilder_facts [simp]: "b_pos (NewBuilder c) = 16" "builder_ready (NewBuilder c)"
  using newBuilder_ready [of Version2 c]
  by (simp_all add: NewBuilder_def newBuilder_def Let_def HeaderSize_def)

lemma op_width_eqs [simp]:
  "op_width (OpUint8 fo a) = 1" "op_width (OpUint16 fo b) = 2" "op_width (OpUint32 fo c) = 4"
  "op_width (OpUint64 fo d) = 8" "op_width (OpBytesFixed fo v) = int (length v)"
  "op_width (OpBytes fo v) = 8" "op_width (OpObject fo p) = 4" "op_width (OpList fo p n) = 8"
  by (simp_all add: op_width_def)

text \<open>C3. Build/read round trip of a whole message: starting from any builder that is ready to
  write, starting an object of the given size, running any sequence of field setters on disjoint
  fields and finishing it as the root neither panics nor fails, the finished bytes parse, and
  reading each field back through the parsed root yields exactly the value that was set.\<close>

theorem build_read_roundtrip:
  assumes "builder_ready b" and "0 \<le> sz"
    and "\<forall>op \<in> set ops. op_in sz op \<and> target_ok (b_pos b) op" and "sorted_wrt ops_disjoint ops"
    and "b_pos b + 8 + sz + int (sum_list (map (length \<circ> op_tail) ops)) < 2 ^ 31"
  shows "\<exists>b' out m o1. build_root b sz ops = Some (b', out) \<and> Parse out = Inr m \<and>
           Message_Root m = Some o1 \<and> (\<forall>op \<in> set ops. field_reads o1 op)"
  using build_root_spec [OF assms] by blast

theorem build_read_roundtrip_witness:
  "\<exists>b' out m o1. build_root (NewBuilder 256) 16 [OpUint32 0 42, OpBytes 8 [1, 2]] = Some (b', out) \<and>
     Parse out = Inr m \<and> Message_Root m = Some o1 \<and>
     field_reads o1 (OpUint32 0 42) \<and> field_reads o1 (OpBytes 8 [1, 2])"
  using build_read_roundtrip [of "NewBuilder 256" 16 "[OpUint32 0 42, OpBytes 8 [1, 2]]"]
  by (simp add: newBuilder_ready op_in_def ops_disjoint_def)


section \<open>Lists\<close>

text \<open>Adding elements one after the other, and a root object whose only field is the list.\<close>

fun AddAll :: "(Builder \<Rightarrow> ListBuilder \<Rightarrow> 'a \<Rightarrow> (Builder \<times> ListBuilder) option) \<Rightarrow>
    Builder \<Rightarrow> ListBuilder \<Rightarrow> 'a list \<Rightarrow> (Builder \<times> ListBuilder) option" where
  "AddAll add b lb [] = Some (b, lb)"
| "AddAll add b lb (v # vs) = do { (b1, lb1) \<leftarrow> add b lb v; AddAll add b1 lb1 vs }"

definition build_list :: "(Builder \<Rightarrow> ListBuilder \<Rightarrow> 'a \<Rightarrow> (Builder \<times> ListBuilder) option) \<Rightarrow>
    int \<Rightarrow> Builder \<Rightarrow> 'a list \<Rightarrow> (Builder \<times> bytes) option" where
  "build_list add elemSize b vs = do {
     (b1, lb) \<leftarrow> StartList b elemSize;
     (b2, lb2) \<leftarrow> AddAll add b1 lb vs;
     let (off, n) = ListBuilder_Finish lb2;
     build_root b2 8 [OpList 0 off n] }"

definition list_reads_back :: "(Builder \<Rightarrow> ListBuilder \<Rightarrow> 'a \<Rightarrow> (Builder \<times> ListBuilder) option) \<Rightarrow>
    (List \<Rightarrow> int \<Rightarrow> 'a option) \<Rightarrow> int \<Rightarrow> Builder \<Rightarrow> 'a list \<Rightarrow> bool" where
  "list_reads_back add rd elemSize b vs \<longleftrightarrow>
     (\<exists>b' out m o1 l. build_list add elemSize b vs = Some (b', out) \<and> Parse out = Inr m \<and>
        Message_Root m = Some o1 \<and> Object_List o1 0 = Some l \<and> List_Len l = int (length vs) \<and>
        (\<forall>i < length vs. rd l (int i) = Some (vs ! i)))"

text \<open>
  The contract between an element writer of \<open>ListBuilder\<close> and the reader of \<open>List\<close> for the same
  element type: the writer appends the element's encoding of fixed width, the reader finds it at
  index times width.
\<close>

locale list_elem =
  fixes add :: "Builder \<Rightarrow> ListBuilder \<Rightarrow> 'a \<Rightarrow> (Builder \<times> ListBuilder) option"
    and rd :: "List \<Rightarrow> int \<Rightarrow> 'a option"
    and enc :: "'a \<Rightarrow> bytes"
    and w :: nat
  assumes add_append: "bwf b \<Longrightarrow>
      \<exists>b'. add b lb v = Some (b', lb\<lparr>lb_count := lb_count lb + 1\<rparr>) \<and> bwf b' \<and> live b' = live b @ enc v"
    and length_enc: "length (enc v) = w"
    and w_pos: "0 < w"
    and rd_enc: "l_msg l = Some m \<Longrightarrow> 0 \<le> i \<Longrightarrow> i < l_length l \<Longrightarrow>
      slice_at (msg_data m) (l_offset l + i * int w) (l_offset l + i * int w + int w) = Some (enc v) \<Longrightarrow>
      rd l i = Some v"
begin

lemma add_all:
  "bwf b \<Longrightarrow> \<exists>b'. AddAll add b lb vs = Some (b', lb\<lparr>lb_count := lb_count lb + int (length vs)\<rparr>) \<and>
     bwf b' \<and> live b' = live b @ concat (map enc vs)"
proof (induction vs arbitrary: b lb)
  case (Cons v vs)
  obtain b1 where b1: "add b lb v = Some (b1, lb\<lparr>lb_count := lb_count lb + 1\<rparr>)" "bwf b1"
    "live b1 = live b @ enc v"
    using add_append [OF Cons.prems] by blast
  then show ?case
    using Cons.IH [OF b1(2), of "lb\<lparr>lb_count := lb_count lb + 1\<rparr>"] by (auto simp: add.commute)
qed simp

lemma length_encs: "length (concat (map enc vs)) = w * length vs"
  by (induction vs) (simp_all add: length_enc)

lemma slice_encs:
  assumes "i < length vs"
  shows "slice_at (concat (map enc vs)) (int i * int w) (int i * int w + int w) = Some (enc (vs ! i))"
proof -
  have "concat (map enc vs) =
      concat (map enc (take i vs)) @ enc (vs ! i) @ concat (map enc (drop (Suc i) vs))"
    using arg_cong [OF id_take_nth_drop [OF assms], of "\<lambda>xs. concat (map enc xs)"] by simp
  moreover have "length (concat (map enc (take i vs))) = i * w"
    using assms by (simp add: length_encs)
  ultimately show ?thesis
    using slice_append_right [of "int i * int w" "concat (map enc (take i vs))" "enc (vs ! i)"]
      slice_append_left [of "int i * int w + int w" "concat (map enc (take i vs)) @ enc (vs ! i)"]
    by (simp add: length_enc)
qed

lemma reads_back:
  assumes b: "builder_ready b" and small: "b_pos b + 24 + int (w * length vs) < 2 ^ 31"
  shows "list_reads_back add rd es b vs"
proof -
  have wf: "bwf b" "16 \<le> b_pos b" "hdr_ok (live b)"
    using b by (simp_all add: builder_ready_def HeaderSize_def)
  define pad where "pad = pad8 (b_pos b)"
  have pad: "0 \<le> pad" "pad < 8" by (simp_all add: pad_def pad8_bounds)
  obtain b1 where b1: "align b 8 = Some b1" "bwf b1" "live b1 = live b @ replicate (nat pad) 0"
    using align_live [OF wf(1), of 8] by (auto simp: becomes_def pad_def pad8_def)
  let ?lb = "\<lparr>lb_startPos = b_pos b1, lb_count = 0\<rparr>"
  obtain b2 where b2: "AddAll add b1 ?lb vs = Some (b2, ?lb\<lparr>lb_count := int (length vs)\<rparr>)" "bwf b2"
    "live b2 = live b1 @ concat (map enc vs)"
    using add_all [OF b1(2), of ?lb vs] by auto
  have pos: "b_pos b1 = b_pos b + pad" "b_pos b2 = b_pos b1 + int (w * length vs)"
    using pos_eq_live [OF b1(2)] pos_eq_live [OF b2(2)] pos_eq_live [OF wf(1)] pad
    by (simp_all add: b1(3) b2(3) length_encs)
  let ?op = "OpList 0 (b_pos b1) (int (length vs))"
  have "int (length vs) \<le> int (w * length vs)" using w_pos by (simp only: of_nat_le_iff) simp
  then have tgt: "target_ok (b_pos b2) ?op"
    using pos pad wf(2) by (cases vs) (auto simp: HeaderSize_def)
  have "16 \<le> b_pos b2" using pos pad wf(2) of_nat_0_le_iff [of "w * length vs", where 'a = int] by linarith
  then have ready: "builder_ready b2"
    using wf b2 b1 pos pad pos_eq_live [OF wf(1)] by (simp add: builder_ready_def HeaderSize_def hdr_ok_append)
  obtain b' out m o1 where m: "build_root b2 8 [?op] = Some (b', out)" "Parse out = Inr m" "msg_data m = out"
    "Message_Root m = Some o1" "o_msg o1 = Some m" "field_reads o1 ?op"
    and same: "\<And>lo hi. 16 \<le> lo \<Longrightarrow> hi \<le> b_pos b2 \<Longrightarrow> slice_at out lo hi = slice_at (live b2) lo hi"
    using build_root_spec [OF ready, of 8 "[?op]"] tgt small pos pad by (auto simp: op_in_def)
  define l where "l = (if vs = [] then null_list
    else \<lparr>l_msg = Some m, l_offset = b_pos b1, l_length = int (length vs)\<rparr>)"
  have lr: "Object_List o1 0 = Some l" using m(5,6) wf(2) pos(1) pad by (simp add: l_def)
  have "rd l (int i) = Some (vs ! i)" if i: "i < length vs" for i
  proof (rule rd_enc [where m = m])
    have "int i * int w + int w \<le> int (w * length vs)"
      using i w_pos mult_le_mono [of "Suc i" "length vs" w w]
      by (simp add: algebra_simps flip: of_nat_mult of_nat_add)
    moreover have "0 \<le> int i * int w" by simp
    then have "16 \<le> b_pos b1 + int i * int w" using wf(2) pos(1) pad by linarith
    moreover have "slice_at (live b2) (b_pos b1) (b_pos b2) = Some (concat (map enc vs))"
      using slice_append_right [of "b_pos b1" "live b1" "concat (map enc vs)"]
        pos_eq_live [OF b1(2)] pos(2) by (simp add: b2(3) length_encs)
    ultimately show "slice_at (msg_data m) (l_offset l + int i * int w) (l_offset l + int i * int w + int w) =
        Some (enc (vs ! i))"
      using i slice_encs [OF i] slice_within [of "live b2" "b_pos b1" "b_pos b2" "concat (map enc vs)"
          "b_pos b1 + int i * int w" "b_pos b1 + int i * int w + int w"] pos(2)
      by (subst m(3), subst same) (auto simp: l_def)
  qed (use i in \<open>auto simp: l_def\<close>)
  moreover have "List_Len l = int (length vs)" by (simp add: l_def List_Len_def null_list_def)
  moreover have "build_list add es b vs = Some (b', out)"
    by (simp add: build_list_def StartList_def Alignment_def b1(1) b2(1) ListBuilder_Finish_def m(1))
  ultimately show ?thesis
    unfolding list_reads_back_def using m lr by blast
qed

end

lemma add_append_raw:
  assumes "bwf b"
  shows "\<exists>b'. do { b1 \<leftarrow> append_raw b v; Some (b1, lb\<lparr>lb_count := lb_count lb + 1\<rparr>) } =
    Some (b', lb\<lparr>lb_count := lb_count lb + 1\<rparr>) \<and> bwf b' \<and> live b' = live b @ v"
  using append_live [OF assms, of v] by (auto simp: becomes_def)

interpretation list8: list_elem AddUint8 List_Uint8 "\<lambda>v. [v]" 1
proof unfold_locales
  show "List_Uint8 l i = Some v"
    if "l_msg l = Some m" "0 \<le> i" "i < l_length l"
      "slice_at (msg_data m) (l_offset l + i * int 1) (l_offset l + i * int 1 + int 1) = Some [v]" for l m i v
    using that by (auto simp: List_Uint8_def slice_eq_Some_iff index_at_def take_Suc hd_drop_conv_nth
        Cons_nth_drop_Suc [symmetric] simp del: Cons_nth_drop_Suc)
qed (simp_all add: AddUint8_def add_append_raw)

interpretation list32: list_elem AddUint32 List_Uint32 le32 4
  by unfold_locales (auto simp: AddUint32_def add_append_raw List_Uint32_def get_defs Let_def
      dest: slice_in_range)

interpretation list64: list_elem AddUint64 List_Uint64 le64 8
  by unfold_locales (auto simp: AddUint64_def add_append_raw List_Uint64_def get_defs Let_def
      dest: slice_in_range)

text \<open>Lists of unsigned integers written element by element through a \<open>ListBuilder\<close> and
  attached to a root object read back element by element: same length, same value at every index,
  for the element widths 1, 4 and 8.\<close>

lemma int_list_roundtrip:
  assumes "builder_ready b"
    and "b_pos b + 24 + int (8 * max (length us) (max (length vs) (length ws))) < 2 ^ 31"
  shows "list_reads_back AddUint8 List_Uint8 1 b us \<and> list_reads_back AddUint32 List_Uint32 4 b vs \<and>
    list_reads_back AddUint64 List_Uint64 8 b ws"
  using assms by (intro conjI list8.reads_back list32.reads_back list64.reads_back) simp_all

section \<open>Reuse of pooled builders\<close>

lemma lput_append_right:
  assumes "int (length xs) \<le> i"
  shows "lput (xs @ ys) i bs = xs @ lput ys (i - int (length xs)) bs"
proof -
  have "nat i = length xs + nat (i - int (length xs))" using assms by linarith
  then show ?thesis by (simp add: lput_def)
qed

text \<open>Setters never look below the object they write to.\<close>

lemma a_ops_prefix_irrelevant:
  assumes "int (length h) \<le> start" and "length h' = length h" and "\<forall>op \<in> set ops. 0 \<le> op_off op"
  shows "\<exists>zs. a_ops start ops (h @ ys) = h @ zs \<and> a_ops start ops (h' @ ys) = h' @ zs"
  using assms(3)
proof (induction ops arbitrary: ys)
  case (Cons op ops)
  have "a_op start op (h @ ys) = h @ drop (length h) (a_op start op (h @ ys))"
    "a_op start op (h' @ ys) = h' @ drop (length h) (a_op start op (h @ ys))"
    using assms(1,2) Cons.prems by (simp_all add: a_op_def lput_append_right)
  then show ?case
    using Cons by (metis a_ops.simps(2) list.set_intros(2))
qed simp

lemma root_out_clean:
  assumes b: "builder_ready b" "b_pos b = 16" and b': "builder_ready b'" "b_pos b' = 16"
    and same: "take 8 (live b) = take 8 (live b')"
    and sz: "0 \<le> sz" and ops: "\<forall>op \<in> set ops. op_in sz op"
  shows "root_out b sz ops = root_out b' sz ops"
proof -
  have len: "length (live b) = 16" "length (live b') = 16"
    using b b' pos_eq_live by (simp_all add: builder_ready_def)
  have p: "pad8 16 = 0" by (simp add: pad8_def)
  obtain zs where zs: "root_live b sz ops = live b @ zs" "root_live b' sz ops = live b' @ zs"
    using a_ops_prefix_irrelevant [of "live b" 16 "live b'" ops "replicate (nat sz) 0"] len ops b(2) b'(2)
    by (auto simp: root_live_def root_start_def p op_in_def)
  show ?thesis
    using same len by (simp add: root_out_def zs lput_def root_start_def b(2) b'(2) p)
qed

text \<open>A pooled builder writes the same bytes as a fresh one: whatever its buffer holds beyond
  the first eight header bytes (magic, version and flags, which must be those of a fresh builder),
  a builder obtained from the pool produces for any sequence of setters exactly the bytes that a
  newly allocated builder produces; stale bytes of earlier messages never leak.\<close>

lemma pooled_builder_same_bytes:
  assumes "builder_ready b" and "take 8 (b_buf b) = take 8 (b_buf (NewBuilder c))"
    and "0 \<le> sz" and "\<forall>op \<in> set ops. op_in sz op"
  shows "\<exists>b1 b2 out. build_root (GetBuilder (Some b)) sz ops = Some (b1, out) \<and>
           build_root (NewBuilder c) sz ops = Some (b2, out)"
proof -
  let ?g = "GetBuilder (Some b)"
  have g: "builder_ready ?g" "b_pos ?g = 16"
    using Builder_Reset_ready [OF assms(1)] by (simp_all add: GetBuilder_def Builder_Reset_def HeaderSize_def)
  have "take 8 (live ?g) = take 8 (live (NewBuilder c))"
    using assms(2) g by (simp add: live_def GetBuilder_def Builder_Reset_def HeaderSize_def)
  then have "root_out ?g sz ops = root_out (NewBuilder c) sz ops"
    using assms g by (intro root_out_clean) simp_all
  then show ?thesis
    using build_root_live [of ?g sz ops] build_root_live [of "NewBuilder c" sz ops] g assms(3,4)
      NewBuilder_facts [of c] by (fastforce simp: builder_ready_def)
qed

definition dirty_builder :: Builder where
  "dirty_builder = \<lparr>b_buf = take 16 (b_buf (NewBuilder 64)) @ replicate 48 255, b_pos = 40, b_rootOffset = 16\<rparr>"

lemma FinishWithFlags_effect:
  assumes b: "builder_ready b"
  shows "\<exists>b1 out. FinishWithFlags b flags = Some (b1, out) \<and> builder_ready b1 \<and> get_u16 (b_buf b1) 6 = Some flags"
proof -
  have pos: "16 \<le> b_pos b" "b_pos b \<le> int (length (b_buf b))" "hdr_ok (live b)"
    using b by (simp_all add: builder_ready_def bwf_def HeaderSize_def)
  define u where "u = lput (b_buf b) 6 (le16 flags)"
  define v where "v = lput (lput u 8 (le32 (word_of_int (b_rootOffset b)))) 12 (le32 (word_of_int (b_pos b)))"
  have len: "length u = length (b_buf b)" "length v = length (b_buf b)"
    using pos by (simp_all add: u_def v_def)
  have fin: "FinishWithFlags b flags = Some (b\<lparr>b_buf := v\<rparr>, take (nat (b_pos b)) v)"
    using pos len by (simp add: FinishWithFlags_def Builder_Finish_def lput_put_at slice_at_def u_def v_def)
  have "slice_at v 6 8 = slice_at u 6 8"
    unfolding v_def using pos len by (subst slice_lput_other; simp)+
  also have "\<dots> = Some (le16 flags)"
    using slice_lput_same [of 6 "le16 flags" "b_buf b"] pos by (simp add: u_def)
  finally have fl: "get_u16 v 6 = Some flags" by (simp add: get_defs)
  have "take 6 v = take 6 (b_buf b)"
    using pos by (simp add: v_def u_def lput_def)
  then have "hdr_ok (take (nat (b_pos b)) v)"
    using pos hdr_ok_take [of "take (nat (b_pos b)) v" "live b"] by (simp add: live_def min_def)
  then show ?thesis
    using fin fl pos len by (simp add: builder_ready_def bwf_def live_def HeaderSize_def)
qed

text \<open>The exception the previous property excludes is real: \<open>Reset\<close> does not clear the flags
  word, so a builder put back after \<open>FinishWithFlags\<close> and taken again stamps the old flags on the
  next message, although that message is finished by the plain \<open>Finish\<close>.\<close>

lemma pooled_flags_leak:
  assumes "builder_ready b" and "0 \<le> sz"
    and "\<forall>op \<in> set ops. op_in sz op \<and> target_ok 16 op" and "sorted_wrt ops_disjoint ops"
    and "24 + sz + int (sum_list (map (length \<circ> op_tail) ops)) < 2 ^ 31"
  shows "\<exists>b1 out1 b2 out2 m. FinishWithFlags b flags = Some (b1, out1) \<and>
           build_root (GetBuilder (Some b1)) sz ops = Some (b2, out2) \<and>
           Parse out2 = Inr m \<and> Message_Flags m = Some flags"
proof -
  obtain b1 out1 where f: "FinishWithFlags b flags = Some (b1, out1)" "builder_ready b1"
    "get_u16 (b_buf b1) 6 = Some flags"
    using FinishWithFlags_effect [OF assms(1)] by blast
  let ?g = "GetBuilder (Some b1)"
  have g: "builder_ready ?g" "b_pos ?g = 16" "live ?g = take 16 (b_buf b1)"
    using Builder_Reset_ready [OF f(2)]
    by (simp_all add: GetBuilder_def Builder_Reset_def HeaderSize_def live_def)
  have len: "length (live ?g) = 16" using g pos_eq_live by (simp add: builder_ready_def)
  have "slice_at (b_buf b1) 6 8 = slice_at (live ?g) 6 8"
    using slice_append_left [of 8 "live ?g" "drop 16 (b_buf b1)" 6] len by (simp add: g(3))
  then have "slice_at (live ?g) 6 8 = slice_at (b_buf b1) 6 8" by simp
  then show ?thesis
    using build_root_spec [OF g(1) assms(2) _ assms(4)] assms(3,5) f g(2)
    by (fastforce simp: Message_Flags_def get_defs)
qed

end
