(* ===== verification/Zap_Bufpool.thy ===== *)
theory Zap_Bufpool
  imports Zap_Wire
begin

text \<open>
  The pooled receive buffers of \<open>src/bufpool.go\<close> with the reference counting of
  \<open>Message.Release\<close> and \<open>Message.Retain\<close> from \<open>src/zap.go\<close>. Slabs and \<open>bufRef\<close> headers live in
  an explicit store and are named by addresses, because the point of the code is who shares
  which slab. \<open>sync.Pool.Get\<close> may return any pooled item or a new one: the address it returns is
  an argument of \<open>getBuf\<close>, which is \<^term>\<open>None\<close> when that address is not one \<open>Get\<close> can return.
  The store shows that a slab is never shared by two frames and that a frame's bytes do not
  change while a reference to it is held.
\<close>

section \<open>Size classes\<close>

definition bufSizes :: "int list" where
  "bufSizes = [64, 256, 1024, 4 * 1024, 16 * 1024, 64 * 1024]"

definition pickBufClass :: "int \<Rightarrow> int" where
  "pickBufClass n =
     (if n \<le> bufSizes ! 0 then 0
      else if n \<le> bufSizes ! 1 then 1
      else if n \<le> bufSizes ! 2 then 2
      else if n \<le> bufSizes ! 3 then 3
      else if n \<le> bufSizes ! 4 then 4
      else if n \<le> bufSizes ! 5 then 5
      else -1)"

section \<open>Reference-counted slabs\<close>

record bufRef =
  bufp :: "nat option"
  fallback :: bytes
  r_n :: int
  r_class :: int
  r_refs :: u32

record pools =
  slabs :: "nat \<rightharpoonup> bytes"
  bufRefs :: "nat \<rightharpoonup> bufRef"
  bufPools :: "nat \<Rightarrow> nat list"
  refPool :: "nat list"

definition empty_pools :: pools where
  "empty_pools = \<lparr>slabs = Map.empty, bufRefs = Map.empty, bufPools = (\<lambda>_. []), refPool = []\<rparr>"

definition refPool_Get :: "pools \<Rightarrow> nat \<Rightarrow> (pools \<times> bufRef) option" where
  "refPool_Get p ra =
     (if ra \<in> set (refPool p)
      then map_option (Pair (p\<lparr>refPool := remove1 ra (refPool p)\<rparr>)) (bufRefs p ra)
      else if bufRefs p ra = None
      then Some (p, \<lparr>bufp = None, fallback = [], r_n = 0, r_class = 0, r_refs = 0\<rparr>)
      else None)"

definition bufPools_Get :: "pools \<Rightarrow> nat \<Rightarrow> nat \<Rightarrow> pools option" where
  "bufPools_Get p c sa =
     (if sa \<in> set (bufPools p c)
      then Some (p\<lparr>bufPools := (bufPools p)(c := remove1 sa (bufPools p c))\<rparr>)
      else if slabs p sa = None
      then Some (p\<lparr>slabs := (slabs p)(sa \<mapsto> replicate (nat (bufSizes ! c)) 0)\<rparr>)
      else None)"

definition getBuf :: "pools \<Rightarrow> int \<Rightarrow> nat \<Rightarrow> nat \<Rightarrow> pools option" where
  "getBuf p n ra sa = do {
     (p1, r0) \<leftarrow> refPool_Get p ra;
     let r = r0\<lparr>r_n := n, r_refs := 1, r_class := pickBufClass n\<rparr>;
     if r_class r < 0
     then Some (p1\<lparr>bufRefs := (bufRefs p1)(ra \<mapsto>
            r\<lparr>bufp := None, fallback := replicate (nat n) 0\<rparr>)\<rparr>)
     else do {
       p2 \<leftarrow> bufPools_Get p1 (nat (r_class r)) sa;
       Some (p2\<lparr>bufRefs := (bufRefs p2)(ra \<mapsto> r\<lparr>bufp := Some sa, fallback := []\<rparr>)\<rparr>) } }"

definition rawBuf :: "pools \<Rightarrow> nat \<Rightarrow> bytes option" where
  "rawBuf p ra = do {
     r \<leftarrow> bufRefs p ra;
     case bufp r of
       Some s \<Rightarrow> do {
         b \<leftarrow> slabs p s;
         if 0 \<le> r_class r \<and> r_class r < int (length bufSizes)
         then slice_at b 0 (bufSizes ! nat (r_class r)) else None }
     | None \<Rightarrow> Some (fallback r) }"

definition bufRef_Bytes :: "pools \<Rightarrow> nat \<Rightarrow> bytes option" where
  "bufRef_Bytes p ra = do {
     r \<leftarrow> bufRefs p ra;
     case bufp r of
       Some s \<Rightarrow> do { b \<leftarrow> slabs p s; slice_at b 0 (r_n r) }
     | None \<Rightarrow> slice_at (fallback r) 0 (r_n r) }"

text \<open>What \<open>io.ReadFull(r, ref.rawBuf()[:n])\<close> does to the store when it has received \<open>data\<close>.\<close>

definition fill :: "pools \<Rightarrow> nat \<Rightarrow> bytes \<Rightarrow> pools option" where
  "fill p ra data = do {
     r \<leftarrow> bufRefs p ra;
     raw \<leftarrow> rawBuf p ra;
     raw1 \<leftarrow> put_at raw 0 data;
     Some (case bufp r of
       Some s \<Rightarrow> p\<lparr>slabs := (slabs p)(s \<mapsto> raw1)\<rparr>
     | None \<Rightarrow> p\<lparr>bufRefs := (bufRefs p)(ra \<mapsto> r\<lparr>fallback := raw1\<rparr>)\<rparr>) }"

definition retain :: "pools \<Rightarrow> nat \<Rightarrow> pools option" where
  "retain p ra = do {
     r \<leftarrow> bufRefs p ra;
     Some (p\<lparr>bufRefs := (bufRefs p)(ra \<mapsto> r\<lparr>r_refs := r_refs r + 1\<rparr>)\<rparr>) }"

definition release :: "pools \<Rightarrow> nat option \<Rightarrow> pools option" where
  "release p ref =
     (case ref of
        None \<Rightarrow> Some p
      | Some ra \<Rightarrow> do {
          r \<leftarrow> bufRefs p ra;
          let r1 = r\<lparr>r_refs := r_refs r - 1\<rparr>;
          if r_refs r1 \<noteq> 0 then Some (p\<lparr>bufRefs := (bufRefs p)(ra \<mapsto> r1)\<rparr>)
          else do {
            p1 \<leftarrow> (case bufp r1 of
                    Some s \<Rightarrow>
                      if 0 \<le> r_class r1 \<and> r_class r1 < int (length bufSizes)
                      then Some (p\<lparr>bufPools := (bufPools p)
                             (nat (r_class r1) := s # bufPools p (nat (r_class r1)))\<rparr>)
                      else None
                  | None \<Rightarrow> Some p);
            Some (p1\<lparr>bufRefs := (bufRefs p1)(ra \<mapsto>
                    r1\<lparr>bufp := None, fallback := [], r_n := 0, r_class := 0\<rparr>),
                  refPool := ra # refPool p1\<rparr>) } })"

definition Message_Release :: "pools \<Rightarrow> Message \<Rightarrow> (pools \<times> Message) option" where
  "Message_Release p m =
     map_option (\<lambda>p1. (p1, m\<lparr>msg_refs := None, msg_data := []\<rparr>)) (release p (msg_refs m))"

definition Message_Retain :: "pools \<Rightarrow> Message \<Rightarrow> pools option" where
  "Message_Retain p m = (case msg_refs m of None \<Rightarrow> Some p | Some ra \<Rightarrow> retain p ra)"

definition attachToMessage :: "Message \<Rightarrow> nat \<Rightarrow> Message" where
  "attachToMessage m ra = m\<lparr>msg_refs := Some ra\<rparr>"

lemmas pool_defs = getBuf_def refPool_Get_def bufPools_Get_def rawBuf_def bufRef_Bytes_def fill_def
  retain_def release_def

section \<open>Size classes fit\<close>

lemma bufSizes_nth: "i < 6 \<Longrightarrow> 64 \<le> bufSizes ! i \<and> bufSizes ! i \<le> 65536"
  by (auto simp: bufSizes_def less_Suc_eq numeral_eq_Suc)

lemma length_bufSizes [simp]: "length bufSizes = 6"
  by (simp add: bufSizes_def)

lemma pickBufClass_cases:
  "pickBufClass n = -1 \<and> 65536 < n \<or>
   0 \<le> pickBufClass n \<and> pickBufClass n < 6 \<and> n \<le> bufSizes ! nat (pickBufClass n)"
  by (auto simp: pickBufClass_def bufSizes_def)

text \<open>The size-class ladder is exact: for a positive length up to 64 KiB it names the smallest
  class whose slabs hold the length, and it answers -1 exactly for lengths above 64 KiB.\<close>

lemma pick_class_smallest:
  "(pickBufClass n = -1 \<longleftrightarrow> 64 * 1024 < n) \<and>
   (\<forall>c. c < 6 \<longrightarrow> (pickBufClass n = int c \<longleftrightarrow>
      n \<le> bufSizes ! c \<and> (\<forall>d < c. bufSizes ! d < n)))"
proof (intro conjI allI impI)
  show "pickBufClass n = -1 \<longleftrightarrow> 64 * 1024 < n"
    by (auto simp: pickBufClass_def bufSizes_def)
  fix c :: nat
  assume "c < 6"
  then consider "c = 0" | "c = 1" | "c = 2" | "c = 3" | "c = 4" | "c = 5" by linarith
  then show "pickBufClass n = int c \<longleftrightarrow> n \<le> bufSizes ! c \<and> (\<forall>d < c. bufSizes ! d < n)"
    by cases (auto simp: pickBufClass_def bufSizes_def All_less_Suc numeral_eq_Suc)
qed

section \<open>Pool invariant\<close>

definition slab_ok :: "pools \<Rightarrow> nat \<Rightarrow> nat \<Rightarrow> bool" where
  "slab_ok p c s \<longleftrightarrow> (\<exists>b. slabs p s = Some b \<and> int (length b) = bufSizes ! c)"

definition pooled :: "pools \<Rightarrow> nat \<Rightarrow> bool" where
  "pooled p s \<longleftrightarrow> (\<exists>c. s \<in> set (bufPools p c))"

definition ref_ok :: "pools \<Rightarrow> bufRef \<Rightarrow> bool" where
  "ref_ok p r \<longleftrightarrow> 0 \<le> r_n r \<and>
     (case bufp r of
        Some s \<Rightarrow> 0 \<le> r_class r \<and> r_class r < 6 \<and> slab_ok p (nat (r_class r)) s \<and>
          r_n r \<le> bufSizes ! nat (r_class r) \<and> \<not> pooled p s
      | None \<Rightarrow> r_n r = int (length (fallback r)))"

definition pools_ok :: "pools \<Rightarrow> bool" where
  "pools_ok p \<longleftrightarrow>
     (\<forall>ra r. bufRefs p ra = Some r \<longrightarrow> ref_ok p r) \<and>
     (\<forall>ra r ra' r' s. bufRefs p ra = Some r \<and> bufRefs p ra' = Some r' \<and>
        bufp r = Some s \<and> bufp r' = Some s \<longrightarrow> ra = ra') \<and>
     (\<forall>c s. s \<in> set (bufPools p c) \<longrightarrow> c < 6 \<and> slab_ok p c s) \<and>
     (\<forall>c. distinct (bufPools p c)) \<and>
     (\<forall>c d s. s \<in> set (bufPools p c) \<and> s \<in> set (bufPools p d) \<longrightarrow> c = d) \<and>
     distinct (refPool p) \<and>
     (\<forall>ra \<in> set (refPool p). \<exists>r. bufRefs p ra = Some r \<and> r_refs r = 0 \<and> bufp r = None)"

definition held :: "pools \<Rightarrow> nat \<Rightarrow> bool" where
  "held p ra \<longleftrightarrow> (\<exists>r. bufRefs p ra = Some r \<and> r_refs r \<noteq> 0)"

lemma empty_pools_ok: "pools_ok empty_pools"
  by (simp add: pools_ok_def empty_pools_def)

lemma pools_okD:
  assumes "pools_ok p"
  shows "bufRefs p ra = Some r \<Longrightarrow> ref_ok p r"
    and "bufRefs p ra = Some r \<Longrightarrow> bufRefs p ra' = Some r' \<Longrightarrow> bufp r = Some s \<Longrightarrow> bufp r' = Some s \<Longrightarrow> ra = ra'"
    and "s \<in> set (bufPools p c) \<Longrightarrow> c < 6 \<and> slab_ok p c s"
    and "distinct (bufPools p c)"
    and "s \<in> set (bufPools p c) \<Longrightarrow> s \<in> set (bufPools p d) \<Longrightarrow> c = d"
    and "distinct (refPool p)"
    and "ra \<in> set (refPool p) \<Longrightarrow> \<exists>r. bufRefs p ra = Some r \<and> r_refs r = 0 \<and> bufp r = None"
  using assms unfolding pools_ok_def by blast+

lemma ok_frame [simp]:
  "ref_ok (p\<lparr>bufRefs := f\<rparr>) = ref_ok p" "slab_ok (p\<lparr>bufRefs := f\<rparr>) = slab_ok p"
  "ref_ok (p\<lparr>refPool := l\<rparr>) = ref_ok p" "slab_ok (p\<lparr>refPool := l\<rparr>) = slab_ok p"
  by (simp_all add: fun_eq_iff ref_ok_def slab_ok_def pooled_def split: option.splits)

lemma ref_ok_count [simp]: "ref_ok p (r\<lparr>r_refs := n\<rparr>) = ref_ok p r"
  by (simp add: ref_ok_def split: option.splits)

lemma pools_ok_set_ref:
  assumes "pools_ok p" and "ra \<notin> set (refPool p)" and "ref_ok p r"
    and "\<And>s ra' r'. bufp r = Some s \<Longrightarrow> ra' \<noteq> ra \<Longrightarrow> bufRefs p ra' = Some r' \<Longrightarrow> bufp r' \<noteq> Some s"
  shows "pools_ok (p\<lparr>bufRefs := (bufRefs p)(ra \<mapsto> r)\<rparr>)"
proof -
  note d = pools_okD [OF assms(1)]
  show ?thesis
    unfolding pools_ok_def
  proof (intro conjI allI impI ballI)
    show "ref_ok (p\<lparr>bufRefs := (bufRefs p)(ra \<mapsto> r)\<rparr>) r1"
      if "bufRefs (p\<lparr>bufRefs := (bufRefs p)(ra \<mapsto> r)\<rparr>) ra1 = Some r1" for ra1 r1
      using that assms(3) d(1) by (auto split: if_splits)
    show "ra1 = ra2"
      if "bufRefs (p\<lparr>bufRefs := (bufRefs p)(ra \<mapsto> r)\<rparr>) ra1 = Some r1 \<and>
          bufRefs (p\<lparr>bufRefs := (bufRefs p)(ra \<mapsto> r)\<rparr>) ra2 = Some r2 \<and>
          bufp r1 = Some s \<and> bufp r2 = Some s" for ra1 r1 ra2 r2 s
      using that assms(4) d(2) by (fastforce split: if_splits)
  qed (use assms(2) d(3-7) in \<open>auto split: if_splits\<close>)
qed

lemma pools_ok_remove_ref: "pools_ok p \<Longrightarrow> pools_ok (p\<lparr>refPool := remove1 ra (refPool p)\<rparr>)"
  by (auto simp: pools_ok_def distinct_remove1 dest: notin_set_remove1)

lemma bufPools_Get_ok:
  assumes ok: "pools_ok p" and get: "bufPools_Get p c sa = Some p'" and c: "c < 6"
  shows "pools_ok p'" and "slab_ok p' c sa" and "\<not> pooled p' sa"
    and "bufRefs p ra = Some r \<Longrightarrow> bufp r \<noteq> Some sa"
    and "bufRefs p' = bufRefs p" and "refPool p' = refPool p"
    and "s \<noteq> sa \<Longrightarrow> slabs p' s = slabs p s"
proof -
  note d = pools_okD [OF ok]
  have c0: "0 \<le> bufSizes ! c" using bufSizes_nth [OF c] by linarith
  have sl: "slab_ok p' c' s" if "slab_ok p c' s" for c' s
    using that get by (auto simp: bufPools_Get_def slab_ok_def split: if_splits)
  have po: "pooled p s" if "pooled p' s" for s
    using that get set_remove1_subset
    by (fastforce simp: bufPools_Get_def pooled_def split: if_splits)
  show 2: "slab_ok p' c sa"
    using get c0 d(3) by (auto simp: bufPools_Get_def slab_ok_def split: if_splits)
  show refs: "bufRefs p' = bufRefs p" "refPool p' = refPool p"
    using get by (auto simp: bufPools_Get_def split: if_splits)
  show "bufRefs p ra = Some r \<Longrightarrow> bufp r \<noteq> Some sa"
    using get d(1) [of ra r] by (auto simp: bufPools_Get_def ref_ok_def slab_ok_def pooled_def split: if_splits)
  show "s \<noteq> sa \<Longrightarrow> slabs p' s = slabs p s"
    using get by (auto simp: bufPools_Get_def split: if_splits)
  show "\<not> pooled p' sa"
    using get d(3-5) by (fastforce simp: bufPools_Get_def pooled_def slab_ok_def split: if_splits)
  have sub: "set (bufPools p' c') \<subseteq> set (bufPools p c')" "distinct (bufPools p' c')" for c'
    using get d(4) by (auto simp: bufPools_Get_def distinct_remove1 split: if_splits dest: notin_set_remove1)
  show "pools_ok p'"
    unfolding pools_ok_def refs
  proof (intro conjI allI impI ballI)
    show "ref_ok p' r" if "bufRefs p ra = Some r" for ra r
      using d(1) [OF that] sl po by (auto simp: ref_ok_def split: option.splits)
  qed (use d(2,3,5,6,7) sub sl in \<open>blast+\<close>)
qed

lemma ref_state:
  assumes ok: "pools_ok p" and r: "bufRefs p ra = Some r"
  shows "\<exists>bs. bufRef_Bytes p ra = Some bs \<and> int (length bs) = r_n r"
    and "\<exists>raw. rawBuf p ra = Some raw \<and> r_n r \<le> int (length raw) \<and>
      (case bufp r of Some s \<Rightarrow> slabs p s = Some raw | None \<Rightarrow> fallback r = raw)"
  using pools_okD(1) [OF ok r] r
  by (auto simp: ref_ok_def bufRef_Bytes_def rawBuf_def slice_at_def slab_ok_def split: option.splits)

lemma Bytes_cong:
  assumes "bufRefs p' ra = bufRefs p ra"
    and "\<And>r s. bufRefs p ra = Some r \<Longrightarrow> bufp r = Some s \<Longrightarrow> slabs p' s = slabs p s"
  shows "bufRef_Bytes p' ra = bufRef_Bytes p ra"
  using assms by (auto simp: bufRef_Bytes_def split: option.splits Option.bind_splits)

lemma Bytes_count:
  "bufRefs p ra = Some r \<Longrightarrow>
   bufRef_Bytes (p\<lparr>bufRefs := (bufRefs p)(ra \<mapsto> r\<lparr>r_refs := n\<rparr>)\<rparr>) ra' = bufRef_Bytes p ra'"
  by (auto simp: bufRef_Bytes_def split: option.splits Option.bind_splits)

lemma getBuf_ok:
  assumes ok: "pools_ok p" and n: "0 \<le> n" and get: "getBuf p n ra sa = Some p'"
  shows "pools_ok p' \<and> \<not> held p ra \<and> (\<exists>r. bufRefs p' ra = Some r \<and> r_refs r = 1 \<and> r_n r = n) \<and>
    ra \<notin> set (refPool p') \<and>
    (\<forall>ra'. ra' \<noteq> ra \<longrightarrow> bufRefs p' ra' = bufRefs p ra' \<and> bufRef_Bytes p' ra' = bufRef_Bytes p ra')"
proof -
  note d = pools_okD [OF ok]
  obtain p1 r0 where g: "refPool_Get p ra = Some (p1, r0)"
    using get by (auto simp: getBuf_def split: Option.bind_splits)
  have ok1: "pools_ok p1" and nin: "ra \<notin> set (refPool p1)" and dead: "\<not> held p ra"
    and same: "bufRefs p1 = bufRefs p" "slabs p1 = slabs p" "bufPools p1 = bufPools p"
    using g d(6) d(7) [of ra] pools_ok_remove_ref [OF ok, of ra] ok
    by (auto simp: refPool_Get_def held_def split: if_splits)
  let ?c = "pickBufClass n"
  show ?thesis
  proof (cases "?c < 0")
    case True
    let ?r = "r0\<lparr>r_n := n, r_refs := 1, r_class := ?c, bufp := None, fallback := replicate (nat n) 0\<rparr>"
    have p': "p' = p1\<lparr>bufRefs := (bufRefs p1)(ra \<mapsto> ?r)\<rparr>"
      using get g True by (simp add: getBuf_def Let_def)
    moreover have "pools_ok p'"
      unfolding p' by (rule pools_ok_set_ref [OF ok1 nin]) (use n in \<open>simp_all add: ref_ok_def\<close>)
    ultimately show ?thesis
      using dead nin same by (auto intro!: Bytes_cong)
  next
    case False
    then have c: "nat ?c < 6" "n \<le> bufSizes ! nat ?c" using pickBufClass_cases [of n] by auto
    obtain p2 where g2: "bufPools_Get p1 (nat ?c) sa = Some p2"
      using get g False by (auto simp: getBuf_def Let_def split: Option.bind_splits)
    note s = bufPools_Get_ok [OF ok1 g2 c(1)]
    let ?r = "r0\<lparr>r_n := n, r_refs := 1, r_class := ?c, bufp := Some sa, fallback := []\<rparr>"
    have p': "p' = p2\<lparr>bufRefs := (bufRefs p2)(ra \<mapsto> ?r)\<rparr>"
      using get g g2 False by (simp add: getBuf_def Let_def)
    moreover have "pools_ok p'"
      unfolding p'
      by (rule pools_ok_set_ref [OF s(1)]) (use n c nin s False in \<open>auto simp: ref_ok_def\<close>)
    ultimately show ?thesis
      using dead nin same s(4-7) by (auto intro!: Bytes_cong) metis+
  qed
qed

lemma fill_ok:
  assumes ok: "pools_ok p" and r: "bufRefs p ra = Some r" and len: "int (length data) \<le> r_n r"
    and nin: "ra \<notin> set (refPool p)"
  shows "\<exists>p'. fill p ra data = Some p' \<and> pools_ok p' \<and> refPool p' = refPool p \<and>
    (\<exists>r'. bufRefs p' ra = Some r' \<and> r_refs r' = r_refs r \<and> r_n r' = r_n r) \<and>
    (\<forall>ra'. ra' \<noteq> ra \<longrightarrow> bufRefs p' ra' = bufRefs p ra' \<and> bufRef_Bytes p' ra' = bufRef_Bytes p ra') \<and>
    (int (length data) = r_n r \<longrightarrow> bufRef_Bytes p' ra = Some data)"
proof -
  note d = pools_okD [OF ok]
  obtain raw where raw: "rawBuf p ra = Some raw" "r_n r \<le> int (length raw)"
    "case bufp r of Some s \<Rightarrow> slabs p s = Some raw | None \<Rightarrow> fallback r = raw"
    using ref_state(2) [OF ok r] by blast
  define new where "new = data @ drop (length data) raw"
  have put: "put_at raw 0 data = Some new" and ln: "length new = length raw"
    using raw(2) len by (simp_all add: put_at_def new_def)
  have tk: "take (nat (r_n r)) new = data" if "int (length data) = r_n r"
    using that by (simp add: new_def)
  show ?thesis
  proof (cases "bufp r")
    case None
    let ?r = "r\<lparr>fallback := new\<rparr>"
    let ?p = "p\<lparr>bufRefs := (bufRefs p)(ra \<mapsto> ?r)\<rparr>"
    have "fill p ra data = Some ?p" using None r raw put by (simp add: fill_def)
    moreover have "pools_ok ?p"
      by (rule pools_ok_set_ref [OF ok nin])
        (use d(1) [OF r] None raw ln in \<open>simp_all add: ref_ok_def\<close>)
    moreover have "bufRef_Bytes ?p ra = Some data" if "int (length data) = r_n r"
      using None tk [OF that] raw d(1) [OF r] ln by (simp add: bufRef_Bytes_def slice_at_def ref_ok_def)
    ultimately show ?thesis using None by (auto intro!: Bytes_cong)
  next
    case (Some s)
    let ?p = "p\<lparr>slabs := (slabs p)(s \<mapsto> new)\<rparr>"
    have f: "fill p ra data = Some ?p" using Some r raw put by (simp add: fill_def)
    have raw_s: "slabs p s = Some raw" using raw(3) Some by simp
    have eqs: "slab_ok ?p = slab_ok p" "pooled ?p = pooled p"
      using raw_s ln by (auto simp: fun_eq_iff slab_ok_def pooled_def)
    have "ref_ok ?p = ref_ok p"
      by (simp add: fun_eq_iff ref_ok_def eqs split: option.splits)
    then have "pools_ok ?p" using ok eqs by (auto simp: pools_ok_def)
    moreover have "bufRef_Bytes ?p ra = Some data" if "int (length data) = r_n r"
      using Some r tk [OF that] raw(2) d(1) [OF r] ln by (simp add: bufRef_Bytes_def slice_at_def ref_ok_def)
    moreover have "bufRef_Bytes ?p ra' = bufRef_Bytes p ra'" if "ra' \<noteq> ra" for ra'
      using d(2) [OF r _ Some] that by (intro Bytes_cong) auto
    ultimately show ?thesis using f r by (intro exI [of _ ?p]) simp
  qed
qed

lemma retain_ok:
  assumes ok: "pools_ok p" and h: "held p ra"
  shows "\<exists>p'. retain p ra = Some p' \<and> pools_ok p' \<and> bufRef_Bytes p' ra = bufRef_Bytes p ra \<and>
    (\<forall>ra'. ra' \<noteq> ra \<longrightarrow> bufRefs p' ra' = bufRefs p ra' \<and> bufRef_Bytes p' ra' = bufRef_Bytes p ra')"
proof -
  note d = pools_okD [OF ok]
  obtain r where r: "bufRefs p ra = Some r" "r_refs r \<noteq> 0" using h by (auto simp: held_def)
  have nin: "ra \<notin> set (refPool p)" using d(7) [of ra] r by auto
  let ?p = "p\<lparr>bufRefs := (bufRefs p)(ra \<mapsto> r\<lparr>r_refs := r_refs r + 1\<rparr>)\<rparr>"
  have "pools_ok ?p"
    by (rule pools_ok_set_ref [OF ok nin])
      (use d(1) [OF r(1)] d(2) [OF r(1)] in auto)
  then show ?thesis
    using r by (simp add: retain_def Bytes_count)
qed

text \<open>Returning a slab: the last holder's header gives up the slab, which enters its class.\<close>

lemma pools_ok_put:
  assumes ok: "pools_ok p" and r: "bufRefs p ra = Some r" and nin: "ra \<notin> set (refPool p)"
    and dead: "r_refs r' = 0" "bufp r' = None" "r_n r' = 0" "fallback r' = []"
    and bp: "bp = (case bufp r of Some s \<Rightarrow> (bufPools p)(nat (r_class r) := s # bufPools p (nat (r_class r)))
      | None \<Rightarrow> bufPools p)"
  shows "pools_ok (p\<lparr>bufPools := bp, bufRefs := (bufRefs p)(ra \<mapsto> r'), refPool := ra # refPool p\<rparr>)"
proof -
  define q where "q = p\<lparr>bufPools := bp, bufRefs := (bufRefs p)(ra \<mapsto> r'), refPool := ra # refPool p\<rparr>"
  have q: "bufPools q = bp" "bufRefs q = (bufRefs p)(ra \<mapsto> r')" "refPool q = ra # refPool p"
    "slabs q = slabs p" by (simp_all add: q_def)
  note d = pools_okD [OF ok]
  have set_bp: "s \<in> set (bp c) \<longleftrightarrow> s \<in> set (bufPools p c) \<or> bufp r = Some s \<and> c = nat (r_class r)" for s c
    by (auto simp: bp split: option.splits)
  have new: "slab_ok p (nat (r_class r)) s \<and> nat (r_class r) < 6 \<and> \<not> pooled p s" if "bufp r = Some s" for s
    using d(1) [OF r] that by (auto simp: ref_ok_def)
  have slq: "slab_ok q = slab_ok p" by (simp add: fun_eq_iff slab_ok_def q)
  have pq: "pooled q s \<longleftrightarrow> pooled p s \<or> bufp r = Some s" for s
    unfolding pooled_def q by (simp add: set_bp) blast
  have ro: "ref_ok q r1" if r1: "bufRefs p ra1 = Some r1" "ra1 \<noteq> ra" for ra1 r1
  proof (cases "bufp r1")
    case (Some s)
    then have "bufp r \<noteq> Some s" using d(2) [OF r1(1) r] r1(2) by blast
    then show ?thesis using d(1) [OF r1(1)] Some by (simp add: ref_ok_def slq pq)
  qed (use d(1) [OF r1(1)] in \<open>simp add: ref_ok_def\<close>)
  show ?thesis
    unfolding q_def [symmetric]
    unfolding pools_ok_def slq q
  proof (intro conjI allI impI ballI)
    show "ref_ok q r1" if "((bufRefs p)(ra \<mapsto> r')) ra1 = Some r1" for ra1 r1
      using that ro dead by (auto simp: ref_ok_def split: if_splits)
    show "ra1 = ra2"
      if "((bufRefs p)(ra \<mapsto> r')) ra1 = Some r1 \<and> ((bufRefs p)(ra \<mapsto> r')) ra2 = Some r2 \<and> bufp r1 = Some s \<and> bufp r2 = Some s"
      for ra1 r1 ra2 r2 s
      using that d(2) dead by (auto split: if_splits)
    show "distinct (bp c)" for c
      using d(4) new by (auto simp: bp pooled_def split: option.splits)
    show "c = e" if "s \<in> set (bp c) \<and> s \<in> set (bp e)" for c e s
      using that d(5) new by (auto simp: set_bp pooled_def)
    show "c < 6" "slab_ok p c s" if "s \<in> set (bp c)" for c s
      using that d(3) new by (auto simp: set_bp)
  qed (use d(6,7) nin dead in auto)
qed

lemma release_ok:
  assumes ok: "pools_ok p" and h: "held p ra"
  shows "\<exists>p'. release p (Some ra) = Some p' \<and> pools_ok p' \<and>
    (held p' ra \<longrightarrow> bufRef_Bytes p' ra = bufRef_Bytes p ra) \<and>
    (\<forall>ra'. ra' \<noteq> ra \<longrightarrow> bufRefs p' ra' = bufRefs p ra' \<and> bufRef_Bytes p' ra' = bufRef_Bytes p ra')"
proof -
  note d = pools_okD [OF ok]
  obtain r where r: "bufRefs p ra = Some r" "r_refs r \<noteq> 0" using h by (auto simp: held_def)
  have nin: "ra \<notin> set (refPool p)" using d(7) [of ra] r by auto
  show ?thesis
  proof (cases "r_refs r = 1")
    case False
    let ?p = "p\<lparr>bufRefs := (bufRefs p)(ra \<mapsto> r\<lparr>r_refs := r_refs r - 1\<rparr>)\<rparr>"
    have "pools_ok ?p"
      by (rule pools_ok_set_ref [OF ok nin])
        (use d(1) [OF r(1)] d(2) [OF r(1)] in auto)
    then show ?thesis
      using r False by (simp add: release_def Bytes_count Let_def)
  next
    case True
    let ?r = "r\<lparr>r_refs := 0, bufp := None, fallback := [], r_n := 0, r_class := 0\<rparr>"
    let ?bp = "case bufp r of Some s \<Rightarrow> (bufPools p)(nat (r_class r) := s # bufPools p (nat (r_class r)))
      | None \<Rightarrow> bufPools p"
    let ?p = "p\<lparr>bufPools := ?bp, bufRefs := (bufRefs p)(ra \<mapsto> ?r), refPool := ra # refPool p\<rparr>"
    have "pools_ok ?p" by (rule pools_ok_put [OF ok r(1) nin]) simp_all
    moreover have "release p (Some ra) = Some ?p"
      using r(1) True d(1) [OF r(1)] by (auto simp: release_def ref_ok_def Let_def split: option.splits)
    ultimately show ?thesis by (auto simp: held_def intro!: Bytes_cong)
  qed
qed

lemma release_count:
  "bufRefs p ra = Some r \<Longrightarrow> release p (Some ra) = Some p' \<Longrightarrow>
   \<exists>r'. bufRefs p' ra = Some r' \<and> r_refs r' = r_refs r - 1"
  by (auto simp: release_def Let_def split: Option.bind_splits option.splits if_splits)

lemma retain_count:
  "bufRefs p ra = Some r \<Longrightarrow> retain p ra = Some p' \<Longrightarrow>
   \<exists>r'. bufRefs p' ra = Some r' \<and> r_refs r' = r_refs r + 1"
  by (auto simp: retain_def)

section \<open>Connections sharing the pools\<close>

text \<open>
  Any interleaving of the operations the connections of a process perform on the shared pools: a
  frame is read whole, a read is cut short and its buffer released, a holder retains or releases
  a reference, and the garbage collector empties a pool entry (\<open>sync.Pool\<close> may drop any item).
\<close>

inductive pool_step :: "pools \<Rightarrow> pools \<Rightarrow> bool" where
  frame: "getBuf p (int (length data)) ra sa = Some p1 \<Longrightarrow> fill p1 ra data = Some p2 \<Longrightarrow> pool_step p p2"
| short: "getBuf p n ra sa = Some p1 \<Longrightarrow> int (length data) < n \<Longrightarrow> fill p1 ra data = Some p2 \<Longrightarrow>
    release p2 (Some ra) = Some p3 \<Longrightarrow> pool_step p p3"
| retain: "held p ra \<Longrightarrow> retain p ra = Some p' \<Longrightarrow> pool_step p p'"
| release: "held p ra \<Longrightarrow> release p (Some ra) = Some p' \<Longrightarrow> pool_step p p'"
| drop_slab: "pool_step p (p\<lparr>bufPools := (bufPools p)(c := remove1 s (bufPools p c))\<rparr>)"
| drop_ref: "pool_step p (p\<lparr>refPool := remove1 ra (refPool p)\<rparr>)"

lemma pools_ok_drop_slab:
  assumes ok: "pools_ok p"
  shows "pools_ok (p\<lparr>bufPools := (bufPools p)(c := remove1 s (bufPools p c))\<rparr>)"
proof -
  define q where "q = p\<lparr>bufPools := (bufPools p)(c := remove1 s (bufPools p c))\<rparr>"
  have q: "bufRefs q = bufRefs p" "refPool q = refPool p" "slabs q = slabs p" by (simp_all add: q_def)
  note d = pools_okD [OF ok]
  have sub: "set (bufPools q e) \<subseteq> set (bufPools p e)" "distinct (bufPools q e)" for e
    using set_remove1_subset d(4) [of e] by (auto simp: q_def distinct_remove1 dest: notin_set_remove1)
  have slq: "slab_ok q = slab_ok p" by (simp add: fun_eq_iff slab_ok_def q)
  have "pooled p t" if "pooled q t" for t using that sub by (auto simp: pooled_def)
  then have "ref_ok q r" if "ref_ok p r" for r
    using that by (auto simp: ref_ok_def slq split: option.splits)
  then have "pools_ok q"
    unfolding pools_ok_def slq q using d(1-3,5-7) sub by (intro conjI allI impI ballI) blast+
  then show ?thesis by (simp add: q_def)
qed

text \<open>One step keeps the invariant and the bytes of every reference that is held before and after.\<close>

lemma pool_step_ok:
  assumes "pool_step p p'" and "pools_ok p"
  shows "pools_ok p' \<and> (\<forall>ra. held p ra \<and> held p' ra \<longrightarrow> bufRef_Bytes p' ra = bufRef_Bytes p ra)"
  using assms
proof cases
  case (frame data ra sa p1)
  obtain r where g: "pools_ok p1" "\<not> held p ra" "bufRefs p1 ra = Some r" "r_n r = int (length data)"
    "ra \<notin> set (refPool p1)" "\<And>ra'. ra' \<noteq> ra \<Longrightarrow> bufRef_Bytes p1 ra' = bufRef_Bytes p ra'"
    using getBuf_ok [OF assms(2) _ frame(1)] by auto
  show ?thesis using fill_ok [OF g(1,3) _ g(5), of data] g frame(2) by (auto, metis)
next
  case (short n ra sa p1 data p2)
  then have n: "0 \<le> n" by linarith
  obtain r where g: "pools_ok p1" "\<not> held p ra" "bufRefs p1 ra = Some r" "r_refs r = 1" "r_n r = n"
    "ra \<notin> set (refPool p1)" "\<And>ra'. ra' \<noteq> ra \<Longrightarrow> bufRef_Bytes p1 ra' = bufRef_Bytes p ra'"
    using getBuf_ok [OF assms(2) n short(1)] by auto
  then obtain r' where f: "pools_ok p2" "bufRefs p2 ra = Some r'" "r_refs r' = 1"
    "\<And>ra'. ra' \<noteq> ra \<Longrightarrow> bufRef_Bytes p2 ra' = bufRef_Bytes p1 ra'"
    using fill_ok [OF g(1,3) _ g(6), of data] short(2,3) by auto
  then have "held p2 ra" by (simp add: held_def)
  from release_ok [OF f(1) this] have "pools_ok p'"
    "\<And>ra'. ra' \<noteq> ra \<Longrightarrow> bufRef_Bytes p' ra' = bufRef_Bytes p2 ra'"
    using short(4) by auto
  then show ?thesis using f(4) g(2,7) by metis
next
  case (retain ra)
  then show ?thesis using retain_ok [OF assms(2)] by (metis option.sel)
next
  case (release ra)
  then show ?thesis using release_ok [OF assms(2)] by (metis option.sel)
next
  case (drop_slab c s)
  then show ?thesis using pools_ok_drop_slab [OF assms(2), of c s] by (auto intro!: Bytes_cong)
next
  case (drop_ref ra)
  then show ?thesis using pools_ok_remove_ref [OF assms(2), of ra] by (auto intro!: Bytes_cong)
qed

lemma reachable_pools_ok: "pool_step\<^sup>*\<^sup>* empty_pools p \<Longrightarrow> pools_ok p"
  by (induction rule: rtranclp_induct) (auto simp: empty_pools_ok dest: pool_step_ok)

lemma kept_bytes:
  assumes "(\<lambda>p q. pool_step p q \<and> held q ra)\<^sup>*\<^sup>* p p'" and "pools_ok p" and "held p ra"
  shows "pools_ok p' \<and> held p' ra \<and> bufRef_Bytes p' ra = bufRef_Bytes p ra"
  using assms by (induction rule: rtranclp_induct) (auto dest: pool_step_ok)

text \<open>C12. A received frame is stable while it is referenced: in every state the connections of a
  process can reach, reading a frame into a pooled buffer stores exactly the received bytes, and
  as long as its reference count does not drop to zero those bytes stay the same, whatever frames
  other connections read, retain or release meanwhile; no two references share a slab.\<close>

theorem frame_bytes_stable:
  assumes "pool_step\<^sup>*\<^sup>* empty_pools p" and "getBuf p (int (length data)) ra sa = Some p1"
  shows "\<exists>p2. fill p1 ra data = Some p2 \<and> bufRef_Bytes p2 ra = Some data \<and>
    (\<forall>p'. (\<lambda>p q. pool_step p q \<and> held q ra)\<^sup>*\<^sup>* p2 p' \<longrightarrow>
       bufRef_Bytes p' ra = Some data \<and>
       (\<forall>ra' r r' s. bufRefs p' ra = Some r \<and> bufRefs p' ra' = Some r' \<and>
          bufp r = Some s \<and> bufp r' = Some s \<longrightarrow> ra' = ra))"
proof -
  note ok = reachable_pools_ok [OF assms(1)]
  obtain r where g: "pools_ok p1" "bufRefs p1 ra = Some r" "r_refs r = 1" "r_n r = int (length data)"
    "ra \<notin> set (refPool p1)"
    using getBuf_ok [OF ok _ assms(2)] by auto
  obtain p2 r' where f: "fill p1 ra data = Some p2" "pools_ok p2" "bufRefs p2 ra = Some r'" "r_refs r' = 1"
    "bufRef_Bytes p2 ra = Some data"
    using fill_ok [OF g(1,2) _ g(5), of data] g by auto
  then have h: "held p2 ra" by (simp add: held_def)
  show ?thesis
  proof (intro exI conjI allI impI)
    fix p'
    assume "(\<lambda>p q. pool_step p q \<and> held q ra)\<^sup>*\<^sup>* p2 p'"
    from kept_bytes [OF this f(2) h] have k: "pools_ok p'" "bufRef_Bytes p' ra = Some data"
      using f(5) by simp_all
    show "bufRef_Bytes p' ra = Some data" by (rule k)
    show "ra' = ra" if "bufRefs p' ra = Some r \<and> bufRefs p' ra' = Some r' \<and> bufp r = Some s \<and> bufp r' = Some s"
      for ra' r r' s
      using that pools_okD(2) [OF k(1)] by blast
  qed (rule f)+
qed

definition sample_pools :: pools where
  "sample_pools = the (getBuf empty_pools 2 0 0)"

theorem frame_bytes_stable_witness:
  "\<exists>p2. fill sample_pools 0 [7, 9] = Some p2 \<and> bufRef_Bytes p2 0 = Some [7, 9]"
proof -
  have "getBuf empty_pools (int (length [7, 9 :: byte])) 0 0 = Some sample_pools"
    by (simp add: sample_pools_def getBuf_def refPool_Get_def bufPools_Get_def empty_pools_def
        pickBufClass_def bufSizes_def)
  then show ?thesis
    using frame_bytes_stable [of empty_pools "[7, 9]" 0 0 sample_pools] by auto
qed

fun retain_n :: "nat \<Rightarrow> pools \<Rightarrow> nat \<Rightarrow> pools option" where
  "retain_n 0 p ra = Some p"
| "retain_n (Suc k) p ra = do { p1 \<leftarrow> retain p ra; retain_n k p1 ra }"

fun release_n :: "nat \<Rightarrow> pools \<Rightarrow> nat \<Rightarrow> pools option" where
  "release_n 0 p ra = Some p"
| "release_n (Suc k) p ra = do { p1 \<leftarrow> release p (Some ra); release_n k p1 ra }"

lemma retain_n_eq:
  "bufRefs p ra = Some r \<Longrightarrow>
   retain_n k p ra = Some (p\<lparr>bufRefs := (bufRefs p)(ra \<mapsto> r\<lparr>r_refs := r_refs r + of_nat k\<rparr>)\<rparr>)"
  by (induction k arbitrary: p r) (auto simp: retain_def fun_upd_idem add.assoc)

lemma release_n_eq:
  "bufRefs p ra = Some r \<Longrightarrow> k < unat (r_refs r) \<Longrightarrow>
   release_n k p ra = Some (p\<lparr>bufRefs := (bufRefs p)(ra \<mapsto> r\<lparr>r_refs := r_refs r - of_nat k\<rparr>)\<rparr>)"
proof (induction k arbitrary: p r)
  case (Suc k)
  have "r_refs r \<noteq> 0" "unat (r_refs r) \<noteq> 1" using Suc.prems by auto
  then have "r_refs r - 1 \<noteq> 0" "unat (r_refs r - 1) = unat (r_refs r) - 1"
    by (auto simp: unat_minus_one)
  then show ?case
    using Suc.IH [of "p\<lparr>bufRefs := (bufRefs p)(ra \<mapsto> r\<lparr>r_refs := r_refs r - 1\<rparr>)\<rparr>" "r\<lparr>r_refs := r_refs r - 1\<rparr>"]
      Suc.prems by (simp add: release_def Let_def diff_diff_eq cong: if_cong)
qed (simp add: fun_upd_idem)

lemma unat_count:
  assumes "k + 1 < 2 ^ 32"
  shows "unat (1 + of_nat k :: u32) = k + 1"
proof -
  have "unat (of_nat (Suc k) :: u32) = Suc k mod 2 ^ 32" by (subst unat_of_nat) simp
  then show ?thesis using assms by (simp del: of_nat_Suc add: of_nat_Suc [symmetric])
qed

text \<open>Reference counts balance: a buffer just obtained, retained \<open>k\<close> times (short of the
  32-bit counter wrapping) and released \<open>k\<close> times is still held; the next release, and no earlier
  one, returns the header and its slab to their pools.\<close>

lemma refcount_balance:
  assumes "pools_ok p" and "0 \<le> n" and "getBuf p n ra sa = Some p1" and "k + 1 < 2 ^ 32"
  shows "\<exists>p2 p3 p4. retain_n k p1 ra = Some p2 \<and> release_n k p2 ra = Some p3 \<and> held p3 ra \<and>
    release p3 (Some ra) = Some p4 \<and> \<not> held p4 ra \<and> ra \<in> set (refPool p4) \<and>
    (n \<le> 64 * 1024 \<longrightarrow> sa \<in> set (bufPools p4 (nat (pickBufClass n))))"
proof -
  obtain r where r: "bufRefs p1 ra = Some r" "r_refs r = 1" "pools_ok p1" "r_n r = n"
    using getBuf_ok [OF assms(1-3)] by blast
  have ok: "ref_ok p1 r" using pools_okD(1) [OF r(3,1)] .
  have bp: "bufp r = Some sa \<and> r_class r = pickBufClass n" if "n \<le> 64 * 1024"
    using assms(3) that r(1) pickBufClass_cases [of n]
    by (auto simp: getBuf_def Let_def split: Option.bind_splits if_splits)
  have u: "unat (1 + of_nat k :: u32) = k + 1" by (rule unat_count [OF assms(4)])
  let ?q = "p1\<lparr>bufRefs := (bufRefs p1)(ra \<mapsto> r\<lparr>r_refs := 1 + of_nat k\<rparr>)\<rparr>"
  have 1: "retain_n k p1 ra = Some ?q" using retain_n_eq [OF r(1), of k] r(2) by simp
  have 2: "release_n k ?q ra = Some p1"
    using release_n_eq [of ?q ra "r\<lparr>r_refs := 1 + of_nat k\<rparr>" k] u r(1,2)
    by (cases r) (simp add: fun_upd_idem)
  obtain p4 where 3: "release p1 (Some ra) = Some p4" "\<not> held p4 ra" "ra \<in> set (refPool p4)"
    "n \<le> 64 * 1024 \<longrightarrow> sa \<in> set (bufPools p4 (nat (pickBufClass n)))"
    using r(1,2) ok bp by (fastforce simp: release_def Let_def held_def ref_ok_def split: option.splits)
  show ?thesis using 1 2 3 r by (auto simp: held_def)
qed

end
