(* ===== verification/Zap_Codec.thy ===== *)
theory Zap_Codec
  imports Zap_Builder Zap_Bufpool "HOL-Library.Sublist"
begin

text \<open>
  Framing of a node's connections: the length-prefixed frames of \<open>src/node.go\<close>
  (\<open>writeMessage\<close>, \<open>writeCorrelated\<close>, \<open>readMessageRaw\<close>, \<open>readMessageRawPooled\<close>, \<open>readMessage\<close>)
  and the codecs of \<open>src/node_codec.go\<close> (NodeID handshake message, correlation header). A
  connection is the bytes still to be received, the bytes sent, and whether it is closed; a read
  blocks until its bytes are there or the peer closes, so the receive side is the whole byte
  string the peer will send before closing. The interface \<open>frame_stream\<close> states what a framing
  owes its reader and proves, once for every framing, that a stream cut at any point reads back
  as a prefix of the frames written.
\<close>

section \<open>Connections\<close>

datatype io_error = EOF | ErrUnexpectedEOF | ErrClosed | MessageTooLarge | ErrParse zap_error

record netConn =
  nc_in :: bytes
  nc_out :: bytes
  nc_closed :: bool
  nc_tcp :: bool

text \<open>\<open>io.ReadFull\<close> of a buffer of \<open>n\<close> bytes.\<close>

definition ReadFull :: "bytes \<Rightarrow> nat \<Rightarrow> io_error + (bytes \<times> bytes)" where
  "ReadFull s n =
     (if n \<le> length s then Inr (take n s, drop n s)
      else if s = [] then Inl EOF else Inl ErrUnexpectedEOF)"

definition conn_Write :: "netConn \<Rightarrow> bytes \<Rightarrow> io_error + netConn" where
  "conn_Write c bs = (if nc_closed c then Inl ErrClosed else Inr (c\<lparr>nc_out := nc_out c @ bs\<rparr>))"

definition conn_Close :: "netConn \<Rightarrow> netConn" where
  "conn_Close c = c\<lparr>nc_closed := True\<rparr>"

section \<open>Frames\<close>

definition maxMessage :: nat where "maxMessage = 10 * 1024 * 1024"

definition writeMessage :: "netConn \<Rightarrow> bytes \<Rightarrow> io_error + netConn" where
  "writeMessage w data =
     (let lenBuf = le32 (of_nat (length data)) in
      if nc_tcp w then conn_Write w (lenBuf @ data)
      else bindE (conn_Write w lenBuf) (\<lambda>w1. conn_Write w1 data))"

definition correlatedHeaderSize :: nat where "correlatedHeaderSize = 8"

definition writeCorrelated :: "netConn \<Rightarrow> u32 \<Rightarrow> u32 \<Rightarrow> bytes \<Rightarrow> io_error + netConn" where
  "writeCorrelated w reqID flag body =
     (let hdr = le32 (of_nat (correlatedHeaderSize + length body)) @ le32 reqID @ le32 flag in
      if nc_tcp w then conn_Write w (hdr @ body)
      else bindE (conn_Write w hdr) (\<lambda>w1. if body = [] then Inr w1 else conn_Write w1 body))"

definition readMessageRaw :: "bytes \<Rightarrow> io_error + (bytes \<times> bytes)" where
  "readMessageRaw s =
     bindE (ReadFull s 4) (\<lambda>(lenBuf, s1).
       let len = u32_le lenBuf in
       if maxMessage < unat len then Inl MessageTooLarge
       else ReadFull s1 (unat len))"

definition readMessage :: "bytes \<Rightarrow> io_error + (Message \<times> bytes)" where
  "readMessage s =
     bindE (readMessageRaw s) (\<lambda>(data, s1).
       case Parse data of Inl e \<Rightarrow> Inl (ErrParse e) | Inr m \<Rightarrow> Inr (m, s1))"

text \<open>
  The pooled read threads the buffer store; \<open>ra\<close> and \<open>sa\<close> are the addresses the pools hand out.
  A short read still fills what arrived and then releases the buffer. \<^term>\<open>None\<close> is a panic, or
  an address the pools cannot hand out.
\<close>

definition readMessageRawPooled ::
  "pools \<Rightarrow> bytes \<Rightarrow> nat \<Rightarrow> nat \<Rightarrow> (pools \<times> (io_error + (nat \<times> bytes))) option" where
  "readMessageRawPooled p s ra sa =
     (case ReadFull s 4 of
        Inl e \<Rightarrow> Some (p, Inl e)
      | Inr (lenBuf, s1) \<Rightarrow>
          let len = unat (u32_le lenBuf) in
          if maxMessage < len then Some (p, Inl MessageTooLarge)
          else do {
            p1 \<leftarrow> getBuf p (int len) ra sa;
            case ReadFull s1 len of
              Inr (data, s2) \<Rightarrow> do { p2 \<leftarrow> fill p1 ra data; Some (p2, Inr (ra, s2)) }
            | Inl e \<Rightarrow> do {
                p2 \<leftarrow> fill p1 ra s1;
                p3 \<leftarrow> release p2 (Some ra);
                Some (p3, Inl e) } })"

section \<open>NodeID handshake message\<close>

definition maxNodeIDLen :: int where "maxNodeIDLen = 60"

fun set_id_bytes :: "Builder \<Rightarrow> ObjectBuilder \<Rightarrow> int \<Rightarrow> bytes \<Rightarrow> Builder option" where
  "set_id_bytes b obj i [] = Some b"
| "set_id_bytes b obj i (c # cs) = do { b1 \<leftarrow> SetUint8 b obj i c; set_id_bytes b1 obj (i + 1) cs }"

definition EncodeNodeIDHandshake :: "bytes \<Rightarrow> bytes option" where
  "EncodeNodeIDHandshake nodeID = do {
     let b = NewBuilder 128;
     (b1, obj) \<leftarrow> StartObject b 64;
     let n = min (length nodeID) (nat maxNodeIDLen);
     b2 \<leftarrow> set_id_bytes b1 obj 0 (take n nodeID);
     b3 \<leftarrow> SetUint32 b2 obj maxNodeIDLen (of_nat n);
     let (b4, _) = FinishAsRoot b3 obj;
     (b5, out) \<leftarrow> Builder_Finish b4;
     Some out }"

fun read_id_bytes :: "Object \<Rightarrow> nat \<Rightarrow> int \<Rightarrow> bytes option" where
  "read_id_bytes root 0 i = Some []"
| "read_id_bytes root (Suc k) i = do {
     c \<leftarrow> Object_Uint8 root i;
     cs \<leftarrow> read_id_bytes root k (i + 1);
     Some (c # cs) }"

definition DecodeNodeIDHandshake :: "bytes \<Rightarrow> (bytes \<times> bool) option" where
  "DecodeNodeIDHandshake data =
     (case Parse data of
        Inl e \<Rightarrow> Some ([], False)
      | Inr msg \<Rightarrow> do {
          root \<leftarrow> Message_Root msg;
          idLen \<leftarrow> Object_Uint32 root maxNodeIDLen;
          if idLen = 0 \<or> maxNodeIDLen < uint idLen then Some ([], False)
          else do {
            idBytes \<leftarrow> read_id_bytes root (unat idLen) 0;
            Some (idBytes, True) } })"

section \<open>Correlation header\<close>

definition ReqFlagReq :: u32 where "ReqFlagReq = 1"
definition ReqFlagResp :: u32 where "ReqFlagResp = 2"

definition WrapCorrelated :: "u32 \<Rightarrow> u32 \<Rightarrow> bytes \<Rightarrow> bytes" where
  "WrapCorrelated reqID flag body = le32 reqID @ le32 flag @ body"

definition UnwrapCorrelated :: "bytes \<Rightarrow> u32 \<times> u32 \<times> bytes option \<times> bool" where
  "UnwrapCorrelated data =
     (if length data < correlatedHeaderSize then (0, 0, None, False)
      else
        let reqID = u32_le (take 4 data);
            flag = u32_le (take 4 (drop 4 data)) in
        if flag \<noteq> ReqFlagReq \<and> flag \<noteq> ReqFlagResp then (0, 0, None, False)
        else (reqID, flag, Some (drop correlatedHeaderSize data), True))"

definition makeCorrelatedFrame :: "u32 \<Rightarrow> u32 \<Rightarrow> bytes \<Rightarrow> bytes" where
  "makeCorrelatedFrame reqID flag body = le32 reqID @ le32 flag @ body"

section \<open>Streams of frames\<close>

text \<open>A reader that takes frames off a stream until the first error; the fuel bounds the number of
  frames, and every frame consumes at least one byte.\<close>

fun read_frames :: "(bytes \<Rightarrow> 'e + ('a \<times> bytes)) \<Rightarrow> nat \<Rightarrow> bytes \<Rightarrow> 'a list" where
  "read_frames rd 0 s = []"
| "read_frames rd (Suc k) s =
     (case rd s of Inl e \<Rightarrow> [] | Inr (x, s1) \<Rightarrow> x # read_frames rd k s1)"

locale frame_stream =
  fixes wr :: "'a \<Rightarrow> bytes"
    and rd :: "bytes \<Rightarrow> 'e + ('a \<times> bytes)"
    and fits :: "'a \<Rightarrow> bool"
  assumes rd_wr: "fits x \<Longrightarrow> rd (wr x @ s) = Inr (x, s)"
    and rd_cut: "fits x \<Longrightarrow> prefix s (wr x) \<Longrightarrow> s \<noteq> wr x \<Longrightarrow> \<exists>e. rd s = Inl e"
    and rd_empty: "\<exists>e. rd [] = Inl e"
begin

lemma wr_nonempty: "fits x \<Longrightarrow> wr x \<noteq> []"
  using rd_wr [of x "[]"] rd_empty by auto

lemma wr_inj: "fits x \<Longrightarrow> fits y \<Longrightarrow> wr x = wr y \<Longrightarrow> x = y"
  using rd_wr [of x "[]"] rd_wr [of y "[]"] by simp

lemma length_frames: "\<forall>x \<in> set xs. fits x \<Longrightarrow> length xs \<le> length (concat (map wr xs))"
proof (induction xs)
  case (Cons x xs)
  then show ?case using wr_nonempty [of x] by (cases "wr x") auto
qed simp

lemma read_exact:
  "\<forall>x \<in> set xs. fits x \<Longrightarrow> length xs \<le> k \<Longrightarrow> read_frames rd k (concat (map wr xs)) = xs"
proof (induction xs arbitrary: k)
  case Nil
  then show ?case using rd_empty by (cases k) auto
next
  case (Cons x xs)
  then show ?case by (cases k) (auto simp: rd_wr)
qed

lemma read_cut:
  "\<forall>x \<in> set xs. fits x \<Longrightarrow> prefix s (concat (map wr xs)) \<Longrightarrow> prefix (read_frames rd k s) xs"
proof (induction xs arbitrary: k s)
  case Nil
  then show ?case using rd_empty by (cases k) auto
next
  case (Cons x xs)
  show ?case
  proof (cases k)
    case (Suc j)
    consider "prefix s (wr x)" "s \<noteq> wr x" | t where "s = wr x @ t" "prefix t (concat (map wr xs))"
      using Cons.prems(2) by (cases "s = wr x") (auto simp: prefix_append)
    then show ?thesis
    proof cases
      case 1
      then show ?thesis using rd_cut [of x s] Cons.prems(1) Suc by auto
    next
      case 2
      then show ?thesis using Cons Suc by (simp add: rd_wr)
    qed
  qed simp
qed

end

text \<open>The node's frames: what \<open>writeMessage\<close> puts on the wire, whichever of its two branches runs.\<close>

definition node_frame :: "bytes \<Rightarrow> bytes" where
  "node_frame data = le32 (of_nat (length data)) @ data"

lemma writeMessage_eq:
  "writeMessage w data =
     (if nc_closed w then Inl ErrClosed else Inr (w\<lparr>nc_out := nc_out w @ node_frame data\<rparr>))"
  by (auto simp: writeMessage_def Let_def conn_Write_def node_frame_def)

lemma writeCorrelated_eq:
  "writeCorrelated w reqID flag body =
     (if nc_closed w then Inl ErrClosed
      else Inr (w\<lparr>nc_out := nc_out w @ node_frame (WrapCorrelated reqID flag body)\<rparr>))"
  by (auto simp: writeCorrelated_def Let_def conn_Write_def node_frame_def WrapCorrelated_def
      correlatedHeaderSize_def)

definition message_fits :: "bytes \<Rightarrow> bool" where
  "message_fits data \<longleftrightarrow> length data \<le> maxMessage"

lemma unat_length:
  assumes "n < 2 ^ 32"
  shows "unat (of_nat n :: u32) = n"
  using assms by (simp add: unat_of_nat)

lemma ReadFull_append [simp]: "length x = n \<Longrightarrow> ReadFull (x @ s) n = Inr (x, s)"
  by (simp add: ReadFull_def)

lemma ReadFull_short: "length s < n \<Longrightarrow> \<exists>e. ReadFull s n = Inl e"
  by (simp add: ReadFull_def)

lemma prefix_past:
  assumes "prefix s (a @ b)" and "length a \<le> length s"
  shows "\<exists>t. s = a @ t \<and> prefix t b"
  using assms prefix_length_prefix [of a "a @ b" s] by (auto simp: prefix_def)

interpretation node: frame_stream node_frame readMessageRaw message_fits
proof unfold_locales
  show "readMessageRaw (node_frame x @ s) = Inr (x, s)" if "message_fits x" for x s
  proof -
    have "unat (of_nat (length x) :: u32) = length x"
      using that by (intro unat_length) (simp add: message_fits_def maxMessage_def)
    then show ?thesis using that by (simp add: readMessageRaw_def node_frame_def message_fits_def)
  qed
  show "\<exists>e. readMessageRaw s = Inl e" if x: "message_fits x" "prefix s (node_frame x)" "s \<noteq> node_frame x" for x s
  proof (cases "length s < 4")
    case True
    then show ?thesis using ReadFull_short [OF True] by (auto simp: readMessageRaw_def)
  next
    case False
    then obtain t where t: "s = le32 (of_nat (length x)) @ t" "prefix t x" "t \<noteq> x"
      using x(2,3) prefix_past [of s "le32 (of_nat (length x))" x] by (auto simp: node_frame_def)
    then have "length t < length x" using prefix_length_less [of t x] by (simp add: strict_prefix_def)
    moreover have "unat (of_nat (length x) :: u32) = length x"
      using x(1) by (intro unat_length) (simp add: message_fits_def maxMessage_def)
    ultimately show ?thesis
      using ReadFull_short [of t "length x"] x(1) by (simp add: t(1) readMessageRaw_def message_fits_def)
  qed
  show "\<exists>e. readMessageRaw [] = Inl e" by (simp add: readMessageRaw_def ReadFull_def)
qed

fun writeMessages :: "netConn \<Rightarrow> bytes list \<Rightarrow> io_error + netConn" where
  "writeMessages w [] = Inr w"
| "writeMessages w (m # ms) = bindE (writeMessage w m) (\<lambda>w1. writeMessages w1 ms)"

lemma writeMessages_eq:
  "\<not> nc_closed w \<Longrightarrow> writeMessages w ms = Inr (w\<lparr>nc_out := nc_out w @ concat (map node_frame ms)\<rparr>)"
  by (induction ms arbitrary: w) (simp_all add: writeMessage_eq)

text \<open>A connection is a reliable sequence of messages: whatever messages of at most 10 MiB a
  peer writes with \<open>writeMessage\<close>, the receiver reads back exactly that sequence when the whole
  stream arrives, and a prefix of it when the connection is cut anywhere, also inside a frame.\<close>

lemma frames_in_order:
  assumes "\<forall>m \<in> set ms. message_fits m" and "\<not> nc_closed w" and "nc_out w = []"
  shows "\<exists>w'. writeMessages w ms = Inr w' \<and>
    read_frames readMessageRaw (length (nc_out w')) (nc_out w') = ms \<and>
    (\<forall>s k. prefix s (nc_out w') \<longrightarrow> prefix (read_frames readMessageRaw k s) ms)"
  using node.read_exact [OF assms(1) node.length_frames [OF assms(1)]] node.read_cut [OF assms(1)] assms(2,3)
  by (simp add: writeMessages_eq)

text \<open>The scatter-gather writer is the plain one: \<open>writeCorrelated\<close> has the same effect on every
  connection as \<open>writeMessage\<close> of the frame built by \<open>WrapCorrelated\<close> (and by
  \<open>makeCorrelatedFrame\<close>), and \<open>UnwrapCorrelated\<close> recovers request id, flag and body.\<close>

lemma correlated_agrees:
  "writeCorrelated w reqID flag body = writeMessage w (WrapCorrelated reqID flag body) \<and>
   makeCorrelatedFrame reqID flag body = WrapCorrelated reqID flag body \<and>
   UnwrapCorrelated (WrapCorrelated reqID flag body) =
     (if flag = ReqFlagReq \<or> flag = ReqFlagResp then (reqID, flag, Some body, True) else (0, 0, None, False))"
  by (simp add: writeCorrelated_eq writeMessage_eq makeCorrelatedFrame_def UnwrapCorrelated_def
      WrapCorrelated_def correlatedHeaderSize_def)

section \<open>NodeID handshake\<close>

fun id_ops :: "int \<Rightarrow> bytes \<Rightarrow> field_op list" where
  "id_ops i [] = []"
| "id_ops i (c # cs) = OpUint8 i c # id_ops (i + 1) cs"

definition handshake_ops :: "bytes \<Rightarrow> field_op list" where
  "handshake_ops nodeID =
     (let n = min (length nodeID) 60 in id_ops 0 (take n nodeID) @ [OpUint32 60 (of_nat n)])"

lemma set_id_bytes_run: "set_id_bytes b ob i cs = run_ops b ob (id_ops i cs)"
  by (induction cs arbitrary: b i) simp_all

lemma run_ops_append: "run_ops b ob (xs @ ys) = do { b1 \<leftarrow> run_ops b ob xs; run_ops b1 ob ys }"
  by (induction xs arbitrary: b) (simp_all add: bind_assoc)

lemma Encode_build:
  "EncodeNodeIDHandshake nodeID = map_option snd (build_root (NewBuilder 128) 64 (handshake_ops nodeID))"
  by (simp add: EncodeNodeIDHandshake_def build_root_def handshake_ops_def Let_def maxNodeIDLen_def
      set_id_bytes_run run_ops_append FinishAsRoot_def map_conv_bind_option bind_assoc o_def case_prod_unfold)

lemma id_ops_mem: "op \<in> set (id_ops i cs) \<Longrightarrow>
    \<exists>k < length cs. op = OpUint8 (i + int k) (cs ! k)"
proof (induction cs arbitrary: i)
  case (Cons c cs)
  then consider "op = OpUint8 i c" | k where "k < length cs" "op = OpUint8 (i + 1 + int k) (cs ! k)" by auto
  then show ?case
  proof cases
    case 2
    then show ?thesis by (intro exI [of _ "Suc k"]) (simp add: algebra_simps)
  qed (auto intro: exI [of _ 0])
qed simp

lemma id_ops_disjoint: "sorted_wrt ops_disjoint (id_ops i cs)"
proof (induction cs arbitrary: i)
  case (Cons c cs)
  then show ?case by (auto simp: ops_disjoint_def dest: id_ops_mem)
qed simp

lemma id_ops_tail: "sum_list (map (length \<circ> op_tail) (id_ops i cs)) = 0"
  by (induction cs arbitrary: i) simp_all

lemma id_ops_reads:
  "\<forall>op \<in> set (id_ops i cs). field_reads o1 op \<Longrightarrow> read_id_bytes o1 (length cs) i = Some cs"
  by (induction cs arbitrary: i) simp_all

lemma parsed_root_ok:
  assumes "Parse data = Inr m"
  shows "\<exists>o1. Message_Root m = Some o1 \<and> obj_ok m o1"
  using Message_Root_parsed [OF assms] by (auto simp: obj_ok_def)

text \<open>NodeID handshake round trip: encoding a non-empty node id never fails, and decoding the
  message gives back the id, truncated to 60 bytes; decoding never panics, whatever it is fed.\<close>

lemma node_id_roundtrip:
  "(nodeID \<noteq> [] \<longrightarrow> (\<exists>out. EncodeNodeIDHandshake nodeID = Some out \<and>
      DecodeNodeIDHandshake out = Some (take 60 nodeID, True))) \<and>
   DecodeNodeIDHandshake data \<noteq> None"
proof (intro conjI impI)
  assume ne: "nodeID \<noteq> []"
  define n where "n = min (length nodeID) 60"
  have n: "0 < n" "n \<le> 60" "length (take n nodeID) = n" using ne by (auto simp: n_def)
  have u: "uint (of_nat n :: u32) = int n" "unat (of_nat n :: u32) = n"
    using n by (simp_all add: unat_length uint_int_unat)
  have ops: "handshake_ops nodeID = id_ops 0 (take n nodeID) @ [OpUint32 60 (of_nat n)]"
    by (simp add: handshake_ops_def n_def Let_def)
  have "\<forall>op \<in> set (handshake_ops nodeID). op_in 64 op \<and> target_ok 16 op"
    using n by (auto simp: ops op_in_def dest!: id_ops_mem)
  moreover have "sorted_wrt ops_disjoint (handshake_ops nodeID)"
    using n by (auto simp: ops sorted_wrt_append id_ops_disjoint ops_disjoint_def dest!: id_ops_mem)
  ultimately obtain b' out m o1 where b: "build_root (NewBuilder 128) 64 (handshake_ops nodeID) = Some (b', out)"
    "Parse out = Inr m" "Message_Root m = Some o1" "\<forall>op \<in> set (handshake_ops nodeID). field_reads o1 op"
    using build_root_spec [of "NewBuilder 128" 64 "handshake_ops nodeID"] by (auto simp: ops id_ops_tail)
  have "read_id_bytes o1 n 0 = Some (take n nodeID)"
    using id_ops_reads [of 0 "take n nodeID" o1] b(4) n(3) by (simp add: ops)
  moreover have "Object_Uint32 o1 60 = Some (of_nat n)" using b(4) by (simp add: ops)
  moreover have "(of_nat n :: u32) \<noteq> 0" using u(2) n(1) by (metis unat_0 less_irrefl)
  ultimately have "DecodeNodeIDHandshake out = Some (take n nodeID, True)"
    using b n u by (simp add: DecodeNodeIDHandshake_def maxNodeIDLen_def)
  moreover have "take n nodeID = take 60 nodeID" by (simp add: n_def min_def)
  ultimately show "\<exists>out. EncodeNodeIDHandshake nodeID = Some out \<and>
      DecodeNodeIDHandshake out = Some (take 60 nodeID, True)"
    using b(1) by (simp add: Encode_build)
next
  have "read_id_bytes o1 k i \<noteq> None" if "obj_ok m o1" "0 \<le> i" for m o1 k i
    using that
  proof (induction k arbitrary: i)
    case (Suc k)
    obtain c where "Object_Uint8 o1 i = Some c" using obj_scalar_total(1) [OF Suc.prems] by blast
    moreover obtain cs where "read_id_bytes o1 k (i + 1) = Some cs" using Suc.IH [of "i + 1"] Suc.prems by auto
    ultimately show ?case by simp
  qed simp
  note read = this
  show "DecodeNodeIDHandshake data \<noteq> None"
  proof (cases "Parse data")
    case (Inr m)
    then obtain o1 where o1: "Message_Root m = Some o1" "obj_ok m o1" using parsed_root_ok by blast
    obtain w where w: "Object_Uint32 o1 60 = Some w" using obj_scalar_total(3) [OF o1(2), of 60] by auto
    obtain cs where "read_id_bytes o1 (unat w) 0 = Some cs" using read [OF o1(2), of 0 "unat w"] by auto
    then show ?thesis
      using Inr o1 w by (simp add: DecodeNodeIDHandshake_def maxNodeIDLen_def del: not_None_eq)
  qed (simp add: DecodeNodeIDHandshake_def)
qed

section \<open>Pooled reads\<close>

definition legal_pick :: "pools \<Rightarrow> nat \<Rightarrow> nat \<Rightarrow> bool" where
  "legal_pick p ra sa \<longleftrightarrow> (ra \<in> set (refPool p) \<or> bufRefs p ra = None) \<and> slabs p sa = None"

lemma getBuf_total:
  assumes "pools_ok p" and "legal_pick p ra sa"
  shows "getBuf p n ra sa \<noteq> None"
proof -
  obtain p1 r0 where "refPool_Get p ra = Some (p1, r0)" "slabs p1 = slabs p"
    using assms(2) pools_okD(7) [OF assms(1), of ra]
    by (cases "ra \<in> set (refPool p)") (auto simp: refPool_Get_def legal_pick_def)
  moreover from this(2) obtain p2 where "bufPools_Get p1 (nat (pickBufClass n)) sa = Some p2"
    using assms(2) by (cases "bufPools_Get p1 (nat (pickBufClass n)) sa")
      (auto simp: bufPools_Get_def legal_pick_def split: if_splits)
  ultimately show ?thesis by (simp add: getBuf_def Let_def)
qed

text \<open>What a pooled read that returns has done.\<close>

lemma pooled_read_inv:
  assumes ok: "pools_ok p" and rd: "readMessageRawPooled p s ra sa = Some (p', res)"
  shows "pools_ok p' \<and>
    (case readMessageRaw s of
       Inl e \<Rightarrow> res = Inl e \<and> (held p' ra \<longrightarrow> held p ra)
     | Inr (data, rest) \<Rightarrow> res = Inr (ra, rest) \<and> bufRef_Bytes p' ra = Some data \<and>
         (\<exists>r. bufRefs p' ra = Some r \<and> r_refs r = 1))"
proof (cases "ReadFull s 4")
  case (Inl e)
  then show ?thesis using assms by (auto simp: readMessageRawPooled_def readMessageRaw_def)
next
  case (Inr a)
  obtain lenBuf s1 where a: "a = (lenBuf, s1)" by force
  let ?len = "unat (u32_le lenBuf)"
  show ?thesis
  proof (cases "maxMessage < ?len")
    case True
    then show ?thesis using Inr a assms by (auto simp: readMessageRawPooled_def readMessageRaw_def Let_def)
  next
    case False
    then obtain p1 where g: "getBuf p (int ?len) ra sa = Some p1"
      using rd Inr a by (auto simp: readMessageRawPooled_def Let_def split: Option.bind_splits)
    obtain r where r: "pools_ok p1" "bufRefs p1 ra = Some r" "r_refs r = 1" "r_n r = int ?len" "ra \<notin> set (refPool p1)"
      using getBuf_ok [OF ok _ g] by auto
    note f = fill_ok [OF r(1,2) _ r(5)]
    show ?thesis
    proof (cases "?len \<le> length s1")
      case True
      then obtain p2 r' where "fill p1 ra (take ?len s1) = Some p2" "pools_ok p2" "bufRefs p2 ra = Some r'"
        "r_refs r' = 1" "bufRef_Bytes p2 ra = Some (take ?len s1)"
        using f [of "take ?len s1"] r by auto
      then show ?thesis
        using rd Inr a True False g by (auto simp: readMessageRawPooled_def readMessageRaw_def Let_def ReadFull_def)
    next
      case short: False
      then have "int (length s1) \<le> r_n r" using r(4) by linarith
      from f [OF this] obtain p2 r' where p2: "fill p1 ra s1 = Some p2" "pools_ok p2" "bufRefs p2 ra = Some r'"
        "r_refs r' = 1"
        using r(3) by auto
      then obtain p3 where p3: "release p2 (Some ra) = Some p3" "pools_ok p3"
        using release_ok [OF p2(2), of ra] by (auto simp: held_def)
      moreover have "\<not> held p3 ra" using release_count [OF p2(3) p3(1)] p2(4) by (auto simp: held_def)
      moreover obtain e where "ReadFull s1 ?len = Inl e" using ReadFull_short [of s1 ?len] short by auto
      ultimately show ?thesis
        using rd Inr a False g p2 by (simp add: readMessageRawPooled_def readMessageRaw_def Let_def)
    qed
  qed
qed

lemma pooled_read_total:
  assumes ok: "pools_ok p" and pick: "legal_pick p ra sa"
  shows "\<exists>p' res. readMessageRawPooled p s ra sa = Some (p', res)"
proof (cases "ReadFull s 4")
  case (Inr a)
  obtain lenBuf s1 where a: "a = (lenBuf, s1)" by force
  let ?len = "unat (u32_le lenBuf)"
  obtain p1 where g: "getBuf p (int ?len) ra sa = Some p1" using getBuf_total [OF assms] by blast
  obtain r where r: "pools_ok p1" "bufRefs p1 ra = Some r" "r_refs r = 1" "r_n r = int ?len" "ra \<notin> set (refPool p1)"
    using getBuf_ok [OF ok _ g] by auto
  have "\<exists>p2 r'. fill p1 ra d = Some p2 \<and> pools_ok p2 \<and> held p2 ra" if "length d \<le> ?len" for d
    using fill_ok [OF r(1,2) _ r(5), of d] that r(3,4) by (fastforce simp: held_def)
  from this [of "take ?len s1"] this [of s1] show ?thesis
    using Inr a g release_ok
    by (fastforce simp: readMessageRawPooled_def Let_def ReadFull_def split: if_splits)
qed (simp add: readMessageRawPooled_def)



end
