(* ===== verification/Zap_Node.thy ===== *)
theory Zap_Node
  imports Zap_Codec
begin

text \<open>
  The node of \<open>src/node.go\<close> over its TCP and unix transports: the dispatch loop with its
  reference counting, \<open>Call\<close> with its correlation table, and the connection table shared by the
  accept, dial, discovery and shutdown paths. A handler is application code: an argument, whose
  outcome is a reply, an error or a panic. Goroutines interleave at the points where the code
  takes a lock: what runs under one lock is one definition.
\<close>

section \<open>State\<close>

datatype handler_result = HOk "Message option" | HErr | HPanic

type_synonym Handler = "bytes \<Rightarrow> Message \<Rightarrow> handler_result"

datatype node_error = PeerNotFound | DialFailed | ConnErr io_error | InvalidHandshake | PeerIDMismatch

text \<open>A response channel has capacity 1: it is empty or holds one message.\<close>

record Conn =
  c_NodeID :: bytes
  c_Addr :: bytes
  c_conn :: netConn
  c_reqID :: u32
  c_pending :: "u32 \<rightharpoonup> Message option"

record Node =
  n_nodeID :: bytes
  n_conns :: "bytes \<rightharpoonup> nat"
  n_store :: "nat \<rightharpoonup> Conn"
  n_handlers :: "u16 \<rightharpoonup> Handler"
  n_done :: bool
  n_discovery :: "(bytes \<times> bytes) list option"

definition NewNode :: "bytes \<Rightarrow> Node" where
  "NewNode nodeID = \<lparr>n_nodeID = nodeID, n_conns = Map.empty, n_store = Map.empty,
     n_handlers = Map.empty, n_done = False, n_discovery = None\<rparr>"

definition newConn :: "bytes \<Rightarrow> bytes \<Rightarrow> netConn \<Rightarrow> Conn" where
  "newConn peerID addr nc =
     \<lparr>c_NodeID = peerID, c_Addr = addr, c_conn = nc, c_reqID = 0, c_pending = Map.empty\<rparr>"

definition Node_Handle :: "Node \<Rightarrow> u16 \<Rightarrow> Handler \<Rightarrow> Node" where
  "Node_Handle n msgType h = n\<lparr>n_handlers := (n_handlers n)(msgType \<mapsto> h)\<rparr>"

definition Peers :: "Node \<Rightarrow> bytes set" where
  "Peers n = dom (n_conns n)"

section \<open>Dispatch\<close>

definition safeHandle :: "Handler \<Rightarrow> bytes \<Rightarrow> Message \<Rightarrow> Message option \<times> bool" where
  "safeHandle handler peerID msg =
     (case handler peerID msg of HOk r \<Rightarrow> (r, True) | HErr \<Rightarrow> (None, False) | HPanic \<Rightarrow> (None, False))"

text \<open>Delivery of a response under \<open>pendMu\<close>: a non-blocking send on the waiter's channel.\<close>

definition deliver :: "(u32 \<rightharpoonup> Message option) \<Rightarrow> u32 \<Rightarrow> Message \<Rightarrow> (u32 \<rightharpoonup> Message option) \<times> bool" where
  "deliver pending reqID msg =
     (case pending reqID of
        Some None \<Rightarrow> (pending(reqID \<mapsto> Some msg), True)
      | Some (Some m) \<Rightarrow> (pending, False)
      | None \<Rightarrow> (pending, False))"

text \<open>The body of the dispatch loop for the frame held by \<open>ra\<close>. The last component says whether the
  loop goes on.\<close>

definition dispatch_response :: "pools \<Rightarrow> Conn \<Rightarrow> nat \<Rightarrow> u32 \<Rightarrow> bytes \<Rightarrow> (pools \<times> Conn \<times> bool) option" where
  "dispatch_response p conn ra reqID body = do {
     (p1, conn1) \<leftarrow> (case Parse body of
         Inl e \<Rightarrow> Some (p, conn)
       | Inr msg0 \<Rightarrow> do {
           let msg = attachToMessage msg0 ra;
           p1 \<leftarrow> retain p ra;
           let (pending, ok) = deliver (c_pending conn) reqID msg;
           let conn1 = conn\<lparr>c_pending := pending\<rparr>;
           if ok then Some (p1, conn1)
           else map_option (\<lambda>(p2, _). (p2, conn1)) (Message_Release p1 msg) });
     p2 \<leftarrow> release p1 (Some ra);
     Some (p2, conn1, True) }"

definition dispatch_handle ::
  "(u16 \<rightharpoonup> Handler) \<Rightarrow> bytes \<Rightarrow> (netConn \<Rightarrow> bytes \<Rightarrow> io_error + netConn) \<Rightarrow>
   pools \<Rightarrow> Conn \<Rightarrow> nat \<Rightarrow> bytes \<Rightarrow> (pools \<times> Conn \<times> bool) option" where
  "dispatch_handle handlers peerID wrf p conn ra body =
     (case Parse body of
        Inl e \<Rightarrow> do { p1 \<leftarrow> release p (Some ra); Some (p1, conn, True) }
      | Inr msg \<Rightarrow> do {
          flags \<leftarrow> Message_Flags msg;
          case handlers (drop_bit 8 flags) of
            None \<Rightarrow> do { p1 \<leftarrow> release p (Some ra); Some (p1, conn, True) }
          | Some handler \<Rightarrow>
              (case safeHandle handler peerID msg of
                 (_, False) \<Rightarrow> do { p1 \<leftarrow> release p (Some ra); Some (p1, conn, True) }
               | (None, True) \<Rightarrow> do { p1 \<leftarrow> release p (Some ra); Some (p1, conn, True) }
               | (Some resp, True) \<Rightarrow>
                   (case wrf (c_conn conn) (Message_Bytes resp) of
                      Inl e \<Rightarrow> do { p1 \<leftarrow> release p (Some ra); Some (p1, conn, False) }
                    | Inr nc \<Rightarrow> do { p1 \<leftarrow> release p (Some ra); Some (p1, conn\<lparr>c_conn := nc\<rparr>, True) })) })"

definition dispatch_frame ::
  "(u16 \<rightharpoonup> Handler) \<Rightarrow> bytes \<Rightarrow> pools \<Rightarrow> Conn \<Rightarrow> nat \<Rightarrow> (pools \<times> Conn \<times> bool) option" where
  "dispatch_frame handlers peerID p conn ra = do {
     data \<leftarrow> bufRef_Bytes p ra;
     case UnwrapCorrelated data of
       (reqID, flag, Some body, True) \<Rightarrow>
         if flag = ReqFlagResp then dispatch_response p conn ra reqID body
         else dispatch_handle handlers peerID (\<lambda>w b. writeCorrelated w reqID ReqFlagResp b) p conn ra body
     | _ \<Rightarrow> dispatch_handle handlers peerID writeMessage p conn ra data }"

text \<open>
  One turn of \<open>dispatchLoop\<close>: a frame is read into a pooled buffer and dispatched. The loop ends
  when a read fails (stopping the node closes the connection, which is such a failure) or when the
  write of a reply fails.
\<close>

inductive dispatch_turn ::
  "(u16 \<rightharpoonup> Handler) \<Rightarrow> bytes \<Rightarrow> pools \<times> Conn \<Rightarrow> pools \<times> Conn \<times> bool \<Rightarrow> bool"
  for handlers :: "u16 \<rightharpoonup> Handler" and peerID :: bytes
where
  frame: "readMessageRawPooled p (nc_in (c_conn conn)) ra sa = Some (p1, Inr (ra, rest)) \<Longrightarrow>
    dispatch_frame handlers peerID p1 (conn\<lparr>c_conn := (c_conn conn)\<lparr>nc_in := rest\<rparr>\<rparr>) ra = Some (p2, conn2, go) \<Longrightarrow>
    dispatch_turn handlers peerID (p, conn) (p2, conn2, go)"
| read_error: "readMessageRawPooled p (nc_in (c_conn conn)) ra sa = Some (p1, Inl e) \<Longrightarrow>
    dispatch_turn handlers peerID (p, conn) (p1, conn, False)"

text \<open>The loop: turns until one says stop.\<close>

inductive dispatchLoop :: "(u16 \<rightharpoonup> Handler) \<Rightarrow> bytes \<Rightarrow> pools \<times> Conn \<Rightarrow> pools \<times> Conn \<Rightarrow> bool"
  for handlers :: "u16 \<rightharpoonup> Handler" and peerID :: bytes
where
  stop: "dispatch_turn handlers peerID s (p1, conn1, False) \<Longrightarrow> dispatchLoop handlers peerID s (p1, conn1)"
| step: "dispatch_turn handlers peerID s (p1, conn1, True) \<Longrightarrow>
    dispatchLoop handlers peerID (p1, conn1) s' \<Longrightarrow> dispatchLoop handlers peerID s s'"

section \<open>Call\<close>

definition Call_begin :: "Conn \<Rightarrow> Message \<Rightarrow> Conn \<times> (io_error + u32)" where
  "Call_begin conn msg =
     (let reqID = c_reqID conn + 1;
          conn1 = conn\<lparr>c_reqID := reqID, c_pending := (c_pending conn)(reqID \<mapsto> None)\<rparr> in
      case writeCorrelated (c_conn conn1) reqID ReqFlagReq (Message_Bytes msg) of
        Inl e \<Rightarrow> (conn1\<lparr>c_pending := (c_pending conn1)(reqID := None)\<rparr>, Inl e)
      | Inr nc \<Rightarrow> (conn1\<lparr>c_conn := nc\<rparr>, Inr reqID))"

text \<open>The waiter's \<open>select\<close>: the response if the channel holds one, otherwise (the context ended)
  nothing; the deferred function deletes the entry either way.\<close>

definition Call_end :: "Conn \<Rightarrow> u32 \<Rightarrow> Conn \<times> Message option" where
  "Call_end conn reqID =
     (conn\<lparr>c_pending := (c_pending conn)(reqID := None)\<rparr>, Option.bind (c_pending conn reqID) (\<lambda>c. c))"

definition Conn_Send :: "Conn \<Rightarrow> Message \<Rightarrow> io_error + Conn" where
  "Conn_Send c msg = map_sum id (\<lambda>nc. c\<lparr>c_conn := nc\<rparr>) (writeMessage (c_conn c) (Message_Bytes msg))"

definition Conn_Recv :: "Conn \<Rightarrow> io_error + (Message \<times> Conn)" where
  "Conn_Recv c =
     map_sum id (\<lambda>(m, rest). (m, c\<lparr>c_conn := (c_conn c)\<lparr>nc_in := rest\<rparr>\<rparr>)) (readMessage (nc_in (c_conn c)))"

section \<open>The outbound receive loop\<close>

text \<open>The loop \<open>getOrConnect\<close> starts for a connection it dialled has its own frame body: responses are
  routed as in \<open>dispatchLoop\<close>, everything else goes to the handler and the handler's reply is
  dropped.\<close>

definition recv_frame ::
  "(u16 \<rightharpoonup> Handler) \<Rightarrow> bytes \<Rightarrow> pools \<Rightarrow> Conn \<Rightarrow> nat \<Rightarrow> (pools \<times> Conn \<times> bool) option" where
  "recv_frame handlers peerID p conn ra = do {
     data \<leftarrow> bufRef_Bytes p ra;
     if 8 \<le> length data \<and> u32_le (take 4 (drop 4 data)) = ReqFlagResp
     then dispatch_response p conn ra (u32_le (take 4 data)) (drop 8 data)
     else (case Parse data of
         Inl e \<Rightarrow> do { p1 \<leftarrow> release p (Some ra); Some (p1, conn, True) }
       | Inr msg \<Rightarrow> do {
           flags \<leftarrow> Message_Flags msg;
           let _ = map_option (\<lambda>handler. safeHandle handler peerID msg) (handlers (drop_bit 8 flags));
           p1 \<leftarrow> release p (Some ra);
           Some (p1, conn, True) }) }"

section \<open>The connection table\<close>

text \<open>
  \<open>handleConn\<close> in its two critical sections: the handshake with the first duplicate check, and the
  second check with the insertion. \<^term>\<open>None\<close> inside is a connection given up, the outer
  \<^term>\<open>None\<close> a panic. \<open>ca\<close> is the address of the new \<open>Conn\<close>.
\<close>

definition handleConn_hello :: "Node \<Rightarrow> netConn \<Rightarrow> (bytes \<times> netConn) option option" where
  "handleConn_hello n nc =
     (case readMessageRaw (nc_in nc) of
        Inl e \<Rightarrow> Some None
      | Inr (data, rest) \<Rightarrow> do {
          (peerID, _) \<leftarrow> DecodeNodeIDHandshake data;
          if n_conns n peerID \<noteq> None then Some None
          else do {
            hello \<leftarrow> EncodeNodeIDHandshake (n_nodeID n);
            Some (case writeMessage (nc\<lparr>nc_in := rest\<rparr>) hello of
                    Inl e \<Rightarrow> None | Inr nc1 \<Rightarrow> Some (peerID, nc1)) } })"

definition handleConn_register :: "Node \<Rightarrow> bytes \<Rightarrow> bytes \<Rightarrow> netConn \<Rightarrow> nat \<Rightarrow> Node option" where
  "handleConn_register n peerID addr nc ca =
     (if n_conns n peerID \<noteq> None then None
      else Some (n\<lparr>n_store := (n_store n)(ca \<mapsto> newConn peerID addr nc),
                   n_conns := (n_conns n)(peerID \<mapsto> ca)\<rparr>))"

text \<open>The deferred cleanup of every read loop.\<close>

definition conn_cleanup :: "Node \<Rightarrow> bytes \<Rightarrow> nat \<Rightarrow> Node" where
  "conn_cleanup n peerID ca =
     (let n1 = (if n_conns n peerID = Some ca then n\<lparr>n_conns := (n_conns n)(peerID := None)\<rparr> else n) in
      n1\<lparr>n_store := (n_store n1)(ca := map_option (\<lambda>c. c\<lparr>c_conn := conn_Close (c_conn c)\<rparr>) (n_store n1 ca))\<rparr>)"

text \<open>Dialling: \<open>dialed\<close> is the connection \<open>net.DialTimeout\<close> returned, if it did.\<close>

definition dial_handshake :: "bytes \<Rightarrow> netConn \<Rightarrow> (io_error + (bytes \<times> netConn)) option" where
  "dial_handshake nodeID nc = do {
     hello \<leftarrow> EncodeNodeIDHandshake nodeID;
     Some (bindE (writeMessage nc hello) (\<lambda>nc1.
       bindE (readMessageRaw (nc_in nc1)) (\<lambda>(data, rest). Inr (data, nc1\<lparr>nc_in := rest\<rparr>)))) }"

definition ConnectDirectID ::
  "Node \<Rightarrow> bytes \<Rightarrow> netConn option \<Rightarrow> nat \<Rightarrow> (Node \<times> (node_error + bytes)) option" where
  "ConnectDirectID n addr dialed ca =
     (case dialed of
        None \<Rightarrow> Some (n, Inl DialFailed)
      | Some nc \<Rightarrow> do {
          r \<leftarrow> dial_handshake (n_nodeID n) nc;
          case r of
            Inl e \<Rightarrow> Some (n, Inl (ConnErr e))
          | Inr (data, nc1) \<Rightarrow> do {
              (peerID, ok) \<leftarrow> DecodeNodeIDHandshake data;
              if \<not> ok then Some (n, Inl InvalidHandshake)
              else (case handleConn_register n peerID addr nc1 ca of
                      None \<Rightarrow> Some (n, Inr peerID)
                    | Some n1 \<Rightarrow> Some (n1, Inr peerID)) } })"

definition getOrConnect ::
  "Node \<Rightarrow> bytes \<Rightarrow> netConn option \<Rightarrow> nat \<Rightarrow> (Node \<times> (node_error + nat)) option" where
  "getOrConnect n peerID dialed ca =
     (case n_conns n peerID of
        Some c \<Rightarrow> Some (n, Inr c)
      | None \<Rightarrow>
          (case n_discovery n of
             None \<Rightarrow> Some (n, Inl PeerNotFound)
           | Some peers \<Rightarrow>
               (case find (\<lambda>pr. fst pr = peerID) peers of
                  None \<Rightarrow> Some (n, Inl PeerNotFound)
                | Some (_, addr) \<Rightarrow>
                    (case dialed of
                       None \<Rightarrow> Some (n, Inl DialFailed)
                     | Some nc \<Rightarrow> do {
                         r \<leftarrow> dial_handshake (n_nodeID n) nc;
                         case r of
                           Inl e \<Rightarrow> Some (n, Inl (ConnErr e))
                         | Inr (data, nc1) \<Rightarrow> do {
                             (remote, _) \<leftarrow> DecodeNodeIDHandshake data;
                             if remote \<noteq> peerID then Some (n, Inl PeerIDMismatch)
                             else (case handleConn_register n peerID addr nc1 ca of
                                     Some n1 \<Rightarrow> Some (n1, Inr ca)
                                   | None \<Rightarrow> Some (n, Inr (the (n_conns n peerID)))) } }))))"

fun bytes_less :: "bytes \<Rightarrow> bytes \<Rightarrow> bool" where
  "bytes_less xs [] \<longleftrightarrow> False"
| "bytes_less [] (y # ys) \<longleftrightarrow> True"
| "bytes_less (x # xs) (y # ys) \<longleftrightarrow> x < y \<or> x = y \<and> bytes_less xs ys"

text \<open>A discovery event: on a join, whether this node dials; on a loss, the table without the peer.\<close>

definition peer_joined_dials :: "Node \<Rightarrow> bytes \<Rightarrow> bool" where
  "peer_joined_dials n peer \<longleftrightarrow> bytes_less (n_nodeID n) peer"

definition peer_lost :: "Node \<Rightarrow> bytes \<Rightarrow> Node" where
  "peer_lost n peer =
     (case n_conns n peer of
        None \<Rightarrow> n
      | Some ca \<Rightarrow> n\<lparr>n_store := (n_store n)(ca := map_option (\<lambda>c. c\<lparr>c_conn := conn_Close (c_conn c)\<rparr>) (n_store n ca)),
                     n_conns := (n_conns n)(peer := None)\<rparr>)"

definition Node_Stop :: "Node \<Rightarrow> Node" where
  "Node_Stop n = n\<lparr>n_done := True,
     n_store := (\<lambda>ca. map_option (\<lambda>c. if ca \<in> ran (n_conns n) then c\<lparr>c_conn := conn_Close (c_conn c)\<rparr> else c)
                   (n_store n ca)),
     n_conns := Map.empty\<rparr>"

definition Node_Send :: "Node \<Rightarrow> bytes \<Rightarrow> Message \<Rightarrow> netConn option \<Rightarrow> nat \<Rightarrow> (Node \<times> node_error option) option" where
  "Node_Send n peerID msg dialed ca = do {
     (n1, r) \<leftarrow> getOrConnect n peerID dialed ca;
     case r of
       Inl e \<Rightarrow> Some (n1, Some e)
     | Inr c \<Rightarrow> do {
         conn \<leftarrow> n_store n1 c;
         case Conn_Send conn msg of
           Inl e \<Rightarrow> Some (n1, Some (ConnErr e))
         | Inr conn1 \<Rightarrow> Some (n1\<lparr>n_store := (n_store n1)(c \<mapsto> conn1)\<rparr>, None) } }"

section \<open>What a frame causes\<close>

text \<open>The contract of the dispatch loop, without buffers: the frames written in reply to a frame, and
  what a response frame does to the correlation table.\<close>

definition handler_reply :: "(u16 \<rightharpoonup> Handler) \<Rightarrow> bytes \<Rightarrow> bytes \<Rightarrow> Message option" where
  "handler_reply handlers peerID body =
     (case Parse body of
        Inl e \<Rightarrow> None
      | Inr msg \<Rightarrow>
          (case handlers (drop_bit 8 (the (Message_Flags msg))) of
             None \<Rightarrow> None
           | Some h \<Rightarrow> (case h peerID msg of HOk r \<Rightarrow> r | _ \<Rightarrow> None)))"

definition frame_replies :: "(u16 \<rightharpoonup> Handler) \<Rightarrow> bytes \<Rightarrow> bytes \<Rightarrow> bytes list" where
  "frame_replies handlers peerID data =
     (case UnwrapCorrelated data of
        (reqID, flag, Some body, True) \<Rightarrow>
          if flag = ReqFlagResp then []
          else (case handler_reply handlers peerID body of
                  None \<Rightarrow> [] | Some r \<Rightarrow> [WrapCorrelated reqID ReqFlagResp (Message_Bytes r)])
      | _ \<Rightarrow> (case handler_reply handlers peerID data of None \<Rightarrow> [] | Some r \<Rightarrow> [Message_Bytes r]))"

definition frame_response :: "bytes \<Rightarrow> (u32 \<times> Message) option" where
  "frame_response data =
     (case UnwrapCorrelated data of
        (reqID, flag, Some body, True) \<Rightarrow>
          if flag = ReqFlagResp then (case Parse body of Inl e \<Rightarrow> None | Inr m \<Rightarrow> Some (reqID, m)) else None
      | _ \<Rightarrow> None)"

definition frame_pending :: "nat \<Rightarrow> bytes \<Rightarrow> (u32 \<rightharpoonup> Message option) \<Rightarrow> (u32 \<rightharpoonup> Message option)" where
  "frame_pending ra data pending =
     (case frame_response data of
        None \<Rightarrow> pending
      | Some (reqID, m) \<Rightarrow> fst (deliver pending reqID (attachToMessage m ra)))"

lemma Message_Flags_parsed:
  assumes "Parse d = Inr m"
  shows "\<exists>f. Message_Flags m = Some f"
  using Parse_msg_length(1) [OF assms] get_in_range(1) [of 6 "msg_data m"] by (simp add: Message_Flags_def)

definition counted :: "pools \<Rightarrow> nat \<Rightarrow> u32 \<Rightarrow> bool" where
  "counted p ra k \<longleftrightarrow> (\<exists>r. bufRefs p ra = Some r \<and> r_refs r = k)"

lemma counted_held: "counted p ra k \<Longrightarrow> k \<noteq> 0 \<Longrightarrow> held p ra"
  by (auto simp: counted_def held_def)

lemma release_counted:
  assumes "pools_ok p" and "counted p ra k" and "k \<noteq> 0"
  shows "\<exists>p'. release p (Some ra) = Some p' \<and> pools_ok p' \<and> counted p' ra (k - 1) \<and>
    (k \<noteq> 1 \<longrightarrow> bufRef_Bytes p' ra = bufRef_Bytes p ra)"
proof -
  obtain p' where p': "release p (Some ra) = Some p'" "pools_ok p'"
    "held p' ra \<longrightarrow> bufRef_Bytes p' ra = bufRef_Bytes p ra"
    using release_ok [OF assms(1) counted_held [OF assms(2,3)]] by blast
  moreover have c: "counted p' ra (k - 1)"
    using assms(2) release_count [OF _ p'(1)] by (auto simp: counted_def)
  moreover have "held p' ra" if "k \<noteq> 1" using counted_held [OF c] that by simp
  ultimately show ?thesis by blast
qed

lemma retain_counted:
  assumes "pools_ok p" and "counted p ra k" and "k \<noteq> 0"
  shows "\<exists>p'. retain p ra = Some p' \<and> pools_ok p' \<and> counted p' ra (k + 1) \<and>
    bufRef_Bytes p' ra = bufRef_Bytes p ra"
proof -
  obtain p' where p': "retain p ra = Some p'" "pools_ok p'" "bufRef_Bytes p' ra = bufRef_Bytes p ra"
    using retain_ok [OF assms(1) counted_held [OF assms(2,3)]] by blast
  moreover have "counted p' ra (k + 1)"
    using assms(2) retain_count [OF _ p'(1)] by (auto simp: counted_def)
  ultimately show ?thesis by blast
qed

lemma dispatch_response_spec:
  assumes ok: "pools_ok p" and c: "counted p ra 1"
  shows "\<exists>p' conn'. dispatch_response p conn ra reqID body = Some (p', conn', True) \<and> pools_ok p' \<and>
    (case Parse body of
       Inl e \<Rightarrow> conn' = conn \<and> counted p' ra 0
     | Inr m \<Rightarrow> let (pending, sent) = deliver (c_pending conn) reqID (attachToMessage m ra) in
         conn' = conn\<lparr>c_pending := pending\<rparr> \<and> counted p' ra (if sent then 1 else 0) \<and>
         (sent \<longrightarrow> bufRef_Bytes p' ra = bufRef_Bytes p ra))"
proof (cases "Parse body")
  case (Inl e)
  then show ?thesis
    using release_counted [OF ok c] by (auto simp: dispatch_response_def)
next
  case (Inr m)
  obtain pending sent where d: "deliver (c_pending conn) reqID (attachToMessage m ra) = (pending, sent)" by force
  obtain p1 where p1: "retain p ra = Some p1" "pools_ok p1" "counted p1 ra 2" "bufRef_Bytes p1 ra = bufRef_Bytes p ra"
    using retain_counted [OF ok c] by auto
  obtain p2 where p2: "release p1 (Some ra) = Some p2" "pools_ok p2" "counted p2 ra 1" "bufRef_Bytes p2 ra = bufRef_Bytes p ra"
    using release_counted [OF p1(2,3)] p1(4) by auto
  obtain p3 where p3: "release p2 (Some ra) = Some p3" "pools_ok p3" "counted p3 ra 0"
    using release_counted [OF p2(2,3)] by auto
  show ?thesis
    using Inr d p1 p2 p3
    by (cases sent) (simp_all add: dispatch_response_def Message_Release_def attachToMessage_def)
qed

lemma dispatch_handle_spec:
  assumes ok: "pools_ok p" and c: "counted p ra 1" and op: "\<not> nc_closed (c_conn conn)"
    and wr: "\<And>b. wrf (c_conn conn) b = Inr ((c_conn conn)\<lparr>nc_out := nc_out (c_conn conn) @ node_frame (wrap b)\<rparr>)"
  shows "\<exists>p'. dispatch_handle handlers peerID wrf p conn ra body =
      Some (p', conn\<lparr>c_conn := (c_conn conn)\<lparr>nc_out := nc_out (c_conn conn) @
        (case handler_reply handlers peerID body of None \<Rightarrow> [] | Some r \<Rightarrow> node_frame (wrap (Message_Bytes r)))\<rparr>\<rparr>, True) \<and>
    pools_ok p' \<and> counted p' ra 0"
proof -
  obtain p' where p': "release p (Some ra) = Some p'" "pools_ok p'" "counted p' ra 0"
    using release_counted [OF ok c] by auto
  show ?thesis
    using p' Message_Flags_parsed [of body]
    by (auto simp: dispatch_handle_def handler_reply_def safeHandle_def wr
        split: sum.splits option.splits handler_result.splits)
qed

text \<open>One frame: what goes on the wire, what is delivered, and that its buffer ends up free unless the
  message was handed to a waiter, who then holds the only reference.\<close>

definition delivered :: "(u32 \<rightharpoonup> Message option) \<Rightarrow> bytes \<Rightarrow> bool" where
  "delivered pending data \<longleftrightarrow>
     (case frame_response data of None \<Rightarrow> False | Some (reqID, m) \<Rightarrow> pending reqID = Some None)"

lemma deliver_sent: "snd (deliver pending reqID m) \<longleftrightarrow> pending reqID = Some None"
  by (auto simp: deliver_def split: option.splits)

lemma Unwrap_flag:
  "UnwrapCorrelated data = (reqID, flag, Some body, True) \<Longrightarrow> flag = ReqFlagReq \<or> flag = ReqFlagResp"
  by (auto simp: UnwrapCorrelated_def Let_def split: if_splits)

lemma Unwrap_cases:
  obtains (call) reqID flag body where "UnwrapCorrelated data = (reqID, flag, Some body, True)"
  | (plain) "UnwrapCorrelated data = (0, 0, None, False)"
proof -
  have "UnwrapCorrelated data = (0, 0, None, False) \<or>
    UnwrapCorrelated data = (u32_le (take 4 data), u32_le (take 4 (drop 4 data)), Some (drop 8 data), True)"
    by (simp add: UnwrapCorrelated_def Let_def correlatedHeaderSize_def)
  then show thesis using that by blast
qed

lemma dispatch_frame_spec:
  assumes ok: "pools_ok p" and c: "counted p ra 1" and op: "\<not> nc_closed (c_conn conn)"
    and data: "bufRef_Bytes p ra = Some data"
  shows "\<exists>p'. dispatch_frame handlers peerID p conn ra =
      Some (p', conn\<lparr>c_conn := (c_conn conn)\<lparr>nc_out := nc_out (c_conn conn) @
          concat (map node_frame (frame_replies handlers peerID data))\<rparr>,
        c_pending := frame_pending ra data (c_pending conn)\<rparr>, True) \<and>
    pools_ok p' \<and> counted p' ra (if delivered (c_pending conn) data then 1 else 0)"
proof (cases data rule: Unwrap_cases)
  case plain
  have "dispatch_frame handlers peerID p conn ra = dispatch_handle handlers peerID writeMessage p conn ra data"
    using plain data by (simp add: dispatch_frame_def)
  then show ?thesis
    using plain dispatch_handle_spec [OF ok c op, where wrf = writeMessage and wrap = "\<lambda>b. b"
        and handlers = handlers and peerID = peerID and body = data] op
    by (auto simp: writeMessage_eq frame_replies_def frame_pending_def delivered_def frame_response_def
        split: option.splits)
next
  case (call reqID flag body)
  show ?thesis
  proof (cases "flag = ReqFlagResp")
    case True
    then have "dispatch_frame handlers peerID p conn ra = dispatch_response p conn ra reqID body"
      using call data by (simp add: dispatch_frame_def)
    then show ?thesis
      using call True dispatch_response_spec [OF ok c, of conn reqID body]
        deliver_sent [of "c_pending conn" reqID]
      by (cases "Parse body") (auto simp: frame_replies_def frame_pending_def delivered_def frame_response_def
          case_prod_unfold Let_def)
  next
    case False
    let ?w = "\<lambda>w b. writeCorrelated w reqID ReqFlagResp b"
    have "dispatch_frame handlers peerID p conn ra = dispatch_handle handlers peerID ?w p conn ra body"
      using call False data by (simp add: dispatch_frame_def)
    then show ?thesis
      using call False dispatch_handle_spec [OF ok c op, where wrf = ?w and wrap = "WrapCorrelated reqID ReqFlagResp"
          and handlers = handlers and peerID = peerID and body = body] op
      by (auto simp: writeCorrelated_eq frame_replies_def frame_pending_def delivered_def frame_response_def
          split: option.splits)
  qed
qed

inductive_cases dispatchLoopE: "dispatchLoop handlers peerID (p, conn) s'"

lemma turn_empty:
  assumes "pools_ok p" and "nc_in (c_conn conn) = []" and "dispatch_turn handlers peerID (p, conn) r"
  shows "\<exists>p'. r = (p', conn, False) \<and> pools_ok p'"
  using assms(3)
proof cases
  case (frame ra sa p1 rest p2 conn2 go)
  then show ?thesis
    using pooled_read_inv [OF assms(1) frame(2)] assms(2) by (simp add: readMessageRaw_def ReadFull_def)
next
  case (read_error ra sa p1 e)
  then show ?thesis using pooled_read_inv [OF assms(1) read_error(2)] by simp
qed

lemma turn_frame:
  assumes ok: "pools_ok p" and s: "nc_in (c_conn conn) = node_frame f @ rest" "message_fits f"
    and op: "\<not> nc_closed (c_conn conn)" and turn: "dispatch_turn handlers peerID (p, conn) r"
  shows "\<exists>p' ra. r = (p', conn\<lparr>c_conn := (c_conn conn)\<lparr>nc_in := rest, nc_out := nc_out (c_conn conn) @
        concat (map node_frame (frame_replies handlers peerID f))\<rparr>,
      c_pending := frame_pending ra f (c_pending conn)\<rparr>, True) \<and> pools_ok p'"
  using turn
proof cases
  case (frame ra sa p1 rest' p2 conn2 go)
  have "readMessageRaw (nc_in (c_conn conn)) = Inr (f, rest)" using s node.rd_wr by simp
  with pooled_read_inv [OF ok frame(2)] have p1: "pools_ok p1" "rest' = rest" "bufRef_Bytes p1 ra = Some f"
    "counted p1 ra 1" by (auto simp: counted_def)
  show ?thesis
    using dispatch_frame_spec [OF p1(1,4) _ p1(3), of "conn\<lparr>c_conn := (c_conn conn)\<lparr>nc_in := rest\<rparr>\<rparr>" handlers peerID]
      frame(1,3) op p1(2) by auto
next
  case (read_error ra sa p1 e)
  then show ?thesis
    using pooled_read_inv [OF ok read_error(2)] s node.rd_wr by simp
qed

text \<open>The whole loop: replies in the order of the frames, responses delivered in that order.\<close>

definition deliver_all :: "nat list \<Rightarrow> bytes list \<Rightarrow> (u32 \<rightharpoonup> Message option) \<Rightarrow> (u32 \<rightharpoonup> Message option)" where
  "deliver_all ras fs = fold (\<lambda>(ra, f). frame_pending ra f) (zip ras fs)"

lemma dispatchLoop_out:
  assumes "dispatchLoop handlers peerID (p, conn) (p', conn')"
    and "pools_ok p" and "nc_in (c_conn conn) = concat (map node_frame fs)" and "\<forall>f \<in> set fs. message_fits f"
    and "\<not> nc_closed (c_conn conn)"
  shows "pools_ok p' \<and> (\<exists>ras. length ras = length fs \<and>
    conn' = conn\<lparr>c_conn := (c_conn conn)\<lparr>nc_in := [], nc_out := nc_out (c_conn conn) @
        concat (map node_frame (concat (map (frame_replies handlers peerID) fs)))\<rparr>,
      c_pending := deliver_all ras fs (c_pending conn)\<rparr>)"
  using assms
proof (induction fs arbitrary: p conn)
  case Nil
  then show ?case
    using turn_empty [of p conn handlers peerID] by (fastforce elim: dispatchLoopE simp: deliver_all_def)
next
  case (Cons f fs)
  have s: "nc_in (c_conn conn) = node_frame f @ concat (map node_frame fs)" "message_fits f"
    using Cons.prems by simp_all
  note turn = turn_frame [OF Cons.prems(2) s Cons.prems(5)]
  from Cons.prems(1) show ?case
  proof cases
    case stop
    then show ?thesis using turn [OF stop] by simp
  next
    case (step p1 conn1)
    from turn [OF step(1)] obtain ra where t: "pools_ok p1"
      "conn1 = conn\<lparr>c_conn := (c_conn conn)\<lparr>nc_in := concat (map node_frame fs), nc_out := nc_out (c_conn conn) @
        concat (map node_frame (frame_replies handlers peerID f))\<rparr>,
        c_pending := frame_pending ra f (c_pending conn)\<rparr>"
      by auto
    have "\<not> nc_closed (c_conn conn1)" "nc_in (c_conn conn1) = concat (map node_frame fs)"
      using t(2) Cons.prems(5) by simp_all
    with Cons.IH [OF step(2) t(1)] Cons.prems(4) obtain ras where "pools_ok p'" "length ras = length fs"
      "conn' = conn1\<lparr>c_conn := (c_conn conn1)\<lparr>nc_in := [], nc_out := nc_out (c_conn conn1) @
        concat (map node_frame (concat (map (frame_replies handlers peerID) fs)))\<rparr>,
        c_pending := deliver_all ras fs (c_pending conn1)\<rparr>"
      by auto
    then show ?thesis
      using t(2) by (intro conjI exI [of _ "ra # ras"]) (simp_all add: deliver_all_def)
  qed
qed

text \<open>The loop always comes to an end: a frame consumes bytes, and every turn is possible.\<close>

definition store_finite :: "pools \<Rightarrow> bool" where
  "store_finite p \<longleftrightarrow> finite (dom (bufRefs p)) \<and> finite (dom (slabs p))"

lemma fresh_pick:
  assumes "store_finite p"
  shows "\<exists>ra sa. legal_pick p ra sa"
proof -
  obtain ra sa where "ra \<notin> dom (bufRefs p)" "sa \<notin> dom (slabs p)"
    using assms ex_new_if_finite [OF infinite_UNIV_nat] by (metis store_finite_def)
  then show ?thesis by (auto simp: legal_pick_def)
qed

lemma getBuf_finite: "getBuf p n ra sa = Some p' \<Longrightarrow> store_finite p \<Longrightarrow> store_finite p'"
  by (auto simp: getBuf_def refPool_Get_def bufPools_Get_def store_finite_def Let_def
      split: Option.bind_splits if_splits)

lemma fill_finite: "fill p ra d = Some p' \<Longrightarrow> store_finite p \<Longrightarrow> store_finite p'"
  by (auto simp: fill_def store_finite_def split: Option.bind_splits option.splits)

lemma retain_finite: "retain p ra = Some p' \<Longrightarrow> store_finite p \<Longrightarrow> store_finite p'"
  by (auto simp: retain_def store_finite_def split: Option.bind_splits)

lemma release_finite: "release p ref = Some p' \<Longrightarrow> store_finite p \<Longrightarrow> store_finite p'"
  by (auto simp: release_def store_finite_def Let_def split: Option.bind_splits option.splits if_splits)

lemmas pool_finite = getBuf_finite fill_finite retain_finite release_finite

lemma pooled_read_finite:
  "readMessageRawPooled p s ra sa = Some (p', r) \<Longrightarrow> store_finite p \<Longrightarrow> store_finite p'"
  by (auto simp: readMessageRawPooled_def Let_def split: sum.splits if_splits Option.bind_splits)
    (meson pool_finite)+

lemma dispatch_response_finite:
  "dispatch_response p conn ra reqID body = Some (p', c, g) \<Longrightarrow> store_finite p \<Longrightarrow> store_finite p'"
  by (auto simp: dispatch_response_def Message_Release_def Let_def case_prod_unfold
      split: sum.splits if_splits Option.bind_splits)
    (meson pool_finite)+

lemma dispatch_handle_finite:
  "dispatch_handle hs peer wrf p conn ra body = Some (p', c, g) \<Longrightarrow> store_finite p \<Longrightarrow> store_finite p'"
  by (auto simp: dispatch_handle_def split: sum.splits option.splits Option.bind_splits prod.splits bool.splits)
    (meson pool_finite)+

lemma dispatch_frame_finite:
  "dispatch_frame hs peer p conn ra = Some (p', c, g) \<Longrightarrow> store_finite p \<Longrightarrow> store_finite p'"
  by (auto simp: dispatch_frame_def split: Option.bind_splits prod.splits option.splits bool.splits if_splits
      dest: dispatch_response_finite dispatch_handle_finite)

lemma dispatchLoop_runs:
  assumes "pools_ok p" and "store_finite p" and "nc_in (c_conn conn) = concat (map node_frame fs)"
    and "\<forall>f \<in> set fs. message_fits f" and "\<not> nc_closed (c_conn conn)"
  shows "\<exists>p' conn'. dispatchLoop handlers peerID (p, conn) (p', conn')"
  using assms
proof (induction fs arbitrary: p conn)
  case Nil
  obtain ra sa where pick: "legal_pick p ra sa" using fresh_pick [OF Nil(2)] by blast
  obtain p' res where rd: "readMessageRawPooled p [] ra sa = Some (p', res)"
    using pooled_read_total [OF Nil(1) pick] by blast
  then have "res = Inl EOF"
    using pooled_read_inv [OF Nil(1) rd] by (simp add: readMessageRaw_def ReadFull_def)
  then show ?case
    using rd Nil(3) dispatchLoop.stop [OF dispatch_turn.read_error, of p conn ra sa p' EOF] by auto
next
  case (Cons f fs)
  obtain ra sa where pick: "legal_pick p ra sa" using fresh_pick [OF Cons.prems(2)] by blast
  let ?s = "nc_in (c_conn conn)" and ?rest = "concat (map node_frame fs)"
  have raw: "readMessageRaw ?s = Inr (f, ?rest)" using Cons.prems node.rd_wr by simp
  obtain p1 res where rd: "readMessageRawPooled p ?s ra sa = Some (p1, res)"
    using pooled_read_total [OF Cons.prems(1) pick] by blast
  have p1: "pools_ok p1" "res = Inr (ra, ?rest)" "bufRef_Bytes p1 ra = Some f" "counted p1 ra 1"
    using pooled_read_inv [OF Cons.prems(1) rd] raw by (auto simp: counted_def)
  let ?c = "conn\<lparr>c_conn := (c_conn conn)\<lparr>nc_in := ?rest\<rparr>\<rparr>"
  obtain p2 conn2 where d: "dispatch_frame handlers peerID p1 ?c ra = Some (p2, conn2, True)" "pools_ok p2"
    "nc_in (c_conn conn2) = ?rest" "\<not> nc_closed (c_conn conn2)"
    using dispatch_frame_spec [OF p1(1,4) _ p1(3), of ?c handlers peerID] Cons.prems(5) by auto
  have fin: "store_finite p2"
    using dispatch_frame_finite [OF d(1)] pooled_read_finite [OF rd] Cons.prems(2) by blast
  have "dispatch_turn handlers peerID (p, conn) (p2, conn2, True)"
    using dispatch_turn.frame [OF _ d(1)] rd p1(2) by simp
  then show ?case
    using Cons.IH [OF d(2) fin d(3) _ d(4)] Cons.prems(4) dispatchLoop.step by (metis list.set_intros(2))
qed

section \<open>Properties of dispatch and calls\<close>


definition sample_conn :: "bytes \<Rightarrow> Conn" where
  "sample_conn s = newConn [98] [] \<lparr>nc_in = s, nc_out = [], nc_closed = False, nc_tcp = True\<rparr>"

lemma empty_store_finite: "store_finite empty_pools"
  by (simp add: store_finite_def empty_pools_def)

lemma sample_fits: "message_fits [1, 2]" "message_fits (WrapCorrelated i f sample_frame)"
  by (simp_all add: message_fits_def maxMessage_def WrapCorrelated_def sample_frame_def)


lemma Unwrap_Wrap:
  "UnwrapCorrelated (WrapCorrelated reqID ReqFlagReq body) = (reqID, ReqFlagReq, Some body, True)"
  "UnwrapCorrelated (WrapCorrelated reqID ReqFlagResp body) = (reqID, ReqFlagResp, Some body, True)"
  by (simp_all add: UnwrapCorrelated_def WrapCorrelated_def correlatedHeaderSize_def)

lemma flags_differ: "ReqFlagReq \<noteq> ReqFlagResp"
  by (simp add: ReqFlagReq_def ReqFlagResp_def)

text \<open>C15. A Call gets its own answer: if node A calls with a message that B's handler answers, then
  after B has dispatched A's stream and A has dispatched B's stream the waiting call returns B's
  answer, and no other pending call of the connection is touched. Both dispatch loops terminate.\<close>

theorem call_roundtrip:
  assumes a: "\<not> nc_closed (c_conn a)" "nc_out (c_conn a) = []"
    and b: "\<not> nc_closed (c_conn b)" "nc_out (c_conn b) = []"
    and pools: "pools_ok pa" "store_finite pa" "pools_ok pb" "store_finite pb"
    and msg: "Parse (Message_Bytes msg) = Inr msg'" "length (Message_Bytes msg) + 8 \<le> maxMessage"
    and h: "Message_Flags msg' = Some fl" "hb (drop_bit 8 fl) = Some h" "h ida msg' = HOk (Some resp)"
    and resp: "Parse (Message_Bytes resp) = Inr resp'" "length (Message_Bytes resp) + 8 \<le> maxMessage"
  shows "\<exists>a1 reqID. Call_begin a msg = (a1, Inr reqID) \<and>
    (\<exists>sb. dispatchLoop hb ida (pb, b\<lparr>c_conn := (c_conn b)\<lparr>nc_in := nc_out (c_conn a1)\<rparr>\<rparr>) sb) \<and>
    (\<forall>pb' b'. dispatchLoop hb ida (pb, b\<lparr>c_conn := (c_conn b)\<lparr>nc_in := nc_out (c_conn a1)\<rparr>\<rparr>) (pb', b') \<longrightarrow>
       (\<exists>sa. dispatchLoop ha idb (pa, a1\<lparr>c_conn := (c_conn a1)\<lparr>nc_in := nc_out (c_conn b')\<rparr>\<rparr>) sa) \<and>
       (\<forall>pa' a2. dispatchLoop ha idb (pa, a1\<lparr>c_conn := (c_conn a1)\<lparr>nc_in := nc_out (c_conn b')\<rparr>\<rparr>) (pa', a2) \<longrightarrow>
          (\<exists>m. snd (Call_end a2 reqID) = Some m \<and> Message_Bytes m = Message_Bytes resp') \<and>
          (\<forall>i. i \<noteq> reqID \<longrightarrow> c_pending (fst (Call_end a2 reqID)) i = c_pending a i)))"
proof -
  define reqID where "reqID = c_reqID a + 1"
  let ?req = "WrapCorrelated reqID ReqFlagReq (Message_Bytes msg)"
  let ?ans = "WrapCorrelated reqID ReqFlagResp (Message_Bytes resp)"
  define a1 where "a1 = a\<lparr>c_reqID := reqID, c_pending := (c_pending a)(reqID \<mapsto> None),
    c_conn := (c_conn a)\<lparr>nc_out := node_frame ?req\<rparr>\<rparr>"
  have begin_eq: "Call_begin a msg = (a1, Inr reqID)"
    using a by (simp add: Call_begin_def Let_def writeCorrelated_eq a1_def reqID_def)
  let ?b = "b\<lparr>c_conn := (c_conn b)\<lparr>nc_in := nc_out (c_conn a1)\<rparr>\<rparr>"
  have fits: "message_fits ?req" "message_fits ?ans"
    using msg(2) resp(2) by (simp_all add: message_fits_def WrapCorrelated_def)
  have inb: "nc_in (c_conn ?b) = concat (map node_frame [?req])" "\<forall>f \<in> set [?req]. message_fits f"
    "\<not> nc_closed (c_conn ?b)" using fits b by (simp_all add: a1_def)
  have rep: "frame_replies hb ida ?req = [?ans]"
    using msg h by (simp add: frame_replies_def Unwrap_Wrap handler_reply_def flags_differ)
  have "nc_out (c_conn b') = node_frame ?ans" if "dispatchLoop hb ida (pb, ?b) (pb', b')" for pb' b'
    using dispatchLoop_out [OF that pools(3) inb] b rep by auto
  moreover
  let ?a = "a1\<lparr>c_conn := (c_conn a1)\<lparr>nc_in := node_frame ?ans\<rparr>\<rparr>"
  have ina: "nc_in (c_conn ?a) = concat (map node_frame [?ans])" "\<forall>f \<in> set [?ans]. message_fits f"
    "\<not> nc_closed (c_conn ?a)" using fits a by (simp_all add: a1_def)
  have ans: "\<exists>ra. c_pending a2 = (c_pending a)(reqID \<mapsto> Some (attachToMessage resp' ra))"
    if run: "dispatchLoop ha idb (pa, ?a) (pa', a2)" for pa' a2
  proof -
    obtain ras where "length ras = 1" "c_pending a2 = deliver_all ras [?ans] (c_pending a1)"
      using dispatchLoop_out [OF run pools(1) ina] by auto
    moreover then obtain ra where "ras = [ra]" by (auto simp: length_Suc_conv)
    ultimately show ?thesis
      using resp(1) by (auto simp: deliver_all_def frame_pending_def frame_response_def Unwrap_Wrap
          deliver_def a1_def)
  qed
  ultimately show ?thesis
    using begin_eq dispatchLoop_runs [OF pools(3,4) inb] dispatchLoop_runs [OF pools(1,2) ina] ans
    by (intro exI [of _ a1] exI [of _ reqID]) (fastforce simp: Call_end_def attachToMessage_def Message_Bytes_def)
qed

theorem call_roundtrip_witness:
  "\<exists>a1 reqID. Call_begin (sample_conn []) sample_message = (a1, Inr reqID) \<and>
    (\<exists>sb. dispatchLoop (\<lambda>_. Some (\<lambda>_ m. HOk (Some m))) [97]
       (empty_pools, (sample_conn [])\<lparr>c_conn := (c_conn (sample_conn []))\<lparr>nc_in := nc_out (c_conn a1)\<rparr>\<rparr>) sb)"
proof -
  have "Message_Flags sample_message = Some 0x0100" by code_simp
  moreover have "length (Message_Bytes sample_message) + 8 \<le> maxMessage"
    by (simp add: Message_Bytes_def sample_message_def sample_frame_def maxMessage_def)
  moreover have "Parse (Message_Bytes sample_message) = Inr sample_message"
    using sample_facts(1) by (simp add: Message_Bytes_def sample_message_def)
  ultimately show ?thesis
    using call_roundtrip [of "sample_conn []" "sample_conn []" empty_pools empty_pools sample_message sample_message
        "0x0100" "\<lambda>_. Some (\<lambda>_ m. HOk (Some m))" "\<lambda>_ m. HOk (Some m)" "[97]" sample_message sample_message]
      empty_pools_ok empty_store_finite
    by (force simp: sample_conn_def newConn_def)
qed

section \<open>Messages without a type\<close>

lemma unflagged_header:
  assumes "Parse data = Inr m" and "Message_Flags m = Some 0"
  shows "u32_le (take 4 (drop 4 data)) \<in> {ReqFlagReq, ReqFlagResp}" and "16 \<le> length data"
proof -
  let ?n = "unat (u32_le (take 4 (drop 12 data)))"
  have m: "msg_data m = take ?n data" "16 \<le> ?n" "?n \<le> length data" and v: "u16_le (take 2 (drop 4 data)) \<in> {1, 2}"
    using assms(1) by (auto simp: Parse_eq_Inr_iff valid_header_def)
  then show len: "16 \<le> length data" by simp
  have "take 2 (drop 6 (take ?n data)) = take 2 (drop 6 data)"
    using m(2) by (simp add: drop_take min_absorb1)
  then have "u16_le (take 2 (drop 6 data)) = 0"
    using assms(2) m by (auto simp: Message_Flags_def get_defs slice_at_def split: if_splits)
  then have "take 2 (drop 6 data) = le16 0"
    using codec_roundtrip_bytes(1) [of "take 2 (drop 6 data)"] len by simp
  moreover have "take 2 (drop 4 data) \<in> {le16 1, le16 2}"
    using codec_roundtrip_bytes(1) [of "take 2 (drop 4 data)"] len v by auto
  moreover have "take 4 (drop 4 data) = take 2 (drop 4 data) @ take 2 (drop 6 data)"
    using take_add [of 2 2 "drop 4 data"] by simp
  moreover have "u32_le (le16 1 @ le16 0) = ReqFlagReq" "u32_le (le16 2 @ le16 0) = ReqFlagResp"
    by code_simp+
  ultimately show "u32_le (take 4 (drop 4 data)) \<in> {ReqFlagReq, ReqFlagResp}" by auto
qed

text \<open>An unflagged message is lost: a message sent without a type (flags 0) has its version number
  where the correlation flag of a Call is read, so the receiving node takes it for a Call frame,
  fails to parse what follows and drops it. What the node does is the same whatever handlers are
  registered: a handler for type 0 is never run, nothing is answered, nothing is delivered.\<close>

lemma unflagged_message_dropped:
  assumes "Parse data = Inr m" and "Message_Flags m = Some 0" and "take 4 (drop 8 data) \<noteq> Magic"
    and "bufRef_Bytes p ra = Some data"
  shows "dispatch_frame handlers peerID p conn ra =
    map_option (\<lambda>p1. (p1, conn, True)) (release p (Some ra))"
proof -
  have "Parse (drop 8 data) \<noteq> Inr m'" for m'
    using assms(3) by (simp add: Parse_eq_Inr_iff valid_header_def)
  then obtain e where e: "Parse (drop 8 data) = Inl e" by (cases "Parse (drop 8 data)") auto
  then show ?thesis
    using unflagged_header [OF assms(1,2)] assms(4)
    by (auto simp: dispatch_frame_def UnwrapCorrelated_def correlatedHeaderSize_def Let_def
        dispatch_response_def dispatch_handle_def map_conv_bind_option o_def)
qed

definition untyped_frame :: bytes where
  "untyped_frame = [0x5A, 0x41, 0x50, 0, 2, 0, 0, 0, 16, 0, 0, 0, 16, 0, 0, 0]"

definition untyped_pools :: pools where
  "untyped_pools = the (fill (the (getBuf empty_pools 16 0 0)) 0 untyped_frame)"

text \<open>The receive loop of a dialled connection does not serve Calls: a Call request that arrives
  on a connection opened by \<open>getOrConnect\<close> is dropped without running a handler and without an
  answer, whatever handlers are registered, where \<open>dispatchLoop\<close> would have answered it.\<close>

lemma outbound_loop_ignores_calls:
  assumes "bufRef_Bytes p ra = Some (WrapCorrelated reqID ReqFlagReq body)" and "le32 reqID \<noteq> Magic"
  shows "recv_frame handlers peerID p conn ra = map_option (\<lambda>p1. (p1, conn, True)) (release p (Some ra))"
proof -
  have "Parse (WrapCorrelated reqID ReqFlagReq body) \<noteq> Inr m" for m
    using assms(2) by (simp add: Parse_eq_Inr_iff valid_header_def WrapCorrelated_def)
  then obtain e where e: "Parse (WrapCorrelated reqID ReqFlagReq body) = Inl e"
    by (cases "Parse (WrapCorrelated reqID ReqFlagReq body)") auto
  have "u32_le (take 4 (drop 4 (WrapCorrelated reqID ReqFlagReq body))) = ReqFlagReq"
    by (simp add: WrapCorrelated_def)
  then show ?thesis
    using assms(1) e flags_differ by (simp add: recv_frame_def map_conv_bind_option o_def)
qed

definition call_pools :: pools where
  "call_pools = the (fill (the (getBuf empty_pools 8 0 0)) 0 (WrapCorrelated 7 ReqFlagReq []))"

section \<open>The connection table under interleaving\<close>

text \<open>Any interleaving of the paths that touch the table. A new \<open>Conn\<close> gets an unused address; a read
  loop cleans up the connection it owns; traffic changes a stored connection but not its peer.\<close>

inductive table_step :: "Node \<Rightarrow> Node \<Rightarrow> bool" where
  accept: "handleConn_register n peerID addr nc ca = Some n' \<Longrightarrow> n_store n ca = None \<Longrightarrow> table_step n n'"
| connect: "ConnectDirectID n addr dialed ca = Some (n', r) \<Longrightarrow> n_store n ca = None \<Longrightarrow> table_step n n'"
| get: "getOrConnect n peerID dialed ca = Some (n', r') \<Longrightarrow> n_store n ca = None \<Longrightarrow> table_step n n'"
| cleanup: "n_store n ca = Some c \<Longrightarrow> table_step n (conn_cleanup n (c_NodeID c) ca)"
| lost: "table_step n (peer_lost n peer)"
| stop: "table_step n (Node_Stop n)"
| traffic: "n_store n ca = Some c \<Longrightarrow> c_NodeID c' = c_NodeID c \<Longrightarrow>
    table_step n (n\<lparr>n_store := (n_store n)(ca \<mapsto> c')\<rparr>)"

definition table_ok :: "Node \<Rightarrow> bool" where
  "table_ok n \<longleftrightarrow> (\<forall>peer ca. n_conns n peer = Some ca \<longrightarrow> (\<exists>c. n_store n ca = Some c \<and> c_NodeID c = peer))"

text \<open>Registration is the only way into the table.\<close>

lemma register_cases:
  assumes "ConnectDirectID n addr dialed ca = Some (n', r)"
  shows "n' = n \<or> (\<exists>peer addr' nc. handleConn_register n peer addr' nc ca = Some n')"
  using assms
  by (auto simp: ConnectDirectID_def split: option.splits Option.bind_splits sum.splits if_splits prod.splits)

lemma get_cases:
  assumes "getOrConnect n peerID dialed ca = Some (n', r)"
  shows "n' = n \<or> (\<exists>peer addr' nc. handleConn_register n peer addr' nc ca = Some n')"
  using assms
  by (auto simp: getOrConnect_def split: option.splits Option.bind_splits sum.splits if_splits prod.splits)

lemma register_ok:
  assumes "table_ok n" and "handleConn_register n peer addr nc ca = Some n'" and "n_store n ca = None"
  shows "table_ok n' \<and> n_conns n' = (n_conns n)(peer \<mapsto> ca) \<and> n_conns n peer = None"
  using assms by (fastforce simp: handleConn_register_def table_ok_def newConn_def split: if_splits)

lemma registered_step:
  assumes "table_ok n" and "n_store n ca = None"
    and "n' = n \<or> (\<exists>peer addr nc. handleConn_register n peer addr nc ca = Some n')"
  shows "table_ok n' \<and> (\<forall>peer ca. n_conns n peer = Some ca \<longrightarrow> n_conns n' peer \<in> {Some ca, None})"
  using assms(3)
proof (elim disjE exE)
  fix peer addr nc
  assume "handleConn_register n peer addr nc ca = Some n'"
  from register_ok [OF assms(1) this assms(2)] show ?thesis by auto
qed (use assms(1) in simp)

lemma shrink_step:
  assumes "table_ok n" and "\<And>peer. n_conns n' peer \<in> {n_conns n peer, None}"
    and "\<And>ca. map_option c_NodeID (n_store n' ca) = map_option c_NodeID (n_store n ca)"
  shows "table_ok n' \<and> (\<forall>peer ca. n_conns n peer = Some ca \<longrightarrow> n_conns n' peer \<in> {Some ca, None})"
proof -
  have "\<exists>c. n_store n' ca = Some c \<and> c_NodeID c = peer" if c: "n_conns n' peer = Some ca" for peer ca
  proof -
    have "n_conns n peer = Some ca" using assms(2) [of peer] c by auto
    then have "map_option c_NodeID (n_store n ca) = Some peer" using assms(1) by (auto simp: table_ok_def)
    then show ?thesis using assms(3) [of ca] by auto
  qed
  then show ?thesis unfolding table_ok_def using assms(2) by metis
qed

lemma table_step_ok:
  assumes "table_step n n'" and "table_ok n"
  shows "table_ok n' \<and> (\<forall>peer ca. n_conns n peer = Some ca \<longrightarrow> n_conns n' peer \<in> {Some ca, None})"
  using assms
proof cases
  case (accept peerID addr nc ca)
  then show ?thesis by (intro registered_step [OF assms(2)]) auto
next
  case (connect addr dialed ca r)
  show ?thesis by (rule registered_step [OF assms(2) connect(2) register_cases [OF connect(1)]])
next
  case (get peerID dialed ca r')
  show ?thesis by (rule registered_step [OF assms(2) get(2) get_cases [OF get(1)]])
next
  case (cleanup ca c)
  show ?thesis
    unfolding cleanup(1) by (rule shrink_step [OF assms(2)]) (auto simp: conn_cleanup_def Let_def option.map_comp o_def)
next
  case (lost peer)
  show ?thesis
    unfolding lost by (rule shrink_step [OF assms(2)]) (auto simp: peer_lost_def option.map_comp o_def split: option.splits)
next
  case stop
  show ?thesis
    unfolding stop by (rule shrink_step [OF assms(2)]) (auto simp: Node_Stop_def option.map_comp intro!: option.map_cong)
next
  case (traffic ca c c')
  show ?thesis
    unfolding traffic(1) by (rule shrink_step [OF assms(2)]) (use traffic(2,3) in auto)
qed

text \<open>C31. One connection per peer: in every state the node can reach, whatever accepts, dials, losses,
  cleanups and traffic have interleaved, every table entry is a connection to that very peer (so
  no connection serves two peers), no step replaces a registered connection by another one, and
  the cleanup of a connection removes only that connection from the table.\<close>

theorem connection_table_exclusive:
  assumes "table_step\<^sup>*\<^sup>* (NewNode self) n"
  shows "(\<forall>peer ca. n_conns n peer = Some ca \<longrightarrow> (\<exists>c. n_store n ca = Some c \<and> c_NodeID c = peer)) \<and>
    (\<forall>n' peer ca. table_step n n' \<and> n_conns n peer = Some ca \<longrightarrow> n_conns n' peer \<in> {Some ca, None}) \<and>
    (\<forall>peer ca peer' ca'. n_conns n peer = Some ca \<and> ca' \<noteq> ca \<longrightarrow>
       n_conns (conn_cleanup n peer' ca') peer = Some ca)"
proof -
  have "table_ok n"
    using assms
  proof (induction rule: rtranclp_induct)
    case base
    then show ?case by (simp add: table_ok_def NewNode_def)
  qed (use table_step_ok in blast)
  then show ?thesis
    using table_step_ok [of n] by (auto simp: table_ok_def conn_cleanup_def Let_def)
qed

theorem connection_table_exclusive_witness:
  "\<exists>n. handleConn_register (NewNode [1]) [2] [] (c_conn (sample_conn [])) 0 = Some n \<and>
     n_conns (conn_cleanup n [2] 5) [2] = Some 0"
proof -
  obtain n where n: "handleConn_register (NewNode [1]) [2] [] (c_conn (sample_conn [])) 0 = Some n" "n_conns n [2] = Some 0"
    by (simp add: handleConn_register_def NewNode_def)
  then have "table_step (NewNode [1]) n" by (auto intro: table_step.accept simp: NewNode_def)
  then have "table_step\<^sup>*\<^sup>* (NewNode [1]) n" by (rule r_into_rtranclp)
  from connection_table_exclusive [OF this] n show ?thesis by auto
qed

lemma bytes_less_linear: "xs \<noteq> ys \<Longrightarrow> bytes_less xs ys \<longleftrightarrow> \<not> bytes_less ys xs"
proof (induction xs ys rule: bytes_less.induct)
  case (3 x xs y ys)
  then show ?case by (cases x y rule: linorder_cases) auto
qed (auto, metis bytes_less.simps(2) neq_Nil_conv)

text \<open>Exactly one side dials: when two nodes with different ids discover each other, one of them
  opens the connection and the other one waits.\<close>

lemma discovery_dials_once:
  assumes "n_nodeID a \<noteq> n_nodeID b"
  shows "peer_joined_dials a (n_nodeID b) \<longleftrightarrow> \<not> peer_joined_dials b (n_nodeID a)"
  using bytes_less_linear [OF assms] by (simp add: peer_joined_dials_def)

end
