(* ===== verification/PQ_Frames.thy ===== *)
theory PQ_Frames
  imports Zap_Codec
begin

text \<open>
  The wire format of the post-quantum handshake: constants and labels (\<open>src/handshake/labels.go\<close>),
  errors and alerts (\<open>src/handshake/errors.go\<close>), the eight frame bodies and the outer envelope
  (\<open>src/handshake/frames.go\<close>). A fixed-size Go array is a byte list, its length part of the frame's
  well-formedness. An error is the sentinel \<open>errors.Is\<close> finds; the text Go appends to it only
  reaches the detail of an ALERT, where the model has the sentinel's text. The interface
  \<open>frame_codec\<close> states the codec laws each body satisfies, \<open>frame_stream\<close> is interpreted for the
  envelope.
\<close>

section \<open>Constants\<close>

definition MagicLen :: nat where "MagicLen = 4"
definition ClientRandLen :: nat where "ClientRandLen = 16"
definition IDLen :: nat where "IDLen = 32"
definition TimestampLen :: nat where "TimestampLen = 8"
definition PSKIDLen :: nat where "PSKIDLen = 16"
definition PSKKeyLen :: nat where "PSKKeyLen = 32"
definition X25519PubLen :: nat where "X25519PubLen = 32"
definition X25519SharedLen :: nat where "X25519SharedLen = 32"
definition MLKEM768PubLen :: nat where "MLKEM768PubLen = 1184"
definition MLKEM768CTLen :: nat where "MLKEM768CTLen = 1088"
definition MLKEM768SharedLen :: nat where "MLKEM768SharedLen = 32"
definition MLDSA65PubLen :: nat where "MLDSA65PubLen = 1952"
definition MLDSA65SigLen :: nat where "MLDSA65SigLen = 3309"
definition AEADKeyLen :: nat where "AEADKeyLen = 32"
definition AEADTagLen :: nat where "AEADTagLen = 16"
definition NonceSaltLen :: nat where "NonceSaltLen = 4"
definition NonceCtrLen :: nat where "NonceCtrLen = 8"
definition TranscriptLen :: nat where "TranscriptLen = 32"
definition MaxFrameBody :: nat where "MaxFrameBody = 2 ^ 24"

lemmas len_defs = ClientRandLen_def IDLen_def TimestampLen_def PSKIDLen_def PSKKeyLen_def X25519PubLen_def
  X25519SharedLen_def MLKEM768PubLen_def MLKEM768CTLen_def MLKEM768SharedLen_def MLDSA65PubLen_def
  MLDSA65SigLen_def AEADKeyLen_def AEADTagLen_def NonceSaltLen_def NonceCtrLen_def TranscriptLen_def

definition PQMagic :: bytes where "PQMagic = [0x5A, 0x50, 0x51, 0x31]"

text \<open>The byte string of an ASCII literal.\<close>

definition str :: "string \<Rightarrow> bytes" where "str s = map of_char s"

type_synonym SuiteID = byte
definition SuiteX25519MLKEM :: SuiteID where "SuiteX25519MLKEM = 1"

definition Suite_IsValid :: "SuiteID \<Rightarrow> bool" where
  "Suite_IsValid s \<longleftrightarrow> s = SuiteX25519MLKEM"

type_synonym PQMode = byte
definition PQModeClassicalPermitted :: PQMode where "PQModeClassicalPermitted = 0"
definition PQModePQRequired :: PQMode where "PQModePQRequired = 1"
definition PQModePQOnly :: PQMode where "PQModePQOnly = 2"

type_synonym Profile = byte
definition ProfileStrictPQ :: Profile where "ProfileStrictPQ = 1"
definition ProfilePermissive :: Profile where "ProfilePermissive = 2"
definition ProfileFIPS :: Profile where "ProfileFIPS = 3"

type_synonym FrameType = byte
definition FrameHello :: FrameType where "FrameHello = 1"
definition FrameKEMInit :: FrameType where "FrameKEMInit = 2"
definition FrameKEMReply :: FrameType where "FrameKEMReply = 3"
definition FrameAuth :: FrameType where "FrameAuth = 4"
definition FrameData :: FrameType where "FrameData = 5"
definition FrameRekey :: FrameType where "FrameRekey = 6"
definition FrameAlert :: FrameType where "FrameAlert = 7"
definition FrameHelloPSK :: FrameType where "FrameHelloPSK = 8"

lemmas frame_types = FrameHello_def FrameKEMInit_def FrameKEMReply_def FrameAuth_def FrameData_def
  FrameRekey_def FrameAlert_def FrameHelloPSK_def

type_synonym AuthRole = byte
definition RoleInitiator :: AuthRole where "RoleInitiator = 0x49"
definition RoleResponder :: AuthRole where "RoleResponder = 0x52"

definition LblProtocol :: bytes where "LblProtocol = str ''ZAP-PQ-v1''"
definition LblX25519 :: bytes where "LblX25519 = str ''X25519''"
definition LblMLKEM :: bytes where "LblMLKEM = str ''ML-KEM-768''"
definition LblSessionI2R :: bytes where "LblSessionI2R = str ''ZAP-PQ-v1 i->r''"
definition LblSessionR2I :: bytes where "LblSessionR2I = str ''ZAP-PQ-v1 r->i''"
definition LblSaltI2R :: bytes where "LblSaltI2R = str ''ZAP-PQ-v1 nonce-salt i->r''"
definition LblSaltR2I :: bytes where "LblSaltR2I = str ''ZAP-PQ-v1 nonce-salt r->i''"
definition LblResumption :: bytes where "LblResumption = str ''ZAP-PQ-v1 resumption''"
definition LblRekey :: bytes where "LblRekey = str ''ZAP-PQ-v1 rekey''"
definition LblAuthI :: bytes where "LblAuthI = str ''ZAP-PQ-v1 auth initiator''"
definition LblAuthR :: bytes where "LblAuthR = str ''ZAP-PQ-v1 auth responder''"
definition SignCtx :: bytes where "SignCtx = str ''lux-zap-pq-v1''"

definition Role_Label :: "AuthRole \<Rightarrow> bytes" where
  "Role_Label r = (if r = RoleInitiator then LblAuthI else if r = RoleResponder then LblAuthR else [])"

section \<open>Errors and alerts\<close>

type_synonym AlertCode = byte
definition AlertNone :: AlertCode where "AlertNone = 0"
definition AlertDecodeError :: AlertCode where "AlertDecodeError = 1"
definition AlertUnsupportedSuite :: AlertCode where "AlertUnsupportedSuite = 2"
definition AlertAuthFailed :: AlertCode where "AlertAuthFailed = 3"
definition AlertReplayDetected :: AlertCode where "AlertReplayDetected = 4"
definition AlertDowngradeRefused :: AlertCode where "AlertDowngradeRefused = 5"
definition AlertHandshakeTimeout :: AlertCode where "AlertHandshakeTimeout = 6"
definition AlertNonceViolation :: AlertCode where "AlertNonceViolation = 7"
definition AlertPSKUnknown :: AlertCode where "AlertPSKUnknown = 8"
definition AlertVMIdentityMismatch :: AlertCode where "AlertVMIdentityMismatch = 9"
definition AlertAuthoritySigFailed :: AlertCode where "AlertAuthoritySigFailed = 10"
definition AlertPolicyRefused :: AlertCode where "AlertPolicyRefused = 11"

lemmas alert_codes = AlertNone_def AlertDecodeError_def AlertUnsupportedSuite_def AlertAuthFailed_def
  AlertReplayDetected_def AlertDowngradeRefused_def AlertHandshakeTimeout_def AlertNonceViolation_def
  AlertPSKUnknown_def AlertVMIdentityMismatch_def AlertAuthoritySigFailed_def AlertPolicyRefused_def

datatype hs_error =
    ErrDecodeError | ErrUnsupportedSuite | ErrAuthFailed | ErrReplayDetected | ErrDowngradeRefused
  | ErrHandshakeTimeout | ErrNonceViolation | ErrPSKUnknown | ErrVMIdentityMismatch
  | ErrAuthoritySigFailed | ErrPolicyRefused
  | ErrMagicMismatch | ErrSessionClosed | ErrEpochExhausted
  | ErrIO io_error | ErrLocal

definition errorForAlert :: "AlertCode \<Rightarrow> hs_error" where
  "errorForAlert c =
     (if c = AlertDecodeError then ErrDecodeError
      else if c = AlertUnsupportedSuite then ErrUnsupportedSuite
      else if c = AlertAuthFailed then ErrAuthFailed
      else if c = AlertReplayDetected then ErrReplayDetected
      else if c = AlertDowngradeRefused then ErrDowngradeRefused
      else if c = AlertHandshakeTimeout then ErrHandshakeTimeout
      else if c = AlertNonceViolation then ErrNonceViolation
      else if c = AlertPSKUnknown then ErrPSKUnknown
      else if c = AlertVMIdentityMismatch then ErrVMIdentityMismatch
      else if c = AlertAuthoritySigFailed then ErrAuthoritySigFailed
      else if c = AlertPolicyRefused then ErrPolicyRefused
      else ErrDecodeError)"

fun alertForError :: "hs_error \<Rightarrow> AlertCode" where
  "alertForError ErrAuthFailed = AlertAuthFailed"
| "alertForError ErrReplayDetected = AlertReplayDetected"
| "alertForError ErrDowngradeRefused = AlertDowngradeRefused"
| "alertForError ErrHandshakeTimeout = AlertHandshakeTimeout"
| "alertForError ErrNonceViolation = AlertNonceViolation"
| "alertForError ErrPSKUnknown = AlertPSKUnknown"
| "alertForError ErrUnsupportedSuite = AlertUnsupportedSuite"
| "alertForError ErrVMIdentityMismatch = AlertVMIdentityMismatch"
| "alertForError ErrAuthoritySigFailed = AlertAuthoritySigFailed"
| "alertForError ErrPolicyRefused = AlertPolicyRefused"
| "alertForError _ = AlertDecodeError"

section \<open>Frame bodies\<close>

record HelloFrame =
  h_Suite :: SuiteID
  h_PQMode :: PQMode
  h_ClientRandom :: bytes
  h_TimestampNS :: u64
  h_ClientID :: bytes
  h_OfferedSchemes :: "SuiteID list"
  h_StaticPKInitiator :: bytes

definition Hello_Encode :: "HelloFrame \<Rightarrow> hs_error + bytes" where
  "Hello_Encode h =
     (if length (h_StaticPKInitiator h) \<noteq> MLDSA65PubLen then Inl ErrDecodeError
      else if h_OfferedSchemes h = [] then Inl ErrDecodeError
      else Inr ([h_Suite h, h_PQMode h] @ h_ClientRandom h @ be64 (h_TimestampNS h) @ h_ClientID h @
        be32 (of_nat (length (h_OfferedSchemes h))) @ h_OfferedSchemes h @ h_StaticPKInitiator h))"

text \<open>Consecutive fields of a body: the code's \<open>body[off:off+n]\<close> with \<open>off\<close> advanced.\<close>

definition field :: "bytes \<Rightarrow> nat \<Rightarrow> nat \<Rightarrow> bytes" where
  "field body off n = take n (drop off body)"

definition DecodeHello :: "bytes \<Rightarrow> hs_error + HelloFrame" where
  "DecodeHello body =
     (let fixedLen = 1 + 1 + ClientRandLen + TimestampLen + IDLen + 4 in
      if length body < fixedLen + MLDSA65PubLen then Inl ErrDecodeError
      else
        let suite = body ! 0;
            off1 = 2; rand = field body off1 ClientRandLen;
            off2 = off1 + ClientRandLen; ts = u64_be (field body off2 TimestampLen);
            off3 = off2 + TimestampLen; cid = field body off3 IDLen;
            off4 = off3 + IDLen; schemesLen = u32_be (field body off4 4);
            off5 = off4 + 4 in
        if MaxFrameBody < unat schemesLen \<or>
           int (length body) - int off5 - int MLDSA65PubLen < uint schemesLen then Inl ErrDecodeError
        else if schemesLen = 0 then Inl ErrDecodeError
        else
          let schemes = field body off5 (unat schemesLen);
              off6 = off5 + unat schemesLen in
          if length body - off6 \<noteq> MLDSA65PubLen then Inl ErrDecodeError
          else if suite \<notin> set schemes then Inl ErrDecodeError
          else Inr \<lparr>h_Suite = suite, h_PQMode = body ! 1, h_ClientRandom = rand, h_TimestampNS = ts,
                  h_ClientID = cid, h_OfferedSchemes = schemes,
                  h_StaticPKInitiator = field body off6 MLDSA65PubLen\<rparr>)"

record KEMInitFrame =
  ki_X25519EphPub :: bytes
  ki_MLKEMEphPub :: bytes

definition KEMInit_Encode :: "KEMInitFrame \<Rightarrow> bytes" where
  "KEMInit_Encode k = ki_X25519EphPub k @ ki_MLKEMEphPub k"

definition DecodeKEMInit :: "bytes \<Rightarrow> hs_error + KEMInitFrame" where
  "DecodeKEMInit body =
     (if length body \<noteq> X25519PubLen + MLKEM768PubLen then Inl ErrDecodeError
      else Inr \<lparr>ki_X25519EphPub = take X25519PubLen body, ki_MLKEMEphPub = drop X25519PubLen body\<rparr>)"

record KEMReplyFrame =
  kr_X25519EphPub :: bytes
  kr_MLKEMCiphertext :: bytes
  kr_StaticPKResponder :: bytes

definition KEMReply_Encode :: "KEMReplyFrame \<Rightarrow> hs_error + bytes" where
  "KEMReply_Encode k =
     (if length (kr_StaticPKResponder k) \<noteq> MLDSA65PubLen then Inl ErrDecodeError
      else Inr (kr_X25519EphPub k @ kr_MLKEMCiphertext k @ kr_StaticPKResponder k))"

definition DecodeKEMReply :: "bytes \<Rightarrow> hs_error + KEMReplyFrame" where
  "DecodeKEMReply body =
     (if length body \<noteq> X25519PubLen + MLKEM768CTLen + MLDSA65PubLen then Inl ErrDecodeError
      else Inr \<lparr>kr_X25519EphPub = field body 0 X25519PubLen,
             kr_MLKEMCiphertext = field body X25519PubLen MLKEM768CTLen,
             kr_StaticPKResponder = field body (X25519PubLen + MLKEM768CTLen) MLDSA65PubLen\<rparr>)"

record AuthFrame =
  a_Role :: AuthRole
  a_Signature :: bytes

definition Auth_Encode :: "AuthFrame \<Rightarrow> hs_error + bytes" where
  "Auth_Encode a =
     (if length (a_Signature a) \<noteq> MLDSA65SigLen then Inl ErrDecodeError
      else if a_Role a \<noteq> RoleInitiator \<and> a_Role a \<noteq> RoleResponder then Inl ErrDecodeError
      else Inr (a_Role a # a_Signature a))"

definition DecodeAuth :: "bytes \<Rightarrow> hs_error + AuthFrame" where
  "DecodeAuth body =
     (if length body \<noteq> 1 + MLDSA65SigLen then Inl ErrDecodeError
      else
        let role = body ! 0 in
        if role \<noteq> RoleInitiator \<and> role \<noteq> RoleResponder then Inl ErrDecodeError
        else Inr \<lparr>a_Role = role, a_Signature = drop 1 body\<rparr>)"

record DataFrame =
  d_NonceCounter :: u64
  d_Ciphertext :: bytes

definition Data_Encode :: "DataFrame \<Rightarrow> bytes" where
  "Data_Encode d = be64 (d_NonceCounter d) @ be32 (of_nat (length (d_Ciphertext d))) @ d_Ciphertext d"

definition DecodeData :: "bytes \<Rightarrow> hs_error + DataFrame" where
  "DecodeData body =
     (if length body < NonceCtrLen + 4 then Inl ErrDecodeError
      else
        let ctLen = u32_be (field body NonceCtrLen 4) in
        if uint ctLen \<noteq> int (length body) - int NonceCtrLen - 4 then Inl ErrDecodeError
        else Inr \<lparr>d_NonceCounter = u64_be (take NonceCtrLen body), d_Ciphertext = drop (NonceCtrLen + 4) body\<rparr>)"

definition RekeyReasonExplicit :: byte where "RekeyReasonExplicit = 4"

record RekeyFrame =
  r_Reason :: byte

definition Rekey_Encode :: "RekeyFrame \<Rightarrow> bytes" where
  "Rekey_Encode r = [r_Reason r]"

definition DecodeRekey :: "bytes \<Rightarrow> hs_error + RekeyFrame" where
  "DecodeRekey body = (if length body \<noteq> 1 then Inl ErrDecodeError else Inr \<lparr>r_Reason = body ! 0\<rparr>)"

record AlertFrame =
  al_Code :: AlertCode
  al_Detail :: bytes

definition Alert_Encode :: "AlertFrame \<Rightarrow> bytes" where
  "Alert_Encode a = [al_Code a] @ be32 (of_nat (length (al_Detail a))) @ al_Detail a"

definition DecodeAlert :: "bytes \<Rightarrow> hs_error + AlertFrame" where
  "DecodeAlert body =
     (if length body < 1 + 4 then Inl ErrDecodeError
      else
        let detailLen = u32_be (field body 1 4) in
        if uint detailLen \<noteq> int (length body) - 5 then Inl ErrDecodeError
        else Inr \<lparr>al_Code = body ! 0, al_Detail = drop 5 body\<rparr>)"

record HelloPSKFrame =
  p_Suite :: SuiteID
  p_PQMode :: PQMode
  p_ClientRandom :: bytes
  p_TimestampNS :: u64
  p_PSKID :: bytes
  p_X25519EphPub :: bytes

definition HelloPSK_Encode :: "HelloPSKFrame \<Rightarrow> bytes" where
  "HelloPSK_Encode h =
     [p_Suite h, p_PQMode h] @ p_ClientRandom h @ be64 (p_TimestampNS h) @ p_PSKID h @ p_X25519EphPub h"

definition DecodeHelloPSK :: "bytes \<Rightarrow> hs_error + HelloPSKFrame" where
  "DecodeHelloPSK body =
     (if length body \<noteq> 1 + 1 + ClientRandLen + TimestampLen + PSKIDLen + X25519PubLen then Inl ErrDecodeError
      else
        let off1 = 2; off2 = off1 + ClientRandLen; off3 = off2 + TimestampLen; off4 = off3 + PSKIDLen in
        Inr \<lparr>p_Suite = body ! 0, p_PQMode = body ! 1, p_ClientRandom = field body off1 ClientRandLen,
          p_TimestampNS = u64_be (field body off2 TimestampLen), p_PSKID = field body off3 PSKIDLen,
          p_X25519EphPub = field body off4 X25519PubLen\<rparr>)"

section \<open>Envelope\<close>

text \<open>
  The read/write stream of a handshake or session. A write either succeeds or, as a deadline or a
  reset makes it, fails after some of its bytes went out: the script says which, one entry per
  write, \<^term>\<open>None\<close> (and an exhausted script) for success, \<^term>\<open>Some k\<close> for a failure after
  \<open>k\<close> bytes.
\<close>

record rwStream =
  rw_in :: bytes
  rw_out :: bytes
  rw_script :: "nat option list"
  rw_closed :: bool

definition rw_Write :: "rwStream \<Rightarrow> bytes \<Rightarrow> rwStream \<times> hs_error option" where
  "rw_Write w bs =
     (if rw_closed w then (w, Some (ErrIO ErrClosed))
      else case rw_script w of
        Some k # rest \<Rightarrow> (w\<lparr>rw_script := rest, rw_out := rw_out w @ take k bs\<rparr>, Some (ErrIO ErrClosed))
      | None # rest \<Rightarrow> (w\<lparr>rw_script := rest, rw_out := rw_out w @ bs\<rparr>, None)
      | [] \<Rightarrow> (w\<lparr>rw_out := rw_out w @ bs\<rparr>, None))"

definition writeFrame :: "rwStream \<Rightarrow> FrameType \<Rightarrow> bytes \<Rightarrow> rwStream \<times> hs_error option" where
  "writeFrame w t body =
     (if MaxFrameBody < length body then (w, Some ErrDecodeError)
      else rw_Write w ([t] @ be32 (of_nat (length body)) @ body))"

definition readFrame :: "bytes \<Rightarrow> hs_error + ((FrameType \<times> bytes) \<times> bytes)" where
  "readFrame s =
     (case ReadFull s 5 of
        Inl e \<Rightarrow> Inl (ErrIO e)
      | Inr (hdr, s1) \<Rightarrow>
          let len = u32_be (drop 1 hdr) in
          if MaxFrameBody < unat len then Inl ErrDecodeError
          else (case ReadFull s1 (unat len) of
                  Inl e \<Rightarrow> Inl (ErrIO e)
                | Inr (body, s2) \<Rightarrow> Inr ((hdr ! 0, body), s2)))"

definition rw_readFrame :: "rwStream \<Rightarrow> rwStream \<times> (hs_error + (FrameType \<times> bytes))" where
  "rw_readFrame w =
     (if rw_closed w then (w, Inl (ErrIO ErrClosed))
      else case readFrame (rw_in w) of
        Inl e \<Rightarrow> (w, Inl e)
      | Inr (f, rest) \<Rightarrow> (w\<lparr>rw_in := rest\<rparr>, Inr f))"

definition expectFrame :: "rwStream \<Rightarrow> FrameType \<Rightarrow> rwStream \<times> (hs_error + bytes)" where
  "expectFrame w want =
     (case rw_readFrame w of
        (w1, Inl e) \<Rightarrow> (w1, Inl e)
      | (w1, Inr (t, body)) \<Rightarrow>
          if t = FrameAlert
          then (w1, Inl (case DecodeAlert body of Inl e \<Rightarrow> e | Inr a \<Rightarrow> errorForAlert (al_Code a)))
          else if t \<noteq> want then (w1, Inl ErrDecodeError)
          else (w1, Inr body))"

fun error_text :: "hs_error \<Rightarrow> bytes" where
  "error_text ErrDecodeError = str ''zap-pq: decode_error''"
| "error_text ErrUnsupportedSuite = str ''zap-pq: unsupported_ciphersuite''"
| "error_text ErrAuthFailed = str ''zap-pq: auth_failed''"
| "error_text ErrReplayDetected = str ''zap-pq: replay_detected''"
| "error_text ErrDowngradeRefused = str ''zap-pq: downgrade_refused''"
| "error_text ErrHandshakeTimeout = str ''zap-pq: handshake_timeout''"
| "error_text ErrNonceViolation = str ''zap-pq: nonce_violation''"
| "error_text ErrPSKUnknown = str ''zap-pq: psk_unknown''"
| "error_text ErrVMIdentityMismatch = str ''zap-pq: vm_identity_mismatch''"
| "error_text ErrAuthoritySigFailed = str ''zap-pq: authority_sig_failed''"
| "error_text ErrPolicyRefused = str ''zap-pq: policy_refused''"
| "error_text ErrMagicMismatch = str ''zap-pq: magic prefix mismatch''"
| "error_text ErrSessionClosed = str ''zap-pq: session closed''"
| "error_text ErrEpochExhausted = str ''zap-pq: epoch wrap forbidden, reconnect required''"
| "error_text (ErrIO e) = []"
| "error_text ErrLocal = []"

definition writeAlert :: "rwStream \<Rightarrow> AlertCode \<Rightarrow> bytes \<Rightarrow> rwStream \<times> hs_error" where
  "writeAlert w code detail =
     (fst (writeFrame w FrameAlert (Alert_Encode \<lparr>al_Code = code, al_Detail = detail\<rparr>)), errorForAlert code)"

definition writeAlertFor :: "rwStream \<Rightarrow> hs_error \<Rightarrow> rwStream \<times> hs_error" where
  "writeAlertFor w err =
     (fst (writeFrame w FrameAlert (Alert_Encode \<lparr>al_Code = alertForError err, al_Detail = error_text err\<rparr>)), err)"

text \<open>The assembly buffers of \<open>writeFrame\<close>: 24 pools of sizes \<open>2 ^ 5\<close> to \<open>2 ^ 28\<close>.\<close>

fun bucket_from :: "nat \<Rightarrow> int \<Rightarrow> int \<Rightarrow> int" where
  "bucket_from 0 i tot = -1"
| "bucket_from (Suc k) i tot = (if tot \<le> 2 ^ nat (i + 5) then i else bucket_from k (i + 1) tot)"

definition frameBufBucket :: "int \<Rightarrow> int" where
  "frameBufBucket tot = bucket_from 24 0 tot"

definition frameBuf_size :: "int \<Rightarrow> int" where
  "frameBuf_size tot = (let b = frameBufBucket tot in if b < 0 then tot else 2 ^ nat (b + 5))"

section \<open>Codec laws\<close>

text \<open>What a frame body owes the protocol: every well-formed frame survives encoding, and a body that
  decodes is the encoding of the frame it decodes to, so no two bodies mean the same frame. The
  transcript hashes bodies, the parties act on frames: this is what makes the two agree.\<close>

locale frame_codec =
  fixes enc :: "'a \<Rightarrow> hs_error + bytes"
    and dec :: "bytes \<Rightarrow> hs_error + 'a"
    and wf :: "'a \<Rightarrow> bool"
  assumes dec_enc: "wf x \<Longrightarrow> \<exists>b. enc x = Inr b \<and> dec b = Inr x"
    and enc_dec: "dec b = Inr x \<Longrightarrow> wf x \<and> enc x = Inr b"
begin

lemma dec_iff: "dec b = Inr x \<longleftrightarrow> wf x \<and> enc x = Inr b"
  using dec_enc [of x] enc_dec [of b x] by auto

lemma canonical: "dec b = Inr x \<Longrightarrow> dec b' = Inr x \<Longrightarrow> b = b'"
  using enc_dec [of b x] enc_dec [of b' x] by simp

lemma enc_inj: "wf x \<Longrightarrow> wf y \<Longrightarrow> enc x = enc y \<Longrightarrow> x = y"
  using dec_enc [of x] dec_enc [of y] by auto

end

lemma field_split: "field body off n @ drop (off + n) body = drop off body"
  by (simp add: field_def add.commute flip: drop_drop)

lemma field_length: "off + n \<le> length body \<Longrightarrow> length (field body off n) = n"
  by (simp add: field_def)

lemma field_append:
  "field (xs @ ys) (length xs + off) n = field ys off n"
  "length xs = k \<Longrightarrow> field (xs @ ys) k n = take n ys"
  "length xs = n \<Longrightarrow> field (xs @ ys) 0 n = xs"
  by (simp_all add: field_def)

lemma two_heads: "2 \<le> length body \<Longrightarrow> body ! 0 # body ! 1 # drop 2 body = body"
  by (cases body; cases "tl body") auto

lemma u32_len: "n < 2 ^ 32 \<Longrightarrow> unat (u32_be (be32 (of_nat n))) = n" "n < 2 ^ 32 \<Longrightarrow> uint (u32_be (be32 (of_nat n))) = int n"
  by (simp_all add: unat_length uint_int_unat)

definition Hello_wf :: "HelloFrame \<Rightarrow> bool" where
  "Hello_wf h \<longleftrightarrow> length (h_ClientRandom h) = ClientRandLen \<and> length (h_ClientID h) = IDLen \<and>
     length (h_StaticPKInitiator h) = MLDSA65PubLen \<and> h_OfferedSchemes h \<noteq> [] \<and>
     length (h_OfferedSchemes h) \<le> MaxFrameBody \<and> h_Suite h \<in> set (h_OfferedSchemes h)"

definition KEMInit_wf :: "KEMInitFrame \<Rightarrow> bool" where
  "KEMInit_wf k \<longleftrightarrow> length (ki_X25519EphPub k) = X25519PubLen \<and> length (ki_MLKEMEphPub k) = MLKEM768PubLen"

definition KEMReply_wf :: "KEMReplyFrame \<Rightarrow> bool" where
  "KEMReply_wf k \<longleftrightarrow> length (kr_X25519EphPub k) = X25519PubLen \<and> length (kr_MLKEMCiphertext k) = MLKEM768CTLen \<and>
     length (kr_StaticPKResponder k) = MLDSA65PubLen"

definition Auth_wf :: "AuthFrame \<Rightarrow> bool" where
  "Auth_wf a \<longleftrightarrow> length (a_Signature a) = MLDSA65SigLen \<and> (a_Role a = RoleInitiator \<or> a_Role a = RoleResponder)"

definition HelloPSK_wf :: "HelloPSKFrame \<Rightarrow> bool" where
  "HelloPSK_wf h \<longleftrightarrow> length (p_ClientRandom h) = ClientRandLen \<and> length (p_PSKID h) = PSKIDLen \<and>
     length (p_X25519EphPub h) = X25519PubLen"

lemma Hello_dec_enc:
  assumes "Hello_wf h"
  shows "\<exists>b. Hello_Encode h = Inr b \<and> DecodeHello b = Inr h"
proof -
  let ?n = "length (h_OfferedSchemes h)"
  have n: "0 < ?n" "?n \<le> 2 ^ 24" using assms by (auto simp: Hello_wf_def MaxFrameBody_def)
  have u: "unat (of_nat ?n :: u32) = ?n" "uint (of_nat ?n :: u32) = int ?n"
    using n by (simp_all add: unat_length uint_int_unat)
  have nz: "(of_nat ?n :: u32) \<noteq> 0" using u(1) n(1) by (metis unat_0 less_irrefl)
  define b where "b = [h_Suite h, h_PQMode h] @ h_ClientRandom h @ be64 (h_TimestampNS h) @ h_ClientID h @
    be32 (of_nat ?n) @ h_OfferedSchemes h @ h_StaticPKInitiator h"
  have "drop 62 b = h_OfferedSchemes h @ h_StaticPKInitiator h"
    using assms by (simp add: b_def Hello_wf_def len_defs)
  then have "drop (62 + ?n) b = h_StaticPKInitiator h"
    by (simp add: add.commute [of 62] flip: drop_drop)
  then have "DecodeHello b = Inr h"
    using assms n u nz
    by (simp add: DecodeHello_def b_def Hello_wf_def Let_def field_def len_defs MaxFrameBody_def)
  then show ?thesis using assms by (auto simp: Hello_Encode_def Hello_wf_def b_def)
qed

lemma Hello_enc_dec:
  assumes "DecodeHello b = Inr h"
  shows "Hello_wf h \<and> Hello_Encode h = Inr b"
proof -
  let ?n = "u32_be (field b 58 4)"
  have len: "unat ?n \<le> MaxFrameBody" "?n \<noteq> 0" "length b = 62 + unat ?n + MLDSA65PubLen"
    "b ! 0 \<in> set (field b 62 (unat ?n))"
    and h: "h = \<lparr>h_Suite = b ! 0, h_PQMode = b ! 1, h_ClientRandom = field b 2 16,
      h_TimestampNS = u64_be (field b 18 8), h_ClientID = field b 26 32, h_OfferedSchemes = field b 62 (unat ?n),
      h_StaticPKInitiator = field b (62 + unat ?n) MLDSA65PubLen\<rparr>"
    using assms by (auto simp: DecodeHello_def Let_def len_defs split: if_splits)
  have "b = b ! 0 # b ! 1 # drop 2 b" using two_heads [of b] len(3) by simp
  also have "drop 2 b = field b 2 16 @ field b 18 8 @ field b 26 32 @ field b 58 4 @ field b 62 (unat ?n) @
      field b (62 + unat ?n) MLDSA65PubLen"
    using field_split [of b 2 16] field_split [of b 18 8] field_split [of b 26 32] field_split [of b 58 4]
      field_split [of b 62 "unat ?n"] field_split [of b "62 + unat ?n" MLDSA65PubLen] len(3) by simp
  finally have b: "b = b ! 0 # b ! 1 # field b 2 16 @ field b 18 8 @ field b 26 32 @ field b 58 4 @
      field b 62 (unat ?n) @ field b (62 + unat ?n) MLDSA65PubLen" .
  have fl: "length (field b 2 16) = 16" "length (field b 18 8) = 8" "length (field b 26 32) = 32"
    "length (field b 58 4) = 4" "length (field b 62 (unat ?n)) = unat ?n"
    "length (field b (62 + unat ?n) MLDSA65PubLen) = MLDSA65PubLen"
    using len(3) by (simp_all add: field_length MLDSA65PubLen_def)
  have ne: "field b 62 (unat ?n) \<noteq> []" using fl(5) len(2) by (metis length_0_conv unat_eq_0)
  have "Hello_Encode h = Inr (b ! 0 # b ! 1 # field b 2 16 @ field b 18 8 @ field b 26 32 @ field b 58 4 @
      field b 62 (unat ?n) @ field b (62 + unat ?n) MLDSA65PubLen)"
    using fl ne by (simp add: Hello_Encode_def h codec_roundtrip_bytes)
  then show ?thesis
    using b len fl ne by (simp add: Hello_wf_def h len_defs)
qed

interpretation hello: frame_codec Hello_Encode DecodeHello Hello_wf
  by unfold_locales (rule Hello_dec_enc Hello_enc_dec; assumption)+

interpretation kem_init: frame_codec "\<lambda>k. Inr (KEMInit_Encode k)" DecodeKEMInit KEMInit_wf
  by unfold_locales
    (auto simp: KEMInit_Encode_def DecodeKEMInit_def KEMInit_wf_def len_defs split: if_splits)

lemma KEMReply_enc_dec:
  assumes "DecodeKEMReply b = Inr k"
  shows "KEMReply_wf k \<and> KEMReply_Encode k = Inr b"
proof -
  have len: "length b = 3072" and k: "k = \<lparr>kr_X25519EphPub = field b 0 32, kr_MLKEMCiphertext = field b 32 1088,
      kr_StaticPKResponder = field b 1120 1952\<rparr>"
    using assms by (auto simp: DecodeKEMReply_def len_defs split: if_splits)
  have "field b 0 32 @ field b 32 1088 @ field b 1120 1952 = b"
    using field_split [of b 0 32] field_split [of b 32 1088] field_split [of b 1120 1952] len by simp
  then show ?thesis
    using len by (simp add: KEMReply_wf_def KEMReply_Encode_def k len_defs field_length)
qed

interpretation kem_reply: frame_codec KEMReply_Encode DecodeKEMReply KEMReply_wf
proof unfold_locales
  show "\<exists>b. KEMReply_Encode k = Inr b \<and> DecodeKEMReply b = Inr k" if "KEMReply_wf k" for k
    using that by (simp add: KEMReply_Encode_def DecodeKEMReply_def KEMReply_wf_def len_defs field_def)
qed (rule KEMReply_enc_dec)

interpretation auth: frame_codec Auth_Encode DecodeAuth Auth_wf
proof unfold_locales
  show "Auth_wf a \<and> Auth_Encode a = Inr b" if "DecodeAuth b = Inr a" for a b
    using that by (cases b) (auto simp: Auth_Encode_def DecodeAuth_def Auth_wf_def Let_def split: if_splits)
qed (auto simp: Auth_Encode_def DecodeAuth_def Auth_wf_def)

lemma be32_field:
  assumes "n = int m" and "uint (u32_be f) = n" and "length f = 4"
  shows "be32 (of_nat m) = f"
proof -
  have "u32_be f = word_of_int (int m)" using assms(1,2) by (metis word_of_int_uint)
  then show ?thesis using codec_roundtrip_bytes(4) [OF assms(3)] by simp
qed

lemma uint_eq_bound: "uint (w :: u32) = int n \<Longrightarrow> n < 2 ^ 32"
  using unsigned_less [of w, where 'a = int] by simp

interpretation data: frame_codec "\<lambda>d. Inr (Data_Encode d)" DecodeData "\<lambda>d. length (d_Ciphertext d) < 2 ^ 32"
proof unfold_locales
  show "\<exists>b. Inr (Data_Encode d) = Inr b \<and> DecodeData b = Inr d" if "length (d_Ciphertext d) < 2 ^ 32" for d
    using u32_len(2) [OF that] by (simp add: Data_Encode_def DecodeData_def Let_def field_def len_defs)
  show "length (d_Ciphertext d) < 2 ^ 32 \<and> Inr (Data_Encode d) = Inr b" if "DecodeData b = Inr d" for b d
  proof -
    let ?n = "u32_be (field b 8 4)"
    have len: "12 \<le> length b" "uint ?n = int (length b - 12)"
      and d: "d = \<lparr>d_NonceCounter = u64_be (field b 0 8), d_Ciphertext = drop 12 b\<rparr>"
      using that by (auto simp: DecodeData_def len_defs Let_def field_def split: if_splits)
    have "b = field b 0 8 @ field b 8 4 @ drop 12 b"
      using field_split [of b 0 8] field_split [of b 8 4] by simp
    moreover have "be32 (of_nat (length b - 12)) = field b 8 4"
      using len by (intro be32_field) (simp_all add: field_length)
    moreover have "length b - 12 < 2 ^ 32"
      using uint_eq_bound [OF len(2)] .
    moreover have "be64 (u64_be (field b 0 8)) = field b 0 8"
      using len by (simp add: codec_roundtrip_bytes field_length)
    ultimately show ?thesis by (simp add: d Data_Encode_def)
  qed
qed

interpretation rekey: frame_codec "\<lambda>r. Inr (Rekey_Encode r)" DecodeRekey "\<lambda>_. True"
  by unfold_locales (auto simp: Rekey_Encode_def DecodeRekey_def length_Suc_conv split: if_splits)

interpretation alert: frame_codec "\<lambda>a. Inr (Alert_Encode a)" DecodeAlert "\<lambda>a. length (al_Detail a) < 2 ^ 32"
proof unfold_locales
  show "\<exists>b. Inr (Alert_Encode a) = Inr b \<and> DecodeAlert b = Inr a" if "length (al_Detail a) < 2 ^ 32" for a
    using u32_len(2) [OF that] by (simp add: Alert_Encode_def DecodeAlert_def Let_def field_def)
  show "length (al_Detail a) < 2 ^ 32 \<and> Inr (Alert_Encode a) = Inr b" if "DecodeAlert b = Inr a" for b a
  proof -
    let ?n = "u32_be (field b 1 4)"
    have len: "5 \<le> length b" "uint ?n = int (length b - 5)"
      and a: "a = \<lparr>al_Code = b ! 0, al_Detail = drop 5 b\<rparr>"
      using that by (auto simp: DecodeAlert_def Let_def split: if_splits)
    have "b = b ! 0 # drop 1 b" using len(1) by (cases b) auto
    moreover have "drop 1 b = field b 1 4 @ drop 5 b" using field_split [of b 1 4] by simp
    moreover have "be32 (of_nat (length b - 5)) = field b 1 4"
      using len by (intro be32_field) (simp_all add: field_length)
    moreover have "length b - 5 < 2 ^ 32"
      using uint_eq_bound [OF len(2)] .
    ultimately show ?thesis by (simp add: a Alert_Encode_def)
  qed
qed

lemma HelloPSK_enc_dec:
  assumes "DecodeHelloPSK b = Inr h"
  shows "HelloPSK_wf h \<and> HelloPSK_Encode h = b"
proof -
  have len: "length b = 74" and h: "h = \<lparr>p_Suite = b ! 0, p_PQMode = b ! 1, p_ClientRandom = field b 2 16,
      p_TimestampNS = u64_be (field b 18 8), p_PSKID = field b 26 16, p_X25519EphPub = field b 42 32\<rparr>"
    using assms by (auto simp: DecodeHelloPSK_def Let_def len_defs split: if_splits)
  have "drop 2 b = field b 2 16 @ field b 18 8 @ field b 26 16 @ field b 42 32"
    using field_split [of b 2 16] field_split [of b 18 8] field_split [of b 26 16] field_split [of b 42 32] len by simp
  then have "b = b ! 0 # b ! 1 # field b 2 16 @ field b 18 8 @ field b 26 16 @ field b 42 32"
    using two_heads [of b] len by simp
  then show ?thesis
    using len by (simp add: HelloPSK_wf_def HelloPSK_Encode_def h len_defs field_length codec_roundtrip_bytes)
qed

interpretation hello_psk: frame_codec "\<lambda>h. Inr (HelloPSK_Encode h)" DecodeHelloPSK HelloPSK_wf
proof unfold_locales
  show "\<exists>b. Inr (HelloPSK_Encode h) = Inr b \<and> DecodeHelloPSK b = Inr h" if "HelloPSK_wf h" for h
    using that by (simp add: HelloPSK_Encode_def DecodeHelloPSK_def HelloPSK_wf_def len_defs field_def Let_def)
qed (use HelloPSK_enc_dec in simp)

section \<open>Envelope laws\<close>

definition envelope :: "FrameType \<times> bytes \<Rightarrow> bytes" where
  "envelope f = [fst f] @ be32 (of_nat (length (snd f))) @ snd f"

definition body_fits :: "FrameType \<times> bytes \<Rightarrow> bool" where
  "body_fits f \<longleftrightarrow> length (snd f) \<le> MaxFrameBody"

lemma body_len: "body_fits f \<Longrightarrow> unat (of_nat (length (snd f)) :: u32) = length (snd f)"
  by (rule unat_length) (simp add: body_fits_def MaxFrameBody_def)

lemma ReadFull_envelope:
  "ReadFull (envelope f @ s) 5 = Inr ([fst f] @ be32 (of_nat (length (snd f))), snd f @ s)"
  using ReadFull_append [of "[fst f] @ be32 (of_nat (length (snd f)))" 5 "snd f @ s"] by (simp add: envelope_def)

interpretation pq: frame_stream envelope readFrame body_fits
proof unfold_locales
  show "readFrame (envelope f @ s) = Inr (f, s)" if "body_fits f" for f s
    using that body_len [OF that] by (simp add: readFrame_def ReadFull_envelope body_fits_def)
  show "\<exists>e. readFrame s = Inl e" if f: "body_fits f" "prefix s (envelope f)" "s \<noteq> envelope f" for f s
  proof (cases "length s < 5")
    case True
    then show ?thesis using ReadFull_short [OF True] by (auto simp: readFrame_def)
  next
    case False
    define a where "a = [fst f] @ be32 (of_nat (length (snd f)))"
    have la: "length a = 5" by (simp add: a_def)
    obtain t where t: "s = a @ t" "prefix t (snd f)" "t \<noteq> snd f"
      using f(2,3) prefix_past [of s a "snd f"] False la by (auto simp: envelope_def a_def)
    then have "length t < length (snd f)" using prefix_length_less [of t "snd f"] by (simp add: strict_prefix_def)
    moreover have "unat (u32_be (drop 1 a)) = length (snd f)" using body_len [OF f(1)] by (simp add: a_def)
    ultimately show ?thesis
      using ReadFull_short [of t "length (snd f)"] f(1) la by (simp add: t(1) readFrame_def body_fits_def) auto
  qed
  show "\<exists>e. readFrame [] = Inl e" by (simp add: readFrame_def ReadFull_def)
qed

text \<open>Every handshake and session frame has one encoding: each of the eight frame bodies decodes
  exactly from the encoding of a well-formed frame, so encoding and decoding are inverse to each
  other, two different bodies never decode to the same frame, and nothing malformed is accepted.\<close>

lemma frame_codecs_exact:
  "(DecodeHello b = Inr h \<longleftrightarrow> Hello_wf h \<and> Hello_Encode h = Inr b) \<and>
   (DecodeKEMInit b = Inr ki \<longleftrightarrow> KEMInit_wf ki \<and> KEMInit_Encode ki = b) \<and>
   (DecodeKEMReply b = Inr kr \<longleftrightarrow> KEMReply_wf kr \<and> KEMReply_Encode kr = Inr b) \<and>
   (DecodeAuth b = Inr a \<longleftrightarrow> Auth_wf a \<and> Auth_Encode a = Inr b) \<and>
   (DecodeData b = Inr d \<longleftrightarrow> length (d_Ciphertext d) < 2 ^ 32 \<and> Data_Encode d = b) \<and>
   (DecodeRekey b = Inr r \<longleftrightarrow> Rekey_Encode r = b) \<and>
   (DecodeAlert b = Inr al \<longleftrightarrow> length (al_Detail al) < 2 ^ 32 \<and> Alert_Encode al = b) \<and>
   (DecodeHelloPSK b = Inr p \<longleftrightarrow> HelloPSK_wf p \<and> HelloPSK_Encode p = b)"
  using hello.dec_iff kem_init.dec_iff kem_reply.dec_iff auth.dec_iff data.dec_iff rekey.dec_iff
    alert.dec_iff hello_psk.dec_iff by simp

text \<open>Frames keep their boundaries: whatever frames are written one after the other, the reader
  gets back exactly this sequence, and from a stream cut anywhere a prefix of it.\<close>

lemma envelope_stream:
  assumes "\<forall>f \<in> set fs. body_fits f"
  shows "read_frames readFrame (length (concat (map envelope fs))) (concat (map envelope fs)) = fs \<and>
    (\<forall>s k. prefix s (concat (map envelope fs)) \<longrightarrow> prefix (read_frames readFrame k s) fs)"
  using pq.read_exact [OF assms pq.length_frames [OF assms]] pq.read_cut [OF assms] by blast

text \<open>Alerts name the error on both sides: the code sent for an error is translated back to that
  very error for all eleven wire errors, no two of them share a code, and every unknown code and
  every local error reads as a decode error.\<close>

lemma alert_roundtrip:
  "errorForAlert (alertForError e) =
     (if e \<in> {ErrUnsupportedSuite, ErrAuthFailed, ErrReplayDetected, ErrDowngradeRefused, ErrHandshakeTimeout,
        ErrNonceViolation, ErrPSKUnknown, ErrVMIdentityMismatch, ErrAuthoritySigFailed, ErrPolicyRefused}
      then e else ErrDecodeError) \<and>
   (errorForAlert c \<noteq> ErrDecodeError \<longrightarrow> alertForError (errorForAlert c) = c)"
  by (cases e) (auto simp: errorForAlert_def alert_codes)

lemma bucket_from_spec:
  "0 \<le> i \<Longrightarrow>
   (bucket_from k i tot = -1 \<longleftrightarrow> k = 0 \<or> 2 ^ nat (i + int k + 4) < tot) \<and>
   (bucket_from k i tot \<noteq> -1 \<longrightarrow> i \<le> bucket_from k i tot \<and> tot \<le> 2 ^ nat (bucket_from k i tot + 5))"
proof (induction k arbitrary: i)
  case (Suc k)
  define A B :: int where "A = 2 ^ nat (i + 5)" and "B = 2 ^ nat (i + int (Suc k) + 4)"
  have AB: "A \<le> B" unfolding A_def B_def by (rule power_increasing) (use Suc.prems in simp_all)
  have B: "B = 2 ^ nat (i + 1 + int k + 4)" "k = 0 \<Longrightarrow> B = A"
    by (simp_all add: A_def B_def add.commute add.left_commute)
  let ?b = "bucket_from (Suc k) i tot"
  have "(?b = -1 \<longleftrightarrow> B < tot) \<and> (?b \<noteq> -1 \<longrightarrow> i \<le> ?b \<and> tot \<le> 2 ^ nat (?b + 5))"
  proof (cases "tot \<le> A")
    case True
    then have "?b = i" by (simp add: A_def)
    then show ?thesis using AB Suc.prems True by (simp add: A_def)
  next
    case False
    then have "?b = bucket_from k (i + 1) tot" by (simp add: A_def)
    then show ?thesis using Suc.IH [of "i + 1"] Suc.prems B False by auto
  qed
  then show ?case by (simp only: B_def) simp
qed simp

text \<open>The assembly buffer of a frame is large enough: the pool bucket chosen for any frame length
  holds at least that many bytes, and the pools give up only above \<open>2 ^ 28\<close> bytes, not, as the
  comment of \<open>frameBufBucket\<close> has it, above the frame limit.\<close>

lemma frame_buffer_fits:
  "tot \<le> frameBuf_size tot \<and> (frameBufBucket tot = -1 \<longleftrightarrow> 2 ^ 28 < tot)"
proof -
  have s: "(frameBufBucket tot = -1 \<longleftrightarrow> 2 ^ 28 < tot) \<and>
      (frameBufBucket tot \<noteq> -1 \<longrightarrow> 0 \<le> frameBufBucket tot \<and> tot \<le> 2 ^ nat (frameBufBucket tot + 5))"
    using bucket_from_spec [of 0 24 tot] by (simp add: frameBufBucket_def)
  then show ?thesis by (auto simp: frameBuf_size_def Let_def)
qed

end
