(* ===== verification/PQ_Stores.thy ===== *)
theory PQ_Stores
  imports PQ_Frames
begin

text \<open>
  The two stores a responder keeps across handshakes: the replay cache of
  \<open>src/handshake/replay.go\<close> and the resumption-key store of \<open>src/handshake/psk.go\<close>. Times are
  nanoseconds; the reading of the clock is an argument of each operation. SHA3-256 is an argument
  of the operations that hash. A Go map used as a set is a set; a map from ids is a map. Each store
  is shown to implement the contract its comments state, over any sequence of operations.
\<close>

section \<open>Replay cache\<close>

type_synonym replayKey = "bytes \<times> bytes"

record ReplayCache =
  rc_active :: "replayKey set"
  rc_frozen :: "replayKey set"
  rc_frozenAt :: int
  rc_ttl :: int
  rc_maxLen :: nat

definition second :: int where "second = 1000000000"

definition ReplayCacheTTLSec :: int where "ReplayCacheTTLSec = 60"
definition ReplayWindowNS :: int where "ReplayWindowNS = 30 * 1000000000"

definition NewReplayCache :: "int \<Rightarrow> ReplayCache" where
  "NewReplayCache now = \<lparr>rc_active = {}, rc_frozen = {}, rc_frozenAt = now,
     rc_ttl = ReplayCacheTTLSec * second, rc_maxLen = 2 ^ 20\<rparr>"

definition flip :: "ReplayCache \<Rightarrow> int \<Rightarrow> ReplayCache" where
  "flip c now =
     (if rc_ttl c \<le> now - rc_frozenAt c
      then c\<lparr>rc_frozen := rc_active c, rc_active := {}, rc_frozenAt := now\<rparr> else c)"

definition SeenOrAdd :: "ReplayCache \<Rightarrow> int \<Rightarrow> bytes \<Rightarrow> bytes \<Rightarrow> ReplayCache \<times> bool" where
  "SeenOrAdd c now clientID clientRandom =
     (let key = (clientID, clientRandom);
          c1 = flip c now in
      if key \<in> rc_frozen c1 then (c1, True)
      else if key \<in> rc_active c1 then (c1, True)
      else if rc_maxLen c1 \<le> card (rc_active c1) then (c1, True)
      else (c1\<lparr>rc_active := insert key (rc_active c1)\<rparr>, False))"

definition ReplayCache_Sweep :: "ReplayCache \<Rightarrow> int \<Rightarrow> ReplayCache" where
  "ReplayCache_Sweep c now = flip c now"

definition ReplayCache_Len :: "ReplayCache \<Rightarrow> nat" where
  "ReplayCache_Len c = card (rc_active c) + card (rc_frozen c)"

text \<open>Timestamps are 64-bit: the clock's nanoseconds and the skew are signed words, and negation of
  the most negative word is that word again.\<close>

definition CheckTimestamp :: "u64 \<Rightarrow> u64 \<Rightarrow> hs_error option" where
  "CheckTimestamp now timestampNS =
     (if sint now < 0 then Some ErrReplayDetected
      else
        let skew = timestampNS - now;
            skew1 = (if sint skew < 0 then - skew else skew) in
        if ReplayWindowNS < sint skew1 then Some ErrReplayDetected else None)"

section \<open>Resumption keys\<close>

record pskEntry =
  pe_psk :: bytes
  pe_clientID :: bytes
  pe_expires :: int
  pe_redeemed :: bool

record PSKStore =
  ps_entries :: "bytes \<rightharpoonup> pskEntry"
  ps_ttl :: int

definition PSKLifetimeSec :: int where "PSKLifetimeSec = 3600"

definition NewPSKStore :: PSKStore where
  "NewPSKStore = \<lparr>ps_entries = Map.empty, ps_ttl = PSKLifetimeSec * second\<rparr>"

definition PSKID :: "(bytes \<Rightarrow> bytes) \<Rightarrow> bytes \<Rightarrow> bytes" where
  "PSKID sha3 psk = take PSKIDLen (sha3 psk)"

definition Issue :: "(bytes \<Rightarrow> bytes) \<Rightarrow> PSKStore \<Rightarrow> int \<Rightarrow> bytes \<Rightarrow> bytes \<Rightarrow> PSKStore \<times> bytes" where
  "Issue sha3 s now psk clientID =
     (let pid = PSKID sha3 psk in
      (s\<lparr>ps_entries := (ps_entries s)(pid \<mapsto>
           \<lparr>pe_psk = psk, pe_clientID = clientID, pe_expires = now + ps_ttl s, pe_redeemed = False\<rparr>)\<rparr>, pid))"

definition Redeem :: "PSKStore \<Rightarrow> int \<Rightarrow> bytes \<Rightarrow> PSKStore \<times> (bytes \<times> bytes) option" where
  "Redeem s now pid =
     (case ps_entries s pid of
        None \<Rightarrow> (s, None)
      | Some e \<Rightarrow>
          if pe_redeemed e \<or> pe_expires e < now
          then (s\<lparr>ps_entries := (ps_entries s)(pid := None)\<rparr>, None)
          else (s\<lparr>ps_entries := (ps_entries s)(pid := None)\<rparr>, Some (pe_psk e, pe_clientID e)))"

definition PSKStore_Sweep :: "PSKStore \<Rightarrow> int \<Rightarrow> PSKStore" where
  "PSKStore_Sweep s now =
     s\<lparr>ps_entries := (\<lambda>pid. case ps_entries s pid of
         None \<Rightarrow> None | Some e \<Rightarrow> if pe_expires e < now then None else Some e)\<rparr>"

record ClientPSK =
  cp_ID :: bytes
  cp_PSK :: bytes
  cp_PeerID :: bytes
  cp_Until :: int

definition MakeClientPSK :: "(bytes \<Rightarrow> bytes) \<Rightarrow> bytes \<Rightarrow> bytes \<Rightarrow> int \<Rightarrow> ClientPSK" where
  "MakeClientPSK sha3 psk peerID now =
     \<lparr>cp_ID = PSKID sha3 psk, cp_PSK = psk, cp_PeerID = peerID, cp_Until = now + PSKLifetimeSec * second\<rparr>"

section \<open>The replay cache remembers\<close>

text \<open>Any sequence of operations at times that do not run backwards.\<close>

datatype rc_op = RcSeen bytes bytes | RcSweep

fun rc_run :: "ReplayCache \<Rightarrow> (int \<times> rc_op) list \<Rightarrow> ReplayCache" where
  "rc_run c [] = c"
| "rc_run c ((now, RcSeen i r) # ops) = rc_run (fst (SeenOrAdd c now i r)) ops"
| "rc_run c ((now, RcSweep) # ops) = rc_run (ReplayCache_Sweep c now) ops"

definition remembers :: "replayKey \<Rightarrow> int \<Rightarrow> ReplayCache \<Rightarrow> bool" where
  "remembers key t c \<longleftrightarrow> key \<in> rc_active c \<or> key \<in> rc_frozen c \<and> t \<le> rc_frozenAt c"

lemma flip_remembers:
  assumes "remembers key t c" and "t \<le> now" and "now < t + rc_ttl c"
  shows "remembers key t (flip c now)"
  using assms by (auto simp: remembers_def flip_def)

lemma flip_params [simp]: "rc_ttl (flip c now) = rc_ttl c" "rc_maxLen (flip c now) = rc_maxLen c"
  by (simp_all add: flip_def)

lemma SeenOrAdd_remembers:
  assumes "remembers key t c" and "t \<le> now" and "now < t + rc_ttl c"
  shows "remembers key t (fst (SeenOrAdd c now i r))" and "(i, r) = key \<Longrightarrow> snd (SeenOrAdd c now i r)"
  using flip_remembers [OF assms] by (auto simp: SeenOrAdd_def Let_def remembers_def)

lemma SeenOrAdd_ttl [simp]: "rc_ttl (fst (SeenOrAdd c now i r)) = rc_ttl c"
  by (simp add: SeenOrAdd_def Let_def)

lemma rc_run_remembers:
  "remembers key t c \<Longrightarrow> \<forall>(now, op) \<in> set ops. t \<le> now \<and> now < t + rc_ttl c \<Longrightarrow>
   remembers key t (rc_run c ops) \<and> rc_ttl (rc_run c ops) = rc_ttl c"
proof (induction c ops rule: rc_run.induct)
  case (2 c now i r ops)
  then show ?case using SeenOrAdd_remembers(1) [of key t c now i r] by simp
next
  case (3 c now ops)
  then show ?case using flip_remembers [of key t c now] by (simp add: ReplayCache_Sweep_def)
qed simp

lemma seen_stays_seen:
  assumes "SeenOrAdd c t i r = (c1, False)" and "\<forall>(now, op) \<in> set ops. t \<le> now \<and> now < t + rc_ttl c"
    and "t \<le> t2" and "t2 < t + rc_ttl c"
  shows "snd (SeenOrAdd (rc_run c1 ops) t2 i r)"
proof -
  have "remembers (i, r) t c1" "rc_ttl c1 = rc_ttl c"
    using assms(1) by (auto simp: SeenOrAdd_def Let_def remembers_def split: if_splits)
  then show ?thesis
    using rc_run_remembers [of "(i, r)" t c1 ops] SeenOrAdd_remembers(2) [of "(i, r)" t "rc_run c1 ops" t2 i r] assms
    by simp
qed

text \<open>No HELLO is admitted twice within the window: once \<open>SeenOrAdd\<close> has admitted a (client id,
  client random) pair at time \<open>t\<close>, every later call with that pair before \<open>t + ttl\<close> reports it as
  seen, whatever other pairs were checked and whatever sweeps ran in between.\<close>

lemma replay_never_readmitted:
  assumes "SeenOrAdd c t i r = (c1, False)" and "\<forall>(now, op) \<in> set ops. t \<le> now \<and> now < t + rc_ttl c"
    and "t \<le> t2" and "t2 < t + rc_ttl c"
  shows "snd (SeenOrAdd (rc_run c1 ops) t2 i r)"
  using assms by (rule seen_stays_seen)

definition rc_bounded :: "ReplayCache \<Rightarrow> bool" where
  "rc_bounded c \<longleftrightarrow> finite (rc_active c) \<and> finite (rc_frozen c) \<and>
     card (rc_active c) \<le> rc_maxLen c \<and> card (rc_frozen c) \<le> rc_maxLen c"

lemma flip_bounded: "rc_bounded c \<Longrightarrow> rc_bounded (flip c now)"
  by (auto simp: rc_bounded_def flip_def)

lemma SeenOrAdd_bounded: "rc_bounded c \<Longrightarrow> rc_bounded (fst (SeenOrAdd c now i r))"
  using flip_bounded [of c now] by (auto simp: SeenOrAdd_def Let_def rc_bounded_def card_insert_if)

lemma rc_run_bounded: "rc_bounded c \<Longrightarrow> rc_bounded (rc_run c ops) \<and> rc_maxLen (rc_run c ops) = rc_maxLen c"
  by (induction c ops rule: rc_run.induct)
    (use SeenOrAdd_bounded flip_bounded in \<open>auto simp: ReplayCache_Sweep_def SeenOrAdd_def Let_def\<close>)

text \<open>The cache is bounded and fails closed: no sequence of operations makes it hold more than
  \<open>2 ^ 21\<close> pairs, and when a generation is full a new pair is refused and nothing is forgotten.\<close>

lemma replay_cache_bounded:
  "ReplayCache_Len (rc_run (NewReplayCache t0) ops) \<le> 2 ^ 21 \<and>
   (card (rc_active (flip c now)) = rc_maxLen c \<longrightarrow> SeenOrAdd c now i r = (flip c now, True))"
proof
  have "rc_bounded (NewReplayCache t0)" by (simp add: rc_bounded_def NewReplayCache_def)
  from rc_run_bounded [OF this, of ops] show "ReplayCache_Len (rc_run (NewReplayCache t0) ops) \<le> 2 ^ 21"
    by (simp add: rc_bounded_def ReplayCache_Len_def NewReplayCache_def)
qed (simp add: SeenOrAdd_def Let_def)

section \<open>Timestamps\<close>

lemma sint_range: "- (2 ^ 63) \<le> sint (w :: u64)" "sint w < 2 ^ 63"
  using sint_greater_eq [of w] sint_less [of w] by simp_all

lemma sint_of_int: "- (2 ^ 63) \<le> d \<Longrightarrow> d < 2 ^ 63 \<Longrightarrow> sint (word_of_int d :: u64) = d"
  by (simp add: sint_sbintrunc' signed_take_bit_int_eq_self)

lemma sint_diff:
  assumes "- (2 ^ 63) \<le> sint a - sint b" and "sint a - sint b < 2 ^ 63"
  shows "sint (a - b :: u64) = sint a - sint b"
proof -
  obtain d where d: "d = sint a - sint b" by blast
  have "a - b = word_of_int d" by (simp add: d wi_hom_sub [symmetric])
  then show ?thesis using sint_of_int [of d] assms d by simp
qed

lemma sint_neg: "sint w < 0 \<Longrightarrow> sint w \<noteq> - (2 ^ 63) \<Longrightarrow> sint (- w :: u64) = - sint w"
  using sint_diff [of 0 w] sint_range [of w] by simp

text \<open>The timestamp window is 30 seconds either way: for a clock and a timestamp of the signed
  64-bit range from 1970 on, a HELLO passes exactly when they differ by at most 30 seconds.\<close>

lemma timestamp_window:
  assumes "0 \<le> sint now" and "0 \<le> sint ts"
  shows "CheckTimestamp now ts = None \<longleftrightarrow> \<bar>sint ts - sint now\<bar> \<le> 30 * second"
proof -
  have d: "sint (ts - now) = sint ts - sint now"
    using assms sint_range [of ts] sint_range [of now] by (intro sint_diff) linarith+
  have "sint (- (ts - now)) = - (sint ts - sint now)" if "sint (ts - now) < 0"
    using sint_neg [OF that] d assms sint_range [of ts] sint_range [of now] by linarith
  with d assms(1) show ?thesis
    by (auto simp: CheckTimestamp_def Let_def ReplayWindowNS_def second_def)
qed

text \<open>One timestamp escapes the window: the one exactly \<open>2 ^ 63\<close> nanoseconds (292 years) away from
  the clock, because the skew is then the most negative 64-bit integer, whose negation is negative.
  It passes the check at every clock reading.\<close>

lemma timestamp_overflow_accepted:
  assumes "0 \<le> sint now"
  shows "CheckTimestamp now (now + 0x8000000000000000) = None"
proof -
  have "sint (0x8000000000000000 :: u64) < 0" "- (0x8000000000000000 :: u64) = 0x8000000000000000" by code_simp+
  then show ?thesis using assms by (simp add: CheckTimestamp_def Let_def ReplayWindowNS_def)
qed

section \<open>Resumption keys are single-use\<close>

datatype ps_op = PsIssue bytes bytes | PsRedeem bytes | PsSweep

fun ps_step :: "(bytes \<Rightarrow> bytes) \<Rightarrow> PSKStore \<Rightarrow> int \<times> ps_op \<Rightarrow> PSKStore" where
  "ps_step sha3 s (now, PsIssue psk cid) = fst (Issue sha3 s now psk cid)"
| "ps_step sha3 s (now, PsRedeem pid) = fst (Redeem s now pid)"
| "ps_step sha3 s (now, PsSweep) = PSKStore_Sweep s now"

definition ps_run :: "(bytes \<Rightarrow> bytes) \<Rightarrow> PSKStore \<Rightarrow> (int \<times> ps_op) list \<Rightarrow> PSKStore" where
  "ps_run sha3 = foldl (ps_step sha3)"

lemma ps_run_simps [simp]:
  "ps_run sha3 s [] = s" "ps_run sha3 s (x # xs) = ps_run sha3 (ps_step sha3 s x) xs"
  "ps_run sha3 s (xs @ [x]) = ps_step sha3 (ps_run sha3 s xs) x"
  by (simp_all add: ps_run_def)

lemma Redeem_entries: "ps_entries (fst (Redeem s now pid)) = (ps_entries s)(pid := None)"
  by (auto simp: Redeem_def split: option.splits)

lemma ps_step_ttl [simp]: "ps_ttl (ps_step sha3 s (now, op)) = ps_ttl s"
  by (cases op) (auto simp: Issue_def Let_def PSKStore_Sweep_def Redeem_def split: option.splits)

text \<open>Where an entry can come from.\<close>

lemma ps_step_entry:
  assumes "ps_entries (ps_step sha3 s (now, op)) pid = Some e"
  shows "ps_entries s pid = Some e \<or>
    op = PsIssue (pe_psk e) (pe_clientID e) \<and> pid = PSKID sha3 (pe_psk e) \<and>
    pe_expires e = now + ps_ttl s \<and> \<not> pe_redeemed e"
proof (cases op)
  case (PsIssue psk cid)
  then show ?thesis using assms by (auto simp: Issue_def Let_def split: if_splits)
next
  case (PsRedeem q)
  then show ?thesis using assms by (auto simp: Redeem_entries split: if_splits)
next
  case PsSweep
  then show ?thesis using assms by (auto simp: PSKStore_Sweep_def split: option.splits if_splits)
qed

lemma ps_run_keeps_out:
  "ps_entries s pid = None \<Longrightarrow> \<forall>psk cid. PsIssue psk cid \<in> snd ` set ops \<longrightarrow> PSKID sha3 psk \<noteq> pid \<Longrightarrow>
   ps_entries (ps_run sha3 s ops) pid = None"
proof (induction ops arbitrary: s)
  case (Cons x ops)
  obtain now op where x: "x = (now, op)" by force
  have "ps_entries (ps_step sha3 s x) pid = None"
  proof (rule ccontr)
    assume "ps_entries (ps_step sha3 s x) pid \<noteq> None"
    then obtain e where "ps_entries (ps_step sha3 s (now, op)) pid = Some e" using x by auto
    from ps_step_entry [OF this] Cons.prems x show False by auto
  qed
  from Cons.IH [OF this] Cons.prems(2) show ?case by auto
qed simp

text \<open>A resumption key works once: after a successful redemption of an id, every later redemption
  of it fails, whatever the store did in between, unless a key with that id is issued again.\<close>

lemma psk_single_use:
  assumes "Redeem s t pid = (s1, Some (psk, cid))"
    and "\<forall>psk cid. PsIssue psk cid \<in> snd ` set ops \<longrightarrow> PSKID sha3 psk \<noteq> pid"
  shows "snd (Redeem (ps_run sha3 s1 ops) t2 pid) = None"
proof -
  have "ps_entries s1 pid = None" using Redeem_entries [of s t pid] assms(1) by simp
  from ps_run_keeps_out [OF this assms(2)] show ?thesis by (simp add: Redeem_def)
qed

lemma ps_run_entries:
  shows "ps_entries (ps_run sha3 NewPSKStore ops) pid = Some e \<Longrightarrow>
     \<exists>t0. (t0, PsIssue (pe_psk e) (pe_clientID e)) \<in> set ops \<and> pid = PSKID sha3 (pe_psk e) \<and>
        pe_expires e = t0 + PSKLifetimeSec * second"
    and "ps_ttl (ps_run sha3 NewPSKStore ops) = PSKLifetimeSec * second"
proof (induction ops rule: rev_induct)
  case (snoc x ops)
  obtain now op where x: "x = (now, op)" by force
  {
    case 1
    then have "ps_entries (ps_step sha3 (ps_run sha3 NewPSKStore ops) (now, op)) pid = Some e" by (simp add: x)
    from ps_step_entry [OF this] snoc show ?case by (auto simp: x)
  next
    case 2
    then show ?case using snoc by (simp add: x)
  }
qed (simp_all add: NewPSKStore_def)

text \<open>A redemption returns what was issued: in any history of the store, a redemption that
  succeeds returns the key and the client of an earlier issue of that very id, at most 3600
  seconds old.\<close>

lemma psk_redeem_issued:
  assumes "Redeem (ps_run sha3 NewPSKStore ops) t pid = (s1, Some (psk, cid))"
  shows "\<exists>t0. (t0, PsIssue psk cid) \<in> set ops \<and> pid = PSKID sha3 psk \<and> t \<le> t0 + 3600 * second"
proof -
  obtain e where "ps_entries (ps_run sha3 NewPSKStore ops) pid = Some e" "t \<le> pe_expires e"
    "psk = pe_psk e" "cid = pe_clientID e"
    using assms by (auto simp: Redeem_def split: option.splits if_splits)
  with ps_run_entries(1) [of sha3 ops pid e] show ?thesis by (auto simp: PSKLifetimeSec_def)
qed

end
