(* ===== verification/PQ_Keys.thy ===== *)
theory PQ_Keys
  imports PQ_Stores
begin

unbundle bit_operations_syntax

text \<open>
  Identities, the transcript hash and the key schedule of the handshake
  (\<open>src/handshake/identity.go\<close>, \<open>src/handshake/transcript.go\<close>, \<open>src/handshake/kdf.go\<close>). The
  cryptographic primitives (SHA3-256, HKDF, AES-GCM, X25519, ML-KEM-768, ML-DSA-65) are third-party
  code: they are the components of one argument, the record \<open>crypto\<close>, and what the protocol relies
  on is stated as predicates on it. Zeroing of dead local secrets has no observable effect and is
  left out.
\<close>

section \<open>Primitives\<close>

record crypto =
  sha3 :: "bytes \<Rightarrow> bytes"
  hkdf_extract :: "bytes \<Rightarrow> bytes \<Rightarrow> bytes"
  hkdf_expand :: "bytes \<Rightarrow> bytes \<Rightarrow> nat \<Rightarrow> bytes"
  gcm_seal :: "bytes \<Rightarrow> bytes \<Rightarrow> bytes \<Rightarrow> bytes \<Rightarrow> bytes"
  gcm_open :: "bytes \<Rightarrow> bytes \<Rightarrow> bytes \<Rightarrow> bytes \<Rightarrow> bytes option"
  x25519_pub :: "bytes \<Rightarrow> bytes"
  x25519_ecdh :: "bytes \<Rightarrow> bytes \<Rightarrow> bytes option"
  mlkem_pub_ok :: "bytes \<Rightarrow> bool"
  mlkem_encap :: "bytes \<Rightarrow> bytes \<Rightarrow> (bytes \<times> bytes) option"
  mlkem_decap :: "bytes \<Rightarrow> bytes \<Rightarrow> bytes option"
  mldsa_pub_ok :: "bytes \<Rightarrow> bool"
  mldsa_sign :: "bytes \<Rightarrow> bytes \<Rightarrow> bytes \<Rightarrow> bytes \<Rightarrow> bytes option"
  mldsa_verify :: "bytes \<Rightarrow> bytes \<Rightarrow> bytes \<Rightarrow> bytes \<Rightarrow> bool"

text \<open>Digests are 32 bytes.\<close>

definition sha3_len :: "crypto \<Rightarrow> bool" where
  "sha3_len c \<longleftrightarrow> (\<forall>x. length (sha3 c x) = 32)"

text \<open>Copying into a fixed-size array: what does not fit is dropped, the rest stays zero.\<close>

definition arr :: "nat \<Rightarrow> bytes \<Rightarrow> bytes" where
  "arr n src = take n src @ replicate (n - length src) 0"

lemma length_arr [simp]: "length (arr n src) = n"
  by (simp add: arr_def)

lemma arr_id [simp]: "length src = n \<Longrightarrow> arr n src = src"
  by (simp add: arr_def)

section \<open>Identities\<close>

record Identity =
  id_PublicKey :: "bytes option"
  id_PrivateKey :: "bytes option"

definition Identity_ID :: "crypto \<Rightarrow> Identity option \<Rightarrow> bytes" where
  "Identity_ID c i =
     (case Option.bind i id_PublicKey of None \<Rightarrow> replicate IDLen 0 | Some pk \<Rightarrow> sha3 c pk)"

definition Identity_PublicBytes :: "Identity option \<Rightarrow> bytes" where
  "Identity_PublicBytes i = (case Option.bind i id_PublicKey of None \<Rightarrow> [] | Some pk \<Rightarrow> pk)"

definition IdentityFromPublicBytes :: "crypto \<Rightarrow> bytes \<Rightarrow> Identity option" where
  "IdentityFromPublicBytes c pub =
     (if mldsa_pub_ok c pub then Some \<lparr>id_PublicKey = Some pub, id_PrivateKey = None\<rparr> else None)"

definition signInput :: "bytes \<Rightarrow> AuthRole \<Rightarrow> SuiteID \<Rightarrow> bytes" where
  "signInput h2 role suite = LblProtocol @ [0x00] @ [suite] @ [0x00] @ h2 @ Role_Label role"

definition Identity_Sign :: "crypto \<Rightarrow> Identity option \<Rightarrow> bytes \<Rightarrow> bytes \<Rightarrow> AuthRole \<Rightarrow> SuiteID \<Rightarrow> hs_error + bytes" where
  "Identity_Sign c i rnd h2 role suite =
     (case Option.bind i id_PrivateKey of
        None \<Rightarrow> Inl ErrLocal
      | Some sk \<Rightarrow>
          (case mldsa_sign c sk rnd (signInput h2 role suite) SignCtx of
             None \<Rightarrow> Inl ErrLocal
           | Some sig \<Rightarrow> if length sig \<noteq> MLDSA65SigLen then Inl ErrLocal else Inr sig))"

definition VerifyAuth :: "crypto \<Rightarrow> Identity option \<Rightarrow> bytes \<Rightarrow> AuthRole \<Rightarrow> SuiteID \<Rightarrow> bytes \<Rightarrow> hs_error option" where
  "VerifyAuth c i h2 role suite sig =
     (case Option.bind i id_PublicKey of
        None \<Rightarrow> Some ErrAuthFailed
      | Some pk \<Rightarrow>
          if length sig \<noteq> MLDSA65SigLen then Some ErrAuthFailed
          else if \<not> mldsa_verify c pk (signInput h2 role suite) sig SignCtx then Some ErrAuthFailed
          else None)"

section \<open>Transcript\<close>

datatype transcriptStage = stageNew | stageH0 | stageH1 | stageH2

record Transcript =
  t_state :: bytes
  t_suite :: SuiteID
  t_stage :: transcriptStage

definition NewTranscript :: "SuiteID \<Rightarrow> Transcript" where
  "NewTranscript suite = \<lparr>t_state = replicate TranscriptLen 0, t_suite = suite, t_stage = stageNew\<rparr>"

definition AbsorbHello :: "crypto \<Rightarrow> Transcript \<Rightarrow> bytes \<Rightarrow> Transcript" where
  "AbsorbHello c t hello =
     t\<lparr>t_state := sha3 c (LblProtocol @ [0x00] @ [t_suite t] @ hello), t_stage := stageH0\<rparr>"

definition AbsorbKEM :: "crypto \<Rightarrow> Transcript \<Rightarrow> bytes \<Rightarrow> bytes \<Rightarrow> Transcript" where
  "AbsorbKEM c t init reply = t\<lparr>t_state := sha3 c (t_state t @ init @ reply), t_stage := stageH1\<rparr>"

definition FinishFull :: "crypto \<Rightarrow> Transcript \<Rightarrow> bytes \<Rightarrow> bytes \<Rightarrow> SuiteID list \<Rightarrow> Transcript \<times> bytes" where
  "FinishFull c t pkI pkR schemes =
     (let h = sha3 c (t_state t @ pkI @ pkR @ be32 (of_nat (length schemes)) @ schemes) in
      (t\<lparr>t_state := h, t_stage := stageH2\<rparr>, h))"

definition FinishPSK :: "crypto \<Rightarrow> Transcript \<Rightarrow> bytes \<Rightarrow> Transcript \<times> bytes" where
  "FinishPSK c t serverEphX25519Pub =
     (let h = sha3 c (t_state t @ serverEphX25519Pub) in (t\<lparr>t_state := h, t_stage := stageH2\<rparr>, h))"

definition H0 :: "Transcript \<Rightarrow> bytes" where
  "H0 t = (if t_stage t = stageH0 then t_state t else replicate TranscriptLen 0)"

definition H1 :: "Transcript \<Rightarrow> bytes" where
  "H1 t = (if t_stage t = stageH1 then t_state t else replicate TranscriptLen 0)"

definition H2 :: "Transcript \<Rightarrow> bytes" where
  "H2 t = (if t_stage t = stageH2 then t_state t else replicate TranscriptLen 0)"

section \<open>Key schedule\<close>

record SessionKeys =
  KInitToResp :: bytes
  KRespToInit :: bytes
  SaltInitToResp :: bytes
  SaltRespToInit :: bytes
  ResumptionPSK :: bytes

definition Zeroize :: "SessionKeys \<Rightarrow> SessionKeys" where
  "Zeroize k = \<lparr>KInitToResp = replicate AEADKeyLen 0, KRespToInit = replicate AEADKeyLen 0,
     SaltInitToResp = replicate NonceSaltLen 0, SaltRespToInit = replicate NonceSaltLen 0,
     ResumptionPSK = replicate PSKKeyLen 0\<rparr>"

definition expand_all :: "crypto \<Rightarrow> bytes \<Rightarrow> SessionKeys" where
  "expand_all c prk =
     \<lparr>KInitToResp = hkdf_expand c prk LblSessionI2R AEADKeyLen,
      KRespToInit = hkdf_expand c prk LblSessionR2I AEADKeyLen,
      SaltInitToResp = hkdf_expand c prk LblSaltI2R NonceSaltLen,
      SaltRespToInit = hkdf_expand c prk LblSaltR2I NonceSaltLen,
      ResumptionPSK = hkdf_expand c prk LblResumption PSKKeyLen\<rparr>"

definition buildIKM :: "bytes \<Rightarrow> bytes \<Rightarrow> bytes" where
  "buildIKM x25519Shared mlkemShared =
     [of_nat (length LblX25519)] @ LblX25519 @ [of_nat X25519SharedLen] @ x25519Shared @
     [of_nat (length LblMLKEM)] @ LblMLKEM @ [of_nat MLKEM768SharedLen] @ mlkemShared"

definition DeriveSession :: "crypto \<Rightarrow> bytes \<Rightarrow> bytes \<Rightarrow> bytes \<Rightarrow> SessionKeys" where
  "DeriveSession c h2 x25519Shared mlkemShared =
     (let ikm = buildIKM x25519Shared mlkemShared;
          prk = hkdf_extract c ikm h2 in
      expand_all c prk)"

definition resumedIKM :: "bytes \<Rightarrow> bytes \<Rightarrow> bytes" where
  "resumedIKM x25519Shared resumptionPSK =
     [of_nat (length LblX25519)] @ LblX25519 @ [of_nat X25519SharedLen] @ x25519Shared @
     [of_nat (length LblResumption)] @ LblResumption @ [of_nat PSKKeyLen] @ resumptionPSK"

definition DeriveResumed :: "crypto \<Rightarrow> bytes \<Rightarrow> bytes \<Rightarrow> bytes \<Rightarrow> SessionKeys" where
  "DeriveResumed c h2psk x25519Shared resumptionPSK =
     (let ikm = resumedIKM x25519Shared resumptionPSK;
          prk = hkdf_extract c ikm h2psk in
      expand_all c prk)"

definition Ratchet :: "crypto \<Rightarrow> bytes \<Rightarrow> byte \<Rightarrow> bytes \<times> bytes" where
  "Ratchet c kPrev epoch =
     (hkdf_expand c kPrev (LblRekey @ [0x00, epoch, 0x00]) AEADKeyLen,
      hkdf_expand c kPrev (LblRekey @ [0x00, epoch, 0x01]) NonceSaltLen)"

section \<open>The transcript binds the handshake\<close>

text \<open>The hash of a full handshake, the inputs of its three hash steps, and a collision between two
  given inputs.\<close>

definition full_H2 :: "crypto \<Rightarrow> SuiteID \<Rightarrow> bytes \<Rightarrow> bytes \<Rightarrow> bytes \<Rightarrow> bytes \<Rightarrow> bytes \<Rightarrow> SuiteID list \<Rightarrow> bytes" where
  "full_H2 c suite hello init reply pkI pkR schemes =
     snd (FinishFull c (AbsorbKEM c (AbsorbHello c (NewTranscript suite) hello) init reply) pkI pkR schemes)"

definition in0 :: "SuiteID \<Rightarrow> bytes \<Rightarrow> bytes" where
  "in0 suite hello = LblProtocol @ [0x00] @ [suite] @ hello"

definition in1 :: "crypto \<Rightarrow> SuiteID \<Rightarrow> bytes \<Rightarrow> bytes \<Rightarrow> bytes \<Rightarrow> bytes" where
  "in1 c suite hello init reply = sha3 c (in0 suite hello) @ init @ reply"

definition in2 :: "crypto \<Rightarrow> SuiteID \<Rightarrow> bytes \<Rightarrow> bytes \<Rightarrow> bytes \<Rightarrow> bytes \<Rightarrow> bytes \<Rightarrow> SuiteID list \<Rightarrow> bytes" where
  "in2 c suite hello init reply pkI pkR schemes =
     sha3 c (in1 c suite hello init reply) @ pkI @ pkR @ be32 (of_nat (length schemes)) @ schemes"

definition collides :: "crypto \<Rightarrow> bytes \<Rightarrow> bytes \<Rightarrow> bool" where
  "collides c x y \<longleftrightarrow> x \<noteq> y \<and> sha3 c x = sha3 c y"

lemma full_H2_eq: "full_H2 c suite hello init reply pkI pkR schemes = sha3 c (in2 c suite hello init reply pkI pkR schemes)"
  by (simp add: full_H2_def FinishFull_def AbsorbKEM_def AbsorbHello_def NewTranscript_def Let_def
      in0_def in1_def in2_def)


text \<open>A stand-in for the hash, for evaluation: the last 32 bytes of its input.\<close>

definition toy_sha3 :: "bytes \<Rightarrow> bytes" where
  "toy_sha3 x = rev (arr 32 (rev x))"

definition toy_crypto :: crypto where
  "toy_crypto = \<lparr>sha3 = toy_sha3, hkdf_extract = (\<lambda>ikm salt. ikm @ salt), hkdf_expand = (\<lambda>prk info n. arr n (info @ prk)),
     gcm_seal = (\<lambda>k n p a. arr 16 (k @ n @ a) @ p),
     gcm_open = (\<lambda>k n ct a. if 16 \<le> length ct \<and> take 16 ct = arr 16 (k @ n @ a) then Some (drop 16 ct) else None),
     x25519_pub = arr 32, x25519_ecdh = (\<lambda>sk pk. Some (arr 32 (map2 (XOR) (arr 32 sk) (arr 32 pk)))),
     mlkem_pub_ok = (\<lambda>pk. True), mlkem_encap = (\<lambda>pk r. Some (arr 1088 r, arr 32 r)),
     mlkem_decap = (\<lambda>sk ct. Some (arr 32 ct)),
     mldsa_pub_ok = (\<lambda>pk. True), mldsa_sign = (\<lambda>sk r m ctx. Some (arr 3309 (toy_sha3 m))),
     mldsa_verify = (\<lambda>pk m sg ctx. sg = arr 3309 (toy_sha3 m))\<rparr>"

lemma toy_sha3_len: "sha3_len toy_crypto"
  by (simp add: sha3_len_def toy_crypto_def toy_sha3_def)


section \<open>Domain separation\<close>

lemma Role_Labels: "Role_Label RoleInitiator = LblAuthI" "Role_Label RoleResponder = LblAuthR" "LblAuthI \<noteq> LblAuthR"
  "length LblAuthI = 24" "length LblAuthR = 24"
  by code_simp+

text \<open>A signature means one thing: the signed string of an AUTH frame determines the transcript
  hash, the role and the suite, so a signature made as initiator never verifies as responder and
  never for another handshake or suite.\<close>

lemma sign_input_injective:
  assumes "length h = 32" and "length h' = 32" and "r \<in> {RoleInitiator, RoleResponder}"
    and "r' \<in> {RoleInitiator, RoleResponder}"
  shows "signInput h r s = signInput h' r' s' \<longleftrightarrow> h = h' \<and> r = r' \<and> s = s'"
  using assms Role_Labels by (auto simp: signInput_def)

lemma lbl_lengths: "length LblX25519 = 6" "length LblMLKEM = 10" "length LblResumption = 20"
  by code_simp+

text \<open>Keys of different provenance never mix: the keying material of a full handshake determines
  both shared secrets, that of a resumed one the shared secret and the resumption key, the two
  kinds never coincide, and all expansion labels, the ratchet's for every epoch included, are
  pairwise different.\<close>

lemma key_schedule_separated:
  assumes "length x = 32" and "length x' = 32"
  shows "(buildIKM x m = buildIKM x' m' \<longleftrightarrow> x = x' \<and> m = m') \<and>
    (resumedIKM x m = resumedIKM x' m' \<longleftrightarrow> x = x' \<and> m = m') \<and>
    buildIKM x m \<noteq> resumedIKM x' m' \<and>
    distinct [LblSessionI2R, LblSessionR2I, LblSaltI2R, LblSaltR2I, LblResumption,
      LblRekey @ [0x00, e, 0x00], LblRekey @ [0x00, e, 0x01]] \<and>
    (LblRekey @ [0x00, e, b] = LblRekey @ [0x00, e', b'] \<longrightarrow> e = e' \<and> b = b')"
proof -
  have "distinct [LblSessionI2R, LblSessionR2I, LblSaltI2R, LblSaltR2I, LblResumption]"
    "map (take 10) [LblSessionI2R, LblSessionR2I, LblSaltI2R, LblSaltR2I, LblResumption] = replicate 5 (str ''ZAP-PQ-v1 '')"
    by code_simp+
  moreover have "length LblRekey = 15" "LblRekey ! 10 = 114" "LblRekey ! 11 = 101" "LblRekey ! 12 = 107" by code_simp+
  moreover have "length LblSessionI2R = 14" "length LblSessionR2I = 14" "length LblSaltI2R = 25" "length LblSaltR2I = 25"
    "length LblResumption = 20" by code_simp+
  moreover have "length (LblRekey @ [0x00, e, b]) = 18" for b using calculation(3) by simp
  ultimately have "distinct [LblSessionI2R, LblSessionR2I, LblSaltI2R, LblSaltR2I, LblResumption,
      LblRekey @ [0x00, e, 0x00], LblRekey @ [0x00, e, 0x01]]"
    by (auto dest: arg_cong [of _ _ length])
  then show ?thesis
    using assms lbl_lengths by (simp add: buildIKM_def resumedIKM_def)
qed

end
