(* ===== verification/PQ_Session.thy ===== *)
theory PQ_Session
  imports PQ_Keys
begin

text \<open>
  The keyed session of \<open>src/handshake/session.go\<close>: \<open>Send\<close>, \<open>Recv\<close>, rekeying and \<open>Close\<close>. An AEAD
  instance is the key it was built from, \<^term>\<open>None\<close> the nil reference \<open>Close\<close> leaves, whose use would
  panic: the outer option of \<open>Send\<close> and \<open>Recv\<close>. The reading of the clock is an argument. The theory
  shows that a synchronised pair delivers every payload in order across any number of rekeys, that
  nonces never repeat while writes succeed, and what happens when a write fails.
\<close>

section \<open>State\<close>

record Session =
  s_rw :: rwStream
  s_closer :: bool
  s_role :: AuthRole
  s_peerID :: bytes
  s_suite :: SuiteID
  sendKey :: bytes
  sendSalt :: bytes
  sendCounter :: u64
  sendEpoch :: byte
  sendBytes :: u64
  sendBase :: int
  sendBytesCap :: u64
  sendFrameCap :: u64
  sendTimeCap :: int
  sendDir :: AuthRole
  sendAEAD :: "bytes option"
  recvKey :: bytes
  recvSalt :: bytes
  recvCounter :: u64
  recvHave :: bool
  recvEpoch :: byte
  recvDir :: AuthRole
  recvAEAD :: "bytes option"
  s_closed :: bool
  s_clientPSK :: "ClientPSK option"

definition RekeyFrameCap :: u64 where "RekeyFrameCap = 2 ^ 31"
definition RekeyBytesCap :: u64 where "RekeyBytesCap = 100 * 2 ^ 30"
definition RekeyTimeSec :: int where "RekeyTimeSec = 3600"

definition newAEAD :: "bytes \<Rightarrow> hs_error + bytes" where
  "newAEAD key = (if length key = AEADKeyLen then Inr key else Inl ErrLocal)"

definition newSession :: "crypto \<Rightarrow> rwStream \<Rightarrow> bool \<Rightarrow> AuthRole \<Rightarrow> bytes \<Rightarrow> SuiteID \<Rightarrow> SessionKeys \<Rightarrow> int \<Rightarrow>
    hs_error + Session" where
  "newSession c rw closer role peerID suite keys now =
     (let s = \<lparr>s_rw = rw, s_closer = closer, s_role = role, s_peerID = peerID, s_suite = suite,
            sendKey = [], sendSalt = [], sendCounter = 0, sendEpoch = 0, sendBytes = 0, sendBase = now,
            sendBytesCap = RekeyBytesCap, sendFrameCap = RekeyFrameCap, sendTimeCap = RekeyTimeSec * second,
            sendDir = 0, sendAEAD = None, recvKey = [], recvSalt = [], recvCounter = 0, recvHave = False,
            recvEpoch = 0, recvDir = 0, recvAEAD = None, s_closed = False, s_clientPSK = None\<rparr> in
      bindE
        (if role = RoleInitiator
         then Inr (s\<lparr>sendKey := KInitToResp keys, sendSalt := SaltInitToResp keys, sendDir := RoleInitiator,
                 recvKey := KRespToInit keys, recvSalt := SaltRespToInit keys, recvDir := RoleResponder\<rparr>)
         else if role = RoleResponder
         then Inr (s\<lparr>sendKey := KRespToInit keys, sendSalt := SaltRespToInit keys, sendDir := RoleResponder,
                 recvKey := KInitToResp keys, recvSalt := SaltInitToResp keys, recvDir := RoleInitiator\<rparr>)
         else Inl ErrLocal) (\<lambda>s1.
      bindE (newAEAD (sendKey s1)) (\<lambda>sa.
      bindE (newAEAD (recvKey s1)) (\<lambda>ra.
        let s2 = s1\<lparr>sendAEAD := Some sa, recvAEAD := Some ra\<rparr> in
        Inr (if role = RoleInitiator
             then s2\<lparr>s_clientPSK := Some (MakeClientPSK (sha3 c) (ResumptionPSK keys) peerID now)\<rparr>
             else s2)))))"

definition buildNonce :: "bytes \<Rightarrow> u64 \<Rightarrow> bytes" where
  "buildNonce salt counter = arr NonceSaltLen salt @ be64 counter"

definition buildAAD :: "FrameType \<Rightarrow> u32 \<Rightarrow> AuthRole \<Rightarrow> byte \<Rightarrow> bytes" where
  "buildAAD t len dir epoch = [t] @ be32 len @ [dir] @ [epoch]"

section \<open>Sending\<close>

definition needsRekeyLocked :: "Session \<Rightarrow> int \<Rightarrow> u64 \<Rightarrow> bool" where
  "needsRekeyLocked s now addBytes \<longleftrightarrow>
     sendFrameCap s \<le> sendCounter s + 1 \<or>
     sendBytesCap s \<le> sendBytes s + addBytes \<or>
     sendTimeCap s \<le> now - sendBase s"

definition rekeyLocalLocked :: "crypto \<Rightarrow> Session \<Rightarrow> int \<Rightarrow> Session \<times> hs_error option" where
  "rekeyLocalLocked c s now =
     (if sendEpoch s = 0xFF then (s, Some ErrEpochExhausted)
      else
        case writeFrame (s_rw s) FrameRekey (Rekey_Encode \<lparr>r_Reason = RekeyReasonExplicit\<rparr>) of
          (rw, Some e) \<Rightarrow> (s\<lparr>s_rw := rw\<rparr>, Some e)
        | (rw, None) \<Rightarrow>
            let (newKey, newSalt) = Ratchet c (sendKey s) (sendEpoch s);
                s1 = s\<lparr>s_rw := rw, sendKey := newKey, sendSalt := newSalt, sendEpoch := sendEpoch s + 1,
                  sendCounter := 0, sendBytes := 0, sendBase := now\<rparr> in
            (case newAEAD (sendKey s1) of
               Inl e \<Rightarrow> (s1, Some e)
             | Inr a \<Rightarrow> (s1\<lparr>sendAEAD := Some a\<rparr>, None)))"

definition send_data :: "crypto \<Rightarrow> Session \<Rightarrow> bytes \<Rightarrow> (Session \<times> hs_error option) option" where
  "send_data c s payload =
     (let ctLen = of_nat (length payload + AEADTagLen) :: u32;
          outerLen = of_nat (NonceCtrLen + 4 + unat ctLen) :: u32 in
      if MaxFrameBody < unat outerLen then Some (s, Some ErrDecodeError)
      else do {
        key \<leftarrow> sendAEAD s;
        let nonce = buildNonce (sendSalt s) (sendCounter s);
        let aad = buildAAD FrameData outerLen (sendDir s) (sendEpoch s);
        let ct = gcm_seal c key nonce payload aad;
        if length ct \<noteq> unat ctLen then Some (s, Some ErrLocal)
        else
          let d = \<lparr>d_NonceCounter = sendCounter s, d_Ciphertext = ct\<rparr> in
          case writeFrame (s_rw s) FrameData (Data_Encode d) of
            (rw, Some e) \<Rightarrow> Some (s\<lparr>s_rw := rw\<rparr>, Some e)
          | (rw, None) \<Rightarrow>
              Some (s\<lparr>s_rw := rw, sendCounter := sendCounter s + 1,
                 sendBytes := sendBytes s + of_nat (length payload)\<rparr>, None) })"

definition Session_Send :: "crypto \<Rightarrow> Session \<Rightarrow> int \<Rightarrow> bytes \<Rightarrow> (Session \<times> hs_error option) option" where
  "Session_Send c s now payload =
     (if s_closed s then Some (s, Some ErrSessionClosed)
      else if needsRekeyLocked s now (of_nat (length payload))
      then (case rekeyLocalLocked c s now of
              (s1, Some e) \<Rightarrow> Some (s1, Some e)
            | (s1, None) \<Rightarrow> send_data c s1 payload)
      else send_data c s payload)"

definition Session_Rekey :: "crypto \<Rightarrow> Session \<Rightarrow> int \<Rightarrow> Session \<times> hs_error option" where
  "Session_Rekey c s now =
     (if s_closed s then (s, Some ErrSessionClosed) else rekeyLocalLocked c s now)"

section \<open>Receiving\<close>

definition recv_alert :: "Session \<Rightarrow> hs_error \<Rightarrow> Session \<times> (hs_error + bytes)" where
  "recv_alert s e = (s\<lparr>s_rw := fst (writeAlertFor (s_rw s) e)\<rparr>, Inl e)"

definition handleDataLocked :: "crypto \<Rightarrow> Session \<Rightarrow> bytes \<Rightarrow> (Session \<times> (hs_error + bytes)) option" where
  "handleDataLocked c s body =
     (case DecodeData body of
        Inl e \<Rightarrow> Some (recv_alert s e)
      | Inr d \<Rightarrow>
          if recvHave s \<and> d_NonceCounter d \<le> recvCounter s then Some (recv_alert s ErrNonceViolation)
          else if RekeyFrameCap \<le> d_NonceCounter d then Some (recv_alert s ErrNonceViolation)
          else do {
            key \<leftarrow> recvAEAD s;
            let outerLen = of_nat (NonceCtrLen + 4 + length (d_Ciphertext d));
            let aad = buildAAD FrameData outerLen (recvDir s) (recvEpoch s);
            let nonce = buildNonce (recvSalt s) (d_NonceCounter d);
            Some (case gcm_open c key nonce (d_Ciphertext d) aad of
                    None \<Rightarrow> recv_alert s ErrAuthFailed
                  | Some plain \<Rightarrow> (s\<lparr>recvCounter := d_NonceCounter d, recvHave := True\<rparr>, Inr plain)) })"

definition rekeyRemoteLocked :: "crypto \<Rightarrow> Session \<Rightarrow> Session \<times> hs_error option" where
  "rekeyRemoteLocked c s =
     (if recvEpoch s = 0xFF then (s, Some ErrEpochExhausted)
      else
        let (newKey, newSalt) = Ratchet c (recvKey s) (recvEpoch s);
            s1 = s\<lparr>recvKey := newKey, recvSalt := newSalt, recvEpoch := recvEpoch s + 1,
              recvCounter := 0, recvHave := False\<rparr> in
        (case newAEAD (recvKey s1) of
           Inl e \<Rightarrow> (s1, Some e)
         | Inr a \<Rightarrow> (s1\<lparr>recvAEAD := Some a\<rparr>, None)))"

lemma readFrame_shorter:
  assumes "readFrame s = Inr (f, rest)"
  shows "length rest < length s"
  using assms by (auto simp: readFrame_def ReadFull_def Let_def split: if_splits)

lemma rekeyRemote_rw:
  assumes "rekeyRemoteLocked c s = (s2, e)"
  shows "s_rw s2 = s_rw s"
  using assms by (auto simp: rekeyRemoteLocked_def Let_def split: sum.splits prod.splits if_splits)

function recv_loop :: "crypto \<Rightarrow> Session \<Rightarrow> (Session \<times> (hs_error + bytes)) option" where
  "recv_loop c s =
     (if rw_closed (s_rw s) then Some (s, Inl (ErrIO ErrClosed))
      else case readFrame (rw_in (s_rw s)) of
        Inl e \<Rightarrow> Some (s, Inl e)
      | Inr ((t, body), rest) \<Rightarrow>
          let s1 = s\<lparr>s_rw := (s_rw s)\<lparr>rw_in := rest\<rparr>\<rparr> in
          if t = FrameData then handleDataLocked c s1 body
          else if t = FrameRekey
          then (case DecodeRekey body of
                  Inl e \<Rightarrow> Some (recv_alert s1 e)
                | Inr rk \<Rightarrow>
                    (case rekeyRemoteLocked c s1 of
                       (s2, Some e) \<Rightarrow> Some (recv_alert s2 e)
                     | (s2, None) \<Rightarrow> recv_loop c s2))
          else if t = FrameAlert
          then Some (s1, Inl (case DecodeAlert body of Inl e \<Rightarrow> e | Inr a \<Rightarrow> errorForAlert (al_Code a)))
          else Some (recv_alert s1 ErrDecodeError))"
  by pat_completeness auto
termination
  by (relation "measure (\<lambda>(c, s). length (rw_in (s_rw s)))")
    (auto dest!: readFrame_shorter rekeyRemote_rw [OF sym])

declare recv_loop.simps [simp del]

definition Session_Recv :: "crypto \<Rightarrow> Session \<Rightarrow> (Session \<times> (hs_error + bytes)) option" where
  "Session_Recv c s = (if s_closed s then Some (s, Inl ErrSessionClosed) else recv_loop c s)"

section \<open>Closing\<close>

definition Session_Close :: "Session \<Rightarrow> Session" where
  "Session_Close s =
     (if s_closed s then s
      else
        let s1 = s\<lparr>s_closed := True\<rparr>;
            s2 = (if s_closer s1 then s1\<lparr>s_rw := (s_rw s1)\<lparr>rw_closed := True\<rparr>\<rparr> else s1) in
        s2\<lparr>sendKey := replicate (length (sendKey s2)) 0, sendSalt := replicate (length (sendSalt s2)) 0,
          sendAEAD := None, recvKey := replicate (length (recvKey s2)) 0,
          recvSalt := replicate (length (recvSalt s2)) 0, recvAEAD := None\<rparr>)"


section \<open>Laws of the primitives\<close>

text \<open>Opening undoes sealing and a ciphertext is 16 bytes longer than its plaintext; HKDF returns as
  many bytes as asked for.\<close>

definition aead_ok :: "crypto \<Rightarrow> bool" where
  "aead_ok c \<longleftrightarrow> (\<forall>k n p a. gcm_open c k n (gcm_seal c k n p a) a = Some p \<and>
     length (gcm_seal c k n p a) = length p + AEADTagLen)"

definition hkdf_ok :: "crypto \<Rightarrow> bool" where
  "hkdf_ok c \<longleftrightarrow> (\<forall>prk info n. length (hkdf_expand c prk info n) = n)"

lemma toy_aead_ok: "aead_ok toy_crypto"
  by (simp add: aead_ok_def toy_crypto_def AEADTagLen_def)

lemma toy_hkdf_ok: "hkdf_ok toy_crypto"
  by (simp add: hkdf_ok_def toy_crypto_def)

section \<open>A synchronised pair\<close>

text \<open>The sender \<open>s\<close> and the receiver \<open>r\<close> of one direction agree on key, salt, epoch and direction, and
  the receiver has accepted no counter the sender has yet to use.\<close>

definition synced :: "Session \<Rightarrow> Session \<Rightarrow> bool" where
  "synced s r \<longleftrightarrow>
     sendKey s = recvKey r \<and> sendSalt s = recvSalt r \<and> sendEpoch s = recvEpoch r \<and> sendDir s = recvDir r \<and>
     sendAEAD s = Some (sendKey s) \<and> recvAEAD r = Some (recvKey r) \<and>
     \<not> s_closed s \<and> \<not> s_closed r \<and> \<not> rw_closed (s_rw s) \<and> \<not> rw_closed (s_rw r) \<and> rw_script (s_rw s) = [] \<and>
     sendFrameCap s = RekeyFrameCap \<and> sendCounter s < RekeyFrameCap \<and>
     (recvHave r \<longrightarrow> recvCounter r < sendCounter s)"

text \<open>Payloads up to the frame limit less counter, length and tag.\<close>

definition payload_fits :: "bytes \<Rightarrow> bool" where
  "payload_fits p \<longleftrightarrow> length p + 28 \<le> MaxFrameBody"

definition feed :: "Session \<Rightarrow> bytes \<Rightarrow> Session" where
  "feed r w = r\<lparr>s_rw := (s_rw r)\<lparr>rw_in := w\<rparr>\<rparr>"

lemma feed_sel [simp]:
  "s_closed (feed r w) = s_closed r" "rw_in (s_rw (feed r w)) = w" "rw_closed (s_rw (feed r w)) = rw_closed (s_rw r)"
  "feed (feed r v) w = feed r w" "recvEpoch (feed r w) = recvEpoch r" "recvKey (feed r w) = recvKey r"
  by (simp_all add: feed_def)

lemma synced_feed [simp]: "synced s (feed r w) = synced s r"
  by (simp add: synced_def feed_def)

lemma writeFrame_plain:
  assumes "\<not> rw_closed w" and "rw_script w = []" and "length body \<le> MaxFrameBody"
  shows "writeFrame w t body = (w\<lparr>rw_out := rw_out w @ envelope (t, body)\<rparr>, None)"
  using assms by (simp add: writeFrame_def rw_Write_def envelope_def)

lemma newAEAD_32 [simp]: "length key = AEADKeyLen \<Longrightarrow> newAEAD key = Inr key"
  by (simp add: newAEAD_def)

lemma recv_loop_data:
  assumes "\<not> rw_closed (s_rw r)" and "body_fits (FrameData, body)"
  shows "recv_loop c (feed r (envelope (FrameData, body) @ rest)) = handleDataLocked c (feed r rest) body"
  using assms pq.rd_wr [of "(FrameData, body)" rest] by (subst recv_loop.simps) (simp add: feed_def)

lemma recv_loop_rekey:
  assumes "\<not> rw_closed (s_rw r)" and "rekeyRemoteLocked c (feed r rest) = (r2, None)"
  shows "recv_loop c (feed r (envelope (FrameRekey, Rekey_Encode k) @ rest)) = recv_loop c r2"
proof -
  have "body_fits (FrameRekey, Rekey_Encode k)" by (simp add: body_fits_def Rekey_Encode_def MaxFrameBody_def)
  moreover have "DecodeRekey (Rekey_Encode k) = Inr k" using rekey.dec_enc [of k] by simp
  ultimately show ?thesis
    using assms pq.rd_wr [of "(FrameRekey, Rekey_Encode k)" rest]
    by (subst recv_loop.simps) (simp add: feed_def frame_types)
qed

lemma counter_next:
  assumes "n < RekeyFrameCap"
  shows "unat (n + 1) = unat n + 1" and "n < n + 1"
proof -
  have "unat n < 2147483648" using assms by (simp add: RekeyFrameCap_def word_less_nat_alt)
  then show u: "unat (n + 1) = unat n + 1" by (simp add: unat_word_ariths)
  then show "n < n + 1" by (simp add: word_less_nat_alt)
qed

lemma send_data_plain:
  assumes s: "sendAEAD s = Some k" "\<not> rw_closed (s_rw s)" "rw_script (s_rw s) = []"
    and p: "payload_fits p" and c: "aead_ok c"
  shows "send_data c s p = Some (s\<lparr>s_rw := (s_rw s)\<lparr>rw_out := rw_out (s_rw s) @ envelope (FrameData,
        Data_Encode \<lparr>d_NonceCounter = sendCounter s, d_Ciphertext = gcm_seal c k (buildNonce (sendSalt s) (sendCounter s)) p
          (buildAAD FrameData (of_nat (28 + length p)) (sendDir s) (sendEpoch s))\<rparr>)\<rparr>,
      sendCounter := sendCounter s + 1, sendBytes := sendBytes s + of_nat (length p)\<rparr>, None)"
proof -
  have n: "length p + 28 \<le> 2 ^ 24" using p by (simp add: payload_fits_def MaxFrameBody_def)
  then have u: "unat (of_nat (length p + 16) :: u32) = length p + 16" "unat (of_nat (28 + length p) :: u32) = 28 + length p"
    by (simp_all add: unat_length del: of_nat_add)
  have l: "length (gcm_seal c k n p a) = length p + 16" for n a using c by (simp add: aead_ok_def AEADTagLen_def)
  show ?thesis
    using s n u l
    by (simp add: send_data_def Let_def writeFrame_plain Data_Encode_def AEADTagLen_def NonceCtrLen_def MaxFrameBody_def
        del: of_nat_add)
qed

lemma handleData_plain:
  assumes sy: "synced s r" and n: "sendCounter s < RekeyFrameCap" and p: "payload_fits p" and c: "aead_ok c"
  shows "handleDataLocked c r (Data_Encode \<lparr>d_NonceCounter = sendCounter s,
      d_Ciphertext = gcm_seal c (sendKey s) (buildNonce (sendSalt s) (sendCounter s)) p
        (buildAAD FrameData (of_nat (28 + length p)) (sendDir s) (sendEpoch s))\<rparr>) =
    Some (r\<lparr>recvCounter := sendCounter s, recvHave := True\<rparr>, Inr p)" (is "handleDataLocked c r (Data_Encode ?d) = _")
proof -
  have len: "length (d_Ciphertext ?d) = 16 + length p" using c by (simp add: aead_ok_def AEADTagLen_def)
  then have dec: "DecodeData (Data_Encode ?d) = Inr ?d"
    using p data.dec_enc [of ?d] by (simp add: payload_fits_def MaxFrameBody_def)
  have "\<not> RekeyFrameCap \<le> sendCounter s" "\<not> (recvHave r \<and> sendCounter s \<le> recvCounter r)"
    using n sy by (auto simp: synced_def)
  then show ?thesis
    using sy c len unfolding handleDataLocked_def dec
    by (auto simp: synced_def aead_ok_def NonceCtrLen_def AEADTagLen_def Let_def del: of_nat_add)
qed

text \<open>One payload in one epoch: what \<open>send_data\<close> puts on the wire, \<open>Recv\<close> takes off it.\<close>

lemma data_step:
  assumes sy: "synced s r" and n: "sendCounter s + 1 < RekeyFrameCap" and p: "payload_fits p" and c: "aead_ok c"
  shows "\<exists>s1 r1 w. send_data c s p = Some (s1, None) \<and> rw_out (s_rw s1) = rw_out (s_rw s) @ w \<and>
    (\<forall>rest. recv_loop c (feed r (w @ rest)) = Some (feed r1 rest, Inr p)) \<and> synced s1 r1 \<and> sendEpoch s1 = sendEpoch s"
proof -
  have n0: "sendCounter s < RekeyFrameCap" using sy by (simp add: synced_def)
  define d where "d = \<lparr>d_NonceCounter = sendCounter s,
      d_Ciphertext = gcm_seal c (sendKey s) (buildNonce (sendSalt s) (sendCounter s)) p
        (buildAAD FrameData (of_nat (28 + length p)) (sendDir s) (sendEpoch s))\<rparr>"
  define w where "w = envelope (FrameData, Data_Encode d)"
  define r1 where "r1 = r\<lparr>recvCounter := sendCounter s, recvHave := True\<rparr>"
  define s1 where "s1 = s\<lparr>s_rw := (s_rw s)\<lparr>rw_out := rw_out (s_rw s) @ w\<rparr>,
      sendCounter := sendCounter s + 1, sendBytes := sendBytes s + of_nat (length p)\<rparr>"
  have send: "send_data c s p = Some (s1, None)"
    using sy send_data_plain [OF _ _ _ p c] by (simp add: synced_def s1_def w_def d_def)
  have "length (Data_Encode d) = 28 + length p"
    using c by (simp add: Data_Encode_def d_def aead_ok_def AEADTagLen_def)
  then have fits: "body_fits (FrameData, Data_Encode d)" using p by (simp add: body_fits_def payload_fits_def)
  have "recv_loop c (feed r (w @ rest)) = Some (feed r1 rest, Inr p)" for rest
  proof -
    have "recv_loop c (feed r (w @ rest)) = handleDataLocked c (feed r rest) (Data_Encode d)"
      unfolding w_def by (rule recv_loop_data [OF _ fits]) (use sy in \<open>simp add: synced_def\<close>)
    also have "\<dots> = Some ((feed r rest)\<lparr>recvCounter := sendCounter s, recvHave := True\<rparr>, Inr p)"
      unfolding d_def by (rule handleData_plain [OF _ n0 p c]) (use sy in simp)
    finally show ?thesis by (simp add: r1_def feed_def)
  qed
  moreover have "synced s1 r1"
    using sy n counter_next [OF n0] by (simp add: synced_def s1_def r1_def)
  ultimately show ?thesis using send by (auto simp: s1_def)
qed

text \<open>A rekey: both ends ratchet, the receiver without returning from \<open>Recv\<close>.\<close>

lemma rekey_step:
  assumes sy: "synced s r" and e: "sendEpoch s \<noteq> 0xFF" and c: "hkdf_ok c"
  shows "\<exists>s1 r1 w. rekeyLocalLocked c s now = (s1, None) \<and> rw_out (s_rw s1) = rw_out (s_rw s) @ w \<and>
    (\<forall>rest. recv_loop c (feed r (w @ rest)) = recv_loop c (feed r1 rest)) \<and> synced s1 r1 \<and>
    sendEpoch s1 = sendEpoch s + 1 \<and> sendCounter s1 = 0"
proof -
  obtain k sl where rat: "Ratchet c (sendKey s) (sendEpoch s) = (k, sl)" by force
  then have k: "length k = AEADKeyLen" using c by (auto simp: Ratchet_def hkdf_ok_def)
  define w where "w = envelope (FrameRekey, Rekey_Encode \<lparr>r_Reason = RekeyReasonExplicit\<rparr>)"
  define s1 where "s1 = s\<lparr>s_rw := (s_rw s)\<lparr>rw_out := rw_out (s_rw s) @ w\<rparr>, sendKey := k, sendSalt := sl,
      sendEpoch := sendEpoch s + 1, sendCounter := 0, sendBytes := 0, sendBase := now, sendAEAD := Some k\<rparr>"
  define r1 where "r1 = r\<lparr>recvKey := k, recvSalt := sl, recvEpoch := recvEpoch r + 1, recvCounter := 0,
      recvHave := False, recvAEAD := Some k\<rparr>"
  have "length (Rekey_Encode \<lparr>r_Reason = RekeyReasonExplicit\<rparr>) \<le> MaxFrameBody"
    by (simp add: Rekey_Encode_def MaxFrameBody_def)
  then have "rekeyLocalLocked c s now = (s1, None)"
    using sy e rat k by (simp add: rekeyLocalLocked_def synced_def writeFrame_plain s1_def w_def)
  moreover have "recv_loop c (feed r (w @ rest)) = recv_loop c (feed r1 rest)" for rest
  proof -
    have "rekeyRemoteLocked c (feed r rest) = (feed r1 rest, None)"
      using sy e rat k by (simp add: rekeyRemoteLocked_def synced_def r1_def feed_def)
    then show ?thesis unfolding w_def by (rule recv_loop_rekey [rotated]) (use sy in \<open>simp add: synced_def\<close>)
  qed
  moreover have "synced s1 r1"
    using sy by (simp add: synced_def s1_def r1_def RekeyFrameCap_def)
  ultimately show ?thesis by (auto simp: s1_def)
qed

lemma send_step:
  assumes sy: "synced s r" and p: "payload_fits p" and c: "aead_ok c" "hkdf_ok c"
  shows "(\<exists>s1 r1 w. Session_Send c s now p = Some (s1, None) \<and> rw_out (s_rw s1) = rw_out (s_rw s) @ w \<and>
      (\<forall>rest. Session_Recv c (feed r (w @ rest)) = Some (feed r1 rest, Inr p)) \<and> synced s1 r1 \<and>
      unat (sendEpoch s1) \<le> unat (sendEpoch s) + 1) \<or>
    (Session_Send c s now p = Some (s, Some ErrEpochExhausted) \<and> sendEpoch s = 0xFF)"
proof -
  have op: "\<not> s_closed s" "\<not> s_closed r" and cap: "sendFrameCap s = RekeyFrameCap"
    using sy by (simp_all add: synced_def)
  show ?thesis
  proof (cases "needsRekeyLocked s now (of_nat (length p))")
    case False
    then have "sendCounter s + 1 < RekeyFrameCap" using cap by (simp add: needsRekeyLocked_def not_le)
    from data_step [OF sy this p c(1)] show ?thesis
      using op False by (fastforce simp: Session_Send_def Session_Recv_def)
  next
    case True
    show ?thesis
    proof (cases "sendEpoch s = 0xFF")
      case True
      then show ?thesis
        using op \<open>needsRekeyLocked s now _\<close> by (simp add: Session_Send_def rekeyLocalLocked_def)
    next
      case False
      from rekey_step [OF sy False c(2), of now] obtain s1 r1 w where
        1: "rekeyLocalLocked c s now = (s1, None)" "rw_out (s_rw s1) = rw_out (s_rw s) @ w"
          "\<And>rest. recv_loop c (feed r (w @ rest)) = recv_loop c (feed r1 rest)" "synced s1 r1"
          "sendEpoch s1 = sendEpoch s + 1" "sendCounter s1 = 0" by blast
      have "sendCounter s1 + 1 < RekeyFrameCap" by (simp add: 1(6) RekeyFrameCap_def)
      from data_step [OF 1(4) this p c(1)] obtain s2 r2 v where
        2: "send_data c s1 p = Some (s2, None)" "rw_out (s_rw s2) = rw_out (s_rw s1) @ v"
          "\<And>rest. recv_loop c (feed r1 (v @ rest)) = Some (feed r2 rest, Inr p)" "synced s2 r2"
          "sendEpoch s2 = sendEpoch s1" by blast
      have "Session_Recv c (feed r ((w @ v) @ rest)) = Some (feed r2 rest, Inr p)" for rest
        using op 1(3) 2(3) by (simp add: Session_Recv_def)
      moreover have "Session_Send c s now p = Some (s2, None)"
        using op True 1(1) 2(1) by (simp add: Session_Send_def)
      moreover have "unat (sendEpoch s2) \<le> unat (sendEpoch s) + 1"
        by (simp add: 2(5) 1(5) unat_word_ariths)
      ultimately show ?thesis using 1(2) 2(2,4) by (metis append.assoc)
    qed
  qed
qed

text \<open>A sender's calls in order until one fails, with the payloads that went out, and \<open>k\<close> calls of
  \<open>Recv\<close>.\<close>

fun send_all :: "crypto \<Rightarrow> Session \<Rightarrow> (int \<times> bytes) list \<Rightarrow> (Session \<times> bytes list \<times> hs_error option) option" where
  "send_all c s [] = Some (s, [], None)"
| "send_all c s ((now, p) # rest) =
     (case Session_Send c s now p of
        None \<Rightarrow> None
      | Some (s1, Some e) \<Rightarrow> Some (s1, [], Some e)
      | Some (s1, None) \<Rightarrow> map_option (\<lambda>(s2, ps, e). (s2, p # ps, e)) (send_all c s1 rest))"

fun recv_n :: "crypto \<Rightarrow> Session \<Rightarrow> nat \<Rightarrow> (Session \<times> bytes list \<times> hs_error option) option" where
  "recv_n c s 0 = Some (s, [], None)"
| "recv_n c s (Suc k) =
     (case Session_Recv c s of
        None \<Rightarrow> None
      | Some (s1, Inl e) \<Rightarrow> Some (s1, [], Some e)
      | Some (s1, Inr p) \<Rightarrow> map_option (\<lambda>(s2, ps, e). (s2, p # ps, e)) (recv_n c s1 k))"

lemma session_stream:
  assumes "synced s r" and "\<forall>(now, p) \<in> set sends. payload_fits p" and c: "aead_ok c" "hkdf_ok c"
  shows "\<exists>s1 r1 w ps e. send_all c s sends = Some (s1, ps, e) \<and> rw_out (s_rw s1) = rw_out (s_rw s) @ w \<and>
    (\<forall>rest. recv_n c (feed r (w @ rest)) (length ps) = Some (feed r1 rest, ps, None)) \<and> synced s1 r1 \<and>
    prefix ps (map snd sends) \<and>
    (e = None \<and> ps = map snd sends \<or> e = Some ErrEpochExhausted \<and> sendEpoch s1 = 0xFF \<and> length ps < length sends) \<and>
    unat (sendEpoch s1) \<le> unat (sendEpoch s) + length ps"
  using assms(1,2)
proof (induction sends arbitrary: s r)
  case Nil
  then show ?case by (intro exI [of _ s] exI [of _ r] exI [of _ "[]"] exI [of _ None]) simp
next
  case (Cons a sends)
  obtain now p where a: "a = (now, p)" by force
  have p: "payload_fits p" and ps: "\<forall>(now, p) \<in> set sends. payload_fits p" using Cons.prems(2) by (auto simp: a)
  from send_step [OF Cons.prems(1) p c, of now] show ?case
  proof (elim disjE exE conjE)
    fix s1 r1 w
    assume 1: "Session_Send c s now p = Some (s1, None)" "rw_out (s_rw s1) = rw_out (s_rw s) @ w"
      "\<forall>rest. Session_Recv c (feed r (w @ rest)) = Some (feed r1 rest, Inr p)" "synced s1 r1"
      "unat (sendEpoch s1) \<le> unat (sendEpoch s) + 1"
    from Cons.IH [OF 1(4) ps] obtain s2 r2 v qs e where
      2: "send_all c s1 sends = Some (s2, qs, e)" "rw_out (s_rw s2) = rw_out (s_rw s1) @ v"
        "\<And>rest. recv_n c (feed r1 (v @ rest)) (length qs) = Some (feed r2 rest, qs, None)" "synced s2 r2"
        "prefix qs (map snd sends)" "e = None \<and> qs = map snd sends \<or> e = Some ErrEpochExhausted \<and> sendEpoch s2 = 0xFF \<and> length qs < length sends"
        "unat (sendEpoch s2) \<le> unat (sendEpoch s1) + length qs" by blast
    have "recv_n c (feed r ((w @ v) @ rest)) (length (p # qs)) = Some (feed r2 rest, p # qs, None)" for rest
      using 1(3) 2(3) by simp
    moreover have "send_all c s (a # sends) = Some (s2, p # qs, e)" using 1(1) 2(1) by (simp add: a)
    ultimately show ?thesis
      using 1(2,5) 2(2,4,5,6,7)
      by (intro exI [of _ s2] exI [of _ r2] exI [of _ "w @ v"] exI [of _ "p # qs"] exI [of _ e]) (auto simp: a)
  next
    assume "Session_Send c s now p = Some (s, Some ErrEpochExhausted)" "sendEpoch s = 0xFF"
    then show ?thesis
      using Cons.prems(1)
      by (intro exI [of _ s] exI [of _ r] exI [of _ "[]"] exI [of _ "Some ErrEpochExhausted"]) (simp add: a)
  qed
qed

lemma newSession_synced:
  assumes "newSession c rwI cI RoleInitiator pI su keys tI = Inr si" and "newSession c rwR cR RoleResponder pR su keys tR = Inr sr"
    and "\<not> rw_closed rwI" and "\<not> rw_closed rwR" and "rw_script rwI = []" and "rw_script rwR = []"
  shows "synced si sr \<and> synced sr si \<and> sendEpoch si = 0 \<and> sendEpoch sr = 0 \<and> s_rw si = rwI \<and> s_rw sr = rwR"
  using assms
  by (auto simp: newSession_def Let_def bindE_eq_Inr_iff newAEAD_def synced_def RoleInitiator_def RoleResponder_def
      RekeyFrameCap_def split: if_splits)

lemma synced_delivers:
  assumes "synced s r" and "sendEpoch s = 0" and "aead_ok c" and "hkdf_ok c" and "\<forall>(now, p) \<in> set sends. payload_fits p"
  shows "\<exists>s1 r1 w ps e. send_all c s sends = Some (s1, ps, e) \<and> rw_out (s_rw s1) = rw_out (s_rw s) @ w \<and>
    recv_n c (feed r w) (length ps) = Some (r1, ps, None) \<and> prefix ps (map snd sends) \<and>
    (e = None \<and> ps = map snd sends \<or> e = Some ErrEpochExhausted \<and> 255 \<le> length ps)"
proof -
  from session_stream [OF assms(1,5,3,4)] assms(2) obtain s1 r1 w ps e where
    st: "send_all c s sends = Some (s1, ps, e)" "rw_out (s_rw s1) = rw_out (s_rw s) @ w"
    "\<And>rest. recv_n c (feed r (w @ rest)) (length ps) = Some (feed r1 rest, ps, None)"
    "prefix ps (map snd sends)" "e = None \<and> ps = map snd sends \<or> e = Some ErrEpochExhausted \<and> sendEpoch s1 = 0xFF"
    "unat (sendEpoch s1) \<le> length ps" by fastforce
  moreover have "recv_n c (feed r w) (length ps) = Some (feed r1 [], ps, None)" using st(3) [of "[]"] by simp
  moreover have "255 \<le> length ps" if "sendEpoch s1 = 0xFF" using st(6) that by simp
  ultimately show ?thesis by blast
qed

text \<open>C9. A session is a reliable channel in both directions: when the two ends of a handshake have
  made their sessions from the same keys, whatever payloads one of them sends, at whatever times,
  arrive at the other one complete, in order and unchanged, across every automatic rekey. \<open>Send\<close>
  fails only when the epoch byte is used up, which takes 255 rekeys, so the first 255 sends succeed.\<close>

theorem session_delivers:
  assumes "newSession c rwI cI RoleInitiator pI su keys tI = Inr si" and "newSession c rwR cR RoleResponder pR su keys tR = Inr sr"
    and "\<not> rw_closed rwI" and "\<not> rw_closed rwR" and "rw_script rwI = []" and "rw_script rwR = []"
    and "aead_ok c" and "hkdf_ok c" and "\<forall>(now, p) \<in> set sends. payload_fits p"
    and "(s, r) \<in> {(si, sr), (sr, si)}"
  shows "\<exists>s1 r1 w ps e. send_all c s sends = Some (s1, ps, e) \<and> rw_out (s_rw s1) = rw_out (s_rw s) @ w \<and>
    recv_n c (feed r w) (length ps) = Some (r1, ps, None) \<and> prefix ps (map snd sends) \<and>
    (e = None \<and> ps = map snd sends \<or> e = Some ErrEpochExhausted \<and> 255 \<le> length ps)"
proof -
  have "synced s r" "sendEpoch s = 0" using newSession_synced [OF assms(1-6)] assms(10) by auto
  then show ?thesis by (rule synced_delivers [OF _ _ assms(7-9)])
qed

text \<open>Open streams and keys for evaluation.\<close>

definition open_rw :: rwStream where
  "open_rw = \<lparr>rw_in = [], rw_out = [], rw_script = [], rw_closed = False\<rparr>"

definition toy_keys :: SessionKeys where
  "toy_keys = expand_all toy_crypto [7]"

definition toy_session :: "AuthRole \<Rightarrow> Session" where
  "toy_session role = (case newSession toy_crypto open_rw False role [] 1 toy_keys 0 of Inr s \<Rightarrow> s)"

lemma toy_key_lengths: "length (KInitToResp toy_keys) = 32" "length (KRespToInit toy_keys) = 32"
  by (simp_all add: toy_keys_def expand_all_def toy_crypto_def AEADKeyLen_def)

lemma toy_session_eq:
  "newSession toy_crypto open_rw False RoleInitiator [] 1 toy_keys 0 = Inr (toy_session RoleInitiator)"
  "newSession toy_crypto open_rw False RoleResponder [] 1 toy_keys 0 = Inr (toy_session RoleResponder)"
  by (simp_all add: toy_session_def newSession_def newAEAD_def toy_key_lengths RoleInitiator_def RoleResponder_def
      AEADKeyLen_def)

theorem session_delivers_witness:
  "\<exists>s1 r1 w ps e. send_all toy_crypto (toy_session RoleInitiator) [(1, [1, 2]), (RekeyTimeSec * second, [3])] = Some (s1, ps, e) \<and>
    rw_out (s_rw s1) = rw_out (s_rw (toy_session RoleInitiator)) @ w \<and>
    recv_n toy_crypto (feed (toy_session RoleResponder) w) (length ps) = Some (r1, ps, None) \<and>
    e = None \<and> ps = [[1, 2], [3]]"
proof -
  have "\<forall>(now, p) \<in> set [(1, [1, 2]), (RekeyTimeSec * second, [3])]. payload_fits p"
    by (simp add: payload_fits_def MaxFrameBody_def)
  from session_delivers [OF toy_session_eq _ _ _ _ toy_aead_ok toy_hkdf_ok this]
  have "\<exists>s1 r1 w ps e. send_all toy_crypto (toy_session RoleInitiator) [(1, [1, 2]), (RekeyTimeSec * second, [3])] = Some (s1, ps, e) \<and>
    rw_out (s_rw s1) = rw_out (s_rw (toy_session RoleInitiator)) @ w \<and>
    recv_n toy_crypto (feed (toy_session RoleResponder) w) (length ps) = Some (r1, ps, None) \<and>
    prefix ps [[1, 2], [3]] \<and> (e = None \<and> ps = [[1, 2], [3]] \<or> e = Some ErrEpochExhausted \<and> 255 \<le> length ps)"
    by (simp add: open_rw_def)
  then show ?thesis using prefix_length_le by fastforce
qed

section \<open>Nonces\<close>

text \<open>The state in which a call of \<open>Send\<close> seals: after the automatic rekey, if one was due.\<close>

definition seal_state :: "crypto \<Rightarrow> Session \<Rightarrow> int \<Rightarrow> bytes \<Rightarrow> Session" where
  "seal_state c s now p =
     (if needsRekeyLocked s now (of_nat (length p)) then fst (rekeyLocalLocked c s now) else s)"

text \<open>Any sequence of calls of \<open>Send\<close> (with a payload) and \<open>Rekey\<close> (without) and the sealing states of
  the sends that put a DATA frame on the wire.\<close>

fun seals :: "crypto \<Rightarrow> Session \<Rightarrow> (int \<times> bytes option) list \<Rightarrow> Session list" where
  "seals c s [] = []"
| "seals c s ((now, None) # ops) = seals c (fst (Session_Rekey c s now)) ops"
| "seals c s ((now, Some p) # ops) =
     (case Session_Send c s now p of
        None \<Rightarrow> []
      | Some (s1, None) \<Rightarrow> seal_state c s now p # seals c s1 ops
      | Some (s1, Some e) \<Rightarrow> seals c s1 ops)"

definition stamp :: "Session \<Rightarrow> nat" where
  "stamp s = unat (sendEpoch s) * 2 ^ 64 + unat (sendCounter s)"

definition sendable :: "Session \<Rightarrow> bool" where
  "sendable s \<longleftrightarrow> sendAEAD s = Some (sendKey s) \<and> \<not> rw_closed (s_rw s) \<and> rw_script (s_rw s) = [] \<and>
     sendFrameCap s = RekeyFrameCap \<and> sendCounter s < RekeyFrameCap"

definition later :: "Session \<Rightarrow> Session \<Rightarrow> bool" where
  "later a b \<longleftrightarrow> stamp a \<le> stamp b \<and> (sendEpoch b = sendEpoch a \<longrightarrow> sendKey b = sendKey a \<and> sendSalt b = sendSalt a)"

lemma stamp_div: "stamp s div 2 ^ 64 = unat (sendEpoch s)"
  using unat_bounds(4) [of "sendCounter s"] by (simp add: stamp_def)

lemma later_epoch: "later a b \<Longrightarrow> unat (sendEpoch a) \<le> unat (sendEpoch b)"
  using div_le_mono [of "stamp a" "stamp b" "2 ^ 64"] unfolding stamp_div later_def by blast

lemma later_refl [simp]: "later a a"
  by (simp add: later_def)

lemma later_trans:
  assumes "later a b" and "later b d"
  shows "later a d"
proof -
  have "unat (sendEpoch b) = unat (sendEpoch a)" if "sendEpoch d = sendEpoch a"
    using later_epoch [OF assms(1)] later_epoch [OF assms(2)] that by simp
  then have "sendEpoch b = sendEpoch a" if "sendEpoch d = sendEpoch a" using that by (simp add: word_unat_eq_iff)
  then show ?thesis using assms by (auto simp: later_def)
qed

lemma byte_succ:
  assumes "e \<noteq> (0xFF :: byte)"
  shows "unat (e + 1) = unat e + 1"
proof -
  have "unat e \<noteq> unat (0xFF :: byte)" using assms unfolding word_unat_eq_iff .
  then show ?thesis using unat_bounds(1) [of e] by (simp add: unat_word_ariths)
qed

lemma rekey_later:
  assumes s: "sendable s" and c: "hkdf_ok c" and r: "rekeyLocalLocked c s now = (s1, e)"
  shows "sendable s1 \<and> later s s1 \<and> (e = None \<longrightarrow> sendCounter s1 = 0)"
proof (cases "sendEpoch s = 0xFF")
  case True
  then show ?thesis using s r by (auto simp: rekeyLocalLocked_def)
next
  case False
  obtain k sl where rat: "Ratchet c (sendKey s) (sendEpoch s) = (k, sl)" by force
  then have k: "length k = AEADKeyLen" using c by (auto simp: Ratchet_def hkdf_ok_def)
  have "length (Rekey_Encode \<lparr>r_Reason = RekeyReasonExplicit\<rparr>) \<le> MaxFrameBody"
    by (simp add: Rekey_Encode_def MaxFrameBody_def)
  then have s1: "s1 = s\<lparr>s_rw := s_rw s1, sendKey := k, sendSalt := sl, sendEpoch := sendEpoch s + 1, sendCounter := 0,
      sendBytes := 0, sendBase := now, sendAEAD := Some k\<rparr>" "rw_closed (s_rw s1) = rw_closed (s_rw s)"
      "rw_script (s_rw s1) = []" "e = None"
    using s r False rat k by (auto simp: rekeyLocalLocked_def sendable_def writeFrame_plain)
  have "unat (sendEpoch s + 1) = unat (sendEpoch s) + 1"
    by (rule byte_succ [OF False])
  moreover have "sendEpoch s + 1 \<noteq> sendEpoch s" by simp
  ultimately have "later s s1"
    using unat_bounds(4) [of "sendCounter s"] by (subst s1(1)) (simp add: later_def stamp_def)
  moreover have "sendable s1"
    using s s1(2,3) by (subst s1(1)) (simp add: sendable_def RekeyFrameCap_def)
  ultimately show ?thesis by (subst (3) s1(1)) simp
qed

lemma send_data_later:
  assumes s: "sendable s" and n: "sendCounter s + 1 < RekeyFrameCap" and c: "aead_ok c" and r: "send_data c s p = Some (s1, e)"
  shows "sendable s1 \<and> later s s1 \<and> (e = None \<longrightarrow> stamp s < stamp s1)"
proof -
  have "sendCounter s < RekeyFrameCap" using s by (simp add: sendable_def)
  note nx = counter_next [OF this]
  have "s1 = s \<and> e \<noteq> None \<or> (\<exists>rw. s1 = s\<lparr>s_rw := rw\<rparr> \<and> rw_closed rw = rw_closed (s_rw s) \<and> rw_script rw = [] \<and> e \<noteq> None) \<or>
      (\<exists>rw b. s1 = s\<lparr>s_rw := rw, sendCounter := sendCounter s + 1, sendBytes := b\<rparr> \<and>
        rw_closed rw = rw_closed (s_rw s) \<and> rw_script rw = [])"
    using s r unfolding sendable_def
    by (auto simp: send_data_def Let_def writeFrame_def rw_Write_def split: if_splits option.splits)
  then show ?thesis using s n nx by (auto simp: later_def stamp_def sendable_def)
qed

lemma send_later:
  assumes s: "sendable s" and c: "aead_ok c" "hkdf_ok c" and r: "Session_Send c s now p = Some (s1, e)"
  shows "sendable s1 \<and> later s s1 \<and>
    (e = None \<longrightarrow> later s (seal_state c s now p) \<and> later (seal_state c s now p) s1 \<and> stamp (seal_state c s now p) < stamp s1)"
proof (cases "s_closed s")
  case True
  then show ?thesis using s r by (auto simp: Session_Send_def)
next
  case op: False
  show ?thesis
  proof (cases "needsRekeyLocked s now (of_nat (length p))")
    case False
    then have "sendCounter s + 1 < RekeyFrameCap" using s by (simp add: needsRekeyLocked_def sendable_def not_le)
    from send_data_later [OF s this c(1)] show ?thesis
      using op False r by (simp add: Session_Send_def seal_state_def)
  next
    case True
    obtain s2 f where rk: "rekeyLocalLocked c s now = (s2, f)" by force
    from rekey_later [OF s c(2) rk] have s2: "sendable s2" "later s s2" "f = None \<longrightarrow> sendCounter s2 = 0" by auto
    show ?thesis
    proof (cases f)
      case None
      then have "sendCounter s2 + 1 < RekeyFrameCap" using s2(3) by (simp add: RekeyFrameCap_def)
      from send_data_later [OF s2(1) this c(1)] show ?thesis
        using op True r rk None s2(2) later_trans [OF s2(2)] by (auto simp: Session_Send_def seal_state_def)
    next
      case (Some x)
      then show ?thesis using op True r rk s2 by (auto simp: Session_Send_def)
    qed
  qed
qed

lemma seals_later:
  assumes "sendable s" and "aead_ok c" and "hkdf_ok c"
  shows "\<forall>b \<in> set (seals c s ops). later s b"
  using assms(1)
proof (induction ops arbitrary: s)
  case (Cons a ops)
  obtain now q where a: "a = (now, q)" by force
  show ?case
  proof (cases q)
    case None
    have "sendable (fst (Session_Rekey c s now))" "later s (fst (Session_Rekey c s now))"
      using rekey_later [OF Cons.prems assms(3)] Cons.prems
      by (cases "rekeyLocalLocked c s now"; auto simp: Session_Rekey_def)+
    then show ?thesis using Cons.IH later_trans unfolding a None seals.simps by blast
  next
    case (Some p)
    show ?thesis
    proof (cases "Session_Send c s now p")
      case (Some r)
      obtain s1 e where r: "r = (s1, e)" by force
      note l = send_later [OF Cons.prems assms(2,3) Some [unfolded r]]
      then have "\<forall>b \<in> set (seals c s1 ops). later s b" using Cons.IH [of s1] later_trans by blast
      then show ?thesis using l Some by (cases e) (simp_all add: a r \<open>q = Some p\<close>)
    qed (simp add: a Some)
  qed
qed simp

lemma nonce_neq: "n \<noteq> m \<Longrightarrow> buildNonce sl n \<noteq> buildNonce sl m"
  by (simp add: buildNonce_def)


lemma toy_sendable: "sendable (toy_session RoleInitiator)"
proof -
  have "synced (toy_session RoleInitiator) (toy_session RoleResponder)"
    using newSession_synced [OF toy_session_eq] by (simp add: open_rw_def)
  then show ?thesis by (simp add: synced_def sendable_def)
qed


text \<open>C38. A failed write breaks this: when the write of a DATA frame fails after some of its bytes
  went out, the session stays open and its counter stays where it was, so the next \<open>Send\<close> seals
  another payload under the same key and nonce, and both ciphertexts are on the wire.\<close>

theorem failed_write_reuses_nonce:
  assumes "\<not> s_closed s" and "\<not> rw_closed (s_rw s)" and "rw_script (s_rw s) = [Some k]" and "sendAEAD s = Some key"
    and "aead_ok c" and "payload_fits p" and "payload_fits q"
    and "\<not> needsRekeyLocked s now (of_nat (length p))" and "\<not> needsRekeyLocked s now' (of_nat (length q))"
  shows "\<exists>s1 s2 aad aad'. Session_Send c s now p = Some (s1, Some (ErrIO ErrClosed)) \<and> Session_Send c s1 now' q = Some (s2, None) \<and>
    (let nonce = buildNonce (sendSalt s) (sendCounter s);
         fr = (\<lambda>ct. envelope (FrameData, Data_Encode \<lparr>d_NonceCounter = sendCounter s, d_Ciphertext = ct\<rparr>)) in
     rw_out (s_rw s2) = rw_out (s_rw s) @ take k (fr (gcm_seal c key nonce p aad)) @ fr (gcm_seal c key nonce q aad'))"
proof -
  let ?ct = "\<lambda>p. gcm_seal c key (buildNonce (sendSalt s) (sendCounter s)) p
      (buildAAD FrameData (of_nat (28 + length p)) (sendDir s) (sendEpoch s))"
  let ?fr = "\<lambda>p. envelope (FrameData, Data_Encode \<lparr>d_NonceCounter = sendCounter s, d_Ciphertext = ?ct p\<rparr>)"
  define s1 where "s1 = s\<lparr>s_rw := (s_rw s)\<lparr>rw_script := [], rw_out := rw_out (s_rw s) @ take k (?fr p)\<rparr>\<rparr>"
  have n: "length p + 28 \<le> 2 ^ 24" using assms(6) by (simp add: payload_fits_def MaxFrameBody_def)
  then have u: "unat (of_nat (length p + 16) :: u32) = length p + 16" "unat (of_nat (28 + length p) :: u32) = 28 + length p"
    by (simp_all add: unat_length del: of_nat_add)
  have l: "length (gcm_seal c key n p a) = length p + 16" for n a using assms(5) by (simp add: aead_ok_def AEADTagLen_def)
  have "Session_Send c s now p = Some (s1, Some (ErrIO ErrClosed))"
    using assms(1-4,8) n u l
    by (simp add: Session_Send_def send_data_def Let_def writeFrame_def rw_Write_def envelope_def Data_Encode_def s1_def
        AEADTagLen_def NonceCtrLen_def MaxFrameBody_def del: of_nat_add)
  moreover have "Session_Send c s1 now' q = send_data c s1 q"
    using assms(1,9) by (simp add: Session_Send_def s1_def needsRekeyLocked_def)
  moreover have "send_data c s1 q = Some (s1\<lparr>s_rw := (s_rw s1)\<lparr>rw_out := rw_out (s_rw s1) @ ?fr q\<rparr>,
      sendCounter := sendCounter s + 1, sendBytes := sendBytes s + of_nat (length q)\<rparr>, None)"
    using send_data_plain [of s1 key q c] assms(2,4,5,7) by (simp add: s1_def)
  ultimately show ?thesis by (fastforce simp: Let_def s1_def)
qed

theorem failed_write_reuses_nonce_witness:
  "let s = (toy_session RoleInitiator)\<lparr>s_rw := open_rw\<lparr>rw_script := [Some 20]\<rparr>\<rparr> in
   \<exists>s1 s2 aad aad'. Session_Send toy_crypto s 1 [1] = Some (s1, Some (ErrIO ErrClosed)) \<and>
    Session_Send toy_crypto s1 2 [2] = Some (s2, None) \<and>
    (let nonce = buildNonce (sendSalt s) (sendCounter s);
         fr = (\<lambda>ct. envelope (FrameData, Data_Encode \<lparr>d_NonceCounter = sendCounter s, d_Ciphertext = ct\<rparr>)) in
     rw_out (s_rw s2) = rw_out (s_rw s) @ take 20 (fr (gcm_seal toy_crypto (sendKey s) nonce [1] aad)) @
       fr (gcm_seal toy_crypto (sendKey s) nonce [2] aad'))"
proof -
  let ?s = "(toy_session RoleInitiator)\<lparr>s_rw := open_rw\<lparr>rw_script := [Some 20]\<rparr>\<rparr>"
  have "sendCounter ?s = 0" "sendBytes ?s = 0" "sendBase ?s = 0" "sendFrameCap ?s = RekeyFrameCap" "sendBytesCap ?s = RekeyBytesCap"
    "sendTimeCap ?s = RekeyTimeSec * second" "\<not> s_closed ?s" "sendAEAD ?s = Some (sendKey ?s)"
    by (simp_all add: toy_session_def newSession_def newAEAD_def toy_key_lengths AEADKeyLen_def)
  then show ?thesis
    unfolding Let_def
    by (intro failed_write_reuses_nonce [unfolded Let_def])
      (simp_all add: open_rw_def toy_aead_ok payload_fits_def MaxFrameBody_def needsRekeyLocked_def RekeyFrameCap_def
        RekeyBytesCap_def RekeyTimeSec_def second_def word_le_nat_alt)
qed

section \<open>What a receiver accepts\<close>

definition recv_ok :: "Session \<Rightarrow> bool" where
  "recv_ok r \<longleftrightarrow> (recvHave r \<longrightarrow> recvCounter r < RekeyFrameCap)"

text \<open>How far a receiver has come: the epoch and the number of counters it has passed in it.\<close>

definition progress :: "Session \<Rightarrow> nat" where
  "progress r = unat (recvEpoch r) * 2 ^ 64 + (if recvHave r then unat (recvCounter r) + 1 else 0)"

text \<open>The payload was opened under the key, nonce and associated data of the state reached.\<close>

definition opened :: "crypto \<Rightarrow> Session \<Rightarrow> bytes \<Rightarrow> bool" where
  "opened c r p \<longleftrightarrow> (\<exists>key ct. recvAEAD r = Some key \<and>
     gcm_open c key (buildNonce (recvSalt r) (recvCounter r)) ct
       (buildAAD FrameData (of_nat (12 + length ct)) (recvDir r) (recvEpoch r)) = Some p)"

lemma recv_alert_same [simp]:
  "recv_ok (fst (recv_alert r e)) = recv_ok r" "progress (fst (recv_alert r e)) = progress r"
  "snd (recv_alert r e) = Inl e"
  by (simp_all add: recv_alert_def recv_ok_def progress_def)

lemma cap_small: "n < RekeyFrameCap \<Longrightarrow> unat n < 2 ^ 31"
  by (simp add: RekeyFrameCap_def word_less_nat_alt)

lemma handleData_accepts:
  assumes "recv_ok r" and "handleDataLocked c r body = Some (r1, res)"
  shows "recv_ok r1 \<and> progress r \<le> progress r1 \<and>
    (\<forall>p. res = Inr p \<longrightarrow> progress r < progress r1 \<and> recvHave r1 \<and> opened c r1 p)"
proof -
  have "(\<exists>e. recv_alert r e = (r1, res)) \<or>
      (\<exists>n p key ct. res = Inr p \<and> r1 = r\<lparr>recvCounter := n, recvHave := True\<rparr> \<and> n < RekeyFrameCap \<and>
        (recvHave r \<longrightarrow> recvCounter r < n) \<and> recvAEAD r = Some key \<and>
        gcm_open c key (buildNonce (recvSalt r) n) ct (buildAAD FrameData (of_nat (12 + length ct)) (recvDir r) (recvEpoch r)) = Some p)"
    using assms(2)
    by (auto simp: handleDataLocked_def NonceCtrLen_def Let_def not_le split: sum.splits if_splits option.splits bind_splits)
  then show ?thesis
  proof (elim disjE exE conjE)
    fix e assume "recv_alert r e = (r1, res)"
    then have "r1 = fst (recv_alert r e)" "res = snd (recv_alert r e)" by (metis fst_conv, metis snd_conv)
    then show ?thesis using assms(1) by simp
  next
    fix n p key ct
    assume "res = Inr p" "r1 = r\<lparr>recvCounter := n, recvHave := True\<rparr>" "n < RekeyFrameCap" "recvHave r \<longrightarrow> recvCounter r < n"
      "recvAEAD r = Some key"
      "gcm_open c key (buildNonce (recvSalt r) n) ct (buildAAD FrameData (of_nat (12 + length ct)) (recvDir r) (recvEpoch r)) = Some p"
    then show ?thesis by (auto simp: recv_ok_def progress_def opened_def word_less_nat_alt)
  qed
qed

lemma rekeyRemote_progress:
  assumes "recv_ok r" and "rekeyRemoteLocked c r = (r1, e)"
  shows "recv_ok r1 \<and> progress r \<le> progress r1"
proof (cases "recvEpoch r = 0xFF")
  case True
  then show ?thesis using assms by (simp add: rekeyRemoteLocked_def)
next
  case False
  have "progress r < (unat (recvEpoch r) + 1) * 2 ^ 64"
    using assms(1) cap_small [of "recvCounter r"] by (auto simp: progress_def recv_ok_def)
  moreover have "unat (recvEpoch r1) = unat (recvEpoch r) + 1" "\<not> recvHave r1"
    using assms(2) False byte_succ [OF False]
    by (auto simp: rekeyRemoteLocked_def Let_def split: sum.splits prod.splits)
  ultimately show ?thesis by (simp add: recv_ok_def progress_def)
qed

lemma recv_loop_frame:
  assumes "\<not> rw_closed (s_rw r)" and "readFrame (rw_in (s_rw r)) = Inr ((t, body), rest)"
    and "s1 = r\<lparr>s_rw := (s_rw r)\<lparr>rw_in := rest\<rparr>\<rparr>"
  shows "t = FrameData \<Longrightarrow> recv_loop c r = handleDataLocked c s1 body"
    and "t = FrameRekey \<Longrightarrow> recv_loop c r =
      (case DecodeRekey body of
         Inl e \<Rightarrow> Some (recv_alert s1 e)
       | Inr rk \<Rightarrow> (case rekeyRemoteLocked c s1 of (s2, Some e) \<Rightarrow> Some (recv_alert s2 e) | (s2, None) \<Rightarrow> recv_loop c s2))"
    and "t \<notin> {FrameData, FrameRekey} \<Longrightarrow> \<exists>e. recv_loop c r = Some (s1, Inl e) \<or> recv_loop c r = Some (recv_alert s1 e)"
proof -
  have "recv_loop c r =
     (if t = FrameData then handleDataLocked c s1 body
      else if t = FrameRekey
      then (case DecodeRekey body of
              Inl e \<Rightarrow> Some (recv_alert s1 e)
            | Inr rk \<Rightarrow> (case rekeyRemoteLocked c s1 of (s2, Some e) \<Rightarrow> Some (recv_alert s2 e) | (s2, None) \<Rightarrow> recv_loop c s2))
      else if t = FrameAlert
      then Some (s1, Inl (case DecodeAlert body of Inl e \<Rightarrow> e | Inr a \<Rightarrow> errorForAlert (al_Code a)))
      else Some (recv_alert s1 ErrDecodeError))"
    using assms(1,2) unfolding assms(3) by (subst recv_loop.simps) (simp add: Let_def)
  then show "t = FrameData \<Longrightarrow> recv_loop c r = handleDataLocked c s1 body"
    "t = FrameRekey \<Longrightarrow> recv_loop c r =
      (case DecodeRekey body of
         Inl e \<Rightarrow> Some (recv_alert s1 e)
       | Inr rk \<Rightarrow> (case rekeyRemoteLocked c s1 of (s2, Some e) \<Rightarrow> Some (recv_alert s2 e) | (s2, None) \<Rightarrow> recv_loop c s2))"
    "t \<notin> {FrameData, FrameRekey} \<Longrightarrow> \<exists>e. recv_loop c r = Some (s1, Inl e) \<or> recv_loop c r = Some (recv_alert s1 e)"
    by (simp_all add: frame_types) blast+
qed

definition accepts :: "crypto \<Rightarrow> Session \<Rightarrow> Session \<Rightarrow> hs_error + bytes \<Rightarrow> bool" where
  "accepts c r r1 res \<longleftrightarrow> recv_ok r1 \<and> progress r \<le> progress r1 \<and>
    (\<forall>p. res = Inr p \<longrightarrow> progress r < progress r1 \<and> recvHave r1 \<and> opened c r1 p)"

lemma recv_alert_accepts: "recv_ok s \<Longrightarrow> progress r \<le> progress s \<Longrightarrow> recv_alert s e = (r1, res) \<Longrightarrow> accepts c r r1 res"
  using recv_alert_same [of s e] by (simp add: accepts_def)

lemma recv_loop_accepts:
  assumes "recv_ok r" and "recv_loop c r = Some (r1, res)"
  shows "accepts c r r1 res"
  using assms
proof (induction c r rule: recv_loop.induct)
  case (1 c r)
  show ?case
  proof (cases "\<exists>e. recv_loop c r = Some (r, Inl e)")
    case True
    then show ?thesis using "1.prems" by (auto simp: accepts_def)
  next
    case False
    then have op: "\<not> rw_closed (s_rw r)" by (subst (asm) recv_loop.simps) auto
    obtain f where fr: "readFrame (rw_in (s_rw r)) = Inr f"
      using False op by (subst (asm) recv_loop.simps) (auto split: sum.splits)
    obtain t body rest where f: "f = ((t, body), rest)" by (metis prod.collapse)
    define s1 where "s1 = r\<lparr>s_rw := (s_rw r)\<lparr>rw_in := rest\<rparr>\<rparr>"
    have s1: "recv_ok s1" "progress s1 = progress r" using "1.prems"(1) by (simp_all add: s1_def recv_ok_def progress_def)
    note frame = recv_loop_frame [OF op fr [unfolded f] s1_def, of c]
    consider "t = FrameData" | "t = FrameRekey" | "t \<notin> {FrameData, FrameRekey}" by blast
    then show ?thesis
    proof cases
      case data: 1
      have "handleDataLocked c s1 body = Some (r1, res)" using frame(1) [OF data] "1.prems"(2) by simp
      from handleData_accepts [OF s1(1) this] show ?thesis by (simp add: accepts_def s1(2))
    next
      case rekey: 2
      show ?thesis
      proof (cases "DecodeRekey body")
        case (Inl e)
        then show ?thesis using frame(2) [OF rekey] "1.prems"(2) recv_alert_accepts [OF s1(1)] s1(2) by simp
      next
        case (Inr rk)
        obtain s2 e where s2: "rekeyRemoteLocked c s1 = (s2, e)" by force
        from rekeyRemote_progress [OF s1(1) s2] have p2: "recv_ok s2" "progress r \<le> progress s2" by (simp_all add: s1(2))
        show ?thesis
        proof (cases e)
          case None
          then have rl: "recv_loop c s2 = Some (r1, res)" using frame(2) [OF rekey] "1.prems"(2) Inr s2 by simp
          have "accepts c s2 r1 res"
            using "1.IH" [OF op fr f [symmetric] refl s1_def _ rekey Inr s2 [symmetric] None p2(1) rl] rekey
            by (simp add: frame_types)
          then show ?thesis using p2(2) by (auto simp: accepts_def)
        next
          case (Some e')
          then show ?thesis using frame(2) [OF rekey] "1.prems"(2) Inr s2 recv_alert_accepts [OF p2] by simp
        qed
      qed
    next
      case 3
      then consider e where "r1 = s1" "res = Inl e" | e where "recv_alert s1 e = (r1, res)"
        using frame(3) "1.prems"(2) by auto
      then show ?thesis
        by cases (use s1 in \<open>simp add: accepts_def\<close>, use recv_alert_accepts [OF s1(1)] s1(2) in simp)
    qed
  qed
qed

text \<open>Calls of \<open>Recv\<close> on whatever bytes the network (or an attacker) delivers, one chunk per call, and
  the payloads they return with the states they leave.\<close>

fun recv_trace :: "crypto \<Rightarrow> Session \<Rightarrow> bytes list \<Rightarrow> (Session \<times> bytes) list" where
  "recv_trace c r [] = []"
| "recv_trace c r (w # ws) =
     (case Session_Recv c (feed r w) of
        None \<Rightarrow> []
      | Some (r1, Inr p) \<Rightarrow> (r1, p) # recv_trace c r1 ws
      | Some (r1, Inl e) \<Rightarrow> recv_trace c r1 ws)"

lemma Session_Recv_accepts:
  assumes "recv_ok r" and "Session_Recv c (feed r w) = Some (r1, res)"
  shows "accepts c r r1 res"
proof -
  have r: "recv_ok (feed r w)" "progress (feed r w) = progress r"
    using assms(1) by (simp_all add: recv_ok_def progress_def feed_def)
  have "accepts c (feed r w) r1 res"
  proof (cases "s_closed r")
    case True
    then show ?thesis using r assms(2) by (auto simp: Session_Recv_def accepts_def)
  next
    case False
    then show ?thesis using recv_loop_accepts [OF r(1)] assms(2) by (simp add: Session_Recv_def)
  qed
  then show ?thesis by (simp add: accepts_def r(2))
qed

lemma recv_trace_later:
  assumes "recv_ok r"
  shows "\<forall>(b, p) \<in> set (recv_trace c r ws). progress r < progress b"
  using assms
proof (induction ws arbitrary: r)
  case (Cons w ws)
  show ?case
  proof (cases "Session_Recv c (feed r w)")
    case (Some x)
    obtain r1 res where x: "x = (r1, res)" by force
    from Session_Recv_accepts [OF Cons.prems Some [unfolded x]] Cons.IH [of r1] Some x show ?thesis
      by (cases res) (auto simp: accepts_def)
  qed simp
qed simp

lemma lex_order:
  fixes a b x y m :: nat
  assumes "x < m" and "y < m" and "a * m + x < b * m + y"
  shows "a < b \<or> a = b \<and> x < y"
proof (cases "b < a")
  case True
  then have "(b + 1) * m \<le> a * m" by (intro mult_le_mono1) simp
  then show ?thesis using assms by simp
next
  case False
  then show ?thesis using assms(3) by (cases "a = b") auto
qed

lemma progress_order:
  assumes "progress a < progress b" and "recvHave a" and "recvHave b" and "recv_ok a" and "recv_ok b"
  shows "unat (recvEpoch a) < unat (recvEpoch b) \<or> recvEpoch a = recvEpoch b \<and> recvCounter a < recvCounter b"
proof -
  let ?x = "unat (recvCounter a) + 1" and ?y = "unat (recvCounter b) + 1"
  have "?x < 2 ^ 64" "?y < 2 ^ 64" using assms cap_small by (fastforce simp: recv_ok_def)+
  moreover have "unat (recvEpoch a) * 2 ^ 64 + ?x < unat (recvEpoch b) * 2 ^ 64 + ?y"
    using assms(1-3) by (simp add: progress_def)
  ultimately have "unat (recvEpoch a) < unat (recvEpoch b) \<or> unat (recvEpoch a) = unat (recvEpoch b) \<and> ?x < ?y"
    by (rule lex_order)
  then show ?thesis by (auto simp: word_less_nat_alt word_unat_eq_iff)
qed


section \<open>Close\<close>

text \<open>Close is final: after \<open>Close\<close> no call of \<open>Send\<close>, \<open>Rekey\<close> or \<open>Recv\<close> does anything but report
  the closed session, no byte is written or read any more, both keys and salts are zero, the ciphers
  are gone, and closing again changes nothing.\<close>

lemma close_is_final:
  assumes "\<not> s_closed s"
  shows "let t = Session_Close s in
    Session_Send c t now p = Some (t, Some ErrSessionClosed) \<and> Session_Rekey c t now = (t, Some ErrSessionClosed) \<and>
    Session_Recv c t = Some (t, Inl ErrSessionClosed) \<and> Session_Close t = t \<and>
    rw_out (s_rw t) = rw_out (s_rw s) \<and> rw_closed (s_rw t) = (s_closer s \<or> rw_closed (s_rw s)) \<and>
    set (sendKey t) \<union> set (sendSalt t) \<union> set (recvKey t) \<union> set (recvSalt t) \<subseteq> {0} \<and> sendAEAD t = None \<and> recvAEAD t = None"
  using assms
  by (auto simp: Session_Close_def Session_Send_def Session_Rekey_def Session_Recv_def Let_def)


end
