(* ===== verification/PQ_Handshake.thy ===== *)
theory PQ_Handshake
  imports PQ_Session
begin

text \<open>
  The two sides of the handshake: \<open>src/handshake/initiator.go\<close> and \<open>src/handshake/responder.go\<close>, each
  in its full and its resumed form. A side is a function of its stream: what it will read is
  already there, what it writes is appended. The random values a side draws and the readings of
  its clocks are arguments. Read deadlines and the zeroing of dead secrets are left out. The lemmas
  read off a run what it consumed, wrote and checked; \<open>PQ_Agreement\<close> draws the conclusions.
\<close>

section \<open>Steps\<close>

text \<open>A fallible step on a state; the first failure ends the run.\<close>

type_synonym ('s, 'a) step = "'s \<Rightarrow> 's \<times> (hs_error + 'a)"

definition ret :: "'a \<Rightarrow> ('s, 'a) step" where
  "ret x s = (s, Inr x)"

definition fail :: "hs_error \<Rightarrow> ('s, 'a) step" where
  "fail e s = (s, Inl e)"

definition bnd :: "('s, 'a) step \<Rightarrow> ('a \<Rightarrow> ('s, 'b) step) \<Rightarrow> ('s, 'b) step" where
  "bnd m f s = (case m s of (s1, Inl e) \<Rightarrow> (s1, Inl e) | (s1, Inr x) \<Rightarrow> f x s1)"

lemma bnd_simps [simp]:
  "bnd (ret x) f = f x"
  "bnd (fail e) f = fail e"
  by (simp_all add: bnd_def ret_def fail_def fun_eq_iff)

lemma bnd_Inr_iff: "bnd m f s = (s2, Inr y) \<longleftrightarrow> (\<exists>s1 x. m s = (s1, Inr x) \<and> f x s1 = (s2, Inr y))"
  by (auto simp: bnd_def split: sum.splits prod.splits)

lemma ret_Inr_iff: "ret x s = (s1, Inr y) \<longleftrightarrow> s1 = s \<and> y = x"
  by (auto simp: ret_def)

lemma fail_Inr_iff [simp]: "fail e s \<noteq> (s1, Inr y)"
  by (simp add: fail_def)

definition send :: "FrameType \<Rightarrow> bytes \<Rightarrow> (rwStream, unit) step" where
  "send t body w = (case writeFrame w t body of (w1, None) \<Rightarrow> (w1, Inr ()) | (w1, Some e) \<Rightarrow> (w1, Inl e))"

definition send_raw :: "bytes \<Rightarrow> (rwStream, unit) step" where
  "send_raw bs w = (case rw_Write w bs of (w1, None) \<Rightarrow> (w1, Inr ()) | (w1, Some e) \<Rightarrow> (w1, Inl e))"

text \<open>\<open>return nil, writeAlertFor(conn, err)\<close>\<close>

definition alert_out :: "hs_error \<Rightarrow> (rwStream, 'a) step" where
  "alert_out e w = (fst (writeAlertFor w e), Inl e)"

lemma alert_out_Inr [simp]: "alert_out e w \<noteq> (w1, Inr y)"
  by (simp add: alert_out_def)

definition of_res :: "(hs_error \<Rightarrow> (rwStream, 'a) step) \<Rightarrow> hs_error + 'a \<Rightarrow> (rwStream, 'a) step" where
  "of_res bad r = (case r of Inl e \<Rightarrow> bad e | Inr x \<Rightarrow> ret x)"

definition of_opt :: "(rwStream, 'a) step \<Rightarrow> 'a option \<Rightarrow> (rwStream, 'a) step" where
  "of_opt bad r = (case r of None \<Rightarrow> bad | Some x \<Rightarrow> ret x)"

definition check :: "bool \<Rightarrow> (rwStream, unit) step \<Rightarrow> (rwStream, unit) step" where
  "check ok bad = (if ok then ret () else bad)"

lemma step_Inr_iff:
  "of_res alert_out r w = (w1, Inr x) \<longleftrightarrow> w1 = w \<and> r = Inr x"
  "of_res fail r w = (w1, Inr x) \<longleftrightarrow> w1 = w \<and> r = Inr x"
  "of_opt (alert_out e) q w = (w1, Inr y) \<longleftrightarrow> w1 = w \<and> q = Some y"
  "of_opt (fail e) q w = (w1, Inr y) \<longleftrightarrow> w1 = w \<and> q = Some y"
  "check ok (alert_out e) w = (w1, Inr u) \<longleftrightarrow> w1 = w \<and> ok"
  by (auto simp: of_res_def of_opt_def check_def ret_def split: sum.splits option.splits)

section \<open>Random values\<close>

text \<open>What a run draws from its random source, in the roles the code gives it; \<^term>\<open>None\<close> where the
  source fails. The ML-KEM key pair is the pair the library generates.\<close>

record entropy =
  en_clientRand :: "bytes option"
  en_x25519 :: "bytes option"
  en_mlkem :: "(bytes \<times> bytes) option"
  en_encap :: bytes
  en_sign :: bytes

section \<open>Initiator\<close>

record Initiator =
  i_Local :: "Identity option"
  i_Expected :: "Identity option"
  i_Profile :: Profile
  i_PQMode :: PQMode
  i_Suite :: SuiteID
  i_OfferedSchemes :: "SuiteID list"
  i_Resume :: "ClientPSK option"

definition strict :: "Profile \<Rightarrow> bool" where
  "strict p \<longleftrightarrow> p = ProfileStrictPQ \<or> p = ProfileFIPS"

definition i_runFull ::
  "crypto \<Rightarrow> Initiator \<Rightarrow> SuiteID \<Rightarrow> PQMode \<Rightarrow> SuiteID list \<Rightarrow> entropy \<Rightarrow> u64 \<Rightarrow> int \<Rightarrow> bool \<Rightarrow> (rwStream, Session) step" where
  "i_runFull c i suite pqMode schemes en nowNS tEnd closer =
     bnd (of_opt (fail (ErrIO EOF)) (en_clientRand en)) (\<lambda>clientRand.
     bnd (of_res fail (Hello_Encode \<lparr>h_Suite = suite, h_PQMode = pqMode, h_ClientRandom = clientRand, h_TimestampNS = nowNS,
            h_ClientID = Identity_ID c (i_Local i), h_OfferedSchemes = schemes,
            h_StaticPKInitiator = Identity_PublicBytes (i_Local i)\<rparr>)) (\<lambda>helloBody.
     bnd (send FrameHello helloBody) (\<lambda>_.
     bnd (of_opt (fail (ErrIO EOF)) (en_x25519 en)) (\<lambda>xEphSK.
     bnd (of_opt (fail (ErrIO EOF)) (en_mlkem en)) (\<lambda>(mlkemPub, mlkemPriv).
     let kemInitBody = KEMInit_Encode \<lparr>ki_X25519EphPub = arr X25519PubLen (x25519_pub c xEphSK),
                         ki_MLKEMEphPub = arr MLKEM768PubLen mlkemPub\<rparr> in
     bnd (send FrameKEMInit kemInitBody) (\<lambda>_.
     bnd (\<lambda>w. expectFrame w FrameKEMReply) (\<lambda>replyBody.
     bnd (of_res alert_out (DecodeKEMReply replyBody)) (\<lambda>reply.
     bnd (of_opt (alert_out ErrAuthFailed) (x25519_ecdh c xEphSK (kr_X25519EphPub reply))) (\<lambda>xSharedBytes.
     bnd (of_opt (alert_out ErrAuthFailed) (mlkem_decap c mlkemPriv (kr_MLKEMCiphertext reply))) (\<lambda>mlkemSharedBytes.
     let xShared = arr X25519SharedLen xSharedBytes;
         mlkemShared = arr MLKEM768SharedLen mlkemSharedBytes in
     bnd (of_opt (alert_out ErrDecodeError) (IdentityFromPublicBytes c (kr_StaticPKResponder reply))) (\<lambda>respIdentity.
     bnd (check (case i_Expected i of None \<Rightarrow> True
                 | Some e \<Rightarrow> Identity_ID c (Some e) = sha3 c (kr_StaticPKResponder reply))
            (alert_out ErrVMIdentityMismatch)) (\<lambda>_.
     let tr = AbsorbKEM c (AbsorbHello c (NewTranscript suite) helloBody) kemInitBody replyBody;
         h2 = snd (FinishFull c tr (Identity_PublicBytes (i_Local i)) (kr_StaticPKResponder reply) schemes) in
     bnd (\<lambda>w. expectFrame w FrameAuth) (\<lambda>authRBody.
     bnd (of_res alert_out (DecodeAuth authRBody)) (\<lambda>authR.
     bnd (check (a_Role authR = RoleResponder) (alert_out ErrAuthFailed)) (\<lambda>_.
     bnd (check (VerifyAuth c (Some respIdentity) h2 RoleResponder suite (a_Signature authR) = None)
            (alert_out ErrAuthFailed)) (\<lambda>_.
     bnd (of_res (\<lambda>_. alert_out ErrAuthFailed) (Identity_Sign c (i_Local i) (en_sign en) h2 RoleInitiator suite)) (\<lambda>mySig.
     bnd (of_res alert_out (Auth_Encode \<lparr>a_Role = RoleInitiator, a_Signature = mySig\<rparr>)) (\<lambda>myAuthBody.
     bnd (send FrameAuth myAuthBody) (\<lambda>_.
     \<lambda>w. (w, newSession c w closer RoleInitiator (Identity_ID c (Some respIdentity)) suite
               (DeriveSession c h2 xShared mlkemShared) tEnd))))))))))))))))))))"

definition i_runResume ::
  "crypto \<Rightarrow> ClientPSK \<Rightarrow> SuiteID \<Rightarrow> PQMode \<Rightarrow> entropy \<Rightarrow> u64 \<Rightarrow> int \<Rightarrow> bool \<Rightarrow> (rwStream, Session) step" where
  "i_runResume c psk suite pqMode en nowNS tEnd closer =
     bnd (of_opt (fail (ErrIO EOF)) (en_x25519 en)) (\<lambda>xEphSK.
     bnd (of_opt (fail (ErrIO EOF)) (en_clientRand en)) (\<lambda>clientRand.
     let helloBody = HelloPSK_Encode \<lparr>p_Suite = suite, p_PQMode = pqMode, p_ClientRandom = clientRand, p_TimestampNS = nowNS,
                       p_PSKID = cp_ID psk, p_X25519EphPub = arr X25519PubLen (x25519_pub c xEphSK)\<rparr> in
     bnd (send FrameHelloPSK helloBody) (\<lambda>_.
     bnd rw_readFrame (\<lambda>(t, body).
     if t = FrameAlert
     then fail (case DecodeAlert body of Inl e \<Rightarrow> e | Inr a \<Rightarrow> errorForAlert (al_Code a))
     else if t \<noteq> FrameKEMReply \<or> length body \<noteq> X25519PubLen then alert_out ErrDecodeError
     else
       bnd (of_opt (alert_out ErrAuthFailed) (x25519_ecdh c xEphSK (arr X25519PubLen body))) (\<lambda>xSharedBytes.
       let xShared = arr X25519SharedLen xSharedBytes;
           tr = AbsorbHello c (NewTranscript suite) helloBody;
           h2psk = snd (FinishPSK c tr (arr X25519PubLen body)) in
       (\<lambda>w. (w, newSession c w closer RoleInitiator (cp_PeerID psk) suite
                 (DeriveResumed c h2psk xShared (cp_PSK psk)) tEnd)))))))"

definition Initiator_Run ::
  "crypto \<Rightarrow> Initiator \<Rightarrow> entropy \<Rightarrow> int \<Rightarrow> int \<Rightarrow> bool \<Rightarrow> (rwStream, Session) step" where
  "Initiator_Run c i en now tEnd closer =
     (if Option.bind (i_Local i) id_PrivateKey = None then fail ErrLocal
      else
        let suite = (if i_Suite i = 0 then SuiteX25519MLKEM else i_Suite i) in
        if \<not> Suite_IsValid suite then fail ErrUnsupportedSuite
        else
          let schemes = (if i_OfferedSchemes i = [] then [suite] else i_OfferedSchemes i);
              pqMode = (if i_PQMode i = 0 \<and> strict (i_Profile i) then PQModePQOnly else i_PQMode i);
              nowNS = (of_int now :: u64) in
          bnd (send_raw PQMagic) (\<lambda>_.
          case i_Resume i of
            Some psk \<Rightarrow> if now < cp_Until psk then i_runResume c psk suite pqMode en nowNS tEnd closer
                        else i_runFull c i suite pqMode schemes en nowNS tEnd closer
          | None \<Rightarrow> i_runFull c i suite pqMode schemes en nowNS tEnd closer))"

section \<open>Responder\<close>

record Responder =
  rs_Local :: "Identity option"
  rs_Profile :: Profile
  rs_AcceptedSuites :: "SuiteID list"

text \<open>A run changes its stream and the two stores the responder shares between runs; an absent store
  is the code's nil.\<close>

record respState =
  rp_rw :: rwStream
  rp_cache :: "ReplayCache option"
  rp_psk :: "PSKStore option"

text \<open>The clock readings of a run: the timestamp check, the replay cache, redemption, issue, and the
  start of the session.\<close>

record clocks =
  ck_stamp :: u64
  ck_seen :: int
  ck_redeem :: int
  ck_issue :: int
  ck_start :: int

definition on_rw :: "(rwStream, 'a) step \<Rightarrow> (respState, 'a) step" where
  "on_rw m st = (case m (rp_rw st) of (w, r) \<Rightarrow> (st\<lparr>rp_rw := w\<rparr>, r))"

lemma on_rw_Inr_iff: "on_rw m st = (st1, Inr x) \<longleftrightarrow> (\<exists>w. m (rp_rw st) = (w, Inr x) \<and> st1 = st\<lparr>rp_rw := w\<rparr>)"
  by (auto simp: on_rw_def split: prod.splits)

definition acceptsSuite :: "Responder \<Rightarrow> SuiteID \<Rightarrow> bool" where
  "acceptsSuite rs s \<longleftrightarrow>
     Suite_IsValid s \<and> (if rs_AcceptedSuites rs = [] then s = SuiteX25519MLKEM else s \<in> set (rs_AcceptedSuites rs))"

text \<open>The replay gate: timestamp window, then the cache; nothing without a cache.\<close>

definition replay_gate :: "clocks \<Rightarrow> u64 \<Rightarrow> bytes \<Rightarrow> bytes \<Rightarrow> (respState, unit) step" where
  "replay_gate ck ts cid rnd st =
     (case rp_cache st of
        None \<Rightarrow> (st, Inr ())
      | Some rc \<Rightarrow>
          (case CheckTimestamp (ck_stamp ck) ts of
             Some e \<Rightarrow> on_rw (alert_out e) st
           | None \<Rightarrow>
               (case SeenOrAdd rc (ck_seen ck) cid rnd of
                  (rc1, True) \<Rightarrow> on_rw (alert_out ErrReplayDetected) (st\<lparr>rp_cache := Some rc1\<rparr>)
                | (rc1, False) \<Rightarrow> (st\<lparr>rp_cache := Some rc1\<rparr>, Inr ()))))"

text \<open>\<open>if rs.PSKStore != nil { rs.PSKStore.Issue(...) }\<close>\<close>

definition issue_psk :: "crypto \<Rightarrow> clocks \<Rightarrow> bytes \<Rightarrow> bytes \<Rightarrow> (respState, unit) step" where
  "issue_psk c ck psk cid st =
     (st\<lparr>rp_psk := map_option (\<lambda>ps. fst (Issue (sha3 c) ps (ck_issue ck) psk cid)) (rp_psk st)\<rparr>, Inr ())"

definition r_runFull ::
  "crypto \<Rightarrow> Responder \<Rightarrow> bytes \<Rightarrow> entropy \<Rightarrow> clocks \<Rightarrow> bool \<Rightarrow> (respState, Session) step" where
  "r_runFull c rs helloBody en ck closer =
     bnd (on_rw (of_res alert_out (DecodeHello helloBody))) (\<lambda>hello.
     bnd (on_rw (check (acceptsSuite rs (h_Suite hello)) (alert_out ErrUnsupportedSuite))) (\<lambda>_.
     bnd (on_rw (check (\<not> (strict (rs_Profile rs) \<and> h_PQMode hello = PQModeClassicalPermitted))
            (alert_out ErrDowngradeRefused))) (\<lambda>_.
     bnd (on_rw (check (\<not> (strict (rs_Profile rs) \<and> \<not> list_all Suite_IsValid (h_OfferedSchemes hello)))
            (alert_out ErrDowngradeRefused))) (\<lambda>_.
     bnd (replay_gate ck (h_TimestampNS hello) (h_ClientID hello) (h_ClientRandom hello)) (\<lambda>_.
     bnd (on_rw (check (sha3 c (h_StaticPKInitiator hello) = h_ClientID hello) (alert_out ErrAuthFailed))) (\<lambda>_.
     bnd (on_rw (of_opt (alert_out ErrDecodeError) (IdentityFromPublicBytes c (h_StaticPKInitiator hello)))) (\<lambda>initIdentity.
     bnd (on_rw (\<lambda>w. expectFrame w FrameKEMInit)) (\<lambda>kemInitBody.
     bnd (on_rw (of_res alert_out (DecodeKEMInit kemInitBody))) (\<lambda>kemInit.
     bnd (on_rw (of_opt (fail (ErrIO EOF)) (en_x25519 en))) (\<lambda>xEphSK.
     bnd (on_rw (of_opt (alert_out ErrAuthFailed) (x25519_ecdh c xEphSK (ki_X25519EphPub kemInit)))) (\<lambda>xSharedBytes.
     bnd (on_rw (check (mlkem_pub_ok c (ki_MLKEMEphPub kemInit)) (alert_out ErrDecodeError))) (\<lambda>_.
     bnd (on_rw (of_opt (alert_out ErrAuthFailed) (mlkem_encap c (ki_MLKEMEphPub kemInit) (en_encap en)))) (\<lambda>(mlkemCT, mlkemSharedBytes).
     bnd (on_rw (check (length mlkemCT = MLKEM768CTLen) (alert_out ErrAuthFailed))) (\<lambda>_.
     let xShared = arr X25519SharedLen xSharedBytes;
         mlkemShared = arr MLKEM768SharedLen mlkemSharedBytes in
     bnd (on_rw (of_res alert_out (KEMReply_Encode \<lparr>kr_X25519EphPub = arr X25519PubLen (x25519_pub c xEphSK),
            kr_MLKEMCiphertext = arr MLKEM768CTLen mlkemCT, kr_StaticPKResponder = Identity_PublicBytes (rs_Local rs)\<rparr>))) (\<lambda>replyBody.
     bnd (on_rw (send FrameKEMReply replyBody)) (\<lambda>_.
     let tr = AbsorbKEM c (AbsorbHello c (NewTranscript (h_Suite hello)) helloBody) kemInitBody replyBody;
         h2 = snd (FinishFull c tr (h_StaticPKInitiator hello) (Identity_PublicBytes (rs_Local rs)) (h_OfferedSchemes hello)) in
     bnd (on_rw (of_res (\<lambda>_. alert_out ErrAuthFailed) (Identity_Sign c (rs_Local rs) (en_sign en) h2 RoleResponder (h_Suite hello)))) (\<lambda>mySig.
     bnd (on_rw (of_res alert_out (Auth_Encode \<lparr>a_Role = RoleResponder, a_Signature = mySig\<rparr>))) (\<lambda>myAuthBody.
     bnd (on_rw (send FrameAuth myAuthBody)) (\<lambda>_.
     bnd (on_rw (\<lambda>w. expectFrame w FrameAuth)) (\<lambda>authIBody.
     bnd (on_rw (of_res alert_out (DecodeAuth authIBody))) (\<lambda>authI.
     bnd (on_rw (check (a_Role authI = RoleInitiator) (alert_out ErrAuthFailed))) (\<lambda>_.
     bnd (on_rw (check (VerifyAuth c (Some initIdentity) h2 RoleInitiator (h_Suite hello) (a_Signature authI) = None)
            (alert_out ErrAuthFailed))) (\<lambda>_.
     let keys = DeriveSession c h2 xShared mlkemShared in
     bnd (issue_psk c ck (ResumptionPSK keys) (Identity_ID c (Some initIdentity))) (\<lambda>_.
     \<lambda>st. (st, newSession c (rp_rw st) closer RoleResponder (Identity_ID c (Some initIdentity)) (h_Suite hello) keys
                 (ck_start ck))))))))))))))))))))))))))"

definition redeem_psk :: "clocks \<Rightarrow> bytes \<Rightarrow> (respState, bytes \<times> bytes) step" where
  "redeem_psk ck pid st =
     (case rp_psk st of
        None \<Rightarrow> on_rw (alert_out ErrPSKUnknown) st
      | Some ps \<Rightarrow>
          (case Redeem ps (ck_redeem ck) pid of
             (ps1, None) \<Rightarrow> on_rw (alert_out ErrPSKUnknown) (st\<lparr>rp_psk := Some ps1\<rparr>)
           | (ps1, Some x) \<Rightarrow> (st\<lparr>rp_psk := Some ps1\<rparr>, Inr x)))"

definition r_runResume ::
  "crypto \<Rightarrow> Responder \<Rightarrow> bytes \<Rightarrow> entropy \<Rightarrow> clocks \<Rightarrow> bool \<Rightarrow> (respState, Session) step" where
  "r_runResume c rs helloBody en ck closer =
     bnd (on_rw (of_res alert_out (DecodeHelloPSK helloBody))) (\<lambda>hello.
     bnd (on_rw (check (acceptsSuite rs (p_Suite hello)) (alert_out ErrUnsupportedSuite))) (\<lambda>_.
     bnd (on_rw (check (\<not> (strict (rs_Profile rs) \<and> p_PQMode hello = PQModeClassicalPermitted))
            (alert_out ErrDowngradeRefused))) (\<lambda>_.
     bnd (replay_gate ck (p_TimestampNS hello) (sha3 c (p_PSKID hello)) (p_ClientRandom hello)) (\<lambda>_.
     bnd (redeem_psk ck (p_PSKID hello)) (\<lambda>(psk, clientID).
     bnd (on_rw (of_opt (fail (ErrIO EOF)) (en_x25519 en))) (\<lambda>xEphSK.
     bnd (on_rw (of_opt (alert_out ErrAuthFailed) (x25519_ecdh c xEphSK (p_X25519EphPub hello)))) (\<lambda>xSharedBytes.
     let xShared = arr X25519SharedLen xSharedBytes;
         xEphPK = arr X25519PubLen (x25519_pub c xEphSK) in
     bnd (on_rw (send FrameKEMReply xEphPK)) (\<lambda>_.
     let tr = AbsorbHello c (NewTranscript (p_Suite hello)) helloBody;
         h2psk = snd (FinishPSK c tr xEphPK);
         keys = DeriveResumed c h2psk xShared psk in
     bnd (issue_psk c ck (ResumptionPSK keys) clientID) (\<lambda>_.
     \<lambda>st. (st, newSession c (rp_rw st) closer RoleResponder clientID (p_Suite hello) keys (ck_start ck)))))))))))"

definition read_magic :: "(rwStream, bytes) step" where
  "read_magic w =
     (if rw_closed w then (w, Inl (ErrIO ErrClosed))
      else case ReadFull (rw_in w) MagicLen of
        Inl e \<Rightarrow> (w, Inl (ErrIO e))
      | Inr (magic, rest) \<Rightarrow> (w\<lparr>rw_in := rest\<rparr>, Inr magic))"

definition Responder_Run ::
  "crypto \<Rightarrow> Responder \<Rightarrow> entropy \<Rightarrow> clocks \<Rightarrow> bool \<Rightarrow> (respState, Session) step" where
  "Responder_Run c rs en ck closer =
     (if Option.bind (rs_Local rs) id_PrivateKey = None then fail ErrLocal
      else
        (\<lambda>st. if strict (rs_Profile rs) \<and> rp_cache st = None then fail ErrLocal st
              else
                bnd (on_rw read_magic) (\<lambda>magic.
                if magic \<noteq> PQMagic then fail ErrMagicMismatch
                else
                  bnd (on_rw rw_readFrame) (\<lambda>(t, body).
                  if t = FrameHello then r_runFull c rs body en ck closer
                  else if t = FrameHelloPSK then r_runResume c rs body en ck closer
                  else if t = FrameAlert
                  then fail (case DecodeAlert body of Inl e \<Rightarrow> e | Inr a \<Rightarrow> errorForAlert (al_Code a))
                  else on_rw (alert_out ErrDecodeError))) st))"

section \<open>What a step did\<close>

lemma ReadFull_Inr: "ReadFull s n = Inr (x, rest) \<Longrightarrow> s = x @ rest \<and> length x = n"
  by (auto simp: ReadFull_def split: if_splits)

lemma readFrame_Inr:
  assumes "readFrame s = Inr ((t, body), rest)"
  shows "s = envelope (t, body) @ rest \<and> body_fits (t, body)"
proof -
  obtain hdr s1 where h: "ReadFull s 5 = Inr (hdr, s1)" "\<not> MaxFrameBody < unat (u32_be (drop 1 hdr))"
    "ReadFull s1 (unat (u32_be (drop 1 hdr))) = Inr (body, rest)" "t = hdr ! 0"
    using assms by (auto simp: readFrame_def Let_def split: sum.splits if_splits)
  from ReadFull_Inr [OF h(1)] ReadFull_Inr [OF h(3)]
  have s: "s = hdr @ body @ rest" "length hdr = 5" and b: "length body = unat (u32_be (drop 1 hdr))" by auto
  have "uint (u32_be (drop 1 hdr)) = int (length body)" unfolding b by (rule uint_int_unat)
  from be32_field [OF refl this] s(2) have len: "be32 (of_nat (length body)) = drop 1 hdr" by simp
  have "[t] @ drop 1 hdr = hdr" using s(2) h(4) by (cases hdr) auto
  then have "envelope (t, body) @ rest = s" unfolding envelope_def fst_conv snd_conv len s(1) by simp
  then show ?thesis using h(2) b by (simp add: body_fits_def)
qed

text \<open>The stream before and after: bytes consumed, bytes written.\<close>

definition moved :: "rwStream \<Rightarrow> bytes \<Rightarrow> bytes \<Rightarrow> rwStream \<Rightarrow> bool" where
  "moved w got put w1 \<longleftrightarrow> rw_in w = got @ rw_in w1 \<and> rw_out w1 = rw_out w @ put"

lemma moved_refl [simp]: "moved w [] [] w"
  by (simp add: moved_def)

lemma moved_trans: "moved w g p w1 \<Longrightarrow> moved w1 g' p' w2 \<Longrightarrow> moved w (g @ g') (p @ p') w2"
  by (simp add: moved_def)

lemma send_raw_Inr: "send_raw bs w = (w1, Inr u) \<Longrightarrow> moved w [] bs w1"
  by (auto simp: send_raw_def rw_Write_def moved_def split: if_splits option.splits list.splits)

lemma send_Inr: "send t body w = (w1, Inr u) \<Longrightarrow> moved w [] (envelope (t, body)) w1"
  by (auto simp: send_def writeFrame_def rw_Write_def moved_def envelope_def split: if_splits option.splits list.splits)

lemma rw_readFrame_Inr: "rw_readFrame w = (w1, Inr (t, body)) \<Longrightarrow> moved w (envelope (t, body)) [] w1"
  using readFrame_Inr [of "rw_in w" t body] by (auto simp: rw_readFrame_def moved_def split: if_splits sum.splits)

lemma readFrame_fits: "rw_readFrame w = (w1, Inr f) \<Longrightarrow> body_fits f"
  using readFrame_Inr [of "rw_in w" "fst f" "snd f"] by (auto simp: rw_readFrame_def split: if_splits sum.splits)

lemma read_magic_Inr: "read_magic w = (w1, Inr m) \<Longrightarrow> moved w m [] w1"
  by (auto simp: read_magic_def moved_def split: if_splits sum.splits dest!: ReadFull_Inr)

lemma expectFrame_Inr: "expectFrame w t = (w1, Inr body) \<Longrightarrow> moved w (envelope (t, body)) [] w1"
  using rw_readFrame_Inr [of w w1 t body] by (auto simp: expectFrame_def split: prod.splits sum.splits if_splits)

lemma newSession_peer:
  "newSession c w closer role peer suite keys now = Inr s \<Longrightarrow> s_peerID s = peer \<and> s_rw s = w \<and> s_suite s = suite \<and> s_role s = role"
  by (auto simp: newSession_def Let_def bindE_eq_Inr_iff split: if_splits)

lemma VerifyAuth_ok:
  "VerifyAuth c (Some i) h2 role suite sg = None \<longleftrightarrow>
   (\<exists>pk. id_PublicKey i = Some pk \<and> length sg = MLDSA65SigLen \<and> mldsa_verify c pk (signInput h2 role suite) sg SignCtx)"
  by (auto simp: VerifyAuth_def split: option.splits if_splits)

lemma IdentityFromPublicBytes_Some:
  "IdentityFromPublicBytes c pk = Some i \<longleftrightarrow> mldsa_pub_ok c pk \<and> i = \<lparr>id_PublicKey = Some pk, id_PrivateKey = None\<rparr>"
  by (auto simp: IdentityFromPublicBytes_def)

lemma Identity_ID_pk [simp]: "Identity_ID c (Some \<lparr>id_PublicKey = Some pk, id_PrivateKey = k\<rparr>) = sha3 c pk"
  by (simp add: Identity_ID_def)

lemma Auth_body: "DecodeAuth b = Inr a \<Longrightarrow> b = a_Role a # a_Signature a"
  using auth.enc_dec [of b a] by (auto simp: Auth_Encode_def split: if_splits)

lemma bnd_send: "bnd (send t b) f w = (w1, Inr y) \<longleftrightarrow> (\<exists>w2. send t b w = (w2, Inr ()) \<and> f () w2 = (w1, Inr y))"
  by (auto simp: bnd_Inr_iff)

lemma bnd_expect:
  "bnd (\<lambda>w. expectFrame w t) f w = (w1, Inr y) \<longleftrightarrow> (\<exists>w2 b. expectFrame w t = (w2, Inr b) \<and> f b w2 = (w1, Inr y))"
  by (auto simp: bnd_Inr_iff)

lemma bnd_pure:
  "bnd (of_res alert_out r) f w = (w1, Inr y) \<longleftrightarrow> (\<exists>x. r = Inr x \<and> f x w = (w1, Inr y))"
  "bnd (of_res (\<lambda>_. alert_out e) r) f w = (w1, Inr y) \<longleftrightarrow> (\<exists>x. r = Inr x \<and> f x w = (w1, Inr y))"
  "bnd (of_res fail r) f w = (w1, Inr y) \<longleftrightarrow> (\<exists>x. r = Inr x \<and> f x w = (w1, Inr y))"
  "bnd (of_opt (alert_out e) q) f w = (w1, Inr y) \<longleftrightarrow> (\<exists>x. q = Some x \<and> f x w = (w1, Inr y))"
  "bnd (of_opt (fail e) q) f w = (w1, Inr y) \<longleftrightarrow> (\<exists>x. q = Some x \<and> f x w = (w1, Inr y))"
  "bnd (check ok (alert_out e)) g w = (w1, Inr y) \<longleftrightarrow> ok \<and> g () w = (w1, Inr y)"
  by (auto simp: bnd_def of_res_def of_opt_def check_def ret_def fail_def alert_out_def split: sum.splits option.splits)

lemmas step_defs = bnd_send bnd_expect bnd_pure Let_def case_prod_unfold prod.inject

lemma i_runFull_Inr:
  assumes "i_runFull c i suite pqMode schemes en nowNS tEnd closer w = (w1, Inr s)"
  shows "\<exists>hello kemInit reply kr sg auth. Hello_Encode \<lparr>h_Suite = suite, h_PQMode = pqMode, h_ClientRandom = the (en_clientRand en),
        h_TimestampNS = nowNS, h_ClientID = Identity_ID c (i_Local i), h_OfferedSchemes = schemes,
        h_StaticPKInitiator = Identity_PublicBytes (i_Local i)\<rparr> = Inr hello \<and>
    DecodeKEMReply reply = Inr kr \<and>
    moved w (envelope (FrameKEMReply, reply) @ envelope (FrameAuth, RoleResponder # sg))
      (envelope (FrameHello, hello) @ envelope (FrameKEMInit, kemInit) @ envelope (FrameAuth, auth)) w1 \<and>
    mldsa_verify c (kr_StaticPKResponder kr) (signInput (full_H2 c suite hello kemInit reply
      (Identity_PublicBytes (i_Local i)) (kr_StaticPKResponder kr) schemes) RoleResponder suite) sg SignCtx \<and>
    (\<forall>e. i_Expected i = Some e \<longrightarrow> Identity_ID c (Some e) = sha3 c (kr_StaticPKResponder kr)) \<and>
    s_peerID s = sha3 c (kr_StaticPKResponder kr) \<and> s_rw s = w1 \<and> s_suite s = suite"
proof -
  let ?pkI = "Identity_PublicBytes (i_Local i)"
  let ?ki = "\<lambda>xsk kp. KEMInit_Encode \<lparr>ki_X25519EphPub = arr X25519PubLen (x25519_pub c xsk), ki_MLKEMEphPub = arr MLKEM768PubLen kp\<rparr>"
  let ?h2 = "\<lambda>hello ki reply kr. snd (FinishFull c (AbsorbKEM c (AbsorbHello c (NewTranscript suite) hello) ki reply) ?pkI
      (kr_StaticPKResponder kr) schemes)"
  obtain rnd hello w2 xsk kp w3 reply w4 kr idn w5 ab au auth keys w6 where
    hello: "en_clientRand en = Some rnd" "Hello_Encode \<lparr>h_Suite = suite, h_PQMode = pqMode, h_ClientRandom = rnd, h_TimestampNS = nowNS,
        h_ClientID = Identity_ID c (i_Local i), h_OfferedSchemes = schemes, h_StaticPKInitiator = ?pkI\<rparr> = Inr hello"
    and io: "send FrameHello hello w = (w2, Inr ())" "send FrameKEMInit (?ki xsk kp) w2 = (w3, Inr ())"
      "expectFrame w3 FrameKEMReply = (w4, Inr reply)" "expectFrame w4 FrameAuth = (w5, Inr ab)" "send FrameAuth auth w5 = (w6, Inr ())" "w6 = w1"
    and reply: "DecodeKEMReply reply = Inr kr" "IdentityFromPublicBytes c (kr_StaticPKResponder kr) = Some idn"
      "case i_Expected i of None \<Rightarrow> True | Some e \<Rightarrow> Identity_ID c (Some e) = sha3 c (kr_StaticPKResponder kr)"
    and auth: "DecodeAuth ab = Inr au" "a_Role au = RoleResponder"
      "VerifyAuth c (Some idn) (?h2 hello (?ki xsk kp) reply kr) RoleResponder suite (a_Signature au) = None"
    and sess: "newSession c w6 closer RoleInitiator (Identity_ID c (Some idn)) suite keys tEnd = Inr s"
    using assms unfolding i_runFull_def step_defs by (elim exE conjE) (rule that; assumption)
  note m = moved_trans [OF send_Inr [OF io(1)] moved_trans [OF send_Inr [OF io(2)]
      moved_trans [OF expectFrame_Inr [OF io(3)] moved_trans [OF expectFrame_Inr [OF io(4)] send_Inr [OF io(5)]]]]]
  have "moved w (envelope (FrameKEMReply, reply) @ envelope (FrameAuth, RoleResponder # a_Signature au))
      (envelope (FrameHello, hello) @ envelope (FrameKEMInit, ?ki xsk kp) @ envelope (FrameAuth, auth)) w1"
    using m auth(2) Auth_body [OF auth(1)] io(6) by simp
  moreover have "mldsa_verify c (kr_StaticPKResponder kr) (signInput (full_H2 c suite hello (?ki xsk kp) reply ?pkI
      (kr_StaticPKResponder kr) schemes) RoleResponder suite) (a_Signature au) SignCtx"
    using auth(3) reply(2) by (auto simp: VerifyAuth_ok IdentityFromPublicBytes_Some full_H2_def)
  moreover have "s_peerID s = sha3 c (kr_StaticPKResponder kr)" "s_rw s = w1" "s_suite s = suite"
    using newSession_peer [OF sess] reply(2) io(6) by (auto simp: IdentityFromPublicBytes_Some)
  moreover have "\<forall>e. i_Expected i = Some e \<longrightarrow> Identity_ID c (Some e) = sha3 c (kr_StaticPKResponder kr)"
    using reply(3) by auto
  ultimately show ?thesis using hello reply(1) by (intro exI conjI) (assumption | simp)+
qed

lemma bnd_on_rw:
  "bnd (on_rw (send t b)) fu st = (st1, Inr y) \<longleftrightarrow> (\<exists>st2. on_rw (send t b) st = (st2, Inr ()) \<and> fu () st2 = (st1, Inr y))"
  "bnd (on_rw (\<lambda>w. expectFrame w t)) fb st = (st1, Inr y) \<longleftrightarrow>
     (\<exists>st2 b. on_rw (\<lambda>w. expectFrame w t) st = (st2, Inr b) \<and> fb b st2 = (st1, Inr y))"
  "bnd (replay_gate ck ts cid rnd) fu st = (st1, Inr y) \<longleftrightarrow>
     (\<exists>st2. replay_gate ck ts cid rnd st = (st2, Inr ()) \<and> fu () st2 = (st1, Inr y))"
  "bnd (redeem_psk ck pid) fp st = (st1, Inr y) \<longleftrightarrow>
     (\<exists>st2 x. redeem_psk ck pid st = (st2, Inr x) \<and> fp x st2 = (st1, Inr y))"
  "bnd (issue_psk c ck psk cid) fu st = (st1, Inr y) \<longleftrightarrow>
     (\<exists>st2. issue_psk c ck psk cid st = (st2, Inr ()) \<and> fu () st2 = (st1, Inr y))"
  by (auto simp: bnd_Inr_iff)

lemma bnd_on_rw_pure:
  "bnd (on_rw (of_res alert_out r)) f st = (st1, Inr y) \<longleftrightarrow> (\<exists>x. r = Inr x \<and> f x st = (st1, Inr y))"
  "bnd (on_rw (of_res (\<lambda>_. alert_out e) r)) f st = (st1, Inr y) \<longleftrightarrow> (\<exists>x. r = Inr x \<and> f x st = (st1, Inr y))"
  "bnd (on_rw (of_opt (alert_out e) q)) f st = (st1, Inr y) \<longleftrightarrow> (\<exists>x. q = Some x \<and> f x st = (st1, Inr y))"
  "bnd (on_rw (of_opt (fail e) q)) f st = (st1, Inr y) \<longleftrightarrow> (\<exists>x. q = Some x \<and> f x st = (st1, Inr y))"
  "bnd (on_rw (check ok (alert_out e))) g st = (st1, Inr y) \<longleftrightarrow> ok \<and> g () st = (st1, Inr y)"
  by (auto simp: bnd_def on_rw_def of_res_def of_opt_def check_def ret_def fail_def alert_out_def
      split: sum.splits option.splits)

lemma on_rw_stores: "on_rw m st = (st1, r) \<Longrightarrow> rp_cache st1 = rp_cache st \<and> rp_psk st1 = rp_psk st"
  by (auto simp: on_rw_def split: prod.splits)

lemma on_rw_Inr: "on_rw m st = (st1, Inr x) \<Longrightarrow> m (rp_rw st) = (rp_rw st1, Inr x)"
  by (auto simp: on_rw_def split: prod.splits)

lemma replay_gate_Inr:
  assumes "replay_gate ck ts cid rnd st = (st1, Inr u)"
  shows "rp_rw st1 = rp_rw st \<and> rp_psk st1 = rp_psk st \<and>
    (case rp_cache st of None \<Rightarrow> rp_cache st1 = None
     | Some rc \<Rightarrow> CheckTimestamp (ck_stamp ck) ts = None \<and>
         (\<exists>rc1. SeenOrAdd rc (ck_seen ck) cid rnd = (rc1, False) \<and> rp_cache st1 = Some rc1))"
  using assms by (auto simp: replay_gate_def on_rw_Inr_iff split: option.splits prod.splits bool.splits)

lemma issue_psk_Inr:
  "issue_psk c ck psk cid st = (st1, Inr u) \<Longrightarrow> rp_rw st1 = rp_rw st \<and> rp_cache st1 = rp_cache st \<and>
     rp_psk st1 = map_option (\<lambda>ps. fst (Issue (sha3 c) ps (ck_issue ck) psk cid)) (rp_psk st)"
  by (auto simp: issue_psk_def)

text \<open>What a responder has established when the full handshake succeeds.\<close>

lemma r_runFull_Inr:
  assumes "r_runFull c rs helloBody en ck closer st = (st1, Inr s)"
  shows "\<exists>hello kemInit reply sg auth. DecodeHello helloBody = Inr hello \<and> acceptsSuite rs (h_Suite hello) \<and>
    (strict (rs_Profile rs) \<longrightarrow> h_PQMode hello \<noteq> PQModeClassicalPermitted \<and> list_all Suite_IsValid (h_OfferedSchemes hello)) \<and>
    (case rp_cache st of None \<Rightarrow> rp_cache st1 = None
     | Some rc \<Rightarrow> CheckTimestamp (ck_stamp ck) (h_TimestampNS hello) = None \<and>
         (\<exists>rc1. SeenOrAdd rc (ck_seen ck) (h_ClientID hello) (h_ClientRandom hello) = (rc1, False) \<and> rp_cache st1 = Some rc1)) \<and>
    sha3 c (h_StaticPKInitiator hello) = h_ClientID hello \<and>
    moved (rp_rw st) (envelope (FrameKEMInit, kemInit) @ envelope (FrameAuth, RoleInitiator # sg))
      (envelope (FrameKEMReply, reply) @ envelope (FrameAuth, auth)) (rp_rw st1) \<and>
    mldsa_verify c (h_StaticPKInitiator hello) (signInput (full_H2 c (h_Suite hello) helloBody kemInit reply
      (h_StaticPKInitiator hello) (Identity_PublicBytes (rs_Local rs)) (h_OfferedSchemes hello)) RoleInitiator (h_Suite hello)) sg SignCtx \<and>
    s_peerID s = h_ClientID hello \<and> s_rw s = rp_rw st1 \<and> s_suite s = h_Suite hello"
proof -
  let ?pkR = "Identity_PublicBytes (rs_Local rs)"
  let ?h2 = "\<lambda>hello ki reply. snd (FinishFull c (AbsorbKEM c (AbsorbHello c (NewTranscript (h_Suite hello)) helloBody) ki reply)
      (h_StaticPKInitiator hello) ?pkR (h_OfferedSchemes hello))"
  obtain hello st2 idn st3 ki reply st4 auth st5 st6 ab au st7 psk keys where
    hello: "DecodeHello helloBody = Inr hello" "acceptsSuite rs (h_Suite hello)"
      "\<not> (strict (rs_Profile rs) \<and> h_PQMode hello = PQModeClassicalPermitted)"
      "\<not> (strict (rs_Profile rs) \<and> \<not> list_all Suite_IsValid (h_OfferedSchemes hello))"
    and gate: "replay_gate ck (h_TimestampNS hello) (h_ClientID hello) (h_ClientRandom hello) st = (st2, Inr ())"
    and bind: "sha3 c (h_StaticPKInitiator hello) = h_ClientID hello" "IdentityFromPublicBytes c (h_StaticPKInitiator hello) = Some idn"
    and io: "on_rw (\<lambda>w. expectFrame w FrameKEMInit) st2 = (st3, Inr ki)" "on_rw (send FrameKEMReply reply) st3 = (st4, Inr ())"
      "on_rw (send FrameAuth auth) st4 = (st5, Inr ())" "on_rw (\<lambda>w. expectFrame w FrameAuth) st5 = (st6, Inr ab)"
    and auth: "DecodeAuth ab = Inr au" "a_Role au = RoleInitiator"
      "VerifyAuth c (Some idn) (?h2 hello ki reply) RoleInitiator (h_Suite hello) (a_Signature au) = None"
    and fin: "issue_psk c ck psk (Identity_ID c (Some idn)) st6 = (st7, Inr ())" "st7 = st1"
      "newSession c (rp_rw st7) closer RoleResponder (Identity_ID c (Some idn)) (h_Suite hello) keys (ck_start ck) = Inr s"
    using assms unfolding r_runFull_def bnd_on_rw bnd_on_rw_pure Let_def case_prod_unfold prod.inject
    by (elim exE conjE) (rule that; assumption)
  note m = moved_trans [OF expectFrame_Inr [OF on_rw_Inr [OF io(1)]] moved_trans [OF send_Inr [OF on_rw_Inr [OF io(2)]]
      moved_trans [OF send_Inr [OF on_rw_Inr [OF io(3)]] expectFrame_Inr [OF on_rw_Inr [OF io(4)]]]]]
  have st: "rp_rw st6 = rp_rw st1" "rp_cache st1 = rp_cache st2"
    using issue_psk_Inr [OF fin(1)] fin(2) io [THEN on_rw_stores] by simp_all
  have "moved (rp_rw st) (envelope (FrameKEMInit, ki) @ envelope (FrameAuth, RoleInitiator # a_Signature au))
      (envelope (FrameKEMReply, reply) @ envelope (FrameAuth, auth)) (rp_rw st1)"
    using m auth(2) Auth_body [OF auth(1)] replay_gate_Inr [OF gate] st(1) by simp
  moreover have "mldsa_verify c (h_StaticPKInitiator hello) (signInput (full_H2 c (h_Suite hello) helloBody ki reply
      (h_StaticPKInitiator hello) ?pkR (h_OfferedSchemes hello)) RoleInitiator (h_Suite hello)) (a_Signature au) SignCtx"
    using auth(3) bind(2) by (auto simp: VerifyAuth_ok IdentityFromPublicBytes_Some full_H2_def)
  moreover have "s_peerID s = h_ClientID hello" "s_rw s = rp_rw st1" "s_suite s = h_Suite hello"
    using newSession_peer [OF fin(3)] bind fin(2) by (auto simp: IdentityFromPublicBytes_Some)
  moreover have "case rp_cache st of None \<Rightarrow> rp_cache st1 = None
     | Some rc \<Rightarrow> CheckTimestamp (ck_stamp ck) (h_TimestampNS hello) = None \<and>
         (\<exists>rc1. SeenOrAdd rc (ck_seen ck) (h_ClientID hello) (h_ClientRandom hello) = (rc1, False) \<and> rp_cache st1 = Some rc1)"
    using replay_gate_Inr [OF gate] unfolding st(2) by blast
  ultimately show ?thesis using hello bind(1) by (intro exI conjI) (assumption | blast)+
qed

lemma redeem_psk_Inr:
  assumes "redeem_psk ck pid st = (st1, Inr x)"
  shows "rp_rw st1 = rp_rw st \<and> rp_cache st1 = rp_cache st \<and>
    (\<exists>ps ps1. rp_psk st = Some ps \<and> Redeem ps (ck_redeem ck) pid = (ps1, Some x) \<and> rp_psk st1 = Some ps1)"
  using assms by (auto simp: redeem_psk_def on_rw_Inr_iff split: option.splits prod.splits)

text \<open>And when a resumed one does.\<close>

lemma r_runResume_Inr:
  assumes "r_runResume c rs helloBody en ck closer st = (st1, Inr s)"
  shows "\<exists>hello psk clientID ps ps1 eph keys. DecodeHelloPSK helloBody = Inr hello \<and> acceptsSuite rs (p_Suite hello) \<and>
    (strict (rs_Profile rs) \<longrightarrow> p_PQMode hello \<noteq> PQModeClassicalPermitted) \<and>
    (case rp_cache st of None \<Rightarrow> rp_cache st1 = None
     | Some rc \<Rightarrow> CheckTimestamp (ck_stamp ck) (p_TimestampNS hello) = None \<and>
         (\<exists>rc1. SeenOrAdd rc (ck_seen ck) (sha3 c (p_PSKID hello)) (p_ClientRandom hello) = (rc1, False) \<and> rp_cache st1 = Some rc1)) \<and>
    rp_psk st = Some ps \<and> Redeem ps (ck_redeem ck) (p_PSKID hello) = (ps1, Some (psk, clientID)) \<and>
    rp_psk st1 = Some (fst (Issue (sha3 c) ps1 (ck_issue ck) (ResumptionPSK keys) clientID)) \<and>
    (\<exists>x. keys = DeriveResumed c (snd (FinishPSK c (AbsorbHello c (NewTranscript (p_Suite hello)) helloBody) eph)) x psk) \<and>
    moved (rp_rw st) [] (envelope (FrameKEMReply, eph)) (rp_rw st1) \<and>
    newSession c (rp_rw st1) closer RoleResponder clientID (p_Suite hello) keys (ck_start ck) = Inr s"
proof -
  let ?keys = "\<lambda>hello eph x r. DeriveResumed c (snd (FinishPSK c (AbsorbHello c (NewTranscript (p_Suite hello)) helloBody) eph)) x (fst r)"
  obtain hello st2 st3 r eph x st4 st5 where
    hello: "DecodeHelloPSK helloBody = Inr hello" "acceptsSuite rs (p_Suite hello)"
      "\<not> (strict (rs_Profile rs) \<and> p_PQMode hello = PQModeClassicalPermitted)"
    and gate: "replay_gate ck (p_TimestampNS hello) (sha3 c (p_PSKID hello)) (p_ClientRandom hello) st = (st2, Inr ())"
    and red: "redeem_psk ck (p_PSKID hello) st2 = (st3, Inr r)"
    and io: "on_rw (send FrameKEMReply eph) st3 = (st4, Inr ())"
    and fin: "issue_psk c ck (ResumptionPSK (?keys hello eph x r)) (snd r) st4 = (st5, Inr ())" "st5 = st1"
      "newSession c (rp_rw st5) closer RoleResponder (snd r) (p_Suite hello) (?keys hello eph x r) (ck_start ck) = Inr s"
    using assms unfolding r_runResume_def bnd_on_rw bnd_on_rw_pure Let_def case_prod_unfold prod.inject
    by (elim exE conjE) (rule that; assumption)
  from redeem_psk_Inr [OF red] obtain ps ps1 where ps: "rp_psk st2 = Some ps" "Redeem ps (ck_redeem ck) (p_PSKID hello) = (ps1, Some r)"
    "rp_psk st3 = Some ps1" "rp_rw st3 = rp_rw st2" "rp_cache st3 = rp_cache st2" by blast
  have st: "rp_rw st4 = rp_rw st1" "rp_cache st1 = rp_cache st2" "rp_psk st1 = Some (fst (Issue (sha3 c) ps1 (ck_issue ck) (ResumptionPSK (?keys hello eph x r)) (snd r)))"
    using issue_psk_Inr [OF fin(1)] fin(2) on_rw_stores [OF io] ps by simp_all
  have "moved (rp_rw st) [] (envelope (FrameKEMReply, eph)) (rp_rw st1)"
    using send_Inr [OF on_rw_Inr [OF io]] replay_gate_Inr [OF gate] st(1) ps(4) by simp
  moreover have "case rp_cache st of None \<Rightarrow> rp_cache st1 = None
     | Some rc \<Rightarrow> CheckTimestamp (ck_stamp ck) (p_TimestampNS hello) = None \<and>
         (\<exists>rc1. SeenOrAdd rc (ck_seen ck) (sha3 c (p_PSKID hello)) (p_ClientRandom hello) = (rc1, False) \<and> rp_cache st1 = Some rc1)"
    using replay_gate_Inr [OF gate] unfolding st(2) by blast
  moreover have "rp_psk st = Some ps" using replay_gate_Inr [OF gate] ps(1) by simp
  ultimately show ?thesis
    using hello ps(2) st(3) fin(3) unfolding fin(2)
    by (rule_tac exI [of _ hello], rule_tac exI [of _ "fst r"], rule_tac exI [of _ "snd r"], rule_tac exI [of _ ps],
        rule_tac exI [of _ ps1], rule_tac exI [of _ eph], rule_tac exI [of _ "?keys hello eph x r"], intro conjI; (simp; fail)?) blast+
qed

section \<open>What a run did\<close>

text \<open>The replay gate was passed: with a cache, the timestamp is in the window and the pair was new.\<close>

definition fresh :: "clocks \<Rightarrow> respState \<Rightarrow> respState \<Rightarrow> u64 \<Rightarrow> bytes \<Rightarrow> bytes \<Rightarrow> bool" where
  "fresh ck st st1 ts cid rnd \<longleftrightarrow>
     (case rp_cache st of None \<Rightarrow> rp_cache st1 = None
      | Some rc \<Rightarrow> CheckTimestamp (ck_stamp ck) ts = None \<and>
          (\<exists>rc1. SeenOrAdd rc (ck_seen ck) cid rnd = (rc1, False) \<and> rp_cache st1 = Some rc1))"

lemma Responder_Run_Inr:
  assumes "Responder_Run c rs en ck closer st = (st1, Inr s)"
  shows "\<exists>t body st2. rw_in (rp_rw st) = PQMagic @ envelope (t, body) @ rw_in (rp_rw st2) \<and>
    rw_out (rp_rw st2) = rw_out (rp_rw st) \<and> rp_cache st2 = rp_cache st \<and> rp_psk st2 = rp_psk st \<and>
    (strict (rs_Profile rs) \<longrightarrow> rp_cache st \<noteq> None) \<and> body_fits (t, body) \<and>
    (t = FrameHello \<and> r_runFull c rs body en ck closer st2 = (st1, Inr s) \<or>
     t = FrameHelloPSK \<and> r_runResume c rs body en ck closer st2 = (st1, Inr s))"
proof -
  let ?k = "\<lambda>(t, body). if t = FrameHello then r_runFull c rs body en ck closer
      else if t = FrameHelloPSK then r_runResume c rs body en ck closer
      else if t = FrameAlert then fail (case DecodeAlert body of Inl e \<Rightarrow> e | Inr a \<Rightarrow> errorForAlert (al_Code a))
      else on_rw (alert_out ErrDecodeError)"
  have strict: "strict (rs_Profile rs) \<longrightarrow> rp_cache st \<noteq> None"
    and "bnd (on_rw read_magic) (\<lambda>magic. if magic \<noteq> PQMagic then fail ErrMagicMismatch else bnd (on_rw rw_readFrame) ?k) st = (st1, Inr s)"
    using assms by (auto simp: Responder_Run_def split: if_splits)
  then obtain sta magic where a: "on_rw read_magic st = (sta, Inr magic)"
    "(if magic \<noteq> PQMagic then fail ErrMagicMismatch else bnd (on_rw rw_readFrame) ?k) sta = (st1, Inr s)"
    unfolding bnd_Inr_iff by blast
  then have m: "magic = PQMagic" by (simp split: if_splits)
  with a(2) obtain st2 f where b: "on_rw rw_readFrame sta = (st2, Inr f)" "?k f st2 = (st1, Inr s)"
    by (simp only: simp_thms if_False if_True bnd_Inr_iff) blast
  obtain t body where f: "f = (t, body)" by force
  have run: "t = FrameHello \<and> r_runFull c rs body en ck closer st2 = (st1, Inr s) \<or>
     t = FrameHelloPSK \<and> r_runResume c rs body en ck closer st2 = (st1, Inr s)"
    using b(2) f by (simp add: on_rw_Inr_iff split: if_splits)
  note 1 = a(1) [unfolded m] b(1) [unfolded f] strict run
  have "rw_in (rp_rw st) = PQMagic @ rw_in (rp_rw sta)" "rw_out (rp_rw sta) = rw_out (rp_rw st)"
    using read_magic_Inr [OF on_rw_Inr [OF 1(1)]] by (simp_all add: moved_def)
  moreover have "moved (rp_rw sta) (envelope (t, body)) [] (rp_rw st2)"
    using rw_readFrame_Inr [OF on_rw_Inr [OF 1(2)]] .
  ultimately show ?thesis
    using 1(3,4) on_rw_stores [OF 1(1)] on_rw_stores [OF 1(2)] readFrame_fits [OF on_rw_Inr [OF 1(2)]] by (auto simp: moved_def)
qed

section \<open>A replayed first frame\<close>

lemma readFrame_envelope: "body_fits f \<Longrightarrow> readFrame (envelope f @ s) = Inr (f, s)"
  by (rule pq.rd_wr)

lemma CheckTimestamp_error: "CheckTimestamp now ts = Some e \<Longrightarrow> e = ErrReplayDetected"
  by (auto simp: CheckTimestamp_def Let_def split: if_splits)

lemma replay_gate_refuses:
  assumes "rp_cache st = Some rc" and "snd (SeenOrAdd rc (ck_seen ck) cid rnd)"
  shows "\<exists>st1. replay_gate ck ts cid rnd st = (st1, Inl ErrReplayDetected)"
proof (cases "CheckTimestamp (ck_stamp ck) ts")
  case (Some e)
  then show ?thesis
    using assms(1) CheckTimestamp_error [OF Some] by (simp add: replay_gate_def on_rw_def alert_out_def)
next
  case None
  obtain rc1 where "SeenOrAdd rc (ck_seen ck) cid rnd = (rc1, True)"
    using assms(2) by (cases "SeenOrAdd rc (ck_seen ck) cid rnd") simp
  then show ?thesis using assms(1) None by (simp add: replay_gate_def on_rw_def alert_out_def)
qed

text \<open>A run up to its first frame.\<close>

lemma Responder_Run_first:
  assumes "id_PrivateKey l = Some k" and "rs_Local rs = Some l" and "(strict (rs_Profile rs) \<and> rp_cache st = None) = False"
    and "\<not> rw_closed (rp_rw st)" and "rw_in (rp_rw st) = PQMagic @ envelope (t, body) @ rest" and "body_fits (t, body)"
    and "t \<in> {FrameHello, FrameHelloPSK}"
  shows "Responder_Run c rs en ck closer st =
    (if t = FrameHello then r_runFull c rs body en ck closer else r_runResume c rs body en ck closer)
      (st\<lparr>rp_rw := (rp_rw st)\<lparr>rw_in := rest\<rparr>\<rparr>)"
proof -
  have "ReadFull (rw_in (rp_rw st)) MagicLen = Inr (PQMagic, envelope (t, body) @ rest)"
    unfolding assms(5) by (rule ReadFull_append) (simp add: PQMagic_def MagicLen_def)
  then have "on_rw read_magic st = (st\<lparr>rp_rw := (rp_rw st)\<lparr>rw_in := envelope (t, body) @ rest\<rparr>\<rparr>, Inr PQMagic)"
    using assms(4) by (simp add: on_rw_def read_magic_def)
  moreover have "on_rw rw_readFrame (st\<lparr>rp_rw := (rp_rw st)\<lparr>rw_in := envelope (t, body) @ rest\<rparr>\<rparr>) =
      (st\<lparr>rp_rw := (rp_rw st)\<lparr>rw_in := rest\<rparr>\<rparr>, Inr (t, body))"
    using assms(4) readFrame_envelope [OF assms(6)] by (simp add: on_rw_def rw_readFrame_def)
  ultimately show ?thesis
    using assms(7) by (simp only: Responder_Run_def assms(1,2,3) bnd_def Option.bind.simps option.distinct if_False
        prod.case sum.case HOL.simp_thms) (elim insertE emptyE; simp add: frame_types)
qed

lemma bnd_on_rw_pass:
  "bnd (on_rw (of_res alert_out (Inr x))) f = f x"
  "bnd (on_rw (of_res (\<lambda>_. alert_out e) (Inr x))) f = f x"
  "bnd (on_rw (of_opt q (Some x))) f = f x"
  "ok \<Longrightarrow> bnd (on_rw (check ok q')) g = g ()"
  by (simp_all add: bnd_def on_rw_def of_res_def of_opt_def check_def ret_def fun_eq_iff)

lemma bnd_Inl: "m s = (s1, Inl e) \<Longrightarrow> bnd m f s = (s1, Inl e)"
  by (simp add: bnd_def)

lemma Responder_Run_key: "Responder_Run c rs en ck closer st = (st1, Inr s) \<Longrightarrow> \<exists>l k. rs_Local rs = Some l \<and> id_PrivateKey l = Some k"
  by (cases "rs_Local rs"; cases "Option.bind (rs_Local rs) id_PrivateKey") (auto simp: Responder_Run_def)

lemma r_runFull_replay:
  assumes "DecodeHello body = Inr hello" and "acceptsSuite rs (h_Suite hello)"
    and "strict (rs_Profile rs) \<longrightarrow> h_PQMode hello \<noteq> PQModeClassicalPermitted \<and> list_all Suite_IsValid (h_OfferedSchemes hello)"
    and "rp_cache st = Some rc" and "snd (SeenOrAdd rc (ck_seen ck) (h_ClientID hello) (h_ClientRandom hello))"
  shows "\<exists>st1. r_runFull c rs body en ck closer st = (st1, Inl ErrReplayDetected)"
proof -
  obtain st1 where gate: "replay_gate ck (h_TimestampNS hello) (h_ClientID hello) (h_ClientRandom hello) st = (st1, Inl ErrReplayDetected)"
    using replay_gate_refuses [OF assms(4,5)] by blast
  have n: "\<not> (strict (rs_Profile rs) \<and> h_PQMode hello = PQModeClassicalPermitted)"
    "\<not> (strict (rs_Profile rs) \<and> \<not> list_all Suite_IsValid (h_OfferedSchemes hello))" using assms(3) by auto
  show ?thesis
    unfolding r_runFull_def assms(1) bnd_on_rw_pass(1) bnd_on_rw_pass(4) [OF assms(2)] bnd_on_rw_pass(4) [OF n(1)] bnd_on_rw_pass(4) [OF n(2)]
    by (rule exI, rule bnd_Inl, rule gate)
qed

lemma r_runResume_replay:
  assumes "DecodeHelloPSK body = Inr hello" and "acceptsSuite rs (p_Suite hello)"
    and "strict (rs_Profile rs) \<longrightarrow> p_PQMode hello \<noteq> PQModeClassicalPermitted"
    and "rp_cache st = Some rc" and "snd (SeenOrAdd rc (ck_seen ck) (sha3 c (p_PSKID hello)) (p_ClientRandom hello))"
  shows "\<exists>st1. r_runResume c rs body en ck closer st = (st1, Inl ErrReplayDetected)"
proof -
  obtain st1 where gate: "replay_gate ck (p_TimestampNS hello) (sha3 c (p_PSKID hello)) (p_ClientRandom hello) st = (st1, Inl ErrReplayDetected)"
    using replay_gate_refuses [OF assms(4,5)] by blast
  have n: "\<not> (strict (rs_Profile rs) \<and> p_PQMode hello = PQModeClassicalPermitted)" using assms(3) by auto
  show ?thesis
    unfolding r_runResume_def assms(1) bnd_on_rw_pass(1) bnd_on_rw_pass(4) [OF assms(2)] bnd_on_rw_pass(4) [OF n]
    by (rule exI, rule bnd_Inl, rule gate)
qed

end
