(* ===== verification/PQ_Agreement.thy ===== *)
theory PQ_Agreement
  imports PQ_Handshake
begin

text \<open>
  What the handshake of \<open>src/handshake/initiator.go\<close> and \<open>src/handshake/responder.go\<close> achieves. Two honest
  sides whose policies are compatible complete it and agree, in the full and in the resumed form; a
  side that succeeds has authenticated its peer, whoever that is; a recorded handshake cannot be
  replayed. The primitives are an argument, the laws assumed of them are predicates on it.
\<close>

section \<open>Honest runs\<close>

text \<open>An open stream that has still to read \<open>i\<close> and has written \<open>out\<close>.\<close>

definition rw_at :: "bytes \<Rightarrow> bytes \<Rightarrow> rwStream" where
  "rw_at i out = \<lparr>rw_in = i, rw_out = out, rw_script = [], rw_closed = False\<rparr>"

lemma rw_at_sel [simp]: "rw_in (rw_at i out) = i" "rw_out (rw_at i out) = out" "rw_script (rw_at i out) = []" "rw_closed (rw_at i out) = False"
  "(rw_at i out)\<lparr>rw_in := j\<rparr> = rw_at j out"
  by (simp_all add: rw_at_def)

text \<open>The laws of the primitives for the keys of a run: signatures made with a secret key verify under
  the public one, both sides compute the same X25519 secret, decapsulation undoes encapsulation.\<close>

definition signer :: "crypto \<Rightarrow> bytes \<Rightarrow> bytes \<Rightarrow> bool" where
  "signer c pk sk \<longleftrightarrow> mldsa_pub_ok c pk \<and> length pk = MLDSA65PubLen \<and>
     (\<forall>rnd m. \<exists>sg. mldsa_sign c sk rnd m SignCtx = Some sg \<and> length sg = MLDSA65SigLen \<and> mldsa_verify c pk m sg SignCtx)"

definition dh_ok :: "crypto \<Rightarrow> bytes \<Rightarrow> bytes \<Rightarrow> bool" where
  "dh_ok c a b \<longleftrightarrow> length (x25519_pub c a) = X25519PubLen \<and> length (x25519_pub c b) = X25519PubLen \<and>
     (\<exists>x. x25519_ecdh c a (x25519_pub c b) = Some x \<and> x25519_ecdh c b (x25519_pub c a) = Some x)"

definition kem_ok :: "crypto \<Rightarrow> bytes \<times> bytes \<Rightarrow> bytes \<Rightarrow> bool" where
  "kem_ok c kp rnd \<longleftrightarrow> length (fst kp) = MLKEM768PubLen \<and> mlkem_pub_ok c (fst kp) \<and>
     (\<exists>ct k. mlkem_encap c (fst kp) rnd = Some (ct, k) \<and> length ct = MLKEM768CTLen \<and> mlkem_decap c (snd kp) ct = Some k)"

lemma send_at: "body_fits (t, b) \<Longrightarrow> send t b (rw_at i out) = (rw_at i (out @ envelope (t, b)), Inr ())"
  by (simp add: send_def writeFrame_plain body_fits_def)

lemma expect_at:
  "body_fits (t, b) \<Longrightarrow> t \<noteq> FrameAlert \<Longrightarrow> expectFrame (rw_at (envelope (t, b) @ i) out) t = (rw_at i out, Inr b)"
  by (simp add: expectFrame_def rw_readFrame_def readFrame_envelope)

lemma magic_at: "send_raw PQMagic (rw_at i out) = (rw_at i (out @ PQMagic), Inr ())"
  by (simp add: send_raw_def rw_Write_def)

lemma bnd_send_at: "body_fits (t, b) \<Longrightarrow> bnd (send t b) f (rw_at i out) = f () (rw_at i (out @ envelope (t, b)))"
  by (simp add: bnd_def send_at)

lemma bnd_expect_at:
  "body_fits (t, b) \<Longrightarrow> t \<noteq> FrameAlert \<Longrightarrow> bnd (\<lambda>w. expectFrame w t) f (rw_at (envelope (t, b) @ i) out) = f b (rw_at i out)"
  by (simp add: bnd_def expect_at)

lemma bnd_pass:
  "bnd (of_res q (Inr x)) f = f x"
  "bnd (of_opt q' (Some x)) f = f x"
  "bnd (check True q'') g = g ()"
  by (simp_all add: bnd_def of_res_def of_opt_def check_def ret_def fun_eq_iff)

lemma i_runFull_eval:
  assumes i: "i_Local i = Some \<lparr>id_PublicKey = Some pkI, id_PrivateKey = Some skI\<rparr>"
    and en: "en_clientRand en = Some rnd" "en_x25519 en = Some xsk" "en_mlkem en = Some kp"
    and hello: "Hello_Encode \<lparr>h_Suite = suite, h_PQMode = md, h_ClientRandom = rnd, h_TimestampNS = ns,
        h_ClientID = sha3 c pkI, h_OfferedSchemes = schemes, h_StaticPKInitiator = pkI\<rparr> = Inr hello" "body_fits (FrameHello, hello)"
    and ki: "ki = KEMInit_Encode \<lparr>ki_X25519EphPub = arr X25519PubLen (x25519_pub c xsk), ki_MLKEMEphPub = arr MLKEM768PubLen (fst kp)\<rparr>"
    and reply: "DecodeKEMReply reply = Inr kr" "x25519_ecdh c xsk (kr_X25519EphPub kr) = Some x"
      "mlkem_decap c (snd kp) (kr_MLKEMCiphertext kr) = Some k" "mldsa_pub_ok c (kr_StaticPKResponder kr)"
      "case i_Expected i of None \<Rightarrow> True | Some e \<Rightarrow> Identity_ID c (Some e) = sha3 c (kr_StaticPKResponder kr)" "body_fits (FrameKEMReply, reply)"
    and h2: "h2 = full_H2 c suite hello ki reply pkI (kr_StaticPKResponder kr) schemes"
    and authR: "length sgR = MLDSA65SigLen" "mldsa_verify c (kr_StaticPKResponder kr) (signInput h2 RoleResponder suite) sgR SignCtx"
    and authI: "mldsa_sign c skI (en_sign en) (signInput h2 RoleInitiator suite) SignCtx = Some sgI" "length sgI = MLDSA65SigLen"
    and sess: "newSession c (rw_at rest (out @ envelope (FrameHello, hello) @ envelope (FrameKEMInit, ki) @ envelope (FrameAuth, RoleInitiator # sgI)))
        closer RoleInitiator (sha3 c (kr_StaticPKResponder kr)) suite
        (DeriveSession c h2 (arr X25519SharedLen x) (arr MLKEM768SharedLen k)) tEnd = Inr s"
  shows "i_runFull c i suite md schemes en ns tEnd closer
      (rw_at (envelope (FrameKEMReply, reply) @ envelope (FrameAuth, RoleResponder # sgR) @ rest) out) =
    (rw_at rest (out @ envelope (FrameHello, hello) @ envelope (FrameKEMInit, ki) @ envelope (FrameAuth, RoleInitiator # sgI)), Inr s)"
proof -
  have loc: "Identity_ID c (i_Local i) = sha3 c pkI" "Identity_PublicBytes (i_Local i) = pkI"
    by (simp_all add: i Identity_PublicBytes_def)
  have fits: "body_fits (FrameKEMInit, ki)" "\<And>r sg. length sg = MLDSA65SigLen \<Longrightarrow> body_fits (FrameAuth, r # sg)"
    by (simp_all add: ki body_fits_def KEMInit_Encode_def len_defs MaxFrameBody_def)
  have dec: "DecodeAuth (RoleResponder # sgR) = Inr \<lparr>a_Role = RoleResponder, a_Signature = sgR\<rparr>"
    using authR(1) by (simp add: DecodeAuth_def)
  have sign: "Identity_Sign c (i_Local i) (en_sign en) h2 RoleInitiator suite = Inr sgI"
    using authI by (simp add: Identity_Sign_def i)
  have enc: "Auth_Encode \<lparr>a_Role = RoleInitiator, a_Signature = sgI\<rparr> = Inr (RoleInitiator # sgI)"
    using authI(2) by (simp add: Auth_Encode_def)
  have ver: "VerifyAuth c (Some \<lparr>id_PublicKey = Some (kr_StaticPKResponder kr), id_PrivateKey = None\<rparr>) h2 RoleResponder suite sgR = None"
    using authR by (simp add: VerifyAuth_def)
  have h2': "snd (FinishFull c (AbsorbKEM c (AbsorbHello c (NewTranscript suite) hello) ki reply) pkI (kr_StaticPKResponder kr) schemes) = h2"
    by (simp add: h2 full_H2_def)
  have ne: "FrameKEMReply \<noteq> FrameAlert" "FrameAuth \<noteq> FrameAlert" by (simp_all add: frame_types)
  have idn: "IdentityFromPublicBytes c (kr_StaticPKResponder kr) = Some \<lparr>id_PublicKey = Some (kr_StaticPKResponder kr), id_PrivateKey = None\<rparr>"
    using reply(4) by (simp add: IdentityFromPublicBytes_def)
  have kp: "kp = (fst kp, snd kp)" by simp
  show ?thesis
    unfolding i_runFull_def en bnd_pass loc hello(1) bnd_send_at [OF hello(2)] case_prod_unfold ki [symmetric] Let_def
      bnd_send_at [OF fits(1)] bnd_expect_at [OF reply(6) ne(1)] reply(1-3) idn
    using reply(5)
    by (simp add: bnd_pass bnd_expect_at [OF fits(2) [OF authR(1)] ne(2)] dec h2' ver sign enc bnd_send_at fits(2) authI(2) sess)
qed

lemma bnd_on_send_at:
  "body_fits (t, b) \<Longrightarrow> rp_rw st = rw_at i out \<Longrightarrow>
   bnd (on_rw (send t b)) f st = f () (st\<lparr>rp_rw := rw_at i (out @ envelope (t, b))\<rparr>)"
  by (simp add: bnd_def on_rw_def send_at)

lemma bnd_on_expect_at:
  "body_fits (t, b) \<Longrightarrow> t \<noteq> FrameAlert \<Longrightarrow> rp_rw st = rw_at (envelope (t, b) @ i) out \<Longrightarrow>
   bnd (on_rw (\<lambda>w. expectFrame w t)) f st = f b (st\<lparr>rp_rw := rw_at i out\<rparr>)"
  by (simp add: bnd_def on_rw_def expect_at)

text \<open>The gate lets a new pair in the window pass.\<close>

definition gate_open :: "clocks \<Rightarrow> ReplayCache option \<Rightarrow> u64 \<Rightarrow> bytes \<Rightarrow> bytes \<Rightarrow> bool" where
  "gate_open ck cache ts cid rnd \<longleftrightarrow>
     (\<forall>rc. cache = Some rc \<longrightarrow> CheckTimestamp (ck_stamp ck) ts = None \<and> \<not> snd (SeenOrAdd rc (ck_seen ck) cid rnd))"

definition gate_cache :: "clocks \<Rightarrow> ReplayCache option \<Rightarrow> bytes \<Rightarrow> bytes \<Rightarrow> ReplayCache option" where
  "gate_cache ck cache cid rnd = map_option (\<lambda>rc. fst (SeenOrAdd rc (ck_seen ck) cid rnd)) cache"

lemma bnd_gate:
  assumes "gate_open ck (rp_cache st) ts cid rnd"
  shows "bnd (replay_gate ck ts cid rnd) f st = f () (st\<lparr>rp_cache := gate_cache ck (rp_cache st) cid rnd\<rparr>)"
proof (cases "rp_cache st")
  case None
  then show ?thesis by (cases st) (simp add: bnd_def replay_gate_def gate_cache_def)
next
  case (Some rc)
  obtain rc1 b where s: "SeenOrAdd rc (ck_seen ck) cid rnd = (rc1, b)" by force
  with assms Some have "b = False" "CheckTimestamp (ck_stamp ck) ts = None" by (simp_all add: gate_open_def)
  then show ?thesis using Some s by (simp add: bnd_def replay_gate_def gate_cache_def)
qed

lemma bnd_issue:
  "bnd (issue_psk c ck psk cid) f st =
    f () (st\<lparr>rp_psk := map_option (\<lambda>ps. fst (Issue (sha3 c) ps (ck_issue ck) psk cid)) (rp_psk st)\<rparr>)"
  by (simp add: bnd_def issue_psk_def)

lemma r_runFull_eval:
  assumes rs: "rs_Local rs = Some \<lparr>id_PublicKey = Some pkR, id_PrivateKey = Some skR\<rparr>" "length pkR = MLDSA65PubLen"
    and hello: "DecodeHello helloBody = Inr hello" "acceptsSuite rs (h_Suite hello)" "h_StaticPKInitiator hello = pkI" "h_ClientID hello = sha3 c pkI"
      "strict (rs_Profile rs) \<longrightarrow> h_PQMode hello \<noteq> PQModeClassicalPermitted \<and> list_all Suite_IsValid (h_OfferedSchemes hello)"
      "mldsa_pub_ok c pkI"
    and gate: "gate_open ck (rp_cache st) (h_TimestampNS hello) (sha3 c pkI) (h_ClientRandom hello)"
    and ki: "DecodeKEMInit ki = Inr kin" "body_fits (FrameKEMInit, ki)"
    and en: "en_x25519 en = Some xsk" "x25519_ecdh c xsk (ki_X25519EphPub kin) = Some x" "mlkem_pub_ok c (ki_MLKEMEphPub kin)"
      "mlkem_encap c (ki_MLKEMEphPub kin) (en_encap en) = Some (ct, k)" "length ct = MLKEM768CTLen"
    and reply: "reply = arr X25519PubLen (x25519_pub c xsk) @ ct @ pkR"
    and h2: "h2 = full_H2 c (h_Suite hello) helloBody ki reply pkI pkR (h_OfferedSchemes hello)"
    and authR: "mldsa_sign c skR (en_sign en) (signInput h2 RoleResponder (h_Suite hello)) SignCtx = Some sgR" "length sgR = MLDSA65SigLen"
    and authI: "length sgI = MLDSA65SigLen" "mldsa_verify c pkI (signInput h2 RoleInitiator (h_Suite hello)) sgI SignCtx"
    and keys: "keys = DeriveSession c h2 (arr X25519SharedLen x) (arr MLKEM768SharedLen k)"
    and st: "rp_rw st = rw_at (envelope (FrameKEMInit, ki) @ envelope (FrameAuth, RoleInitiator # sgI) @ rest) out"
    and sess: "newSession c (rw_at rest (out @ envelope (FrameKEMReply, reply) @ envelope (FrameAuth, RoleResponder # sgR))) closer
        RoleResponder (sha3 c pkI) (h_Suite hello) keys (ck_start ck) = Inr s"
  shows "r_runFull c rs helloBody en ck closer st =
    (\<lparr>rp_rw = rw_at rest (out @ envelope (FrameKEMReply, reply) @ envelope (FrameAuth, RoleResponder # sgR)),
      rp_cache = gate_cache ck (rp_cache st) (sha3 c pkI) (h_ClientRandom hello),
      rp_psk = map_option (\<lambda>ps. fst (Issue (sha3 c) ps (ck_issue ck) (ResumptionPSK keys) (sha3 c pkI))) (rp_psk st)\<rparr>, Inr s)"
proof -
  have loc: "Identity_PublicBytes (rs_Local rs) = pkR" by (simp add: rs Identity_PublicBytes_def)
  have n: "(\<not> (strict (rs_Profile rs) \<and> h_PQMode hello = PQModeClassicalPermitted)) = True"
    "(\<not> (strict (rs_Profile rs) \<and> \<not> list_all Suite_IsValid (h_OfferedSchemes hello))) = True" using hello(5) by auto
  have enc: "KEMReply_Encode \<lparr>kr_X25519EphPub = arr X25519PubLen (x25519_pub c xsk), kr_MLKEMCiphertext = ct,
      kr_StaticPKResponder = pkR\<rparr> = Inr reply"
    by (simp add: KEMReply_Encode_def reply rs(2) en(5))
  have fits: "body_fits (FrameKEMReply, reply)" "\<And>r sg. length sg = MLDSA65SigLen \<Longrightarrow> body_fits (FrameAuth, r # sg)"
    by (simp_all add: reply body_fits_def len_defs MaxFrameBody_def rs(2) [unfolded len_defs] en(5) [unfolded len_defs])
  have dec: "DecodeAuth (RoleInitiator # sgI) = Inr \<lparr>a_Role = RoleInitiator, a_Signature = sgI\<rparr>"
    using authI(1) by (simp add: DecodeAuth_def)
  have sign: "Identity_Sign c (rs_Local rs) (en_sign en) h2 RoleResponder (h_Suite hello) = Inr sgR"
    using authR by (simp add: Identity_Sign_def rs)
  have aenc: "Auth_Encode \<lparr>a_Role = RoleResponder, a_Signature = sgR\<rparr> = Inr (RoleResponder # sgR)"
    using authR(2) by (simp add: Auth_Encode_def)
  have ver: "VerifyAuth c (Some \<lparr>id_PublicKey = Some pkI, id_PrivateKey = None\<rparr>) h2 RoleInitiator (h_Suite hello) sgI = None"
    using authI by (simp add: VerifyAuth_def)
  have h2': "snd (FinishFull c (AbsorbKEM c (AbsorbHello c (NewTranscript (h_Suite hello)) helloBody) ki reply) pkI pkR (h_OfferedSchemes hello)) = h2"
    by (simp add: h2 full_H2_def)
  have idn: "IdentityFromPublicBytes c pkI = Some \<lparr>id_PublicKey = Some pkI, id_PrivateKey = None\<rparr>"
    using hello(6) by (simp add: IdentityFromPublicBytes_def)
  have ne: "FrameKEMInit \<noteq> FrameAlert" "FrameAuth \<noteq> FrameAlert" by (simp_all add: frame_types)
  have pass: "bnd (on_rw (check True q)) g = g ()" for q :: "(rwStream, unit) step" and g :: "unit \<Rightarrow> (respState, Session) step"
    by (simp add: bnd_on_rw_pass)
  show ?thesis
    unfolding r_runFull_def hello(1,3,4) bnd_on_rw_pass(1) bnd_on_rw_pass(4) [OF hello(2)] n pass bnd_gate [OF gate]
    by (simp add: bnd_on_rw_pass idn bnd_on_expect_at [OF ki(2) ne(1)] st ki(1) en loc enc bnd_on_send_at fits authR(2) h2' sign aenc
        bnd_on_expect_at [OF fits(2) [OF authI(1)] ne(2)] dec ver bnd_issue keys [symmetric] sess case_prod_unfold Let_def del: len_defs)
qed

lemma newSession_ok:
  assumes "role \<in> {RoleInitiator, RoleResponder}" and "length (KInitToResp keys) = AEADKeyLen" and "length (KRespToInit keys) = AEADKeyLen"
  shows "\<exists>s. newSession c w closer role peer suite keys now = Inr s"
  using assms by (auto simp: newSession_def Let_def newAEAD_def)

lemma newSession_psk:
  "newSession c w closer RoleInitiator peer suite keys now = Inr s \<Longrightarrow>
   s_clientPSK s = Some (MakeClientPSK (sha3 c) (ResumptionPSK keys) peer now)"
  by (auto simp: newSession_def Let_def bindE_eq_Inr_iff)

lemma derived_lengths:
  "hkdf_ok c \<Longrightarrow> length (KInitToResp (DeriveSession c h x k)) = AEADKeyLen \<and> length (KRespToInit (DeriveSession c h x k)) = AEADKeyLen"
  "hkdf_ok c \<Longrightarrow> length (KInitToResp (DeriveResumed c h x p)) = AEADKeyLen \<and> length (KRespToInit (DeriveResumed c h x p)) = AEADKeyLen"
  by (simp_all add: DeriveSession_def DeriveResumed_def expand_all_def hkdf_ok_def Let_def)

lemma redeem_issued:
  "t \<le> now + ps_ttl ps \<Longrightarrow> snd (Redeem (fst (Issue sh ps now psk cid)) t (PSKID sh psk)) = Some (psk, cid)"
  by (simp add: Redeem_def Issue_def Let_def)

definition i_schemes :: "Initiator \<Rightarrow> SuiteID list" where
  "i_schemes i = (if i_OfferedSchemes i = [] then [SuiteX25519MLKEM] else i_OfferedSchemes i)"

definition i_mode :: "Initiator \<Rightarrow> PQMode" where
  "i_mode i = (if i_PQMode i = 0 \<and> strict (i_Profile i) then PQModePQOnly else i_PQMode i)"

lemma Initiator_Run_eval:
  assumes "i_Local i = Some \<lparr>id_PublicKey = Some pk, id_PrivateKey = Some sk\<rparr>" and "i_Suite i \<in> {0, SuiteX25519MLKEM}"
  shows "Initiator_Run c i en now tEnd closer (rw_at inp out) =
    (case i_Resume i of
       Some psk \<Rightarrow> if now < cp_Until psk then i_runResume c psk SuiteX25519MLKEM (i_mode i) en (of_int now) tEnd closer
                   else i_runFull c i SuiteX25519MLKEM (i_mode i) (i_schemes i) en (of_int now) tEnd closer
     | None \<Rightarrow> i_runFull c i SuiteX25519MLKEM (i_mode i) (i_schemes i) en (of_int now) tEnd closer) (rw_at inp (out @ PQMagic))"
  using assms
  by (auto simp: Initiator_Run_def Suite_IsValid_def Let_def bnd_def magic_at i_mode_def i_schemes_def split: option.splits)

text \<open>Two honest sides complete the full handshake and agree.\<close>

lemma full_run:
  assumes laws: "sha3_len c" "hkdf_ok c" "signer c pkI skI" "signer c pkR skR" "dh_ok c xI xR" "kem_ok c kp (en_encap enR)"
    and ent: "en_clientRand enI = Some rnd" "length rnd = ClientRandLen" "en_x25519 enI = Some xI" "en_mlkem enI = Some kp" "en_x25519 enR = Some xR"
    and init: "i_Local i = Some \<lparr>id_PublicKey = Some pkI, id_PrivateKey = Some skI\<rparr>" "i_Suite i \<in> {0, SuiteX25519MLKEM}"
      "SuiteX25519MLKEM \<in> set (i_schemes i)" "length (i_schemes i) + 2014 \<le> MaxFrameBody"
      "case i_Resume i of None \<Rightarrow> True | Some p \<Rightarrow> cp_Until p \<le> now"
      "case i_Expected i of None \<Rightarrow> True | Some e \<Rightarrow> Identity_ID c (Some e) = sha3 c pkR"
    and resp: "rs_Local rs = Some \<lparr>id_PublicKey = Some pkR, id_PrivateKey = Some skR\<rparr>" "acceptsSuite rs SuiteX25519MLKEM"
      "strict (rs_Profile rs) \<longrightarrow> cache \<noteq> None \<and> i_mode i \<noteq> PQModeClassicalPermitted \<and> list_all Suite_IsValid (i_schemes i)"
      "gate_open ck cache (of_int now) (sha3 c pkI) rnd"
  shows "\<exists>outI outR sI sR st. Initiator_Run c i enI now tEnd clI (rw_at outR []) = (rw_at [] outI, Inr sI) \<and>
    Responder_Run c rs enR ck clR \<lparr>rp_rw = rw_at outI [], rp_cache = cache, rp_psk = psk\<rparr> = (st, Inr sR) \<and>
    rp_rw st = rw_at [] outR \<and> synced sI sR \<and> synced sR sI \<and> sendEpoch sI = 0 \<and> sendEpoch sR = 0 \<and> s_peerID sI = sha3 c pkR \<and> s_peerID sR = sha3 c pkI \<and>
    (\<forall>ps t. psk = Some ps \<and> t \<le> ck_issue ck + ps_ttl ps \<longrightarrow>
       (\<exists>cp ps'. s_clientPSK sI = Some cp \<and> rp_psk st = Some ps' \<and> snd (Redeem ps' t (cp_ID cp)) = Some (cp_PSK cp, sha3 c pkI)))"
proof -
  let ?su = SuiteX25519MLKEM
  have len: "length pkI = MLDSA65PubLen" "length pkR = MLDSA65PubLen" "mldsa_pub_ok c pkI" "mldsa_pub_ok c pkR"
    "length (x25519_pub c xI) = X25519PubLen" "length (x25519_pub c xR) = X25519PubLen" "length (fst kp) = MLKEM768PubLen"
    "mlkem_pub_ok c (fst kp)" "length (sha3 c pkI) = IDLen"
    using laws by (simp_all add: signer_def dh_ok_def kem_ok_def sha3_len_def IDLen_def)
  obtain x where x: "x25519_ecdh c xI (x25519_pub c xR) = Some x" "x25519_ecdh c xR (x25519_pub c xI) = Some x"
    using laws(5) by (auto simp: dh_ok_def)
  obtain ct k where k: "mlkem_encap c (fst kp) (en_encap enR) = Some (ct, k)" "length ct = MLKEM768CTLen" "mlkem_decap c (snd kp) ct = Some k"
    using laws(6) by (auto simp: kem_ok_def)
  define hf where "hf = \<lparr>h_Suite = ?su, h_PQMode = i_mode i, h_ClientRandom = rnd, h_TimestampNS = of_int now,
      h_ClientID = sha3 c pkI, h_OfferedSchemes = i_schemes i, h_StaticPKInitiator = pkI\<rparr>"
  have ne: "i_schemes i \<noteq> []" using init(3) by auto
  have "Hello_wf hf" using init(3,4) ne len ent(2) by (simp add: hf_def Hello_wf_def MaxFrameBody_def)
  then obtain hello where hello: "Hello_Encode hf = Inr hello" "DecodeHello hello = Inr hf" using hello.dec_enc by blast
  have hfits: "body_fits (FrameHello, hello)"
    using hello(1) init(4) len(1,9) ent(2) ne by (auto simp: Hello_Encode_def hf_def body_fits_def len_defs MaxFrameBody_def split: if_splits)
  define kif where "kif = \<lparr>ki_X25519EphPub = x25519_pub c xI, ki_MLKEMEphPub = fst kp\<rparr>"
  define ki where "ki = KEMInit_Encode kif"
  have kidec: "DecodeKEMInit ki = Inr kif" using kem_init.dec_enc [of kif] len(5,7) by (simp add: ki_def kif_def KEMInit_wf_def)
  have kifits: "body_fits (FrameKEMInit, ki)"
    using len(5,7) by (simp add: ki_def kif_def KEMInit_Encode_def body_fits_def len_defs MaxFrameBody_def)
  define krf where "krf = \<lparr>kr_X25519EphPub = x25519_pub c xR, kr_MLKEMCiphertext = ct, kr_StaticPKResponder = pkR\<rparr>"
  define reply where "reply = x25519_pub c xR @ ct @ pkR"
  have "KEMReply_wf krf" using len k(2) by (simp add: krf_def KEMReply_wf_def)
  then have krdec: "DecodeKEMReply reply = Inr krf"
    using kem_reply.dec_enc [of krf] len(2) by (auto simp: KEMReply_Encode_def krf_def reply_def)
  have krfits: "body_fits (FrameKEMReply, reply)" using len k(2) by (simp add: reply_def body_fits_def len_defs MaxFrameBody_def)
  define h2 where "h2 = full_H2 c ?su hello ki reply pkI pkR (i_schemes i)"
  obtain sgR where sgR: "mldsa_sign c skR (en_sign enR) (signInput h2 RoleResponder ?su) SignCtx = Some sgR" "length sgR = MLDSA65SigLen"
    "mldsa_verify c pkR (signInput h2 RoleResponder ?su) sgR SignCtx" using laws(4) by (auto simp: signer_def)
  obtain sgI where sgI: "mldsa_sign c skI (en_sign enI) (signInput h2 RoleInitiator ?su) SignCtx = Some sgI" "length sgI = MLDSA65SigLen"
    "mldsa_verify c pkI (signInput h2 RoleInitiator ?su) sgI SignCtx" using laws(3) by (auto simp: signer_def)
  define keys where "keys = DeriveSession c h2 (arr X25519SharedLen x) (arr MLKEM768SharedLen k)"
  define outI where "outI = PQMagic @ envelope (FrameHello, hello) @ envelope (FrameKEMInit, ki) @ envelope (FrameAuth, RoleInitiator # sgI)"
  define outR where "outR = envelope (FrameKEMReply, reply) @ envelope (FrameAuth, RoleResponder # sgR)"
  have kl: "length (KInitToResp keys) = AEADKeyLen" "length (KRespToInit keys) = AEADKeyLen"
    using derived_lengths(1) [OF laws(2)] by (simp_all add: keys_def)
  obtain sI where sI: "newSession c (rw_at [] outI) clI RoleInitiator (sha3 c pkR) ?su keys tEnd = Inr sI"
    using newSession_ok [OF _ kl, of RoleInitiator] by blast
  obtain sR where sR: "newSession c (rw_at [] outR) clR RoleResponder (sha3 c pkI) ?su keys (ck_start ck) = Inr sR"
    using newSession_ok [OF _ kl, of RoleResponder] by blast
  have "i_runFull c i ?su (i_mode i) (i_schemes i) enI (of_int now) tEnd clI
      (rw_at (envelope (FrameKEMReply, reply) @ envelope (FrameAuth, RoleResponder # sgR) @ []) PQMagic) =
    (rw_at [] (PQMagic @ envelope (FrameHello, hello) @ envelope (FrameKEMInit, ki) @ envelope (FrameAuth, RoleInitiator # sgI)), Inr sI)"
    by (rule i_runFull_eval [where x = x and k = k and ?h2.0 = h2, OF init(1) ent(1,3,4) hello(1) [unfolded hf_def] hfits _ krdec])
      (use x k len krfits sgR sgI sI init(6) in \<open>simp_all add: ki_def kif_def krf_def h2_def keys_def outI_def split: option.splits\<close>)
  then have runI: "Initiator_Run c i enI now tEnd clI (rw_at outR []) = (rw_at [] outI, Inr sI)"
    using Initiator_Run_eval [OF init(1,2)] init(5) by (simp add: outR_def outI_def split: option.splits)
  define st0 where "st0 = \<lparr>rp_rw = rw_at (envelope (FrameKEMInit, ki) @ envelope (FrameAuth, RoleInitiator # sgI) @ []) [],
      rp_cache = cache, rp_psk = psk\<rparr>"
  define st where "st = \<lparr>rp_rw = rw_at [] outR, rp_cache = gate_cache ck cache (sha3 c pkI) rnd,
      rp_psk = map_option (\<lambda>ps. fst (Issue (sha3 c) ps (ck_issue ck) (ResumptionPSK keys) (sha3 c pkI))) psk\<rparr>"
  have "r_runFull c rs hello enR ck clR st0 = (st, Inr sR)"
    using r_runFull_eval [OF resp(1) len(2) hello(2), of pkI c ck st0 ki kif enR xR x ct k reply h2 sgR sgI keys "[]" "[]" clR sR]
      resp len(3) kidec kifits ent(5) x k len sgR sgI sR
    by (simp add: hf_def st0_def st_def kif_def reply_def h2_def keys_def outR_def)
  then have runR: "Responder_Run c rs enR ck clR \<lparr>rp_rw = rw_at outI [], rp_cache = cache, rp_psk = psk\<rparr> = (st, Inr sR)"
    using Responder_Run_first [OF _ resp(1) _ _ _ hfits, where st = "\<lparr>rp_rw = rw_at outI [], rp_cache = cache, rp_psk = psk\<rparr>" and c = c and en = enR and ck = ck and closer = clR]
      resp(3) by (simp add: outI_def st0_def)
  have "synced sI sR \<and> synced sR sI \<and> sendEpoch sI = 0 \<and> sendEpoch sR = 0" using newSession_synced [OF sI sR] by simp
  moreover have "\<exists>cp ps'. s_clientPSK sI = Some cp \<and> rp_psk st = Some ps' \<and> snd (Redeem ps' t (cp_ID cp)) = Some (cp_PSK cp, sha3 c pkI)"
    if "psk = Some ps \<and> t \<le> ck_issue ck + ps_ttl ps" for ps t
    using newSession_psk [OF sI] that redeem_issued [of t "ck_issue ck" ps] by (simp add: st_def MakeClientPSK_def)
  ultimately show ?thesis
    using runI runR newSession_peer [OF sI] newSession_peer [OF sR]
    by (intro exI [of _ outI] exI [of _ outR] exI [of _ sI] exI [of _ sR] exI [of _ st] conjI) (auto simp: st_def)
qed

lemma i_runResume_eval:
  assumes en: "en_clientRand en = Some rnd" "en_x25519 en = Some xsk"
    and hello: "hello = HelloPSK_Encode \<lparr>p_Suite = suite, p_PQMode = md, p_ClientRandom = rnd, p_TimestampNS = ns,
        p_PSKID = cp_ID cp, p_X25519EphPub = arr X25519PubLen (x25519_pub c xsk)\<rparr>" "body_fits (FrameHelloPSK, hello)"
    and eph: "length eph = X25519PubLen" "x25519_ecdh c xsk eph = Some x"
    and sess: "newSession c (rw_at rest (out @ envelope (FrameHelloPSK, hello))) closer RoleInitiator (cp_PeerID cp) suite
        (DeriveResumed c (snd (FinishPSK c (AbsorbHello c (NewTranscript suite) hello) eph)) (arr X25519SharedLen x) (cp_PSK cp)) tEnd = Inr s"
  shows "i_runResume c cp suite md en ns tEnd closer (rw_at (envelope (FrameKEMReply, eph) @ rest) out) =
    (rw_at rest (out @ envelope (FrameHelloPSK, hello)), Inr s)"
proof -
  have fits: "body_fits (FrameKEMReply, eph)" using eph(1) by (simp add: body_fits_def MaxFrameBody_def len_defs)
  have read: "bnd rw_readFrame f (rw_at (envelope (FrameKEMReply, eph) @ rest) q) = f (FrameKEMReply, eph) (rw_at rest q)" for f q
    using readFrame_envelope [OF fits] by (simp add: bnd_def rw_readFrame_def)
  have ne: "FrameKEMReply \<noteq> FrameAlert" by (simp add: frame_types)
  show ?thesis
    unfolding i_runResume_def en bnd_pass Let_def hello(1) [symmetric] bnd_send_at [OF hello(2)] read
    using ne eph sess by (simp add: bnd_pass del: len_defs)
qed

lemma r_runResume_eval:
  assumes hello: "DecodeHelloPSK helloBody = Inr hello" "acceptsSuite rs (p_Suite hello)"
      "strict (rs_Profile rs) \<longrightarrow> p_PQMode hello \<noteq> PQModeClassicalPermitted"
    and gate: "gate_open ck (rp_cache st) (p_TimestampNS hello) (sha3 c (p_PSKID hello)) (p_ClientRandom hello)"
    and psk: "rp_psk st = Some ps" "Redeem ps (ck_redeem ck) (p_PSKID hello) = (ps1, Some (psk, cid))"
    and en: "en_x25519 en = Some xsk" "x25519_ecdh c xsk (p_X25519EphPub hello) = Some x" "length (x25519_pub c xsk) = X25519PubLen"
    and keys: "keys = DeriveResumed c (snd (FinishPSK c (AbsorbHello c (NewTranscript (p_Suite hello)) helloBody) (x25519_pub c xsk)))
        (arr X25519SharedLen x) psk"
    and st: "rp_rw st = rw_at rest out"
    and sess: "newSession c (rw_at rest (out @ envelope (FrameKEMReply, x25519_pub c xsk))) closer RoleResponder cid (p_Suite hello) keys (ck_start ck) = Inr s"
  shows "r_runResume c rs helloBody en ck closer st =
    (\<lparr>rp_rw = rw_at rest (out @ envelope (FrameKEMReply, x25519_pub c xsk)),
      rp_cache = gate_cache ck (rp_cache st) (sha3 c (p_PSKID hello)) (p_ClientRandom hello),
      rp_psk = Some (fst (Issue (sha3 c) ps1 (ck_issue ck) (ResumptionPSK keys) cid))\<rparr>, Inr s)"
proof -
  have n: "(\<not> (strict (rs_Profile rs) \<and> p_PQMode hello = PQModeClassicalPermitted)) = True" using hello(3) by auto
  have fits: "body_fits (FrameKEMReply, x25519_pub c xsk)" using en(3) by (simp add: body_fits_def MaxFrameBody_def len_defs)
  have pass: "bnd (on_rw (check True q)) g = g ()" for q :: "(rwStream, unit) step" and g :: "unit \<Rightarrow> (respState, Session) step"
    by (simp add: bnd_on_rw_pass)
  have redeem: "bnd (redeem_psk ck (p_PSKID hello)) f (st\<lparr>rp_cache := q\<rparr>) = f (psk, cid) (st\<lparr>rp_cache := q, rp_psk := Some ps1\<rparr>)" for f q
    using psk by (simp add: bnd_def redeem_psk_def)
  show ?thesis
    unfolding r_runResume_def hello(1) bnd_on_rw_pass(1) bnd_on_rw_pass(4) [OF hello(2)] n pass bnd_gate [OF gate] redeem
    by (simp add: bnd_on_rw_pass en bnd_on_send_at fits st bnd_issue keys [symmetric] sess Let_def)
qed


text \<open>The pin is not consulted on resumption: with an unexpired cached key the run is the same
  whatever identity the caller expects.\<close>

lemma resume_ignores_pin:
  assumes "i_Resume i = Some cp" and "now < cp_Until cp"
  shows "Initiator_Run c (i\<lparr>i_Expected := e\<rparr>) en now tEnd closer w = Initiator_Run c i en now tEnd closer w"
  using assms by (simp add: Initiator_Run_def Let_def)

section \<open>A run on toy primitives\<close>

text \<open>Two parties whose primitives are trivial, for evaluation.\<close>

definition toy_pk :: "byte \<Rightarrow> bytes" where
  "toy_pk b = replicate MLDSA65PubLen b"

definition toy_init :: "ClientPSK option \<Rightarrow> Initiator" where
  "toy_init r = \<lparr>i_Local = Some \<lparr>id_PublicKey = Some (toy_pk 1), id_PrivateKey = Some [1]\<rparr>,
     i_Expected = Some \<lparr>id_PublicKey = Some (toy_pk 2), id_PrivateKey = None\<rparr>, i_Profile = ProfileStrictPQ, i_PQMode = 0,
     i_Suite = 0, i_OfferedSchemes = [], i_Resume = r\<rparr>"

definition toy_resp :: Responder where
  "toy_resp = \<lparr>rs_Local = Some \<lparr>id_PublicKey = Some (toy_pk 2), id_PrivateKey = Some [2]\<rparr>, rs_Profile = ProfileStrictPQ, rs_AcceptedSuites = []\<rparr>"

definition toy_en :: "byte \<Rightarrow> entropy" where
  "toy_en b = \<lparr>en_clientRand = Some (replicate ClientRandLen b), en_x25519 = Some [b], en_mlkem = Some (replicate MLKEM768PubLen b, [b]),
     en_encap = [b], en_sign = []\<rparr>"

definition toy_ck :: clocks where
  "toy_ck = \<lparr>ck_stamp = 10, ck_seen = 10, ck_redeem = 10, ck_issue = 10, ck_start = 10\<rparr>"

lemma toy_signer: "length pk = MLDSA65PubLen \<Longrightarrow> signer toy_crypto pk sk"
  by (simp add: signer_def toy_crypto_def MLDSA65SigLen_def)

lemma toy_dh: "dh_ok toy_crypto a b"
  by (simp add: dh_ok_def toy_crypto_def X25519PubLen_def zip_commute [of "arr 32 b"] case_prod_unfold xor.commute)

lemma arr_arr: "m \<le> n \<Longrightarrow> arr m (arr n r) = arr m r"
  by (auto simp: arr_def min_def)

lemma toy_kem: "length (fst kp) = MLKEM768PubLen \<Longrightarrow> kem_ok toy_crypto kp r"
  by (simp add: kem_ok_def toy_crypto_def MLKEM768CTLen_def arr_arr)

lemma toy_gate: "gate_open toy_ck (Some (NewReplayCache 0)) (of_int 5) cid rnd"
  by (simp add: gate_open_def toy_ck_def CheckTimestamp_def SeenOrAdd_def NewReplayCache_def flip_def Let_def
      ReplayCacheTTLSec_def second_def ReplayWindowNS_def)

lemma toy_accepts: "acceptsSuite toy_resp SuiteX25519MLKEM"
  by (simp add: acceptsSuite_def toy_resp_def Suite_IsValid_def)

lemma toy_sel:
  "i_Local (toy_init r) = Some \<lparr>id_PublicKey = Some (toy_pk 1), id_PrivateKey = Some [1]\<rparr>" "i_Suite (toy_init r) = 0"
  "i_schemes (toy_init r) = [SuiteX25519MLKEM]" "i_mode (toy_init r) = PQModePQOnly" "i_Resume (toy_init r) = r"
  "i_Expected (toy_init r) = Some \<lparr>id_PublicKey = Some (toy_pk 2), id_PrivateKey = None\<rparr>"
  "rs_Local toy_resp = Some \<lparr>id_PublicKey = Some (toy_pk 2), id_PrivateKey = Some [2]\<rparr>"
  "en_clientRand (toy_en b) = Some (replicate ClientRandLen b)" "en_x25519 (toy_en b) = Some [b]"
  "en_mlkem (toy_en b) = Some (replicate MLKEM768PubLen b, [b])"
  "PQModePQOnly \<noteq> PQModeClassicalPermitted" "Suite_IsValid SuiteX25519MLKEM" "sha3 toy_crypto = toy_sha3"
  "length (toy_pk b) = MLDSA65PubLen" "1 + 2014 \<le> MaxFrameBody"
  by (simp_all add: toy_init_def toy_resp_def toy_en_def i_schemes_def i_mode_def strict_def MaxFrameBody_def toy_pk_def
      PQModePQOnly_def PQModeClassicalPermitted_def Suite_IsValid_def toy_crypto_def)

lemma toy_full_run:
  "\<exists>outI outR sI sR st. Initiator_Run toy_crypto (toy_init None) (toy_en 1) 5 6 False (rw_at outR []) = (rw_at [] outI, Inr sI) \<and>
    Responder_Run toy_crypto toy_resp (toy_en 2) toy_ck False
      \<lparr>rp_rw = rw_at outI [], rp_cache = Some (NewReplayCache 0), rp_psk = Some NewPSKStore\<rparr> = (st, Inr sR) \<and>
    rp_rw st = rw_at [] outR \<and> s_peerID sI = toy_sha3 (toy_pk 2)"
  using full_run [OF toy_sha3_len toy_hkdf_ok toy_signer toy_signer toy_dh toy_kem,
      of "toy_pk 1" "toy_pk 2" "(replicate MLKEM768PubLen 1, [1])" "toy_en 1" "replicate ClientRandLen 1" "[1]" "toy_en 2" "[2]"
        "toy_init None" "[1]" 5 toy_resp "[2]" "Some (NewReplayCache 0)" toy_ck 6 False False "Some NewPSKStore"]
    toy_gate toy_accepts toy_sel
  by simp blast

section \<open>Authentication\<close>

text \<open>C11. An initiator that completes a full handshake has authenticated the responder: the peer
  identity of its session is the hash of a static key under which the responder's AUTH signature
  verified, over the transcript hash of exactly the HELLO and KEM_INIT bodies the initiator wrote and
  the KEM_REPLY body it read, and that key is the pinned one if a pin is configured.\<close>

theorem initiator_authenticates:
  assumes "Initiator_Run c i en now tEnd closer w = (w1, Inr s)"
    and "case i_Resume i of None \<Rightarrow> True | Some psk \<Rightarrow> cp_Until psk \<le> now"
  shows "\<exists>hello kemInit reply kr sg auth.
    moved w (envelope (FrameKEMReply, reply) @ envelope (FrameAuth, RoleResponder # sg))
      (PQMagic @ envelope (FrameHello, hello) @ envelope (FrameKEMInit, kemInit) @ envelope (FrameAuth, auth)) w1 \<and>
    DecodeKEMReply reply = Inr kr \<and> s_peerID s = sha3 c (kr_StaticPKResponder kr) \<and> s_rw s = w1 \<and>
    mldsa_verify c (kr_StaticPKResponder kr) (signInput (full_H2 c (s_suite s) hello kemInit reply
      (Identity_PublicBytes (i_Local i)) (kr_StaticPKResponder kr)
      (if i_OfferedSchemes i = [] then [s_suite s] else i_OfferedSchemes i)) RoleResponder (s_suite s)) sg SignCtx \<and>
    (\<forall>e. i_Expected i = Some e \<longrightarrow> s_peerID s = Identity_ID c (Some e))"
proof -
  obtain su md sc w2 ns where 1: "send_raw PQMagic w = (w2, Inr ())"
    "i_runFull c i su md sc en ns tEnd closer w2 = (w1, Inr s)" "sc = (if i_OfferedSchemes i = [] then [su] else i_OfferedSchemes i)"
    using assms by (auto simp: Initiator_Run_def Let_def bnd_Inr_iff split: if_splits option.splits)
  from i_runFull_Inr [OF 1(2)] obtain hello kemInit reply kr sg auth where
    2: "DecodeKEMReply reply = Inr kr"
    "moved w2 (envelope (FrameKEMReply, reply) @ envelope (FrameAuth, RoleResponder # sg))
      (envelope (FrameHello, hello) @ envelope (FrameKEMInit, kemInit) @ envelope (FrameAuth, auth)) w1"
    "mldsa_verify c (kr_StaticPKResponder kr) (signInput (full_H2 c su hello kemInit reply
      (Identity_PublicBytes (i_Local i)) (kr_StaticPKResponder kr) sc) RoleResponder su) sg SignCtx"
    "\<forall>e. i_Expected i = Some e \<longrightarrow> Identity_ID c (Some e) = sha3 c (kr_StaticPKResponder kr)"
    "s_peerID s = sha3 c (kr_StaticPKResponder kr)" "s_rw s = w1" "s_suite s = su" by blast
  from moved_trans [OF send_raw_Inr [OF 1(1)] 2(2)]
  have "moved w (envelope (FrameKEMReply, reply) @ envelope (FrameAuth, RoleResponder # sg))
      (PQMagic @ envelope (FrameHello, hello) @ envelope (FrameKEMInit, kemInit) @ envelope (FrameAuth, auth)) w1" by simp
  with 2 1(3) show ?thesis by (intro exI conjI) (assumption | force)+
qed

text \<open>C10. A responder only admits authenticated, fresh, undegraded peers: if its run succeeds then the
  input began with the magic and a HELLO or HELLO_PSK whose suite is on its list; under a strict
  profile a replay cache is present, the peer did not permit classical mode and offered no suite but
  valid ones; the timestamp is in the window and the (client, random) pair was not seen before. After
  a HELLO the session's peer is the hash of the HELLO's static key, equal to the claimed client id,
  and that key verified a signature over the hash of exactly the frames exchanged; after a HELLO_PSK
  the peer is the client the redeemed resumption key had been issued to.\<close>

theorem responder_admits:
  assumes "Responder_Run c rs en ck closer st = (st1, Inr s)"
  shows "(strict (rs_Profile rs) \<longrightarrow> rp_cache st \<noteq> None) \<and>
   ((\<exists>body hello kemInit sg reply auth. DecodeHello body = Inr hello \<and> acceptsSuite rs (h_Suite hello) \<and>
      rw_in (rp_rw st) = PQMagic @ envelope (FrameHello, body) @ envelope (FrameKEMInit, kemInit) @
        envelope (FrameAuth, RoleInitiator # sg) @ rw_in (rp_rw st1) \<and>
      rw_out (rp_rw st1) = rw_out (rp_rw st) @ envelope (FrameKEMReply, reply) @ envelope (FrameAuth, auth) \<and>
      (strict (rs_Profile rs) \<longrightarrow> h_PQMode hello \<noteq> PQModeClassicalPermitted \<and> list_all Suite_IsValid (h_OfferedSchemes hello)) \<and>
      fresh ck st st1 (h_TimestampNS hello) (h_ClientID hello) (h_ClientRandom hello) \<and>
      s_peerID s = h_ClientID hello \<and> s_peerID s = sha3 c (h_StaticPKInitiator hello) \<and>
      mldsa_verify c (h_StaticPKInitiator hello) (signInput (full_H2 c (h_Suite hello) body kemInit reply
        (h_StaticPKInitiator hello) (Identity_PublicBytes (rs_Local rs)) (h_OfferedSchemes hello)) RoleInitiator (h_Suite hello)) sg SignCtx) \<or>
    (\<exists>body hello psk ps ps1. DecodeHelloPSK body = Inr hello \<and> acceptsSuite rs (p_Suite hello) \<and>
      rw_in (rp_rw st) = PQMagic @ envelope (FrameHelloPSK, body) @ rw_in (rp_rw st1) \<and>
      (strict (rs_Profile rs) \<longrightarrow> p_PQMode hello \<noteq> PQModeClassicalPermitted) \<and>
      fresh ck st st1 (p_TimestampNS hello) (sha3 c (p_PSKID hello)) (p_ClientRandom hello) \<and>
      rp_psk st = Some ps \<and> Redeem ps (ck_redeem ck) (p_PSKID hello) = (ps1, Some (psk, s_peerID s))))"
proof -
  from Responder_Run_Inr [OF assms] obtain t body st2 where
    0: "rw_in (rp_rw st) = PQMagic @ envelope (t, body) @ rw_in (rp_rw st2)" "rw_out (rp_rw st2) = rw_out (rp_rw st)"
    "rp_cache st2 = rp_cache st" "rp_psk st2 = rp_psk st" "strict (rs_Profile rs) \<longrightarrow> rp_cache st \<noteq> None"
    and run: "t = FrameHello \<and> r_runFull c rs body en ck closer st2 = (st1, Inr s) \<or>
     t = FrameHelloPSK \<and> r_runResume c rs body en ck closer st2 = (st1, Inr s)" by blast
  from run show ?thesis
  proof (elim disjE conjE)
    assume t: "t = FrameHello" and r: "r_runFull c rs body en ck closer st2 = (st1, Inr s)"
    from r_runFull_Inr [OF r] obtain hello kemInit reply sg auth where
      f: "DecodeHello body = Inr hello" "acceptsSuite rs (h_Suite hello)"
        "strict (rs_Profile rs) \<longrightarrow> h_PQMode hello \<noteq> PQModeClassicalPermitted \<and> list_all Suite_IsValid (h_OfferedSchemes hello)"
        "fresh ck st2 st1 (h_TimestampNS hello) (h_ClientID hello) (h_ClientRandom hello)"
        "sha3 c (h_StaticPKInitiator hello) = h_ClientID hello"
        "moved (rp_rw st2) (envelope (FrameKEMInit, kemInit) @ envelope (FrameAuth, RoleInitiator # sg))
           (envelope (FrameKEMReply, reply) @ envelope (FrameAuth, auth)) (rp_rw st1)"
        "mldsa_verify c (h_StaticPKInitiator hello) (signInput (full_H2 c (h_Suite hello) body kemInit reply
           (h_StaticPKInitiator hello) (Identity_PublicBytes (rs_Local rs)) (h_OfferedSchemes hello)) RoleInitiator (h_Suite hello)) sg SignCtx"
        "s_peerID s = h_ClientID hello"
      unfolding fresh_def by blast
    have io: "rw_in (rp_rw st) = PQMagic @ envelope (FrameHello, body) @ envelope (FrameKEMInit, kemInit) @
        envelope (FrameAuth, RoleInitiator # sg) @ rw_in (rp_rw st1)"
      "rw_out (rp_rw st1) = rw_out (rp_rw st) @ envelope (FrameKEMReply, reply) @ envelope (FrameAuth, auth)"
      using 0(1,2) f(6) t by (simp_all add: moved_def)
    have fr: "fresh ck st st1 (h_TimestampNS hello) (h_ClientID hello) (h_ClientRandom hello)"
      using f(4) by (simp add: fresh_def 0(3))
    have peer: "s_peerID s = sha3 c (h_StaticPKInitiator hello)" using f(5,8) by simp
    show ?thesis using 0(5) f(1,2,3,7,8) io fr peer by blast
  next
    assume t: "t = FrameHelloPSK" and r: "r_runResume c rs body en ck closer st2 = (st1, Inr s)"
    from r_runResume_Inr [OF r] obtain hello psk cid ps ps1 eph keys where
      f: "DecodeHelloPSK body = Inr hello" "acceptsSuite rs (p_Suite hello)"
        "strict (rs_Profile rs) \<longrightarrow> p_PQMode hello \<noteq> PQModeClassicalPermitted"
        "fresh ck st2 st1 (p_TimestampNS hello) (sha3 c (p_PSKID hello)) (p_ClientRandom hello)"
        "rp_psk st2 = Some ps" "Redeem ps (ck_redeem ck) (p_PSKID hello) = (ps1, Some (psk, cid))"
        "moved (rp_rw st2) [] (envelope (FrameKEMReply, eph)) (rp_rw st1)"
        "newSession c (rp_rw st1) closer RoleResponder cid (p_Suite hello) keys (ck_start ck) = Inr s"
      unfolding fresh_def by blast
    have io: "rw_in (rp_rw st) = PQMagic @ envelope (FrameHelloPSK, body) @ rw_in (rp_rw st1)" "rp_psk st = Some ps"
      "Redeem ps (ck_redeem ck) (p_PSKID hello) = (ps1, Some (psk, s_peerID s))"
      using 0(1,4) f(5,6,7) t newSession_peer [OF f(8)] by (simp_all add: moved_def)
    have fr: "fresh ck st st1 (p_TimestampNS hello) (sha3 c (p_PSKID hello)) (p_ClientRandom hello)"
      using f(4) by (simp add: fresh_def 0(3))
    show ?thesis using 0(5) f(1,2,3) io fr by blast
  qed
qed

section \<open>Replays\<close>

text \<open>C22. A recorded handshake cannot be replayed: once a responder with a replay cache has completed a
  handshake, every later run that is fed the same opening frame within the cache's TTL, followed by
  anything, ends with a replay error, whatever other handshakes and sweeps used the cache in between,
  and whatever randomness and clocks the later run has. This holds for full and for resumed
  handshakes.\<close>

theorem replayed_handshake_refused:
  assumes "Responder_Run c rs en ck closer st = (st1, Inr s)" and "rp_cache st = Some rc" and "rp_cache st1 = Some rc1"
    and "rw_in (rp_rw st) = PQMagic @ envelope f @ rest" and "body_fits f"
    and "\<forall>(now, op) \<in> set ops. ck_seen ck \<le> now \<and> now < ck_seen ck + rc_ttl rc"
    and "ck_seen ck \<le> ck_seen ck'" and "ck_seen ck' < ck_seen ck + rc_ttl rc"
    and "rp_cache st' = Some (rc_run rc1 ops)" and "rw_in (rp_rw st') = PQMagic @ envelope f @ rest'" and "\<not> rw_closed (rp_rw st')"
  shows "\<exists>st2. Responder_Run c rs en' ck' closer' st' = (st2, Inl ErrReplayDetected)"
proof -
  obtain l k where l: "rs_Local rs = Some l" "id_PrivateKey l = Some k" using Responder_Run_key [OF assms(1)] by blast
  from Responder_Run_Inr [OF assms(1)] obtain t body st2 where
    0: "rw_in (rp_rw st) = PQMagic @ envelope (t, body) @ rw_in (rp_rw st2)" "rp_cache st2 = rp_cache st" "body_fits (t, body)"
    and run: "t = FrameHello \<and> r_runFull c rs body en ck closer st2 = (st1, Inr s) \<or>
     t = FrameHelloPSK \<and> r_runResume c rs body en ck closer st2 = (st1, Inr s)" by blast
  have "envelope f @ rest = envelope (t, body) @ rw_in (rp_rw st2)" using 0(1) assms(4) by simp
  then have f: "f = (t, body)"
    using readFrame_envelope [OF 0(3), of "rw_in (rp_rw st2)"] readFrame_envelope [OF assms(5), of rest] by simp
  let ?st = "st'\<lparr>rp_rw := (rp_rw st')\<lparr>rw_in := rest'\<rparr>\<rparr>"
  have go: "Responder_Run c rs en' ck' closer' st' =
      (if t = FrameHello then r_runFull c rs body en' ck' closer' else r_runResume c rs body en' ck' closer') ?st"
    using run by (intro Responder_Run_first [OF l(2,1) _ assms(11,10) [unfolded f] 0(3)]) (auto simp: assms(9))
  have cache: "rp_cache ?st = Some (rc_run rc1 ops)" by (simp add: assms(9))
  note seen = seen_stays_seen [OF _ assms(6-8)]
  from run show ?thesis
  proof (elim disjE conjE)
    assume t: "t = FrameHello" and r: "r_runFull c rs body en ck closer st2 = (st1, Inr s)"
    from r_runFull_Inr [OF r] 0(2) assms(2,3) obtain hello where
      "DecodeHello body = Inr hello" "acceptsSuite rs (h_Suite hello)"
      "strict (rs_Profile rs) \<longrightarrow> h_PQMode hello \<noteq> PQModeClassicalPermitted \<and> list_all Suite_IsValid (h_OfferedSchemes hello)"
      "SeenOrAdd rc (ck_seen ck) (h_ClientID hello) (h_ClientRandom hello) = (rc1, False)" by auto
    from r_runFull_replay [OF this(1-3) cache seen [OF this(4)]] show ?thesis by (simp add: go t)
  next
    assume t: "t = FrameHelloPSK" and r: "r_runResume c rs body en ck closer st2 = (st1, Inr s)"
    from r_runResume_Inr [OF r] 0(2) assms(2,3) obtain hello where
      "DecodeHelloPSK body = Inr hello" "acceptsSuite rs (p_Suite hello)"
      "strict (rs_Profile rs) \<longrightarrow> p_PQMode hello \<noteq> PQModeClassicalPermitted"
      "SeenOrAdd rc (ck_seen ck) (sha3 c (p_PSKID hello)) (p_ClientRandom hello) = (rc1, False)" by auto
    from r_runResume_replay [OF this(1-3) cache seen [OF this(4)]] show ?thesis by (simp add: go t frame_types)
  qed
qed

section \<open>Evaluations\<close>

theorem initiator_authenticates_witness:
  "\<exists>w w1 s. Initiator_Run toy_crypto (toy_init None) (toy_en 1) 5 6 False w = (w1, Inr s) \<and>
    (\<exists>hello kemInit reply kr sg auth.
      moved w (envelope (FrameKEMReply, reply) @ envelope (FrameAuth, RoleResponder # sg))
        (PQMagic @ envelope (FrameHello, hello) @ envelope (FrameKEMInit, kemInit) @ envelope (FrameAuth, auth)) w1 \<and>
      DecodeKEMReply reply = Inr kr \<and> s_peerID s = toy_sha3 (kr_StaticPKResponder kr)) \<and> s_peerID s = toy_sha3 (toy_pk 2)"
proof -
  obtain w w1 s where run: "Initiator_Run toy_crypto (toy_init None) (toy_en 1) 5 6 False w = (w1, Inr s)" "s_peerID s = toy_sha3 (toy_pk 2)"
    using toy_full_run by blast
  have "case i_Resume (toy_init None) of None \<Rightarrow> True | Some psk \<Rightarrow> cp_Until psk \<le> 5" by (simp add: toy_sel)
  from initiator_authenticates [OF run(1) this, unfolded toy_sel(13)] run show ?thesis by blast
qed

theorem responder_admits_witness:
  "\<exists>w st s. Responder_Run toy_crypto toy_resp (toy_en 2) toy_ck False
      \<lparr>rp_rw = rw_at w [], rp_cache = Some (NewReplayCache 0), rp_psk = Some NewPSKStore\<rparr> = (st, Inr s) \<and>
    (\<exists>hello :: HelloFrame. acceptsSuite toy_resp (h_Suite hello) \<and> h_PQMode hello \<noteq> PQModeClassicalPermitted \<and>
      s_peerID s = toy_sha3 (h_StaticPKInitiator hello))"
proof -
  obtain w st s where run: "Responder_Run toy_crypto toy_resp (toy_en 2) toy_ck False
      \<lparr>rp_rw = rw_at w [], rp_cache = Some (NewReplayCache 0), rp_psk = Some NewPSKStore\<rparr> = (st, Inr s)"
    using toy_full_run by blast
  have none: "\<not> (rp_psk \<lparr>rp_rw = rw_at w [], rp_cache = Some (NewReplayCache 0), rp_psk = Some NewPSKStore\<rparr> = Some ps \<and>
      Redeem ps t pid = (ps1, Some (psk, x)))" for ps t pid ps1 psk x
    by (auto simp: Redeem_def NewPSKStore_def)
  have "strict (rs_Profile toy_resp)" by (simp add: strict_def toy_resp_def)
  with responder_admits [OF run, unfolded toy_sel(13)] none
  have "\<exists>hello :: HelloFrame. acceptsSuite toy_resp (h_Suite hello) \<and> h_PQMode hello \<noteq> PQModeClassicalPermitted \<and>
      s_peerID s = toy_sha3 (h_StaticPKInitiator hello)" by blast
  with run show ?thesis by blast
qed

lemma Responder_Run_cache:
  assumes "Responder_Run c rs en ck closer st = (st1, Inr s)" and "rp_cache st = Some rc"
  shows "\<exists>rc1. rp_cache st1 = Some rc1"
  using Responder_Run_Inr [OF assms(1)] r_runFull_Inr r_runResume_Inr assms(2) by (fastforce simp: fresh_def)

theorem replayed_handshake_refused_witness:
  "\<exists>w st s st2. Responder_Run toy_crypto toy_resp (toy_en 2) toy_ck False
      \<lparr>rp_rw = rw_at w [], rp_cache = Some (NewReplayCache 0), rp_psk = Some NewPSKStore\<rparr> = (st, Inr s) \<and>
    Responder_Run toy_crypto toy_resp (toy_en 3) (toy_ck\<lparr>ck_seen := 1000\<rparr>) False (st\<lparr>rp_rw := rw_at w []\<rparr>) = (st2, Inl ErrReplayDetected)"
proof -
  obtain w st s where run: "Responder_Run toy_crypto toy_resp (toy_en 2) toy_ck False
      \<lparr>rp_rw = rw_at w [], rp_cache = Some (NewReplayCache 0), rp_psk = Some NewPSKStore\<rparr> = (st, Inr s)"
    using toy_full_run by blast
  from Responder_Run_Inr [OF run] obtain t body rest where w: "w = PQMagic @ envelope (t, body) @ rest" "body_fits (t, body)" by auto
  obtain rc1 where rc: "rp_cache st = Some rc1" using Responder_Run_cache [OF run, OF respState.select_convs(2)] by blast
  have "\<exists>st2. Responder_Run toy_crypto toy_resp (toy_en 3) (toy_ck\<lparr>ck_seen := 1000\<rparr>) False (st\<lparr>rp_rw := rw_at w []\<rparr>) = (st2, Inl ErrReplayDetected)"
    by (rule replayed_handshake_refused [where ops = "[]" and rest = rest and rest' = rest and rc = "NewReplayCache 0", OF run _ rc _ w(2)])
      (simp_all add: w toy_ck_def NewReplayCache_def ReplayCacheTTLSec_def second_def rc)
  with run show ?thesis by blast
qed


end
