(* ===== verification/Zap_PQConn.thy ===== *)
theory Zap_PQConn
  imports PQ_Session
begin

text \<open>
  \<open>src/conn_pq.go\<close>: the byte stream a session is wrapped into. \<open>Write\<close> cuts its argument into records of
  at most \<open>MaxPQRecord\<close> bytes and sends each of them, \<open>Read\<close> hands out the bytes of the last record
  received before it asks for the next. The theory shows that the two ends are one byte stream,
  whatever the sizes of the writes and of the reads.
\<close>

section \<open>The wrapper\<close>

record pqConn =
  pc_sess :: Session
  pc_readBuf :: bytes

definition WrapPQ :: "Session \<Rightarrow> pqConn" where
  "WrapPQ sess = \<lparr>pc_sess = sess, pc_readBuf = []\<rparr>"

definition MaxPQRecord :: nat where "MaxPQRecord = 64 * 1024"

text \<open>\<open>Read\<close> into a buffer of \<open>n\<close> bytes returns the bytes it copied.\<close>

definition pqConn_Read :: "crypto \<Rightarrow> pqConn \<Rightarrow> nat \<Rightarrow> (pqConn \<times> (hs_error + bytes)) option" where
  "pqConn_Read c pc n =
     (if n = 0 then Some (pc, Inr [])
      else
        let copy_out = (\<lambda>pc1. Some (pc1\<lparr>pc_readBuf := drop n (pc_readBuf pc1)\<rparr>, Inr (take n (pc_readBuf pc1)))) in
        if pc_readBuf pc = []
        then (case Session_Recv c (pc_sess pc) of
                None \<Rightarrow> None
              | Some (s, Inl e) \<Rightarrow> Some (pc\<lparr>pc_sess := s\<rparr>, Inl e)
              | Some (s, Inr plain) \<Rightarrow> copy_out (pc\<lparr>pc_sess := s, pc_readBuf := plain\<rparr>))
        else copy_out pc)"

text \<open>The loop of \<open>Write\<close>: \<open>clock k\<close> is the time of the \<open>k\<close>-th send.\<close>

function Write_loop :: "crypto \<Rightarrow> (nat \<Rightarrow> int) \<Rightarrow> pqConn \<Rightarrow> bytes \<Rightarrow> nat \<Rightarrow> nat \<Rightarrow> (pqConn \<times> nat \<times> hs_error option) option" where
  "Write_loop c clock pc p k tot =
     (if p = [] then Some (pc, tot, None)
      else
        let chunk = (if MaxPQRecord < length p then take MaxPQRecord p else p) in
        case Session_Send c (pc_sess pc) (clock k) chunk of
          None \<Rightarrow> None
        | Some (s, Some e) \<Rightarrow> Some (pc\<lparr>pc_sess := s\<rparr>, tot, Some e)
        | Some (s, None) \<Rightarrow> Write_loop c clock (pc\<lparr>pc_sess := s\<rparr>) (drop (length chunk) p) (k + 1) (tot + length chunk))"
  by pat_completeness auto
termination
  by (relation "measure (\<lambda>(c, clock, pc, p, k, tot). length p)") (auto simp: MaxPQRecord_def)

declare Write_loop.simps [simp del]

definition pqConn_Write :: "crypto \<Rightarrow> (nat \<Rightarrow> int) \<Rightarrow> pqConn \<Rightarrow> bytes \<Rightarrow> (pqConn \<times> nat \<times> hs_error option) option" where
  "pqConn_Write c clock pc p = Write_loop c clock pc p 0 0"

definition pqConn_Close :: "pqConn \<Rightarrow> pqConn" where
  "pqConn_Close pc = pc\<lparr>pc_sess := Session_Close (pc_sess pc)\<rparr>"

definition pqConn_PeerID :: "pqConn \<Rightarrow> bytes" where
  "pqConn_PeerID pc = s_peerID (pc_sess pc)"

section \<open>Sequences of calls\<close>

text \<open>The writes of a sender in order until one fails, with the number of bytes written, and the reads
  of a receiver until one fails, with the bytes read.\<close>

fun Write_all :: "crypto \<Rightarrow> pqConn \<Rightarrow> ((nat \<Rightarrow> int) \<times> bytes) list \<Rightarrow> (pqConn \<times> nat \<times> hs_error option) option" where
  "Write_all c pc [] = Some (pc, 0, None)"
| "Write_all c pc ((clock, p) # ws) =
     (case pqConn_Write c clock pc p of
        None \<Rightarrow> None
      | Some (pc1, n, Some e) \<Rightarrow> Some (pc1, n, Some e)
      | Some (pc1, n, None) \<Rightarrow> map_option (\<lambda>(pc2, k, e). (pc2, n + k, e)) (Write_all c pc1 ws))"

fun Read_all :: "crypto \<Rightarrow> pqConn \<Rightarrow> nat list \<Rightarrow> (pqConn \<times> bytes \<times> hs_error option) option" where
  "Read_all c pc [] = Some (pc, [], None)"
| "Read_all c pc (n # ns) =
     (case pqConn_Read c pc n of
        None \<Rightarrow> None
      | Some (pc1, Inl e) \<Rightarrow> Some (pc1, [], Some e)
      | Some (pc1, Inr b) \<Rightarrow> map_option (\<lambda>(pc2, bs, e). (pc2, b @ bs, e)) (Read_all c pc1 ns))"

section \<open>Writing\<close>

text \<open>The records of one write.\<close>

function records :: "(nat \<Rightarrow> int) \<Rightarrow> nat \<Rightarrow> bytes \<Rightarrow> (int \<times> bytes) list" where
  "records clock k p =
     (if p = [] then [] else (clock k, take MaxPQRecord p) # records clock (k + 1) (drop MaxPQRecord p))"
  by pat_completeness auto
termination
  by (relation "measure (\<lambda>(clock, k, p). length p)") (auto simp: MaxPQRecord_def)

declare records.simps [simp del]

lemma records_facts:
  "concat (map snd (records clock k p)) = p \<and> (\<forall>(t, q) \<in> set (records clock k p). payload_fits q \<and> q \<noteq> [])"
proof (induction clock k p rule: records.induct)
  case (1 clock k p)
  show ?case
  proof (cases "p = []")
    case False
    then have "take MaxPQRecord p \<noteq> []" "payload_fits (take MaxPQRecord p)"
      by (simp_all add: MaxPQRecord_def payload_fits_def MaxFrameBody_def min_def)
    moreover have "records clock k p = (clock k, take MaxPQRecord p) # records clock (k + 1) (drop MaxPQRecord p)"
      using False by (simp add: records.simps [of clock k p])
    ultimately show ?thesis using 1 [OF False] by auto
  next
    case True
    then show ?thesis by (subst (1 2) records.simps) simp
  qed
qed

lemma records_Nil [simp]: "records clock k [] = []"
  by (simp add: records.simps)

text \<open>A write is the sends of its records.\<close>

lemma Write_loop_sends:
  assumes "send_all c (pc_sess pc) (records clock k p) = Some (s1, qs, e)"
  shows "Write_loop c clock pc p k tot = Some (pc\<lparr>pc_sess := s1\<rparr>, tot + length (concat qs), e)"
  using assms
proof (induction c clock pc p k tot arbitrary: qs rule: Write_loop.induct)
  case (1 c clock pc p k tot)
  show ?case
  proof (cases "p = []")
    case True
    then show ?thesis using 1(2) by (subst Write_loop.simps) auto
  next
    case False
    define q where "q = (if MaxPQRecord < length p then take MaxPQRecord p else p)"
    have "q = take MaxPQRecord p" "drop (length q) p = drop MaxPQRecord p" by (auto simp: q_def)
    then have rec: "records clock k p = (clock k, q) # records clock (k + 1) (drop (length q) p)"
      using False by (subst records.simps) simp
    have loop: "Write_loop c clock pc p k tot =
       (case Session_Send c (pc_sess pc) (clock k) q of
          None \<Rightarrow> None
        | Some (s, Some e) \<Rightarrow> Some (pc\<lparr>pc_sess := s\<rparr>, tot, Some e)
        | Some (s, None) \<Rightarrow> Write_loop c clock (pc\<lparr>pc_sess := s\<rparr>) (drop (length q) p) (k + 1) (tot + length q))"
      using False by (subst Write_loop.simps) (simp only: Let_def q_def [symmetric] if_False)
    obtain s2 e2 where snd: "Session_Send c (pc_sess pc) (clock k) q = Some (s2, e2)"
      using 1(2) unfolding rec by (auto split: option.splits prod.splits)
    show ?thesis
    proof (cases e2)
      case (Some err)
      then show ?thesis using 1(2) snd unfolding rec loop by auto
    next
      case None
      obtain qs' where rest: "send_all c s2 (records clock (k + 1) (drop (length q) p)) = Some (s1, qs', e)" "qs = q # qs'"
        using 1(2) snd None unfolding rec by (auto split: option.splits)
      have "send_all c (pc_sess (pc\<lparr>pc_sess := s2\<rparr>)) (records clock (k + 1) (drop (length q) p)) = Some (s1, qs', e)"
        using rest(1) by simp
      from 1(1) [OF False q_def snd refl None this] show ?thesis using snd None rest(2) unfolding loop by simp
    qed
  qed
qed

lemma Write_stream:
  assumes sy: "synced (pc_sess pc) r" and c: "aead_ok c" "hkdf_ok c"
  shows "\<exists>s1 r1 w qs e. pqConn_Write c clock pc p = Some (pc\<lparr>pc_sess := s1\<rparr>, length (concat qs), e) \<and>
    rw_out (s_rw s1) = rw_out (s_rw (pc_sess pc)) @ w \<and> [] \<notin> set qs \<and>
    (\<forall>rest. recv_n c (feed r (w @ rest)) (length qs) = Some (feed r1 rest, qs, None)) \<and> synced s1 r1 \<and>
    prefix (concat qs) p \<and> (e = None \<and> concat qs = p \<or> e = Some ErrEpochExhausted \<and> sendEpoch s1 = 0xFF) \<and>
    unat (sendEpoch s1) \<le> unat (sendEpoch (pc_sess pc)) + length qs"
proof -
  note rf = records_facts [of clock 0 p]
  from rf have "\<forall>(t, q) \<in> set (records clock 0 p). payload_fits q" by auto
  from session_stream [OF sy this c] obtain s1 r1 w qs e where
    st: "send_all c (pc_sess pc) (records clock 0 p) = Some (s1, qs, e)" "rw_out (s_rw s1) = rw_out (s_rw (pc_sess pc)) @ w"
      "\<forall>rest. recv_n c (feed r (w @ rest)) (length qs) = Some (feed r1 rest, qs, None)" "synced s1 r1"
      "prefix qs (map snd (records clock 0 p))"
      "e = None \<and> qs = map snd (records clock 0 p) \<or>
       e = Some ErrEpochExhausted \<and> sendEpoch s1 = 0xFF \<and> length qs < length (records clock 0 p)"
      "unat (sendEpoch s1) \<le> unat (sendEpoch (pc_sess pc)) + length qs"
    by (elim exE conjE) (rule that; assumption)
  have "[] \<notin> snd ` set (records clock 0 p)" using rf by fastforce
  then have "[] \<notin> set qs" using set_mono_prefix [OF st(5)] by auto
  moreover have "prefix (concat qs) p" using st(5) rf by (metis concat_append prefix_def)
  moreover have "pqConn_Write c clock pc p = Some (pc\<lparr>pc_sess := s1\<rparr>, length (concat qs), e)"
    using Write_loop_sends [OF st(1), of 0] by (simp add: pqConn_Write_def)
  moreover have "e = None \<and> concat qs = p \<or> e = Some ErrEpochExhausted \<and> sendEpoch s1 = 0xFF" using st(6) rf by auto
  ultimately show ?thesis using st(2-4,7)
    by (intro exI [of _ s1] exI [of _ r1] exI [of _ w] exI [of _ qs] exI [of _ e] conjI) assumption+
qed

lemma recv_n_append:
  assumes "recv_n c r (length qs) = Some (r1, qs, None)" and "recv_n c r1 (length vs) = Some (r2, vs, None)"
  shows "recv_n c r (length (qs @ vs)) = Some (r2, qs @ vs, None)"
  using assms
proof (induction qs arbitrary: r)
  case (Cons q qs)
  then obtain r' where "Session_Recv c r = Some (r', Inr q)" "recv_n c r' (length qs) = Some (r1, qs, None)"
    by (auto split: option.splits sum.splits prod.splits)
  with Cons.IH Cons.prems(2) show ?case by simp
qed simp

lemma Write_all_stream:
  assumes "synced (pc_sess pc) r" and c: "aead_ok c" "hkdf_ok c"
  shows "\<exists>s1 r1 w qs e. Write_all c pc ws = Some (pc\<lparr>pc_sess := s1\<rparr>, length (concat qs), e) \<and>
    rw_out (s_rw s1) = rw_out (s_rw (pc_sess pc)) @ w \<and> [] \<notin> set qs \<and>
    (\<forall>rest. recv_n c (feed r (w @ rest)) (length qs) = Some (feed r1 rest, qs, None)) \<and> \<not> s_closed r1 \<and> \<not> rw_closed (s_rw r1) \<and>
    prefix (concat qs) (concat (map snd ws)) \<and>
    (e = None \<and> concat qs = concat (map snd ws) \<or> e = Some ErrEpochExhausted \<and> sendEpoch s1 = 0xFF) \<and>
    unat (sendEpoch s1) \<le> unat (sendEpoch (pc_sess pc)) + length qs"
  using assms(1)
proof (induction ws arbitrary: pc r)
  case Nil
  then show ?case
    by (intro exI [of _ "pc_sess pc"] exI [of _ r] exI [of _ "[]"] exI [of _ None]) (simp add: synced_def)
next
  case (Cons a ws)
  obtain clock p where a: "a = (clock, p)" by force
  from Write_stream [OF Cons.prems c, of clock p] obtain s1 r1 w qs e where
    1: "pqConn_Write c clock pc p = Some (pc\<lparr>pc_sess := s1\<rparr>, length (concat qs), e)"
      "rw_out (s_rw s1) = rw_out (s_rw (pc_sess pc)) @ w" "[] \<notin> set qs"
      "\<And>rest. recv_n c (feed r (w @ rest)) (length qs) = Some (feed r1 rest, qs, None)" "synced s1 r1"
      "prefix (concat qs) p" "e = None \<and> concat qs = p \<or> e = Some ErrEpochExhausted \<and> sendEpoch s1 = 0xFF"
      "unat (sendEpoch s1) \<le> unat (sendEpoch (pc_sess pc)) + length qs" by blast
  show ?case
  proof (cases e)
    case (Some err)
    then show ?thesis
      using 1 by (intro exI [of _ s1] exI [of _ r1] exI [of _ w] exI [of _ qs] exI [of _ e]) (auto simp: a synced_def)
  next
    case None
    have "synced (pc_sess (pc\<lparr>pc_sess := s1\<rparr>)) r1" using 1(5) by simp
    from Cons.IH [OF this] obtain s2 r2 v vs e2 where
      2: "Write_all c (pc\<lparr>pc_sess := s1\<rparr>) ws = Some (pc\<lparr>pc_sess := s2\<rparr>, length (concat vs), e2)"
        "rw_out (s_rw s2) = rw_out (s_rw s1) @ v" "[] \<notin> set vs"
        "\<And>rest. recv_n c (feed r1 (v @ rest)) (length vs) = Some (feed r2 rest, vs, None)" "\<not> s_closed r2" "\<not> rw_closed (s_rw r2)"
        "prefix (concat vs) (concat (map snd ws))"
        "e2 = None \<and> concat vs = concat (map snd ws) \<or> e2 = Some ErrEpochExhausted \<and> sendEpoch s2 = 0xFF"
        "unat (sendEpoch s2) \<le> unat (sendEpoch s1) + length vs" by auto
    have "recv_n c (feed r ((w @ v) @ rest)) (length (qs @ vs)) = Some (feed r2 rest, qs @ vs, None)" for rest
      using recv_n_append [OF 1(4) 2(4)] by simp
    moreover have "concat qs = p" using 1(7) None by simp
    ultimately show ?thesis using 1(1,2,3,8) 2 None
      by (intro exI [of _ s2] exI [of _ r2] exI [of _ "w @ v"] exI [of _ "qs @ vs"] exI [of _ e2]) (auto simp: a)
  qed
qed

section \<open>Reading\<close>

lemma Recv_empty: "\<not> s_closed r \<Longrightarrow> \<not> rw_closed (s_rw r) \<Longrightarrow> rw_in (s_rw r) = [] \<Longrightarrow> \<exists>e. Session_Recv c r = Some (r, Inl e)"
  by (simp add: Session_Recv_def recv_loop.simps [of c r] readFrame_def ReadFull_def)

text \<open>Whatever the buffer sizes, the reads hand out the buffered bytes and then those of the records to
  come, and nothing else; every successful read makes progress.\<close>

lemma Read_all_stream:
  assumes "recv_n c (pc_sess pc) (length qs) = Some (r1, qs, None)" and "[] \<notin> set qs"
    and "\<not> s_closed r1" and "\<not> rw_closed (s_rw r1)" and "rw_in (s_rw r1) = []" and "\<forall>n \<in> set ns. 0 < n"
  shows "\<exists>pc1 got e. Read_all c pc ns = Some (pc1, got, e) \<and> prefix got (pc_readBuf pc @ concat qs) \<and>
    (e \<noteq> None \<or> length (pc_readBuf pc @ concat qs) \<le> length ns \<longrightarrow> got = pc_readBuf pc @ concat qs)"
  using assms(1,2,6)
proof (induction ns arbitrary: pc qs)
  case Nil
  then show ?case by auto
next
  case (Cons n ns)
  have n: "0 < n" "\<forall>n \<in> set ns. 0 < n" using Cons.prems(3) by auto
  have go: ?case
    if read: "pqConn_Read c pc n = Some (pc2\<lparr>pc_readBuf := drop n (pc_readBuf pc2)\<rparr>, Inr (take n (pc_readBuf pc2)))"
      and rest: "recv_n c (pc_sess pc2) (length vs) = Some (r1, vs, None)" "[] \<notin> set vs"
      and eq: "pc_readBuf pc @ concat qs = pc_readBuf pc2 @ concat vs" and ne: "pc_readBuf pc2 \<noteq> []" for pc2 vs
  proof -
    let ?pc = "pc2\<lparr>pc_readBuf := drop n (pc_readBuf pc2)\<rparr>"
    have "recv_n c (pc_sess ?pc) (length vs) = Some (r1, vs, None)" using rest(1) by simp
    from Cons.IH [OF this rest(2) n(2)] obtain pc3 got e where
      ih: "Read_all c ?pc ns = Some (pc3, got, e)" "prefix got (drop n (pc_readBuf pc2) @ concat vs)"
        "e \<noteq> None \<or> length (drop n (pc_readBuf pc2) @ concat vs) \<le> length ns \<longrightarrow> got = drop n (pc_readBuf pc2) @ concat vs"
      by auto
    have split: "take n (pc_readBuf pc2) @ drop n (pc_readBuf pc2) @ concat vs = pc_readBuf pc2 @ concat vs" by simp
    have pre: "prefix (take n (pc_readBuf pc2) @ got) (pc_readBuf pc2 @ concat vs)"
      using ih(2) unfolding split [symmetric] by (simp only: same_prefix_prefix)
    have len: "length (drop n (pc_readBuf pc2) @ concat vs) \<le> length ns"
      if "length (pc_readBuf pc2 @ concat vs) \<le> length (n # ns)" using that ne n(1) by (cases "pc_readBuf pc2") auto
    have full: "take n (pc_readBuf pc2) @ got = pc_readBuf pc2 @ concat vs"
      if "e \<noteq> None \<or> length (pc_readBuf pc2 @ concat vs) \<le> length (n # ns)" using ih(3) that len split by metis
    have "Read_all c pc (n # ns) = Some (pc3, take n (pc_readBuf pc2) @ got, e)" using read ih(1) by simp
    with pre full show ?thesis unfolding eq by blast
  qed
  show ?case
  proof (cases "pc_readBuf pc = []")
    case False
    then have "pqConn_Read c pc n = Some (pc\<lparr>pc_readBuf := drop n (pc_readBuf pc)\<rparr>, Inr (take n (pc_readBuf pc)))"
      using n(1) by (simp add: pqConn_Read_def Let_def)
    from go [OF this Cons.prems(1,2) refl False] show ?thesis .
  next
    case True
    show ?thesis
    proof (cases qs)
      case Nil
      then have "pc_sess pc = r1" using Cons.prems(1) by simp
      with Recv_empty [of r1 c] assms(3-5) obtain e where "Session_Recv c (pc_sess pc) = Some (pc_sess pc, Inl e)" by auto
      then have "Read_all c pc (n # ns) = Some (pc, [], Some e)" using True n(1) by (simp add: pqConn_Read_def)
      then show ?thesis using True Nil by simp
    next
      case (Cons q vs)
      obtain r' where rc: "Session_Recv c (pc_sess pc) = Some (r', Inr q)" "recv_n c r' (length vs) = Some (r1, vs, None)"
        using Cons.prems(1) Cons by (auto split: option.splits sum.splits prod.splits)
      have q: "q \<noteq> []" "[] \<notin> set vs" using Cons.prems(2) Cons by auto
      show ?thesis
        by (rule go [of "pc\<lparr>pc_sess := r', pc_readBuf := q\<rparr>" vs])
          (use rc q True n(1) Cons in \<open>simp_all add: pqConn_Read_def Let_def\<close>)
    qed
  qed
qed

section \<open>One byte stream\<close>

lemma concat_nonempty: "[] \<notin> set qs \<Longrightarrow> length qs \<le> length (concat qs)"
proof (induction qs)
  case (Cons q qs)
  then show ?case by (cases q) auto
qed simp

text \<open>C33. The wrapped connection is a byte stream: when the two ends wrap sessions of one handshake,
  the bytes one end writes, in whatever pieces, are the bytes the other end reads, through buffers of
  whatever sizes: what has been read is a prefix of what was written, and all of it after as many
  reads as there are bytes or once a read fails. \<open>Write\<close> reports the number of bytes that got through
  and fails only when the epochs are used up, which takes at least 255 bytes.\<close>

theorem pq_stream:
  assumes "newSession c rwI cI RoleInitiator pI su keys tI = Inr si" and "newSession c rwR cR RoleResponder pR su keys tR = Inr sr"
    and "\<not> rw_closed rwI" and "\<not> rw_closed rwR" and "rw_script rwI = []" and "rw_script rwR = []"
    and "aead_ok c" and "hkdf_ok c" and "(s, r) \<in> {(si, sr), (sr, si)}" and "\<forall>n \<in> set ns. 0 < n"
  shows "\<exists>s1 w k e pc got e'. Write_all c (WrapPQ s) ws = Some (WrapPQ s1, k, e) \<and> rw_out (s_rw s1) = rw_out (s_rw s) @ w \<and>
    (e = None \<and> k = length (concat (map snd ws)) \<or> e = Some ErrEpochExhausted \<and> 255 \<le> k \<and> k \<le> length (concat (map snd ws))) \<and>
    Read_all c (WrapPQ (feed r w)) ns = Some (pc, got, e') \<and> prefix got (take k (concat (map snd ws))) \<and>
    (e' \<noteq> None \<or> k \<le> length ns \<longrightarrow> got = take k (concat (map snd ws)))"
proof -
  have "synced (pc_sess (WrapPQ s)) r" and ep: "sendEpoch s = 0"
    using newSession_synced [OF assms(1-6)] assms(9) by (auto simp: WrapPQ_def)
  from Write_all_stream [OF this(1) assms(7,8), of ws] obtain s1 r1 w qs e where
    w: "Write_all c (WrapPQ s) ws = Some (WrapPQ s1, length (concat qs), e)" "rw_out (s_rw s1) = rw_out (s_rw s) @ w" "[] \<notin> set qs"
      "\<And>rest. recv_n c (feed r (w @ rest)) (length qs) = Some (feed r1 rest, qs, None)" "\<not> s_closed r1" "\<not> rw_closed (s_rw r1)"
      "prefix (concat qs) (concat (map snd ws))"
      "e = None \<and> concat qs = concat (map snd ws) \<or> e = Some ErrEpochExhausted \<and> sendEpoch s1 = 0xFF"
      "unat (sendEpoch s1) \<le> unat (sendEpoch s) + length qs"
    by (auto simp: WrapPQ_def)
  have data: "take (length (concat qs)) (concat (map snd ws)) = concat qs" using w(7) by (metis append_eq_conv_conj prefix_def)
  have "recv_n c (pc_sess (WrapPQ (feed r w))) (length qs) = Some (feed r1 [], qs, None)" using w(4) [of "[]"] by (simp add: WrapPQ_def)
  from Read_all_stream [OF this w(3) _ _ _ assms(10)] w(5,6) obtain pc got e' where
    "Read_all c (WrapPQ (feed r w)) ns = Some (pc, got, e')" "prefix got (concat qs)"
    "e' \<noteq> None \<or> length (concat qs) \<le> length ns \<longrightarrow> got = concat qs" by (auto simp: WrapPQ_def)
  moreover have "e = None \<and> length (concat qs) = length (concat (map snd ws)) \<or>
      e = Some ErrEpochExhausted \<and> 255 \<le> length (concat qs) \<and> length (concat qs) \<le> length (concat (map snd ws))"
    using w(8,9) ep concat_nonempty [OF w(3)] prefix_length_le [OF w(7)] by auto
  ultimately show ?thesis using w(1,2)
    by (intro exI [of _ s1] exI [of _ w] exI [of _ "length (concat qs)"] exI [of _ e] exI [of _ pc] exI [of _ got] exI [of _ e'] conjI)
      (simp_all only: data)
qed

theorem pq_stream_witness:
  "\<exists>s1 w pc e. Write_all toy_crypto (WrapPQ (toy_session RoleInitiator)) [(\<lambda>_. 1, [1, 2, 3]), (\<lambda>_. 2, [4])] = Some (WrapPQ s1, 4, None) \<and>
    Read_all toy_crypto (WrapPQ (feed (toy_session RoleResponder) w)) [2, 2, 2, 2] = Some (pc, [1, 2, 3, 4], e)"
proof -
  from pq_stream [OF toy_session_eq _ _ _ _ toy_aead_ok toy_hkdf_ok, of "toy_session RoleInitiator" "toy_session RoleResponder"
      "[2, 2, 2, 2]" "[(\<lambda>_. 1, [1, 2, 3]), (\<lambda>_. 2, [4])]"]
  obtain s1 w k e pc got e' where
    "Write_all toy_crypto (WrapPQ (toy_session RoleInitiator)) [(\<lambda>_. 1, [1, 2, 3]), (\<lambda>_. 2, [4])] = Some (WrapPQ s1, k, e)"
    "e = None \<and> k = 4 \<or> e = Some ErrEpochExhausted \<and> 255 \<le> k \<and> k \<le> 4"
    "Read_all toy_crypto (WrapPQ (feed (toy_session RoleResponder) w)) [2, 2, 2, 2] = Some (pc, got, e')"
    "k \<le> 4 \<longrightarrow> got = take k [1, 2, 3, 4]"
    by (auto simp: open_rw_def)
  then show ?thesis by fastforce
qed

end
