(* ===== verification/Zap_Identity.thy ===== *)
theory Zap_Identity
  imports PQ_Keys
begin

text \<open>
  Identities above the handshake. \<open>src/identity_pq.go\<close>: the registration of a VM key, which a chain
  authority signs, and the registry it is kept in. \<open>src/pq_attestation.go\<close>: the transcript hash that
  ties a peer's post-quantum signature to a TLS channel. Signature verification and the hash functions
  are those of the record \<^typ>\<open>crypto\<close>, SHAKE256 is an argument.
\<close>

section \<open>Registrations\<close>

record VMRegistration =
  VMID :: bytes
  VMPubKey :: bytes
  AuthoritySig :: bytes
  PrevVMSig :: bytes
  PrevVMPubKey :: bytes

text \<open>The errors of \<open>VerifyRegistration\<close>: malformed, a handshake error, or the key parser's own.\<close>

datatype reg_error = ErrRegistrationMalformed | ErrHandshake hs_error | ErrPublicKey

type_synonym RegistrationMode = int

definition ModeInitial :: RegistrationMode where "ModeInitial = 0"
definition ModeRotation :: RegistrationMode where "ModeRotation = 1"

definition reg_payload :: "VMRegistration \<Rightarrow> bytes" where
  "reg_payload reg = VMID reg @ VMPubKey reg"

text \<open>The signatures the mode asks for.\<close>

definition check_mode :: "crypto \<Rightarrow> VMRegistration \<Rightarrow> RegistrationMode \<Rightarrow> reg_error + unit" where
  "check_mode c reg mode =
     (if mode = ModeInitial
      then if length (PrevVMSig reg) \<noteq> 0 \<or> length (PrevVMPubKey reg) \<noteq> 0 then Inl ErrRegistrationMalformed else Inr ()
      else if mode = ModeRotation
      then if length (PrevVMPubKey reg) \<noteq> MLDSA65PubLen then Inl ErrRegistrationMalformed
        else if length (PrevVMSig reg) \<noteq> MLDSA65SigLen then Inl ErrRegistrationMalformed
        else if \<not> mldsa_pub_ok c (PrevVMPubKey reg) then Inl ErrRegistrationMalformed
        else if \<not> mldsa_verify c (PrevVMPubKey reg) (reg_payload reg) (PrevVMSig reg) SignCtx
        then Inl (ErrHandshake ErrAuthoritySigFailed) else Inr ()
      else Inl ErrRegistrationMalformed)"

definition VerifyRegistration ::
  "crypto \<Rightarrow> VMRegistration option \<Rightarrow> bytes option \<Rightarrow> RegistrationMode \<Rightarrow> reg_error + bytes" where
  "VerifyRegistration c reg_opt chainAuthority mode =
     (case reg_opt of
        None \<Rightarrow> Inl ErrRegistrationMalformed
      | Some reg \<Rightarrow>
          if length (VMPubKey reg) \<noteq> MLDSA65PubLen then Inl ErrRegistrationMalformed
          else if length (AuthoritySig reg) \<noteq> MLDSA65SigLen then Inl ErrRegistrationMalformed
          else case chainAuthority of
            None \<Rightarrow> Inl ErrRegistrationMalformed
          | Some authority \<Rightarrow>
              if VMID reg \<noteq> sha3 c (VMPubKey reg) then Inl (ErrHandshake ErrVMIdentityMismatch)
              else if \<not> mldsa_verify c authority (reg_payload reg) (AuthoritySig reg) SignCtx
              then Inl (ErrHandshake ErrAuthoritySigFailed)
              else bindE (check_mode c reg mode) (\<lambda>_.
                if mldsa_pub_ok c (VMPubKey reg) then Inr (VMPubKey reg) else Inl ErrPublicKey))"

section \<open>The registry\<close>

type_synonym StaticVMRegistry = "bytes \<rightharpoonup> VMRegistration"

definition NewStaticVMRegistry :: StaticVMRegistry where
  "NewStaticVMRegistry = Map.empty"

definition Registry_Add :: "StaticVMRegistry \<Rightarrow> VMRegistration \<Rightarrow> StaticVMRegistry" where
  "Registry_Add r reg = r(VMID reg \<mapsto> reg)"

definition Registry_Lookup :: "StaticVMRegistry \<Rightarrow> bytes \<Rightarrow> VMRegistration option" where
  "Registry_Lookup r vmID = r vmID"

section \<open>Attestations\<close>

record Attestation =
  at_PubKey :: bytes
  at_Sig :: bytes

definition HasPQEvidence :: "Attestation option \<Rightarrow> bool" where
  "HasPQEvidence a \<longleftrightarrow> (case a of None \<Rightarrow> False | Some x \<Rightarrow> 0 < length (at_PubKey x) \<and> 0 < length (at_Sig x))"

record AttestationContext =
  TLSCertFingerprint :: bytes
  ChainID :: bytes
  PeerMLKEMPub :: bytes
  Timestamp :: u64
  Nonce :: bytes

definition leftEncode :: "u64 \<Rightarrow> bytes" where
  "leftEncode x =
     (if x = 0 then [0x01, 0x00]
      else
        let buf = be64 x;
            i = length (takeWhile (\<lambda>b. b = 0) (take 7 buf)) in
        of_nat (8 - i) # drop i buf)"

definition domainTag :: bytes where
  "domainTag = str ''ZAP-PQ-V1''"

text \<open>What the hash absorbs: each field behind the encoding of its length in bits.\<close>

definition framed :: "bytes \<Rightarrow> bytes" where
  "framed b = leftEncode (of_nat (length b) * 8) @ b"

definition transcript_input :: "AttestationContext \<Rightarrow> bytes" where
  "transcript_input ctx =
     framed domainTag @ framed (TLSCertFingerprint ctx) @ framed (ChainID ctx) @ framed (PeerMLKEMPub ctx) @
     (leftEncode (8 * 8) @ be64 (Timestamp ctx)) @ framed (Nonce ctx)"

definition TranscriptHash :: "(bytes \<Rightarrow> nat \<Rightarrow> bytes) \<Rightarrow> AttestationContext \<Rightarrow> bytes" where
  "TranscriptHash shake256 ctx = shake256 (transcript_input ctx) 48"

section \<open>What a registration proves\<close>

lemma check_mode_Inr_iff:
  "check_mode c reg mode = Inr u \<longleftrightarrow>
     mode = ModeInitial \<and> PrevVMSig reg = [] \<and> PrevVMPubKey reg = [] \<or>
     mode = ModeRotation \<and> length (PrevVMPubKey reg) = MLDSA65PubLen \<and> mldsa_pub_ok c (PrevVMPubKey reg) \<and>
       length (PrevVMSig reg) = MLDSA65SigLen \<and> mldsa_verify c (PrevVMPubKey reg) (reg_payload reg) (PrevVMSig reg) SignCtx"
proof (cases "mode = ModeInitial")
  case True
  then have "mode \<noteq> ModeRotation" by (simp add: ModeInitial_def ModeRotation_def)
  with True show ?thesis by (auto simp: check_mode_def)
next
  case False
  then show ?thesis by (auto simp: check_mode_def)
qed

text \<open>A registration is accepted exactly when it is well formed, its identifier is the hash of its
  key, the chain authority signed identifier and key, and, when it is a rotation, the previous key
  signed them as well; an initial registration carries no trace of a previous key. The key returned is
  the registered one.\<close>

lemma registration_accepted_iff:
  "VerifyRegistration c (Some reg) (Some authority) mode = Inr pk \<longleftrightarrow>
     pk = VMPubKey reg \<and> length pk = MLDSA65PubLen \<and> mldsa_pub_ok c pk \<and> VMID reg = sha3 c pk \<and>
     length (AuthoritySig reg) = MLDSA65SigLen \<and> mldsa_verify c authority (VMID reg @ pk) (AuthoritySig reg) SignCtx \<and>
     (mode = ModeInitial \<and> PrevVMSig reg = [] \<and> PrevVMPubKey reg = [] \<or>
      mode = ModeRotation \<and> length (PrevVMPubKey reg) = MLDSA65PubLen \<and> mldsa_pub_ok c (PrevVMPubKey reg) \<and>
        length (PrevVMSig reg) = MLDSA65SigLen \<and> mldsa_verify c (PrevVMPubKey reg) (VMID reg @ pk) (PrevVMSig reg) SignCtx)"
  (is "_ = ?ok")
proof -
  have "VerifyRegistration c (Some reg) (Some authority) mode = Inr pk \<longleftrightarrow>
      length (VMPubKey reg) = MLDSA65PubLen \<and> length (AuthoritySig reg) = MLDSA65SigLen \<and> VMID reg = sha3 c (VMPubKey reg) \<and>
      mldsa_verify c authority (VMID reg @ VMPubKey reg) (AuthoritySig reg) SignCtx \<and> (\<exists>u. check_mode c reg mode = Inr u) \<and>
      mldsa_pub_ok c (VMPubKey reg) \<and> pk = VMPubKey reg"
    unfolding VerifyRegistration_def reg_payload_def by (simp add: bindE_eq_Inr_iff) blast
  also have "\<dots> = ?ok" unfolding check_mode_Inr_iff reg_payload_def by blast
  finally show ?thesis .
qed

text \<open>A registry filled as its documentation asks: every registration was verified before it was added.\<close>

inductive filled :: "crypto \<Rightarrow> bytes \<Rightarrow> StaticVMRegistry \<Rightarrow> bool" for c authority where
  empty: "filled c authority NewStaticVMRegistry"
| add: "filled c authority r \<Longrightarrow> VerifyRegistration c (Some reg) (Some authority) mode = Inr pk \<Longrightarrow>
    filled c authority (Registry_Add r reg)"

lemma verified_id: "VerifyRegistration c (Some reg) (Some authority) mode = Inr pk \<Longrightarrow> VMID reg = sha3 c (VMPubKey reg)"
  unfolding VerifyRegistration_def by (auto split: if_splits)

lemma filled_lookup:
  assumes "filled c authority r" and "Registry_Lookup r vmID = Some reg"
  shows "VMID reg = vmID \<and> vmID = sha3 c (VMPubKey reg)"
  using assms
  by (induction rule: filled.induct)
    (auto simp: NewStaticVMRegistry_def Registry_Add_def Registry_Lookup_def dest: verified_id split: if_splits)

text \<open>A registered key cannot be replaced under its identifier: when a verified registration is added
  to a registry of verified registrations, in either mode, every identifier that was registered before
  still has the same key, unless the two keys are a collision of SHA3-256. In particular a rotation,
  which is meant to replace the key of an identifier that is already there, never does.\<close>

lemma rotation_keeps_key:
  assumes "filled c authority r" and "VerifyRegistration c (Some reg) (Some authority) mode = Inr pk"
    and "Registry_Lookup r vmID = Some old"
  shows "\<exists>new. Registry_Lookup (Registry_Add r reg) vmID = Some new \<and>
    (VMPubKey new = VMPubKey old \<or> collides c (VMPubKey new) (VMPubKey old))"
proof (cases "vmID = VMID reg")
  case True
  with filled_lookup [OF assms(1,3)] verified_id [OF assms(2)]
  show ?thesis by (auto simp: Registry_Add_def Registry_Lookup_def collides_def)
next
  case False
  with assms(3) show ?thesis by (simp add: Registry_Add_def Registry_Lookup_def)
qed

definition sample_reg :: "byte \<Rightarrow> bytes \<Rightarrow> VMRegistration" where
  "sample_reg b prev =
     (let pk = replicate MLDSA65PubLen b; vid = toy_sha3 pk; sg = arr MLDSA65SigLen (toy_sha3 (vid @ pk)) in
      \<lparr>VMID = vid, VMPubKey = pk, AuthoritySig = sg, PrevVMSig = (if prev = [] then [] else sg), PrevVMPubKey = prev\<rparr>)"

lemma sample_reg_verified:
  "VerifyRegistration toy_crypto (Some (sample_reg b [])) (Some [7]) ModeInitial = Inr (replicate MLDSA65PubLen b)"
  "length prev = MLDSA65PubLen \<Longrightarrow>
   VerifyRegistration toy_crypto (Some (sample_reg b prev)) (Some [7]) ModeRotation = Inr (replicate MLDSA65PubLen b)"
  by (auto simp: VerifyRegistration_def check_mode_def sample_reg_def reg_payload_def toy_crypto_def Let_def MLDSA65SigLen_def
      ModeInitial_def ModeRotation_def MLDSA65PubLen_def)

section \<open>What an attestation binds\<close>

text \<open>The length encoding: a count of bytes from 1 to 8, then the value without its leading zeros.\<close>

lemma leftEncode_form:
  "\<exists>k bs. leftEncode x = of_nat k # bs \<and> length bs = k \<and> k \<le> 8 \<and> be64 x = replicate (8 - k) 0 @ bs"
proof (cases "x = 0")
  case True
  have "be64 0 = replicate 7 0 @ [0]" by code_simp
  then show ?thesis using True by (intro exI [of _ 1] exI [of _ "[0]"]) (simp add: leftEncode_def)
next
  case False
  define i where "i = length (takeWhile (\<lambda>b. b = 0) (take 7 (be64 x)))"
  have i: "i \<le> 7" unfolding i_def using length_takeWhile_le [of "\<lambda>b. b = 0" "take 7 (be64 x)"] by simp
  have "take i (be64 x) = takeWhile (\<lambda>b. b = 0) (take 7 (be64 x))"
    using takeWhile_eq_take [of "\<lambda>b. b = 0" "take 7 (be64 x)"] i by (simp add: i_def [symmetric] min_def)
  also have "\<dots> = replicate i 0" unfolding i_def by (metis (mono_tags, lifting) replicate_eqI set_takeWhileD)
  finally have "be64 x = replicate i 0 @ drop i (be64 x)" by (metis append_take_drop_id)
  then show ?thesis using False i
    by (intro exI [of _ "8 - i"] exI [of _ "drop i (be64 x)"]) (simp add: leftEncode_def Let_def i_def [symmetric])
qed

lemma leftEncode_prefix_free:
  assumes "leftEncode x @ r = leftEncode y @ r'"
  shows "x = y \<and> r = r'"
proof -
  obtain k bs where x: "leftEncode x = of_nat k # bs" "length bs = k" "k \<le> 8" "be64 x = replicate (8 - k) 0 @ bs"
    using leftEncode_form by blast
  obtain m cs where y: "leftEncode y = of_nat m # cs" "length cs = m" "m \<le> 8" "be64 y = replicate (8 - m) 0 @ cs"
    using leftEncode_form by blast
  have "of_nat k = (of_nat m :: byte)" using assms x(1) y(1) by simp
  then have "unat (of_nat k :: byte) = unat (of_nat m :: byte)" by simp
  then have "k = m" using x(3) y(3) by (simp add: unat_byte_of_nat)
  then have eq: "bs = cs" "r = r'" using assms x(1,2) y(1,2) by simp_all
  with \<open>k = m\<close> x(4) y(4) have "be64 x = be64 y" by simp
  with eq show ?thesis by simp
qed

lemma framed_prefix_free:
  assumes "framed a @ r = framed b @ r'" and "length a < 2 ^ 61" and "length b < 2 ^ 61"
  shows "a = b \<and> r = r'"
proof -
  have "leftEncode (of_nat (length a) * 8) @ (a @ r) = leftEncode (of_nat (length b) * 8) @ (b @ r')"
    using assms(1) by (simp add: framed_def)
  from leftEncode_prefix_free [OF this] have n: "(of_nat (length a) * 8 :: u64) = of_nat (length b) * 8" and r: "a @ r = b @ r'" by auto
  from n have "unat (of_nat (length a * 8) :: u64) = unat (of_nat (length b * 8) :: u64)" by simp
  then have "length a = length b" using assms(2,3) by (simp add: unat_of_nat del: of_nat_mult)
  with r show ?thesis by simp
qed

text \<open>The arrays of a context have the lengths of their Go types.\<close>

definition context_wf :: "AttestationContext \<Rightarrow> bool" where
  "context_wf x \<longleftrightarrow> length (TLSCertFingerprint x) = 32 \<and> length (ChainID x) = 32 \<and> length (Nonce x) = 32 \<and> length (PeerMLKEMPub x) < 2 ^ 61"

lemma transcript_input_inj:
  assumes "transcript_input x = transcript_input y" and "context_wf x" and "context_wf y"
  shows "x = y"
proof -
  have w: "length (TLSCertFingerprint x) < 2 ^ 61" "length (TLSCertFingerprint y) < 2 ^ 61" "length (ChainID x) < 2 ^ 61"
    "length (ChainID y) < 2 ^ 61" "length (PeerMLKEMPub x) < 2 ^ 61" "length (PeerMLKEMPub y) < 2 ^ 61"
    using assms(2,3) by (simp_all add: context_wf_def)
  have 0: "framed (TLSCertFingerprint x) @ framed (ChainID x) @ framed (PeerMLKEMPub x) @ (leftEncode (8 * 8) @ be64 (Timestamp x)) @ framed (Nonce x) =
      framed (TLSCertFingerprint y) @ framed (ChainID y) @ framed (PeerMLKEMPub y) @ (leftEncode (8 * 8) @ be64 (Timestamp y)) @ framed (Nonce y)"
    using assms(1) by (simp add: transcript_input_def)
  note 1 = framed_prefix_free [OF 0 w(1,2)]
  note 2 = framed_prefix_free [OF conjunct2 [OF 1] w(3,4)]
  note 3 = framed_prefix_free [OF conjunct2 [OF 2] w(5,6)]
  have 4: "Timestamp x = Timestamp y" "framed (Nonce x) = framed (Nonce y)" using conjunct2 [OF 3] by simp_all
  then have "Nonce x = Nonce y" using assms(2,3) by (simp add: framed_def context_wf_def)
  with 1 2 3 4 show ?thesis by (cases x; cases y) simp
qed

text \<open>C36. An attestation signature binds every field of its channel: two contexts with the same
  transcript hash are the same context, fingerprint, chain, KEM key, timestamp and nonce alike, or
  their encodings are a collision of SHAKE256 at 48 bytes.\<close>

theorem attestation_binds:
  assumes "context_wf x" and "context_wf y" and "TranscriptHash shake256 x = TranscriptHash shake256 y"
  shows "x = y \<or> transcript_input x \<noteq> transcript_input y \<and> shake256 (transcript_input x) 48 = shake256 (transcript_input y) 48"
  using assms transcript_input_inj [OF _ assms(1,2)] by (auto simp: TranscriptHash_def)

theorem attestation_binds_witness:
  "let ctx = (\<lambda>t. \<lparr>TLSCertFingerprint = replicate 32 1, ChainID = replicate 32 2, PeerMLKEMPub = [], Timestamp = t, Nonce = replicate 32 3\<rparr>);
       shake = (\<lambda>x n. take n x) in
   TranscriptHash shake (ctx 5) = TranscriptHash shake (ctx 6) \<and> transcript_input (ctx 5) \<noteq> transcript_input (ctx 6)"
proof -
  define ctx where "ctx = (\<lambda>t. \<lparr>TLSCertFingerprint = replicate 32 1, ChainID = replicate 32 2, PeerMLKEMPub = [], Timestamp = t, Nonce = replicate 32 3\<rparr>)"
  define shake :: "bytes \<Rightarrow> nat \<Rightarrow> bytes" where "shake = (\<lambda>x n. take n x)"
  have wf: "context_wf (ctx t)" for t by (simp add: context_wf_def ctx_def)
  have "TranscriptHash shake (ctx 5) = TranscriptHash shake (ctx 6)"
    unfolding shake_def ctx_def by code_simp
  moreover have "ctx 5 \<noteq> ctx 6" by (simp add: ctx_def)
  ultimately show ?thesis
    using attestation_binds [OF wf wf, of shake 5 6] unfolding Let_def shake_def ctx_def by blast
qed

end
