(* ===== verification/Zap_Router.thy ===== *)
theory Zap_Router
  imports Zap_Node "HOL-Library.Multiset"
begin

text \<open>
  \<open>src/router.go\<close> and \<open>src/interface.go\<close>: the router that sends a payload over the cheapest interface
  that reaches its destination, and the two interfaces of the repository, delivery inside the process
  and delivery through a node. An interface is its table of methods over a state \<open>'s\<close>. The theory shows
  which interface a send takes, what the two interfaces together do, and what happens to a send that
  runs while another interface is being registered.
\<close>

section \<open>Payloads and interfaces\<close>

type_synonym Destination = bytes

text \<open>\<open>Value\<close> is the live value, \<^term>\<open>None\<close> for nil; \<open>Encode\<close> produces the wire form if there is one.\<close>

record 'v Payload =
  pl_Value :: "'v option"
  pl_Encode :: "(unit \<Rightarrow> Message) option"

definition no_payload :: "'v Payload" where
  "no_payload = \<lparr>pl_Value = None, pl_Encode = None\<rparr>"

datatype router_error = ErrNoRoute | ErrNotRegistered | ErrNotEncodable | ErrNode node_error | ErrLocalHandler

type_synonym 'v LocalHandler = "Destination \<Rightarrow> 'v Payload \<Rightarrow> router_error + 'v Payload"

record ('s, 'v) Interface =
  if_Name :: string
  if_Cost :: int
  if_CanReach :: "'s \<Rightarrow> Destination \<Rightarrow> bool"
  if_Deliver :: "'s \<Rightarrow> Destination \<Rightarrow> 'v Payload \<Rightarrow> ('s \<times> (router_error + 'v Payload)) option"

section \<open>The router\<close>

type_synonym ('s, 'v) Router = "('s, 'v) Interface list"

definition NewRouter :: "('s, 'v) Router" where
  "NewRouter = []"

definition Router_Register :: "('s, 'v) Router \<Rightarrow> ('s, 'v) Interface \<Rightarrow> ('s, 'v) Router" where
  "Router_Register t i = sort_key if_Cost (t @ [i])"

definition Router_Interfaces :: "('s, 'v) Router \<Rightarrow> ('s, 'v) Interface list" where
  "Router_Interfaces t = t"

fun Router_Send ::
  "('s, 'v) Router \<Rightarrow> 's \<Rightarrow> Destination \<Rightarrow> 'v Payload \<Rightarrow> ('s \<times> (router_error + 'v Payload)) option" where
  "Router_Send [] s dst p = Some (s, Inl ErrNoRoute)"
| "Router_Send (i # ifaces) s dst p = (if if_CanReach i s dst then if_Deliver i s dst p else Router_Send ifaces s dst p)"

section \<open>The two interfaces\<close>

text \<open>The state they work on: the handlers of the process and the node, if there is one.\<close>

record 'v routed =
  rt_handlers :: "Destination \<rightharpoonup> 'v LocalHandler"
  rt_node :: "Node option"

definition InProcess_Register :: "'v routed \<Rightarrow> Destination \<Rightarrow> 'v LocalHandler option \<Rightarrow> 'v routed" where
  "InProcess_Register s dst h = s\<lparr>rt_handlers := (rt_handlers s)(dst := h)\<rparr>"

definition InProcess_CanReach :: "'v routed \<Rightarrow> Destination \<Rightarrow> bool" where
  "InProcess_CanReach s dst \<longleftrightarrow> rt_handlers s dst \<noteq> None"

definition InProcess_Deliver ::
  "'v routed \<Rightarrow> Destination \<Rightarrow> 'v Payload \<Rightarrow> ('v routed \<times> (router_error + 'v Payload)) option" where
  "InProcess_Deliver s dst pl =
     (case rt_handlers s dst of None \<Rightarrow> Some (s, Inl ErrNotRegistered) | Some h \<Rightarrow> Some (s, h [] pl))"

definition InProcessInterface :: "('v routed, 'v) Interface" where
  "InProcessInterface = \<lparr>if_Name = ''inprocess'', if_Cost = 0, if_CanReach = InProcess_CanReach, if_Deliver = InProcess_Deliver\<rparr>"

definition DefaultNodeCost :: int where "DefaultNodeCost = 10"

definition Node_CanReach :: "bool \<Rightarrow> 'v routed \<Rightarrow> Destination \<Rightarrow> bool" where
  "Node_CanReach connectedOnly s dst \<longleftrightarrow>
     (case rt_node s of None \<Rightarrow> False | Some n \<Rightarrow> if \<not> connectedOnly then True else dst \<in> Peers n)"

text \<open>\<open>dialed\<close> is what a dial would return, \<open>ca\<close> the address of the connection it would create.\<close>

definition Node_Deliver ::
  "netConn option \<Rightarrow> nat \<Rightarrow> 'v routed \<Rightarrow> Destination \<Rightarrow> 'v Payload \<Rightarrow> ('v routed \<times> (router_error + 'v Payload)) option" where
  "Node_Deliver dialed ca s dst p =
     (case pl_Encode p of
        None \<Rightarrow> Some (s, Inl ErrNotEncodable)
      | Some enc \<Rightarrow> do {
          n \<leftarrow> rt_node s;
          (n1, e) \<leftarrow> Node_Send n dst (enc ()) dialed ca;
          Some (s\<lparr>rt_node := Some n1\<rparr>, case e of Some x \<Rightarrow> Inl (ErrNode x) | None \<Rightarrow> Inr no_payload) })"

definition NewNodeInterface :: "netConn option \<Rightarrow> nat \<Rightarrow> ('v routed, 'v) Interface" where
  "NewNodeInterface dialed ca = \<lparr>if_Name = ''node-tcp'', if_Cost = DefaultNodeCost, if_CanReach = Node_CanReach False, if_Deliver = Node_Deliver dialed ca\<rparr>"

definition WithCost :: "('s, 'v) Interface \<Rightarrow> int \<Rightarrow> ('s, 'v) Interface" where
  "WithCost i c = i\<lparr>if_Cost := c\<rparr>"

definition ConnectedOnly :: "('v routed, 'v) Interface \<Rightarrow> ('v routed, 'v) Interface" where
  "ConnectedOnly i = i\<lparr>if_CanReach := Node_CanReach True\<rparr>"

section \<open>The cheapest interface wins\<close>

lemma filter_key_sort: "filter (\<lambda>y. k = f y) (sort_key f xs) = filter (\<lambda>y. k = f y) xs"
  using sort_key_stable [of f k xs] by (simp add: eq_commute [of k])

lemma sort_key_snoc: "sort_key f (sort_key f xs @ [x]) = sort_key f (xs @ [x])"
proof (rule properties_for_sort_key)
  show "mset (sort_key f (xs @ [x])) = mset (sort_key f xs @ [x])" by simp
  show "filter (\<lambda>y. f k = f y) (sort_key f (xs @ [x])) = filter (\<lambda>y. f k = f y) (sort_key f xs @ [x])" for k
    by (simp add: filter_key_sort)
  show "sorted (map f (sort_key f (xs @ [x])))" by simp
qed

lemma Register_all: "foldl Router_Register NewRouter is = sort_key if_Cost is"
proof (induction "is" rule: rev_induct)
  case (snoc i "is")
  then show ?case by (simp add: Router_Register_def sort_key_snoc)
qed (simp add: NewRouter_def)

lemma Router_Send_filter:
  "Router_Send t s dst p = (case filter (\<lambda>i. if_CanReach i s dst) t of [] \<Rightarrow> Some (s, Inl ErrNoRoute) | i # _ \<Rightarrow> if_Deliver i s dst p)"
  by (induction t) auto

lemma hd_filter_nth:
  "filter P xs \<noteq> [] \<Longrightarrow> \<exists>k < length xs. hd (filter P xs) = xs ! k \<and> P (xs ! k) \<and> (\<forall>j < k. \<not> P (xs ! j))"
proof (induction xs)
  case (Cons x xs)
  show ?case
  proof (cases "P x")
    case False
    with Cons obtain k where "k < length xs" "hd (filter P xs) = xs ! k" "P (xs ! k)" "\<forall>j < k. \<not> P (xs ! j)" by auto
    with False show ?thesis by (intro exI [of _ "Suc k"]) (auto simp: less_Suc_eq_0_disj)
  qed auto
qed simp

text \<open>The head of a stable sort is the first of the elements of least key.\<close>

lemma hd_sort_key:
  assumes "ys \<noteq> []"
  shows "\<exists>k < length ys. hd (sort_key f ys) = ys ! k \<and> (\<forall>j < length ys. f (ys ! k) < f (ys ! j) \<or> f (ys ! k) = f (ys ! j) \<and> k \<le> j)"
proof -
  define m where "m = f (hd (sort_key f ys))"
  have ne: "sort_key f ys \<noteq> []" using assms by (metis set_empty set_sort)
  then obtain z zs where z: "sort_key f ys = z # zs" by (cases "sort_key f ys") auto
  have "sorted (map f (z # zs))" unfolding z [symmetric] by simp
  moreover have "set ys = set (z # zs)" unfolding z [symmetric] by simp
  ultimately have least: "m \<le> f y" if "y \<in> set ys" for y using that by (auto simp: m_def z)
  have same: "filter (\<lambda>y. m = f y) ys = filter (\<lambda>y. m = f y) (sort_key f ys)" by (simp add: filter_key_sort)
  have "hd (sort_key f ys) = hd (filter (\<lambda>y. m = f y) (sort_key f ys))"
    using ne by (cases "sort_key f ys") (simp_all add: m_def)
  then have hd: "hd (sort_key f ys) = hd (filter (\<lambda>y. m = f y) ys)" using same by simp
  have "filter (\<lambda>y. m = f y) (sort_key f ys) \<noteq> []" using ne by (cases "sort_key f ys") (simp_all add: m_def)
  then have "filter (\<lambda>y. m = f y) ys \<noteq> []" using same by simp
  from hd_filter_nth [OF this] obtain k where
    k: "k < length ys" "hd (sort_key f ys) = ys ! k" "m = f (ys ! k)" "\<forall>j < k. m \<noteq> f (ys ! j)" using hd by auto
  have "f (ys ! k) < f (ys ! j) \<or> f (ys ! k) = f (ys ! j) \<and> k \<le> j" if "j < length ys" for j
    using least [of "ys ! j"] k(3,4) that by (cases "k \<le> j") (auto simp: order.order_iff_strict)
  with k(1,2) show ?thesis by blast
qed

lemma router_send_spec:
  "if \<forall>i \<in> set is. \<not> if_CanReach i s dst then Router_Send (foldl Router_Register NewRouter is) s dst p = Some (s, Inl ErrNoRoute)
   else \<exists>k < length is. if_CanReach (is ! k) s dst \<and> Router_Send (foldl Router_Register NewRouter is) s dst p = if_Deliver (is ! k) s dst p \<and>
     (\<forall>j < length is. if_CanReach (is ! j) s dst \<longrightarrow>
        if_Cost (is ! k) < if_Cost (is ! j) \<or> if_Cost (is ! k) = if_Cost (is ! j) \<and> k \<le> j)"
proof -
  let ?P = "\<lambda>i. if_CanReach i s dst"
  define rs where "rs = filter (\<lambda>k. ?P (is ! k)) [0..<length is]"
  have rs: "filter ?P is = map ((!) is) rs" unfolding rs_def
    by (subst (1) map_nth [symmetric, of "is"]) (simp only: filter_map comp_def)
  have send: "Router_Send (foldl Router_Register NewRouter is) s dst p =
      (case sort_key if_Cost (filter ?P is) of [] \<Rightarrow> Some (s, Inl ErrNoRoute) | i # _ \<Rightarrow> if_Deliver i s dst p)"
    unfolding Register_all Router_Send_filter filter_sort ..
  show ?thesis
  proof (cases "filter ?P is = []")
    case True
    then show ?thesis using send by (auto simp: filter_empty_conv)
  next
    case False
    from hd_sort_key [OF False, of if_Cost] obtain n where
      n: "n < length rs" "hd (sort_key if_Cost (filter ?P is)) = is ! (rs ! n)"
        "\<forall>j < length rs. if_Cost (is ! (rs ! n)) < if_Cost (is ! (rs ! j)) \<or> if_Cost (is ! (rs ! n)) = if_Cost (is ! (rs ! j)) \<and> n \<le> j"
      unfolding rs by auto
    have k: "rs ! n < length is" "?P (is ! (rs ! n))" using nth_mem [OF n(1)] by (auto simp: rs_def)
    have sent: "Router_Send (foldl Router_Register NewRouter is) s dst p = if_Deliver (is ! (rs ! n)) s dst p"
      using send n(2) False by (cases "sort_key if_Cost (filter ?P is)") (simp_all, metis set_empty set_sort)
    have mono: "rs ! n \<le> rs ! j" if "n \<le> j" "j < length rs" for j
      using that sorted_nth_mono [of rs n j] by (simp add: rs_def sorted_wrt_filter)
    have "if_Cost (is ! (rs ! n)) < if_Cost (is ! j) \<or> if_Cost (is ! (rs ! n)) = if_Cost (is ! j) \<and> rs ! n \<le> j"
      if "j < length is" "?P (is ! j)" for j
    proof -
      have "j \<in> set rs" using that by (simp add: rs_def)
      then obtain q where "q < length rs" "rs ! q = j" by (auto simp: in_set_conv_nth)
      with n(3) mono show ?thesis by blast
    qed
    with k sent False show ?thesis by (auto simp: filter_empty_conv)
  qed
qed

text \<open>C35. A send takes the cheapest interface that reaches its destination: after any sequence of
  registrations it is delivered by the reachable interface of least cost, the one registered first
  among those of equal cost, and by no other; when none reaches the destination the state is left alone
  and the error is \<open>ErrNoRoute\<close>.\<close>

theorem router_cheapest:
  "let t = foldl Router_Register NewRouter is in
   if \<forall>i \<in> set is. \<not> if_CanReach i s dst then Router_Send t s dst p = Some (s, Inl ErrNoRoute)
   else \<exists>k < length is. if_CanReach (is ! k) s dst \<and> Router_Send t s dst p = if_Deliver (is ! k) s dst p \<and>
     (\<forall>j < length is. if_CanReach (is ! j) s dst \<longrightarrow>
        if_Cost (is ! k) < if_Cost (is ! j) \<or> if_Cost (is ! k) = if_Cost (is ! j) \<and> k \<le> j)"
  unfolding Let_def by (rule router_send_spec)

text \<open>The two interfaces together: a destination served in the process never touches the node nor the
  wire form; any other goes to the node in its wire form, and a payload without one is refused.\<close>

lemma router_local:
  assumes "set is = {InProcessInterface, NewNodeInterface dialed ca}" and "rt_handlers s dst = Some h"
  shows "Router_Send (foldl Router_Register NewRouter is) s dst p = Some (s, h [] p)"
proof -
  have reach: "if_CanReach InProcessInterface s dst" by (simp add: InProcessInterface_def InProcess_CanReach_def assms(2))
  have del: "if_Deliver InProcessInterface s dst p = Some (s, h [] p)" by (simp add: InProcessInterface_def InProcess_Deliver_def assms(2))
  have cost: "if_Cost i = 0 \<Longrightarrow> i \<in> set is \<Longrightarrow> i = InProcessInterface" for i
    using assms(1) by (auto simp: NewNodeInterface_def DefaultNodeCost_def)
  obtain k where k: "k < length is" "Router_Send (foldl Router_Register NewRouter is) s dst p = if_Deliver (is ! k) s dst p"
    "\<forall>j < length is. if_CanReach (is ! j) s dst \<longrightarrow> if_Cost (is ! k) < if_Cost (is ! j) \<or> if_Cost (is ! k) = if_Cost (is ! j) \<and> k \<le> j"
    using router_send_spec [of "is" s dst p] reach assms(1) by auto
  obtain j where j: "j < length is" "is ! j = InProcessInterface" using assms(1) by (metis in_set_conv_nth insertI1)
  have "if_Cost (is ! k) \<le> 0" using k(3) j reach by (auto simp: InProcessInterface_def)
  moreover have "is ! k \<in> {InProcessInterface, NewNodeInterface dialed ca}" using k(1) assms(1) nth_mem by blast
  ultimately have "is ! k = InProcessInterface" by (auto simp: NewNodeInterface_def DefaultNodeCost_def)
  with k(2) del show ?thesis by simp
qed

theorem router_cheapest_witness:
  "let f = (\<lambda>c r n. \<lparr>if_Name = [], if_Cost = c, if_CanReach = \<lambda>_ _. r, if_Deliver = \<lambda>_ _ _. Some (n, Inr no_payload)\<rparr>);
       t = foldl Router_Register NewRouter [f 10 True 1, f 0 False 2, f 5 True 3, f 5 True (4 :: nat)] in
   Router_Send t 0 [] (no_payload :: nat Payload) = Some (3, Inr no_payload)"
proof -
  define f :: "int \<Rightarrow> bool \<Rightarrow> nat \<Rightarrow> (nat, nat) Interface" where
    "f = (\<lambda>c r n. \<lparr>if_Name = [], if_Cost = c, if_CanReach = \<lambda>_ _. r, if_Deliver = \<lambda>_ _ _. Some (n, Inr no_payload)\<rparr>)"
  let ?is = "[f 10 True 1, f 0 False 2, f 5 True 3, f 5 True 4]"
  have f: "if_Cost (f c r n) = c" "if_CanReach (f c r n) s d = r" "if_Deliver (f c r n) s d p = Some (n, Inr no_payload)" for c r n s d p
    by (simp_all add: f_def)
  obtain k where k: "k < length ?is" "if_CanReach (?is ! k) 0 []"
    "Router_Send (foldl Router_Register NewRouter ?is) 0 [] no_payload = if_Deliver (?is ! k) 0 [] no_payload"
    "\<forall>j < length ?is. if_CanReach (?is ! j) 0 [] \<longrightarrow> if_Cost (?is ! k) < if_Cost (?is ! j) \<or> if_Cost (?is ! k) = if_Cost (?is ! j) \<and> k \<le> j"
    using router_cheapest [of ?is 0 "[]" no_payload] by (auto simp: f Let_def simp del: foldl_Cons)
  have "k = 2" using k(1,2) k(4) [rule_format, of 2] k(4) [rule_format, of 3]
    by (auto simp: f less_Suc_eq_0_disj numeral_eq_Suc)
  with k(3) have "Router_Send (foldl Router_Register NewRouter ?is) 0 [] no_payload = Some (3, Inr no_payload)" by (simp add: f del: foldl_Cons)
  then show ?thesis unfolding Let_def f_def .
qed

section \<open>Registration while a send is scanning\<close>

text \<open>
  \<open>Send\<close> copies the slice header under the lock and scans the entries after it has released it;
  \<open>Register\<close> appends to the same slice and sorts it. The memory behind the slice: an array at each
  address, as long as its capacity, unused slots empty. Appending to a full array moves to the array at
  \<open>fresh\<close> with \<open>spare n\<close> slots to spare, a choice of the runtime; sorting permutes the slots in place.
\<close>

record 'i slice =
  sl_mem :: "nat \<Rightarrow> 'i option list"
  sl_addr :: nat
  sl_len :: nat

definition view :: "'i slice \<Rightarrow> 'i list" where
  "view s = map the (take (sl_len s) (sl_mem s (sl_addr s)))"

definition append_iface :: "(nat \<Rightarrow> nat) \<Rightarrow> nat \<Rightarrow> 'i slice \<Rightarrow> 'i \<Rightarrow> 'i slice" where
  "append_iface spare fresh s i =
     (let n = sl_len s; a = sl_mem s (sl_addr s) in
      if n < length a then s\<lparr>sl_mem := (sl_mem s)(sl_addr s := a[n := Some i]), sl_len := n + 1\<rparr>
      else s\<lparr>sl_mem := (sl_mem s)(fresh := take n a @ Some i # replicate (spare n) None), sl_addr := fresh, sl_len := n + 1\<rparr>)"

definition sort_ifaces :: "('i \<Rightarrow> int) \<Rightarrow> 'i slice \<Rightarrow> 'i slice" where
  "sort_ifaces cost s =
     s\<lparr>sl_mem := (sl_mem s)(sl_addr s := map Some (sort_key cost (view s)) @ drop (sl_len s) (sl_mem s (sl_addr s)))\<rparr>"

definition Register_mem :: "(nat \<Rightarrow> nat) \<Rightarrow> ('i \<Rightarrow> int) \<Rightarrow> nat \<Rightarrow> 'i slice \<Rightarrow> 'i \<Rightarrow> 'i slice" where
  "Register_mem spare cost fresh s i = sort_ifaces cost (append_iface spare fresh s i)"

text \<open>A send to one destination: still scanning from entry \<open>k\<close> of its copy of the header, on its way to
  \<open>Deliver\<close>, or out of entries.\<close>

datatype 'i sending = Scan nat nat nat | Deliver 'i | NoRoute

inductive router_step :: "(nat \<Rightarrow> nat) \<Rightarrow> ('i \<Rightarrow> int) \<Rightarrow> ('i \<Rightarrow> bool) \<Rightarrow> 'i slice \<times> 'i sending \<Rightarrow> 'i slice \<times> 'i sending \<Rightarrow> bool"
  for spare cost reach where
  register: "sl_mem s fresh = [] \<Longrightarrow> fresh \<noteq> sl_addr s \<Longrightarrow>
    router_step spare cost reach (s, th) (Register_mem spare cost fresh s i, th)"
| hit: "k < n \<Longrightarrow> reach (the (sl_mem s a ! k)) \<Longrightarrow> router_step spare cost reach (s, Scan a n k) (s, Deliver (the (sl_mem s a ! k)))"
| miss: "k < n \<Longrightarrow> \<not> reach (the (sl_mem s a ! k)) \<Longrightarrow> router_step spare cost reach (s, Scan a n k) (s, Scan a n (k + 1))"
| none: "router_step spare cost reach (s, Scan a n n) (s, NoRoute)"

definition slice_ok :: "'i slice \<Rightarrow> bool" where
  "slice_ok s \<longleftrightarrow> sl_len s \<le> length (sl_mem s (sl_addr s)) \<and> None \<notin> set (take (sl_len s) (sl_mem s (sl_addr s)))"

lemma slice_ok_view: "slice_ok s \<Longrightarrow> take (sl_len s) (sl_mem s (sl_addr s)) = map Some (view s) \<and> length (view s) = sl_len s"
proof -
  have "None \<notin> set xs \<Longrightarrow> map (\<lambda>x. Some (the x)) xs = xs" for xs :: "'a option list"
    by (induction xs) auto
  then show "slice_ok s \<Longrightarrow> ?thesis" by (simp add: slice_ok_def view_def comp_def)
qed

lemma view_nth: "slice_ok s \<Longrightarrow> j < sl_len s \<Longrightarrow> the (sl_mem s (sl_addr s) ! j) = view s ! j"
  using slice_ok_view [of s] by (simp add: view_def)

lemma append_view:
  assumes "slice_ok s"
  shows "slice_ok (append_iface spare fresh s i) \<and> view (append_iface spare fresh s i) = view s @ [i]"
proof (cases "sl_len s < length (sl_mem s (sl_addr s))")
  case True
  then have "take (sl_len s + 1) ((sl_mem s (sl_addr s))[sl_len s := Some i]) = map Some (view s) @ [Some i]"
    using slice_ok_view [OF assms] by (simp add: take_Suc_conv_app_nth)
  then show ?thesis using True by (simp add: append_iface_def Let_def slice_ok_def view_def [of "s\<lparr>sl_mem := _, sl_len := _\<rparr>"] comp_def)
next
  case False
  then have "take (sl_len s + 1) (take (sl_len s) (sl_mem s (sl_addr s)) @ Some i # replicate (spare (sl_len s)) None) = map Some (view s) @ [Some i]"
    using slice_ok_view [OF assms] by simp
  then show ?thesis using False slice_ok_view [OF assms]
    by (simp add: append_iface_def Let_def slice_ok_def view_def [of "s\<lparr>sl_mem := _, sl_addr := _, sl_len := _\<rparr>"] comp_def)
qed

text \<open>Undisturbed, the slice implements the list of the router.\<close>

lemma Register_mem_view:
  assumes "slice_ok s"
  shows "slice_ok (Register_mem spare cost fresh s i) \<and> view (Register_mem spare cost fresh s i) = sort_key cost (view s @ [i])"
proof -
  let ?s = "append_iface spare fresh s i"
  note a = append_view [OF assms, of spare fresh i]
  from slice_ok_view [OF conjunct1 [OF a]] have len: "length (view ?s) = sl_len ?s" by simp
  show ?thesis using a len by (auto simp: Register_mem_def sort_ifaces_def slice_ok_def view_def [of "?s\<lparr>sl_mem := _\<rparr>"] comp_def)
qed

lemma scan_to_end:
  assumes "k \<le> n" and "\<forall>j. k \<le> j \<and> j < n \<longrightarrow> \<not> reach (the (sl_mem s a ! j))"
  shows "(router_step spare cost reach)\<^sup>*\<^sup>* (s, Scan a n k) (s, NoRoute)"
  using assms
proof (induction "n - k" arbitrary: k)
  case 0
  then have "k = n" by simp
  then show ?case using router_step.none by (metis r_into_rtranclp)
next
  case (Suc m)
  then have "k < n" and "\<not> reach (the (sl_mem s a ! k))" by auto
  then have "router_step spare cost reach (s, Scan a n k) (s, Scan a n (k + 1))" by (rule router_step.miss)
  moreover have "(router_step spare cost reach)\<^sup>*\<^sup>* (s, Scan a n (k + 1)) (s, NoRoute)" using Suc by auto
  ultimately show ?case by (rule converse_rtranclp_into_rtranclp)
qed

lemma sort_key_cheapest_last:
  assumes "sorted (map f ys)" and "\<forall>y \<in> set ys. f i < f y"
  shows "sort_key f (ys @ [i]) = i # ys"
proof (rule properties_for_sort_key)
  show "mset (i # ys) = mset (ys @ [i])" by simp
  have "filter (\<lambda>y. f i = f y) ys = []" using assms(2) by (auto simp: filter_empty_conv)
  then show "filter (\<lambda>y. f k = f y) (i # ys) = filter (\<lambda>y. f k = f y) (ys @ [i])" for k
    by (cases "f k = f i") simp_all
  show "sorted (map f (i # ys))" using assms by (auto simp: order.strict_implies_order)
qed

text \<open>A send that meets no registration takes the first reachable entry of the list.\<close>

lemma scan_first:
  assumes "slice_ok s" and "filter reach (view s) = x # xs"
  shows "(router_step spare cost reach)\<^sup>*\<^sup>* (s, Scan (sl_addr s) (sl_len s) 0) (s, Deliver x)"
proof -
  have "filter reach (view s) \<noteq> []" using assms(2) by simp
  from hd_filter_nth [OF this] assms(2) obtain m where
    m: "m < length (view s)" "x = view s ! m" "reach (view s ! m)" "\<forall>j < m. \<not> reach (view s ! j)" by auto
  have len: "length (view s) = sl_len s" using slice_ok_view [OF assms(1)] by simp
  note nth = view_nth [OF assms(1)]
  have "k \<le> m \<Longrightarrow> (router_step spare cost reach)\<^sup>*\<^sup>* (s, Scan (sl_addr s) (sl_len s) k) (s, Deliver x)" for k
  proof (induction "m - k" arbitrary: k)
    case 0
    then have "k = m" by simp
    then show ?case using router_step.hit [of m "sl_len s" reach s "sl_addr s" spare cost] m len nth by auto
  next
    case (Suc q)
    then have "k < m" by simp
    then have "router_step spare cost reach (s, Scan (sl_addr s) (sl_len s) k) (s, Scan (sl_addr s) (sl_len s) (k + 1))"
      using m len nth by (intro router_step.miss) auto
    then show ?case using Suc by (auto intro: converse_rtranclp_into_rtranclp)
  qed
  then show ?thesis by blast
qed

text \<open>C37. A registration hides a route from a running send: when the array behind the router has a slot
  to spare and only the last interface reaches the destination, registering a cheaper interface after
  the scan has passed its first entry shifts the entries under the scan, and the send ends with
  \<open>ErrNoRoute\<close> although the interface that reaches the destination was registered all the time.\<close>

theorem register_hides_route:
  assumes "slice_ok s" and "view s = x # xs @ [c]" and "sl_len s < length (sl_mem s (sl_addr s))"
    and "sorted (map cost (view s))" and "\<forall>y \<in> set (view s). cost i < cost y"
    and "\<forall>y \<in> set (x # xs). \<not> reach y" and "reach c" and "sl_mem s fresh = []" and "fresh \<noteq> sl_addr s"
  shows "(router_step spare cost reach)\<^sup>*\<^sup>* (s, Scan (sl_addr s) (sl_len s) 0) (Register_mem spare cost fresh s i, NoRoute) \<and>
    c \<in> set (view s) \<and> c \<in> set (view (Register_mem spare cost fresh s i))"
proof -
  let ?t = "Register_mem spare cost fresh s i"
  have len: "length (view s) = sl_len s" using slice_ok_view [OF assms(1)] by simp
  have view: "view ?t = i # view s"
    using Register_mem_view [OF assms(1), of spare cost fresh i] sort_key_cheapest_last [OF assms(4,5)] by simp
  have mem: "sl_addr ?t = sl_addr s" "sl_len ?t = sl_len s + 1"
    using assms(3) by (simp_all add: Register_mem_def sort_ifaces_def append_iface_def Let_def)
  have nth: "the (sl_mem ?t (sl_addr s) ! j) = (i # view s) ! j" if "j \<le> sl_len s" for j
    using view_nth [of ?t j] Register_mem_view [OF assms(1), of spare cost fresh i] that unfolding mem view by simp
  have first: "router_step spare cost reach (s, Scan (sl_addr s) (sl_len s) 0) (s, Scan (sl_addr s) (sl_len s) (0 + 1))"
  proof (rule router_step.miss)
    show "0 < sl_len s" using len assms(2) by auto
    have "the (sl_mem s (sl_addr s) ! 0) = view s ! 0" using len assms(2) by (intro view_nth [OF assms(1)]) auto
    then show "\<not> reach (the (sl_mem s (sl_addr s) ! 0))" using assms(2,6) by simp
  qed
  have second: "router_step spare cost reach (s, Scan (sl_addr s) (sl_len s) (0 + 1)) (?t, Scan (sl_addr s) (sl_len s) (0 + 1))"
    by (rule router_step.register [OF assms(8,9)])
  have rest: "(router_step spare cost reach)\<^sup>*\<^sup>* (?t, Scan (sl_addr s) (sl_len s) (0 + 1)) (?t, NoRoute)"
  proof (rule scan_to_end)
    show "0 + 1 \<le> sl_len s" using len assms(2) by auto
    show "\<forall>j. 0 + 1 \<le> j \<and> j < sl_len s \<longrightarrow> \<not> reach (the (sl_mem ?t (sl_addr s) ! j))"
    proof (intro allI impI)
      fix j assume j: "0 + 1 \<le> j \<and> j < sl_len s"
      then have "the (sl_mem ?t (sl_addr s) ! j) = (x # xs @ [c]) ! (j - 1)" using nth [of j] assms(2) by simp
      also have "\<dots> = (x # xs) ! (j - 1)" using j len assms(2) nth_append [of "x # xs" "[c]" "j - 1"] by auto
      also have "\<dots> \<in> set (x # xs)" using j len assms(2) by (intro nth_mem) auto
      finally show "\<not> reach (the (sl_mem ?t (sl_addr s) ! j))" using assms(6) by blast
    qed
  qed
  show ?thesis
    using converse_rtranclp_into_rtranclp [OF first converse_rtranclp_into_rtranclp [OF second rest]] view assms(2) by simp
qed

text \<open>Three interfaces of cost 10 in an array of four slots, as appending one at a time leaves them.\<close>

definition sample_slice :: "nat slice" where
  "sample_slice = \<lparr>sl_mem = (\<lambda>a. if a = 1 then [Some 11, Some 12, Some 13, None] else []), sl_addr = 1, sl_len = 3\<rparr>"

theorem register_hides_route_witness:
  "let cost = (\<lambda>i :: nat. if i = 14 then 0 else 10); t = Register_mem (\<lambda>_. 0) cost 2 sample_slice 14 in
   (router_step (\<lambda>_. 0) cost (\<lambda>i. i = 13))\<^sup>*\<^sup>* (sample_slice, Scan 1 3 0) (t, NoRoute) \<and> 13 \<in> set (view t)"
proof -
  let ?cost = "\<lambda>i :: nat. if i = 14 then 0 else 10 :: int"
  have v: "view sample_slice = 11 # [12] @ [13]" by (simp add: view_def sample_slice_def)
  from register_hides_route [of sample_slice 11 "[12]" 13 ?cost 14 "\<lambda>i. i = 13" 2 "\<lambda>_. 0"]
  show ?thesis by (simp add: v slice_ok_def Let_def) (simp add: sample_slice_def)
qed

end
