(* ===== verification/Zap_Schema.thy ===== *)
theory Zap_Schema
  imports Zap_Builder
begin

unbundle bit_operations_syntax

text \<open>
  \<open>src/schema.go\<close> and \<open>src/evm.go\<close>: the descriptions of message layouts, the builder that assigns field
  offsets, and the fixed-size EVM types with their readers, setters and hexadecimal forms. The theory
  shows that the layouts the builder computes can be written and read back through the message builder
  and the wire reader, whatever fields are declared.
\<close>

section \<open>Types and descriptions\<close>

type_synonym Type = u8

definition TypeVoid :: Type where "TypeVoid = 0"
definition TypeBool :: Type where "TypeBool = 1"
definition TypeInt8 :: Type where "TypeInt8 = 2"
definition TypeInt16 :: Type where "TypeInt16 = 3"
definition TypeInt32 :: Type where "TypeInt32 = 4"
definition TypeInt64 :: Type where "TypeInt64 = 5"
definition TypeUint8 :: Type where "TypeUint8 = 6"
definition TypeUint16 :: Type where "TypeUint16 = 7"
definition TypeUint32 :: Type where "TypeUint32 = 8"
definition TypeUint64 :: Type where "TypeUint64 = 9"
definition TypeFloat32 :: Type where "TypeFloat32 = 10"
definition TypeFloat64 :: Type where "TypeFloat64 = 11"
definition TypeText :: Type where "TypeText = 12"
definition TypeBytes :: Type where "TypeBytes = 13"
definition TypeList :: Type where "TypeList = 14"
definition TypeStruct :: Type where "TypeStruct = 15"
definition TypeEnum :: Type where "TypeEnum = 16"
definition TypeUnion :: Type where "TypeUnion = 17"

lemmas type_defs = TypeVoid_def TypeBool_def TypeInt8_def TypeInt16_def TypeInt32_def TypeInt64_def TypeUint8_def TypeUint16_def
  TypeUint32_def TypeUint64_def TypeFloat32_def TypeFloat64_def TypeText_def TypeBytes_def TypeList_def TypeStruct_def
  TypeEnum_def TypeUnion_def

text \<open>The default value of a field is never read and is left out.\<close>

record Field =
  f_Name :: string
  f_Type :: Type
  f_Offset :: int
  f_ListElem :: Type
  f_StructName :: string

record Struct =
  st_Name :: string
  st_Size :: int
  st_Fields :: "Field list"

record Enum =
  en_Name :: string
  en_Type :: Type
  en_Values :: "string \<rightharpoonup> u64"

record Schema =
  sc_Name :: string
  sc_Structs :: "string \<rightharpoonup> Struct"
  sc_Enums :: "string \<rightharpoonup> Enum"

definition NewSchema :: "string \<Rightarrow> Schema" where
  "NewSchema name = \<lparr>sc_Name = name, sc_Structs = Map.empty, sc_Enums = Map.empty\<rparr>"

definition AddStruct :: "Schema \<Rightarrow> Struct \<Rightarrow> Schema" where
  "AddStruct s st = s\<lparr>sc_Structs := (sc_Structs s)(st_Name st \<mapsto> st)\<rparr>"

definition AddEnum :: "Schema \<Rightarrow> Enum \<Rightarrow> Schema" where
  "AddEnum s e = s\<lparr>sc_Enums := (sc_Enums s)(en_Name e \<mapsto> e)\<rparr>"

definition TypeSize :: "Type \<Rightarrow> int" where
  "TypeSize t =
     (if t \<in> {TypeBool, TypeInt8, TypeUint8} then 1
      else if t \<in> {TypeInt16, TypeUint16} then 2
      else if t \<in> {TypeInt32, TypeUint32, TypeFloat32} then 4
      else if t \<in> {TypeInt64, TypeUint64, TypeFloat64} then 8
      else if t \<in> {TypeText, TypeBytes} then 8
      else if t = TypeList then 8
      else if t = TypeStruct then 4
      else 0)"

section \<open>The struct builder\<close>

record StructBuilder =
  sb_s :: Struct
  sb_offset :: int

definition NewStructBuilder :: "string \<Rightarrow> StructBuilder" where
  "NewStructBuilder name = \<lparr>sb_s = \<lparr>st_Name = name, st_Size = 0, st_Fields = []\<rparr>, sb_offset = 0\<rparr>"

definition sb_align :: "StructBuilder \<Rightarrow> int \<Rightarrow> StructBuilder" where
  "sb_align sb n = sb\<lparr>sb_offset := (sb_offset sb + n - 1) AND NOT (n - 1)\<rparr>"

text \<open>The common body of the methods: append a field at the current offset and advance.\<close>

definition add_field :: "StructBuilder \<Rightarrow> Field \<Rightarrow> int \<Rightarrow> StructBuilder" where
  "add_field sb f width =
     sb\<lparr>sb_s := (sb_s sb)\<lparr>st_Fields := st_Fields (sb_s sb) @ [f\<lparr>f_Offset := sb_offset sb\<rparr>]\<rparr>, sb_offset := sb_offset sb + width\<rparr>"

definition plain_field :: "string \<Rightarrow> Type \<Rightarrow> Field" where
  "plain_field name t = \<lparr>f_Name = name, f_Type = t, f_Offset = 0, f_ListElem = TypeVoid, f_StructName = []\<rparr>"

definition SB_Bool :: "StructBuilder \<Rightarrow> string \<Rightarrow> StructBuilder" where
  "SB_Bool sb name = add_field sb (plain_field name TypeBool) 1"

definition SB_Int32 :: "StructBuilder \<Rightarrow> string \<Rightarrow> StructBuilder" where
  "SB_Int32 sb name = add_field (sb_align sb 4) (plain_field name TypeInt32) 4"

definition SB_Int64 :: "StructBuilder \<Rightarrow> string \<Rightarrow> StructBuilder" where
  "SB_Int64 sb name = add_field (sb_align sb 8) (plain_field name TypeInt64) 8"

definition SB_Uint32 :: "StructBuilder \<Rightarrow> string \<Rightarrow> StructBuilder" where
  "SB_Uint32 sb name = add_field (sb_align sb 4) (plain_field name TypeUint32) 4"

definition SB_Uint64 :: "StructBuilder \<Rightarrow> string \<Rightarrow> StructBuilder" where
  "SB_Uint64 sb name = add_field (sb_align sb 8) (plain_field name TypeUint64) 8"

definition SB_Float64 :: "StructBuilder \<Rightarrow> string \<Rightarrow> StructBuilder" where
  "SB_Float64 sb name = add_field (sb_align sb 8) (plain_field name TypeFloat64) 8"

definition SB_Text :: "StructBuilder \<Rightarrow> string \<Rightarrow> StructBuilder" where
  "SB_Text sb name = add_field (sb_align sb 4) (plain_field name TypeText) 8"

definition SB_Bytes :: "StructBuilder \<Rightarrow> string \<Rightarrow> StructBuilder" where
  "SB_Bytes sb name = add_field (sb_align sb 4) (plain_field name TypeBytes) 8"

definition SB_List :: "StructBuilder \<Rightarrow> string \<Rightarrow> Type \<Rightarrow> StructBuilder" where
  "SB_List sb name elem = add_field (sb_align sb 4) ((plain_field name TypeList)\<lparr>f_ListElem := elem\<rparr>) 8"

definition SB_Struct :: "StructBuilder \<Rightarrow> string \<Rightarrow> string \<Rightarrow> StructBuilder" where
  "SB_Struct sb name sname = add_field (sb_align sb 4) ((plain_field name TypeStruct)\<lparr>f_StructName := sname\<rparr>) 4"

definition SB_Build :: "StructBuilder \<Rightarrow> Struct" where
  "SB_Build sb = (let sb1 = sb_align sb 8 in (sb_s sb1)\<lparr>st_Size := sb_offset sb1\<rparr>)"

section \<open>EVM types\<close>

definition AddressSize :: nat where "AddressSize = 20"
definition HashSize :: nat where "HashSize = 32"
definition SignatureSize :: nat where "SignatureSize = 65"
definition BloomSize :: nat where "BloomSize = 256"

lemmas evm_sizes = AddressSize_def HashSize_def SignatureSize_def

definition SB_Address :: "StructBuilder \<Rightarrow> string \<Rightarrow> StructBuilder" where
  "SB_Address sb name = add_field (sb_align sb 1) (plain_field name TypeBytes) (int AddressSize)"

definition SB_Hash :: "StructBuilder \<Rightarrow> string \<Rightarrow> StructBuilder" where
  "SB_Hash sb name = add_field (sb_align sb 1) (plain_field name TypeBytes) (int HashSize)"

definition SB_Signature :: "StructBuilder \<Rightarrow> string \<Rightarrow> StructBuilder" where
  "SB_Signature sb name = add_field (sb_align sb 1) (plain_field name TypeBytes) (int SignatureSize)"

text \<open>The readers return a copy, all zero where the message is too short; the slices are nil there.\<close>

definition read_array :: "nat \<Rightarrow> Object \<Rightarrow> int \<Rightarrow> bytes option" where
  "read_array n o1 fieldOffset = do {
     m \<leftarrow> o_msg o1;
     let pos = o_offset o1 + fieldOffset;
     if int (length (msg_data m)) < pos + int n then Some (replicate n 0) else slice_at (msg_data m) pos (pos + int n) }"

definition read_array_slice :: "nat \<Rightarrow> Object \<Rightarrow> int \<Rightarrow> bytes option option" where
  "read_array_slice n o1 fieldOffset = do {
     m \<leftarrow> o_msg o1;
     let pos = o_offset o1 + fieldOffset;
     if int (length (msg_data m)) < pos + int n then Some None else map_option Some (slice_at (msg_data m) pos (pos + int n)) }"

definition Object_Address :: "Object \<Rightarrow> int \<Rightarrow> bytes option" where "Object_Address = read_array AddressSize"
definition Object_Hash :: "Object \<Rightarrow> int \<Rightarrow> bytes option" where "Object_Hash = read_array HashSize"
definition Object_Signature :: "Object \<Rightarrow> int \<Rightarrow> bytes option" where "Object_Signature = read_array SignatureSize"
definition Object_AddressSlice :: "Object \<Rightarrow> int \<Rightarrow> bytes option option" where "Object_AddressSlice = read_array_slice AddressSize"
definition Object_HashSlice :: "Object \<Rightarrow> int \<Rightarrow> bytes option option" where "Object_HashSlice = read_array_slice HashSize"

definition write_array :: "Builder \<Rightarrow> ObjectBuilder \<Rightarrow> int \<Rightarrow> nat \<Rightarrow> bytes \<Rightarrow> Builder option" where
  "write_array b ob fieldOffset n v = do {
     b1 \<leftarrow> ensureField b ob (fieldOffset + int n);
     buf \<leftarrow> copy_at (b_buf b1) (ob_startPos ob + fieldOffset) v;
     Some (b1\<lparr>b_buf := buf\<rparr>) }"

definition SetAddress :: "Builder \<Rightarrow> ObjectBuilder \<Rightarrow> int \<Rightarrow> bytes \<Rightarrow> Builder option" where
  "SetAddress b ob fieldOffset addr = write_array b ob fieldOffset AddressSize addr"

definition SetHash :: "Builder \<Rightarrow> ObjectBuilder \<Rightarrow> int \<Rightarrow> bytes \<Rightarrow> Builder option" where
  "SetHash b ob fieldOffset h = write_array b ob fieldOffset HashSize h"

definition SetSignature :: "Builder \<Rightarrow> ObjectBuilder \<Rightarrow> int \<Rightarrow> bytes \<Rightarrow> Builder option" where
  "SetSignature b ob fieldOffset sig = write_array b ob fieldOffset SignatureSize sig"

definition list_array :: "nat \<Rightarrow> List \<Rightarrow> int \<Rightarrow> bytes option" where
  "list_array n l i =
     (if i < 0 \<or> l_length l \<le> i then Some (replicate n 0)
      else do {
        m \<leftarrow> l_msg l;
        let pos = l_offset l + i * int n;
        if int (length (msg_data m)) < pos + int n then Some (replicate n 0) else slice_at (msg_data m) pos (pos + int n) })"

definition List_Address :: "List \<Rightarrow> int \<Rightarrow> bytes option" where "List_Address = list_array AddressSize"
definition List_Hash :: "List \<Rightarrow> int \<Rightarrow> bytes option" where "List_Hash = list_array HashSize"

section \<open>Hexadecimal forms\<close>

text \<open>The digits of \<open>encoding/hex\<close>, and its decoder, which keeps what it decoded before an error.\<close>

definition hexdigit :: "nat \<Rightarrow> byte" where
  "hexdigit n = of_nat (if n < 10 then 48 + n else 87 + n)"

definition unhex :: "byte \<Rightarrow> nat option" where
  "unhex ch =
     (let n = unat ch in
      if 48 \<le> n \<and> n \<le> 57 then Some (n - 48)
      else if 97 \<le> n \<and> n \<le> 102 then Some (n - 87)
      else if 65 \<le> n \<and> n \<le> 70 then Some (n - 55)
      else None)"

fun hex_encode :: "bytes \<Rightarrow> bytes" where
  "hex_encode [] = []"
| "hex_encode (b # bs) = hexdigit (unat b div 16) # hexdigit (unat b mod 16) # hex_encode bs"

datatype hex_error = InvalidByte | OddLength | InvalidLength

fun hex_decode :: "bytes \<Rightarrow> bytes \<times> hex_error option" where
  "hex_decode (p # q # rest) =
     (case unhex p of
        None \<Rightarrow> ([], Some InvalidByte)
      | Some a \<Rightarrow>
          (case unhex q of
             None \<Rightarrow> ([], Some InvalidByte)
           | Some b \<Rightarrow> (case hex_decode rest of (bs, e) \<Rightarrow> (of_nat (16 * a + b) # bs, e))))"
| "hex_decode [p] = ([], Some (if unhex p = None then InvalidByte else OddLength))"
| "hex_decode [] = ([], None)"

definition strip_0x :: "bytes \<Rightarrow> bytes" where
  "strip_0x s = (if 2 \<le> length s \<and> s ! 0 = 48 \<and> (s ! 1 = 120 \<or> s ! 1 = 88) then drop 2 s else s)"

definition array_from_hex :: "nat \<Rightarrow> bytes \<Rightarrow> bytes \<times> hex_error option" where
  "array_from_hex n s0 =
     (let s = strip_0x s0 in
      if length s \<noteq> n * 2 then (replicate n 0, Some InvalidLength)
      else case hex_decode s of (bs, e) \<Rightarrow> (take n (bs @ replicate n 0), e))"

definition AddressFromHex :: "bytes \<Rightarrow> bytes \<times> hex_error option" where "AddressFromHex = array_from_hex AddressSize"
definition HashFromHex :: "bytes \<Rightarrow> bytes \<times> hex_error option" where "HashFromHex = array_from_hex HashSize"

definition Address_Hex :: "bytes \<Rightarrow> bytes" where "Address_Hex a = [48, 120] @ hex_encode a"
definition Hash_Hex :: "bytes \<Rightarrow> bytes" where "Hash_Hex h = [48, 120] @ hex_encode h"

definition Address_IsZero :: "bytes \<Rightarrow> bool" where "Address_IsZero a \<longleftrightarrow> a = replicate AddressSize 0"
definition Hash_IsZero :: "bytes \<Rightarrow> bool" where "Hash_IsZero h \<longleftrightarrow> h = replicate HashSize 0"

section \<open>The EVM schemas\<close>

definition TransactionSchema :: Struct where
  "TransactionSchema =
     (let s = NewStructBuilder ''Transaction''; s = SB_Hash s ''hash''; s = SB_Uint64 s ''nonce''; s = SB_Address s ''from'';
          s = SB_Address s ''to''; s = SB_Bytes s ''value''; s = SB_Bytes s ''data''; s = SB_Uint64 s ''gas'';
          s = SB_Bytes s ''gasPrice''; s = SB_Uint64 s ''chainId''; s = SB_Signature s ''signature'' in SB_Build s)"

definition BlockHeaderSchema :: Struct where
  "BlockHeaderSchema =
     (let s = NewStructBuilder ''BlockHeader''; s = SB_Hash s ''parentHash''; s = SB_Hash s ''uncleHash''; s = SB_Address s ''coinbase'';
          s = SB_Hash s ''stateRoot''; s = SB_Hash s ''transactionsRoot''; s = SB_Hash s ''receiptsRoot''; s = SB_Bytes s ''logsBloom'';
          s = SB_Uint64 s ''difficulty''; s = SB_Uint64 s ''number''; s = SB_Uint64 s ''gasLimit''; s = SB_Uint64 s ''gasUsed'';
          s = SB_Uint64 s ''timestamp''; s = SB_Bytes s ''extraData''; s = SB_Hash s ''mixHash''; s = SB_Uint64 s ''nonce'' in SB_Build s)"

definition LogSchema :: Struct where
  "LogSchema =
     (let s = NewStructBuilder ''Log''; s = SB_Address s ''address''; s = SB_List s ''topics'' TypeBytes; s = SB_Bytes s ''data'';
          s = SB_Uint64 s ''blockNumber''; s = SB_Hash s ''txHash''; s = SB_Uint32 s ''txIndex''; s = SB_Hash s ''blockHash'';
          s = SB_Uint32 s ''logIndex''; s = SB_Bool s ''removed'' in SB_Build s)"

section \<open>Layouts\<close>

text \<open>The calls of a struct builder as data, with the width and the alignment of each field.\<close>

datatype sb_call =
    CBool string | CInt32 string | CInt64 string | CUint32 string | CUint64 string | CFloat64 string | CText string
  | CBytes string | CList string Type | CStruct string string | CAddress string | CHash string | CSignature string

fun run_call :: "StructBuilder \<Rightarrow> sb_call \<Rightarrow> StructBuilder" where
  "run_call sb (CBool n) = SB_Bool sb n"
| "run_call sb (CInt32 n) = SB_Int32 sb n"
| "run_call sb (CInt64 n) = SB_Int64 sb n"
| "run_call sb (CUint32 n) = SB_Uint32 sb n"
| "run_call sb (CUint64 n) = SB_Uint64 sb n"
| "run_call sb (CFloat64 n) = SB_Float64 sb n"
| "run_call sb (CText n) = SB_Text sb n"
| "run_call sb (CBytes n) = SB_Bytes sb n"
| "run_call sb (CList n t) = SB_List sb n t"
| "run_call sb (CStruct n t) = SB_Struct sb n t"
| "run_call sb (CAddress n) = SB_Address sb n"
| "run_call sb (CHash n) = SB_Hash sb n"
| "run_call sb (CSignature n) = SB_Signature sb n"

fun call_width :: "sb_call \<Rightarrow> int" where
  "call_width (CBool n) = 1"
| "call_width (CInt32 n) = 4"
| "call_width (CInt64 n) = 8"
| "call_width (CUint32 n) = 4"
| "call_width (CUint64 n) = 8"
| "call_width (CFloat64 n) = 8"
| "call_width (CText n) = 8"
| "call_width (CBytes n) = 8"
| "call_width (CList n t) = 8"
| "call_width (CStruct n t) = 4"
| "call_width (CAddress n) = 20"
| "call_width (CHash n) = 32"
| "call_width (CSignature n) = 65"

fun call_align :: "sb_call \<Rightarrow> int" where
  "call_align (CBool n) = 1"
| "call_align (CInt64 n) = 8"
| "call_align (CUint64 n) = 8"
| "call_align (CFloat64 n) = 8"
| "call_align (CAddress n) = 1"
| "call_align (CHash n) = 1"
| "call_align (CSignature n) = 1"
| "call_align _ = 4"

definition layout :: "string \<Rightarrow> sb_call list \<Rightarrow> Struct" where
  "layout name calls = SB_Build (foldl run_call (NewStructBuilder name) calls)"

lemma and_not_mask: "(x :: int) AND NOT (mask e) = (x div 2 ^ e) * 2 ^ e"
proof -
  have "x AND NOT (mask e) = push_bit e (drop_bit e x)" by (rule bit_eqI) (auto simp: bit_simps)
  then show ?thesis by (simp add: push_bit_eq_mult drop_bit_eq_div)
qed

definition align_up :: "int \<Rightarrow> int \<Rightarrow> int" where
  "align_up n x = ((x + n - 1) div n) * n"

lemma sb_align_offset: "n \<in> {1, 4, 8} \<Longrightarrow> sb_offset (sb_align sb n) = align_up n (sb_offset sb)"
  using and_not_mask [of _ 0] and_not_mask [of _ 2] and_not_mask [of _ 3]
  by (auto simp: sb_align_def align_up_def mask_eq_exp_minus_1)

lemma align_up_bounds: "0 < n \<Longrightarrow> x \<le> align_up n x \<and> align_up n x < x + n \<and> n dvd align_up n x"
  unfolding align_up_def
  by (smt (verit, best) dvd_triv_right minus_mult_div_eq_mod mult.commute pos_mod_bound pos_mod_sign)

lemma call_align_set: "call_align c \<in> {1, 4, 8}"
  by (cases c) auto

lemma sb_align_1: "sb_align sb 1 = sb"
  by (simp add: sb_align_def)

lemma run_call_field:
  "\<exists>f. run_call sb c = add_field (sb_align sb (call_align c)) f (call_width c)"
  by (cases c) (auto simp: SB_Bool_def SB_Int32_def SB_Int64_def SB_Uint32_def SB_Uint64_def SB_Float64_def SB_Text_def SB_Bytes_def
      SB_List_def SB_Struct_def SB_Address_def SB_Hash_def SB_Signature_def evm_sizes sb_align_1)

lemma run_call_effect:
  "sb_offset (run_call sb c) = align_up (call_align c) (sb_offset sb) + call_width c"
  "map f_Offset (st_Fields (sb_s (run_call sb c))) = map f_Offset (st_Fields (sb_s sb)) @ [align_up (call_align c) (sb_offset sb)]"
  using run_call_field [of sb c] sb_align_offset [OF call_align_set, of sb c] by (auto simp: add_field_def sb_align_def)

text \<open>The offsets the builder assigns from a starting offset, and where they end.\<close>

fun offsets :: "int \<Rightarrow> sb_call list \<Rightarrow> int list" where
  "offsets o1 [] = []"
| "offsets o1 (c # cs) = (let p = align_up (call_align c) o1 in p # offsets (p + call_width c) cs)"

fun end_of :: "int \<Rightarrow> sb_call list \<Rightarrow> int" where
  "end_of o1 [] = o1"
| "end_of o1 (c # cs) = end_of (align_up (call_align c) o1 + call_width c) cs"

lemma run_calls_effect:
  "sb_offset (foldl run_call sb cs) = end_of (sb_offset sb) cs \<and>
   map f_Offset (st_Fields (sb_s (foldl run_call sb cs))) = map f_Offset (st_Fields (sb_s sb)) @ offsets (sb_offset sb) cs"
  by (induction cs arbitrary: sb) (simp_all add: run_call_effect Let_def)

lemma layout_eq: "st_Size (layout name cs) = align_up 8 (end_of 0 cs) \<and> map f_Offset (st_Fields (layout name cs)) = offsets 0 cs"
  using run_calls_effect [of "NewStructBuilder name" cs] sb_align_offset [of 8 "foldl run_call (NewStructBuilder name) cs"]
  by (simp add: layout_def SB_Build_def Let_def NewStructBuilder_def) (simp add: sb_align_def)

lemma call_width_pos: "0 < call_width c"
  by (cases c) auto

lemma offsets_sorted:
  assumes "list_all2 (\<lambda>p op. op_off op = p) (offsets o1 cs) ops" and "list_all2 (\<lambda>c op. op_width op = call_width c) cs ops"
  shows "sorted_wrt ops_disjoint ops \<and> o1 \<le> end_of o1 cs \<and> (\<forall>op \<in> set ops. o1 \<le> op_off op \<and> op_off op + op_width op \<le> end_of o1 cs)"
  using assms
proof (induction cs arbitrary: o1 ops)
  case (Cons c cs)
  let ?p = "align_up (call_align c) o1"
  obtain op ops' where ops: "ops = op # ops'" "op_off op = ?p" "op_width op = call_width c"
    "list_all2 (\<lambda>p op. op_off op = p) (offsets (?p + call_width c) cs) ops'" "list_all2 (\<lambda>c op. op_width op = call_width c) cs ops'"
    using Cons.prems by (auto simp: list_all2_Cons1 Let_def)
  have "0 < call_align c" using call_align_set [of c] by auto
  then have p: "o1 \<le> ?p" using align_up_bounds by blast
  from Cons.IH [OF ops(4,5)] p call_width_pos [of c] ops(1-3) show ?case by (auto simp: ops_disjoint_def)
qed simp

text \<open>C34. Every layout works: whatever fields are declared on a struct builder, in whatever order, an
  object of the size it computes, with each declared field set by a setter of that field's width at
  that field's offset, is built without a panic and reads back every value from the parsed message.\<close>

theorem schema_layout_roundtrip:
  assumes "builder_ready b" and "list_all2 (\<lambda>f op. op_off op = f_Offset f) (st_Fields (layout name calls)) ops"
    and "list_all2 (\<lambda>c op. op_width op = call_width c) calls ops" and "\<forall>op \<in> set ops. target_ok (b_pos b) op"
    and "b_pos b + 8 + st_Size (layout name calls) + int (sum_list (map (length \<circ> op_tail) ops)) < 2 ^ 31"
  shows "\<exists>b' out m o1. build_root b (st_Size (layout name calls)) ops = Some (b', out) \<and> Parse out = Inr m \<and>
    Message_Root m = Some o1 \<and> (\<forall>op \<in> set ops. field_reads o1 op)"
proof -
  have "list_all2 (\<lambda>p op. op_off op = p) (map f_Offset (st_Fields (layout name calls))) ops"
    using assms(2) by (simp add: list_all2_map1)
  then have off: "list_all2 (\<lambda>p op. op_off op = p) (offsets 0 calls) ops" using layout_eq [of name calls] by simp
  have size: "end_of 0 calls \<le> st_Size (layout name calls)" using layout_eq [of name calls] align_up_bounds [of 8 "end_of 0 calls"] by simp
  from offsets_sorted [OF off assms(3)] size
  have "sorted_wrt ops_disjoint ops" "0 \<le> st_Size (layout name calls)" "\<forall>op \<in> set ops. op_in (st_Size (layout name calls)) op"
    by (auto simp: op_in_def)
  with build_root_spec [of b "st_Size (layout name calls)" ops] assms(1,4,5) show ?thesis by blast
qed

definition sample_address :: bytes where
  "sample_address = replicate 20 7"

lemma length_sample_address [simp]: "length sample_address = 20"
  by (simp add: sample_address_def)

theorem schema_layout_roundtrip_witness:
  "\<exists>b' out m o1. build_root (NewBuilder 256) (st_Size (layout ''T'' [CBool ''a'', CAddress ''b'', CUint64 ''c'']))
      [OpUint8 0 1, OpBytesFixed 1 sample_address, OpUint64 24 99] = Some (b', out) \<and> Parse out = Inr m \<and>
    Message_Root m = Some o1 \<and> field_reads o1 (OpBytesFixed 1 sample_address) \<and> field_reads o1 (OpUint64 24 99)"
proof -
  let ?cs = "[CBool ''a'', CAddress ''b'', CUint64 ''c'']" and ?ops = "[OpUint8 0 1, OpBytesFixed 1 sample_address, OpUint64 24 99]"
  have lay: "map f_Offset (st_Fields (layout ''T'' ?cs)) = [0, 1, 24]" "st_Size (layout ''T'' ?cs) = 32"
    using layout_eq [of "''T''" ?cs] by (simp_all add: align_up_def Let_def)
  have "list_all2 (\<lambda>p op. op_off op = p) (map f_Offset (st_Fields (layout ''T'' ?cs))) ?ops" unfolding lay(1) by simp
  then have off: "list_all2 (\<lambda>f op. op_off op = f_Offset f) (st_Fields (layout ''T'' ?cs)) ?ops" by (simp only: list_all2_map1)
  have width: "list_all2 (\<lambda>c op. op_width op = call_width c) ?cs ?ops" by simp
  have tgt: "\<forall>op \<in> set ?ops. target_ok (b_pos (NewBuilder 256)) op" by simp
  have "b_pos (NewBuilder 256) + 8 + st_Size (layout ''T'' ?cs) + int (sum_list (map (length \<circ> op_tail) ?ops)) < 2 ^ 31"
    by (simp add: lay(2))
  from schema_layout_roundtrip [OF NewBuilder_facts(2) off width tgt this] obtain b' out m o1 where
    r: "build_root (NewBuilder 256) (st_Size (layout ''T'' ?cs)) ?ops = Some (b', out)" "Parse out = Inr m" "Message_Root m = Some o1"
      "\<forall>op \<in> set ?ops. field_reads o1 op" by blast
  have "field_reads o1 (OpBytesFixed 1 sample_address)" "field_reads o1 (OpUint64 24 99)"
    using r(4) by (simp_all del: field_reads.simps)
  with r(1-3) show ?thesis by blast
qed

section \<open>EVM fields\<close>

lemma set_array_eq:
  "length a = AddressSize \<Longrightarrow> SetAddress b ob fo a = run_op b ob (OpBytesFixed fo a)"
  "length h = HashSize \<Longrightarrow> SetHash b ob fo h = run_op b ob (OpBytesFixed fo h)"
  "length g = SignatureSize \<Longrightarrow> SetSignature b ob fo g = run_op b ob (OpBytesFixed fo g)"
  by (auto simp: SetAddress_def SetHash_def SetSignature_def write_array_def SetBytesFixed_def evm_sizes)

lemma read_array_field:
  assumes "field_reads o1 (OpBytesFixed fo a)" and "length a = n" and "0 < n"
  shows "read_array n o1 fo = Some a \<and> read_array_slice n o1 fo = Some (Some a)"
  using assms by (cases "o_msg o1") (auto simp: Object_BytesFixedSlice_def read_array_def read_array_slice_def Let_def split: if_splits)

lemma read_evm_fields:
  "field_reads o1 (OpBytesFixed fo a) \<Longrightarrow> length a = AddressSize \<Longrightarrow> Object_Address o1 fo = Some a \<and> Object_AddressSlice o1 fo = Some (Some a)"
  "field_reads o1 (OpBytesFixed fo a) \<Longrightarrow> length a = HashSize \<Longrightarrow> Object_Hash o1 fo = Some a \<and> Object_HashSlice o1 fo = Some (Some a)"
  "field_reads o1 (OpBytesFixed fo a) \<Longrightarrow> length a = SignatureSize \<Longrightarrow> Object_Signature o1 fo = Some a"
  using read_array_field [of o1 fo a]
  by (simp_all add: Object_Address_def Object_AddressSlice_def Object_Hash_def Object_HashSlice_def Object_Signature_def evm_sizes del: field_reads.simps)

lemma evm_schemas:
  "TransactionSchema = layout ''Transaction'' [CHash ''hash'', CUint64 ''nonce'', CAddress ''from'', CAddress ''to'', CBytes ''value'',
     CBytes ''data'', CUint64 ''gas'', CBytes ''gasPrice'', CUint64 ''chainId'', CSignature ''signature'']"
  "BlockHeaderSchema = layout ''BlockHeader'' [CHash ''parentHash'', CHash ''uncleHash'', CAddress ''coinbase'', CHash ''stateRoot'',
     CHash ''transactionsRoot'', CHash ''receiptsRoot'', CBytes ''logsBloom'', CUint64 ''difficulty'', CUint64 ''number'', CUint64 ''gasLimit'',
     CUint64 ''gasUsed'', CUint64 ''timestamp'', CBytes ''extraData'', CHash ''mixHash'', CUint64 ''nonce'']"
  "LogSchema = layout ''Log'' [CAddress ''address'', CList ''topics'' TypeBytes, CBytes ''data'', CUint64 ''blockNumber'', CHash ''txHash'',
     CUint32 ''txIndex'', CHash ''blockHash'', CUint32 ''logIndex'', CBool ''removed'']"
  by (simp_all only: TransactionSchema_def BlockHeaderSchema_def LogSchema_def layout_def Let_def foldl.simps run_call.simps)

section \<open>Hexadecimal round trips\<close>

definition lower_hex :: "byte \<Rightarrow> byte" where
  "lower_hex ch = (if 65 \<le> unat ch \<and> unat ch \<le> 70 then of_nat (unat ch + 32) else ch)"

lemma unhex_hexdigit: "n < 16 \<Longrightarrow> unhex (hexdigit n) = Some n"
  by (auto simp: unhex_def hexdigit_def unat_of_nat)

lemma hexdigit_unhex: "unhex ch = Some n \<Longrightarrow> n < 16 \<and> hexdigit n = lower_hex ch"
  by (auto simp: unhex_def hexdigit_def lower_hex_def Let_def word_unat_eq_iff unat_of_nat unat_word_ariths split: if_splits)

lemma hex_decode_encode: "hex_decode (hex_encode bs) = (bs, None)"
proof (induction bs)
  case (Cons b bs)
  have "unat b div 16 < 16" using unat_bounds(1) [of b] by simp
  then show ?case using Cons by (simp add: unhex_hexdigit)
qed simp

lemma length_hex_encode [simp]: "length (hex_encode bs) = 2 * length bs"
  by (induction bs) auto

lemma hex_encode_decode: "hex_decode s = (bs, None) \<Longrightarrow> hex_encode bs = map lower_hex s \<and> length s = 2 * length bs"
proof (induction s arbitrary: bs rule: hex_decode.induct)
  case (1 p q rest)
  obtain a b rs where d: "unhex p = Some a" "unhex q = Some b" "hex_decode rest = (rs, None)" "bs = of_nat (16 * a + b) # rs"
    using 1(2) by (auto split: option.splits prod.splits)
  have ab: "a < 16" "b < 16" using hexdigit_unhex d(1,2) by blast+
  then have "unat (of_nat (16 * a + b) :: byte) = 16 * a + b" by (simp add: unat_byte_of_nat del: of_nat_add of_nat_mult)
  then have "hex_encode [of_nat (16 * a + b)] = [lower_hex p, lower_hex q]"
    using ab hexdigit_unhex [OF d(1)] hexdigit_unhex [OF d(2)] by (simp del: of_nat_add of_nat_mult)
  then show ?case using 1(1) [OF d(1,2,3)] d(4) by simp
qed auto

text \<open>Hexadecimal round trip of addresses and hashes: the printed form parses to the same value, and
  whatever parses without an error has the right length and prints as the digits it was given, in lower
  case, behind \<open>0x\<close>.\<close>

lemma evm_hex_roundtrip:
  "(length a = AddressSize \<longrightarrow> AddressFromHex (Address_Hex a) = (a, None)) \<and>
   (length h = HashSize \<longrightarrow> HashFromHex (Hash_Hex h) = (h, None)) \<and>
   (AddressFromHex s = (v, None) \<longrightarrow> length v = AddressSize \<and> Address_Hex v = [48, 120] @ map lower_hex (strip_0x s)) \<and>
   (HashFromHex s = (v, None) \<longrightarrow> length v = HashSize \<and> Hash_Hex v = [48, 120] @ map lower_hex (strip_0x s))"
proof -
  have print: "length x = n \<Longrightarrow> array_from_hex n ([48, 120] @ hex_encode x) = (x, None)" for n x
    by (simp add: array_from_hex_def strip_0x_def hex_decode_encode Let_def)
  have parse: "array_from_hex n s = (v, None) \<Longrightarrow> length v = n \<and> hex_encode v = map lower_hex (strip_0x s)" for n
    using hex_encode_decode [of "strip_0x s"] by (auto simp: array_from_hex_def Let_def split: if_splits prod.splits)
  show ?thesis using print [of a AddressSize] print [of h HashSize] parse [of AddressSize] parse [of HashSize]
    unfolding AddressFromHex_def HashFromHex_def Address_Hex_def Hash_Hex_def by simp
qed

end
