(* ===== verification/Dex_Wire.thy ===== *)
theory Dex_Wire
  imports Zap_Builder Zap_Codec
begin

text \<open>
  The frames of the DEX session protocol (\<open>src/dexsession/wire.go\<close>, \<open>wire_intent.go\<close> and the route frames
  of \<open>v4route.go\<close>): every request and response as a record, its layout constants, its builder on a ZAP
  message builder and its reader on the parsed root object. \<open>[20]byte\<close> and \<open>[32]byte\<close> are byte lists whose
  width the well-formedness predicates state; a \<open>uint8\<close> enumeration keeps its byte, because the readers
  accept any value. A builder's outer \<open>None\<close> is a panic and \<open>Inl\<close> the error of \<open>zap.Parse\<close>.
\<close>

named_theorems dex_layout

section \<open>Values\<close>

type_synonym Account = bytes
type_synonym ID = bytes

definition ZeroID :: ID where "ZeroID = replicate 32 0"
definition ZeroAccount :: Account where "ZeroAccount = replicate 20 0"

definition MsgQuote :: u16 where "MsgQuote = 0xA0"
definition MsgGetState :: u16 where "MsgGetState = 0xA1"
definition MsgPrepare :: u16 where "MsgPrepare = 0xA2"
definition MsgNotify :: u16 where "MsgNotify = 0xA3"
definition MsgWatchPoll :: u16 where "MsgWatchPoll = 0xA4"
definition MsgImport :: u16 where "MsgImport = 0xA5"
definition MsgPipeline :: u16 where "MsgPipeline = 0xA6"
definition MsgAdminHalt :: u16 where "MsgAdminHalt = 0xA7"
definition MsgWatchPush :: u16 where "MsgWatchPush = 0xA8"
definition MsgRoutePrepare :: u16 where "MsgRoutePrepare = 0xA9"
definition MsgRouteStatus :: u16 where "MsgRouteStatus = 0xAA"

lemmas msg_types = MsgQuote_def MsgGetState_def MsgPrepare_def MsgNotify_def MsgWatchPoll_def MsgImport_def
  MsgPipeline_def MsgAdminHalt_def MsgWatchPush_def MsgRoutePrepare_def MsgRouteStatus_def

text \<open>The calls every frame builder makes: a builder of capacity \<open>cap\<close>, one object with its setters, the
  object as root, and the message type in the upper byte of the flags. \<open>SetBool\<close> is a byte, \<open>SetText\<close> is
  \<open>SetBytes\<close>.\<close>

abbreviation OpBool :: "int \<Rightarrow> bool \<Rightarrow> field_op" where
  "OpBool fo v \<equiv> OpUint8 fo (if v then 1 else 0)"

definition buildFrame :: "int \<Rightarrow> int \<Rightarrow> field_op list \<Rightarrow> u16 \<Rightarrow> (zap_error + Message) option" where
  "buildFrame cap dataSize ops msgType = do {
     (b1, ob) \<leftarrow> StartObject (NewBuilder cap) dataSize;
     b2 \<leftarrow> run_ops b1 ob ops;
     (b3, out) \<leftarrow> FinishWithFlags (fst (FinishAsRoot b2 ob)) (push_bit 8 msgType);
     Some (Parse out) }"

text \<open>\<open>copy(dst[:], r.BytesFixedSlice(off, n))\<close> on a zero array, and \<open>append([]byte(nil), r.Bytes(off)...)\<close>.\<close>

definition copyFixed :: "Object \<Rightarrow> int \<Rightarrow> nat \<Rightarrow> bytes option" where
  "copyFixed r off n = do {
     s \<leftarrow> Object_BytesFixedSlice r off (int n);
     Some (case s of None \<Rightarrow> replicate n 0 | Some xs \<Rightarrow> take n xs @ replicate (n - length xs) 0) }"

definition copyBytes :: "Object \<Rightarrow> int \<Rightarrow> bytes option" where
  "copyBytes r off = do {
     s \<leftarrow> Object_Bytes r off;
     Some (case s of None \<Rightarrow> [] | Some xs \<Rightarrow> xs) }"

section \<open>Quotes and state\<close>

definition qReqMarket :: int where [dex_layout]: "qReqMarket = 0"
definition qReqAmount :: int where [dex_layout]: "qReqAmount = 32"
definition qReqZForOne :: int where [dex_layout]: "qReqZForOne = 40"
definition qReqSize :: int where [dex_layout]: "qReqSize = 48"

record QuoteRequest =
  qreq_MarketID :: ID
  qreq_AmountIn :: u64
  qreq_ZeroForOne :: bool

definition buildQuoteRequest :: "QuoteRequest \<Rightarrow> (zap_error + Message) option" where
  "buildQuoteRequest r = buildFrame (qReqSize + 40) qReqSize
     [OpBytesFixed qReqMarket (qreq_MarketID r),
      OpUint64 qReqAmount (qreq_AmountIn r),
      OpBool qReqZForOne (qreq_ZeroForOne r)] MsgQuote"

definition readQuoteRequest :: "Message \<Rightarrow> QuoteRequest option" where
  "readQuoteRequest m = do {
     r \<leftarrow> Message_Root m;
     vMarketID \<leftarrow> copyFixed r qReqMarket 32;
     vAmountIn \<leftarrow> Object_Uint64 r qReqAmount;
     vZeroForOne \<leftarrow> Object_Bool r qReqZForOne;
     Some \<lparr>qreq_MarketID = vMarketID, qreq_AmountIn = vAmountIn, qreq_ZeroForOne = vZeroForOne\<rparr> }"

definition qResMarket :: int where [dex_layout]: "qResMarket = 0"
definition qResIn :: int where [dex_layout]: "qResIn = 32"
definition qResOut :: int where [dex_layout]: "qResOut = 40"
definition qResPrice :: int where [dex_layout]: "qResPrice = 48"
definition qResLiquid :: int where [dex_layout]: "qResLiquid = 56"
definition qResSize :: int where [dex_layout]: "qResSize = 64"

record QuoteResult =
  qres_MarketID :: ID
  qres_AmountIn :: u64
  qres_AmountOut :: u64
  qres_BestPricePx :: u64
  qres_Liquid :: bool

definition buildQuoteResult :: "QuoteResult \<Rightarrow> (zap_error + Message) option" where
  "buildQuoteResult r = buildFrame (qResSize + 40) qResSize
     [OpBytesFixed qResMarket (qres_MarketID r),
      OpUint64 qResIn (qres_AmountIn r),
      OpUint64 qResOut (qres_AmountOut r),
      OpUint64 qResPrice (qres_BestPricePx r),
      OpBool qResLiquid (qres_Liquid r)] MsgQuote"

definition readQuoteResult :: "Message \<Rightarrow> QuoteResult option" where
  "readQuoteResult m = do {
     r \<leftarrow> Message_Root m;
     vMarketID \<leftarrow> copyFixed r qResMarket 32;
     vAmountIn \<leftarrow> Object_Uint64 r qResIn;
     vAmountOut \<leftarrow> Object_Uint64 r qResOut;
     vBestPricePx \<leftarrow> Object_Uint64 r qResPrice;
     vLiquid \<leftarrow> Object_Bool r qResLiquid;
     Some \<lparr>qres_MarketID = vMarketID, qres_AmountIn = vAmountIn, qres_AmountOut = vAmountOut, qres_BestPricePx = vBestPricePx, qres_Liquid = vLiquid\<rparr> }"

definition StateMarket :: u8 where "StateMarket = 0"
definition StateBalance :: u8 where "StateBalance = 1"
definition StateIntent :: u8 where "StateIntent = 2"

definition sReqKind :: int where [dex_layout]: "sReqKind = 0"
definition sReqMarket :: int where [dex_layout]: "sReqMarket = 8"
definition sReqAccount :: int where [dex_layout]: "sReqAccount = 40"
definition sReqAsset :: int where [dex_layout]: "sReqAsset = 60"
definition sReqIntent :: int where [dex_layout]: "sReqIntent = 92"
definition sReqSize :: int where [dex_layout]: "sReqSize = 124"

record StateRequest =
  sreq_Kind :: u8
  sreq_MarketID :: ID
  sreq_Account :: Account
  sreq_Asset :: ID
  sreq_IntentID :: ID

definition buildStateRequest :: "StateRequest \<Rightarrow> (zap_error + Message) option" where
  "buildStateRequest r = buildFrame (sReqSize + 128) sReqSize
     [OpUint8 sReqKind (sreq_Kind r),
      OpBytesFixed sReqMarket (sreq_MarketID r),
      OpBytesFixed sReqAccount (sreq_Account r),
      OpBytesFixed sReqAsset (sreq_Asset r),
      OpBytesFixed sReqIntent (sreq_IntentID r)] MsgGetState"

definition readStateRequest :: "Message \<Rightarrow> StateRequest option" where
  "readStateRequest m = do {
     r \<leftarrow> Message_Root m;
     vKind \<leftarrow> Object_Uint8 r sReqKind;
     vMarketID \<leftarrow> copyFixed r sReqMarket 32;
     vAccount \<leftarrow> copyFixed r sReqAccount 20;
     vAsset \<leftarrow> copyFixed r sReqAsset 32;
     vIntentID \<leftarrow> copyFixed r sReqIntent 32;
     Some \<lparr>sreq_Kind = vKind, sreq_MarketID = vMarketID, sreq_Account = vAccount, sreq_Asset = vAsset, sreq_IntentID = vIntentID\<rparr> }"

definition sResKind :: int where [dex_layout]: "sResKind = 0"
definition sResExists :: int where [dex_layout]: "sResExists = 1"
definition sResKnown :: int where [dex_layout]: "sResKnown = 2"
definition sResAvail :: int where [dex_layout]: "sResAvail = 8"
definition sResBase :: int where [dex_layout]: "sResBase = 16"
definition sResQuote :: int where [dex_layout]: "sResQuote = 48"
definition sResSize :: int where [dex_layout]: "sResSize = 80"

record StateResult =
  sres_Kind :: u8
  sres_Exists :: bool
  sres_BaseID :: ID
  sres_QuoteID :: ID
  sres_Available :: u64
  sres_Known :: bool

definition buildStateResult :: "StateResult \<Rightarrow> (zap_error + Message) option" where
  "buildStateResult r = buildFrame (sResSize + 80) sResSize
     [OpUint8 sResKind (sres_Kind r),
      OpBool sResExists (sres_Exists r),
      OpBool sResKnown (sres_Known r),
      OpUint64 sResAvail (sres_Available r),
      OpBytesFixed sResBase (sres_BaseID r),
      OpBytesFixed sResQuote (sres_QuoteID r)] MsgGetState"

definition readStateResult :: "Message \<Rightarrow> StateResult option" where
  "readStateResult m = do {
     r \<leftarrow> Message_Root m;
     vKind \<leftarrow> Object_Uint8 r sResKind;
     vExists \<leftarrow> Object_Bool r sResExists;
     vKnown \<leftarrow> Object_Bool r sResKnown;
     vAvailable \<leftarrow> Object_Uint64 r sResAvail;
     vBaseID \<leftarrow> copyFixed r sResBase 32;
     vQuoteID \<leftarrow> copyFixed r sResQuote 32;
     Some \<lparr>sres_Kind = vKind, sres_Exists = vExists, sres_BaseID = vBaseID, sres_QuoteID = vQuoteID, sres_Available = vAvailable, sres_Known = vKnown\<rparr> }"

section \<open>Intents\<close>

definition sirNet :: int where [dex_layout]: "sirNet = 0"
definition sirAmountIn :: int where [dex_layout]: "sirAmountIn = 8"
definition sirMinOut :: int where [dex_layout]: "sirMinOut = 16"
definition sirDeadline :: int where [dex_layout]: "sirDeadline = 24"
definition sirNonce :: int where [dex_layout]: "sirNonce = 32"
definition sirCChain :: int where [dex_layout]: "sirCChain = 40"
definition sirDChain :: int where [dex_layout]: "sirDChain = 72"
definition sirAccount :: int where [dex_layout]: "sirAccount = 104"
definition sirAssetIn :: int where [dex_layout]: "sirAssetIn = 124"
definition sirAssetAddr :: int where [dex_layout]: "sirAssetAddr = 156"
definition sirMarket :: int where [dex_layout]: "sirMarket = 176"
definition sirRecipient :: int where [dex_layout]: "sirRecipient = 208"
definition sirSize :: int where [dex_layout]: "sirSize = 228"

record SwapIntentRequest =
  sir_NetworkID :: u32
  sir_CChainID :: ID
  sir_DChainID :: ID
  sir_Account :: Account
  sir_AssetIn :: ID
  sir_AssetInAddr :: Account
  sir_AmountIn :: u64
  sir_MarketID :: ID
  sir_MinAmountOut :: u64
  sir_Recipient :: Account
  sir_Deadline :: u64
  sir_Nonce :: u64

definition buildSwapIntentRequest :: "SwapIntentRequest \<Rightarrow> (zap_error + Message) option" where
  "buildSwapIntentRequest r = buildFrame (sirSize + 256) sirSize
     [OpUint32 sirNet (sir_NetworkID r),
      OpUint64 sirAmountIn (sir_AmountIn r),
      OpUint64 sirMinOut (sir_MinAmountOut r),
      OpUint64 sirDeadline (sir_Deadline r),
      OpUint64 sirNonce (sir_Nonce r),
      OpBytesFixed sirCChain (sir_CChainID r),
      OpBytesFixed sirDChain (sir_DChainID r),
      OpBytesFixed sirAccount (sir_Account r),
      OpBytesFixed sirAssetIn (sir_AssetIn r),
      OpBytesFixed sirAssetAddr (sir_AssetInAddr r),
      OpBytesFixed sirMarket (sir_MarketID r),
      OpBytesFixed sirRecipient (sir_Recipient r)] MsgPrepare"

definition readSwapIntentRequest :: "Message \<Rightarrow> SwapIntentRequest option" where
  "readSwapIntentRequest m = do {
     r \<leftarrow> Message_Root m;
     vNetworkID \<leftarrow> Object_Uint32 r sirNet;
     vAmountIn \<leftarrow> Object_Uint64 r sirAmountIn;
     vMinAmountOut \<leftarrow> Object_Uint64 r sirMinOut;
     vDeadline \<leftarrow> Object_Uint64 r sirDeadline;
     vNonce \<leftarrow> Object_Uint64 r sirNonce;
     vCChainID \<leftarrow> copyFixed r sirCChain 32;
     vDChainID \<leftarrow> copyFixed r sirDChain 32;
     vAccount \<leftarrow> copyFixed r sirAccount 20;
     vAssetIn \<leftarrow> copyFixed r sirAssetIn 32;
     vAssetInAddr \<leftarrow> copyFixed r sirAssetAddr 20;
     vMarketID \<leftarrow> copyFixed r sirMarket 32;
     vRecipient \<leftarrow> copyFixed r sirRecipient 20;
     Some \<lparr>sir_NetworkID = vNetworkID, sir_CChainID = vCChainID, sir_DChainID = vDChainID, sir_Account = vAccount, sir_AssetIn = vAssetIn, sir_AssetInAddr = vAssetInAddr, sir_AmountIn = vAmountIn, sir_MarketID = vMarketID, sir_MinAmountOut = vMinAmountOut, sir_Recipient = vRecipient, sir_Deadline = vDeadline, sir_Nonce = vNonce\<rparr> }"

definition piTo :: int where [dex_layout]: "piTo = 0"
definition piIntent :: int where [dex_layout]: "piIntent = 20"
definition piQuoted :: int where [dex_layout]: "piQuoted = 52"
definition piAmountIn :: int where [dex_layout]: "piAmountIn = 60"
definition piDChain :: int where [dex_layout]: "piDChain = 68"
definition piCChain :: int where [dex_layout]: "piCChain = 100"
definition piAccount :: int where [dex_layout]: "piAccount = 132"
definition piRecipient :: int where [dex_layout]: "piRecipient = 152"
definition piAssetIn :: int where [dex_layout]: "piAssetIn = 172"
definition piMarket :: int where [dex_layout]: "piMarket = 204"
definition piCalldata :: int where [dex_layout]: "piCalldata = 236"
definition piHookData :: int where [dex_layout]: "piHookData = 244"
definition piSize :: int where [dex_layout]: "piSize = 252"

record PreparedIntent =
  pi_To :: Account
  pi_Calldata :: bytes
  pi_HookData :: bytes
  pi_IntentID :: ID
  pi_QuotedOut :: u64
  pi_DChainID :: ID
  pi_CChainID :: ID
  pi_Account :: Account
  pi_Recipient :: Account
  pi_AssetIn :: ID
  pi_AmountIn :: u64
  pi_MarketID :: ID

definition buildPreparedIntent :: "PreparedIntent \<Rightarrow> u16 \<Rightarrow> (zap_error + Message) option" where
  "buildPreparedIntent r msgType = buildFrame (piSize + int (length (pi_Calldata r)) + int (length (pi_HookData r)) + 256) piSize
     [OpBytesFixed piTo (pi_To r),
      OpBytesFixed piIntent (pi_IntentID r),
      OpUint64 piQuoted (pi_QuotedOut r),
      OpUint64 piAmountIn (pi_AmountIn r),
      OpBytesFixed piDChain (pi_DChainID r),
      OpBytesFixed piCChain (pi_CChainID r),
      OpBytesFixed piAccount (pi_Account r),
      OpBytesFixed piRecipient (pi_Recipient r),
      OpBytesFixed piAssetIn (pi_AssetIn r),
      OpBytesFixed piMarket (pi_MarketID r),
      OpBytes piCalldata (pi_Calldata r),
      OpBytes piHookData (pi_HookData r)] msgType"

definition readPreparedIntent :: "Message \<Rightarrow> PreparedIntent option" where
  "readPreparedIntent m = do {
     r \<leftarrow> Message_Root m;
     vTo \<leftarrow> copyFixed r piTo 20;
     vIntentID \<leftarrow> copyFixed r piIntent 32;
     vQuotedOut \<leftarrow> Object_Uint64 r piQuoted;
     vAmountIn \<leftarrow> Object_Uint64 r piAmountIn;
     vDChainID \<leftarrow> copyFixed r piDChain 32;
     vCChainID \<leftarrow> copyFixed r piCChain 32;
     vAccount \<leftarrow> copyFixed r piAccount 20;
     vRecipient \<leftarrow> copyFixed r piRecipient 20;
     vAssetIn \<leftarrow> copyFixed r piAssetIn 32;
     vMarketID \<leftarrow> copyFixed r piMarket 32;
     vCalldata \<leftarrow> copyBytes r piCalldata;
     vHookData \<leftarrow> copyBytes r piHookData;
     Some \<lparr>pi_To = vTo, pi_Calldata = vCalldata, pi_HookData = vHookData, pi_IntentID = vIntentID, pi_QuotedOut = vQuotedOut, pi_DChainID = vDChainID, pi_CChainID = vCChainID, pi_Account = vAccount, pi_Recipient = vRecipient, pi_AssetIn = vAssetIn, pi_AmountIn = vAmountIn, pi_MarketID = vMarketID\<rparr> }"

section \<open>Export pointers, watches and settlements\<close>

definition derIndex :: int where [dex_layout]: "derIndex = 0"
definition derChain :: int where [dex_layout]: "derChain = 8"
definition derTx :: int where [dex_layout]: "derTx = 40"
definition derIntent :: int where [dex_layout]: "derIntent = 72"
definition derSize :: int where [dex_layout]: "derSize = 104"

record DExportRef =
  der_SourceChainID :: ID
  der_SourceTxID :: ID
  der_OutputIndex :: u32
  der_IntentID :: ID

definition buildDExportRef :: "DExportRef \<Rightarrow> (zap_error + Message) option" where
  "buildDExportRef r = buildFrame (derSize + 120) derSize
     [OpUint32 derIndex (der_OutputIndex r),
      OpBytesFixed derChain (der_SourceChainID r),
      OpBytesFixed derTx (der_SourceTxID r),
      OpBytesFixed derIntent (der_IntentID r)] MsgImport"

definition readDExportRef :: "Message \<Rightarrow> DExportRef option" where
  "readDExportRef m = do {
     r \<leftarrow> Message_Root m;
     vOutputIndex \<leftarrow> Object_Uint32 r derIndex;
     vSourceChainID \<leftarrow> copyFixed r derChain 32;
     vSourceTxID \<leftarrow> copyFixed r derTx 32;
     vIntentID \<leftarrow> copyFixed r derIntent 32;
     Some \<lparr>der_SourceChainID = vSourceChainID, der_SourceTxID = vSourceTxID, der_OutputIndex = vOutputIndex, der_IntentID = vIntentID\<rparr> }"

definition ZeroRef :: DExportRef where
  "ZeroRef = \<lparr>der_SourceChainID = ZeroID, der_SourceTxID = ZeroID, der_OutputIndex = 0, der_IntentID = ZeroID\<rparr>"

definition PhasePending :: u8 where "PhasePending = 0"
definition PhaseMatching :: u8 where "PhaseMatching = 1"
definition PhaseCommitted :: u8 where "PhaseCommitted = 2"
definition PhaseRejected :: u8 where "PhaseRejected = 3"
definition PhaseUnknown :: u8 where "PhaseUnknown = 4"

definition isPhase :: int where [dex_layout]: "isPhase = 0"
definition isIndex :: int where [dex_layout]: "isIndex = 4"
definition isIntent :: int where [dex_layout]: "isIntent = 8"
definition isChain :: int where [dex_layout]: "isChain = 40"
definition isTx :: int where [dex_layout]: "isTx = 72"
definition isMatched :: int where [dex_layout]: "isMatched = 104"
definition isReason :: int where [dex_layout]: "isReason = 112"
definition isSize :: int where [dex_layout]: "isSize = 120"

record IntentStatus =
  is_IntentID :: ID
  is_Phase :: u8
  is_Ref :: DExportRef
  is_Reason :: bytes
  is_MatchedOut :: u64

definition buildIntentStatus :: "IntentStatus \<Rightarrow> (zap_error + Message) option" where
  "buildIntentStatus s = buildFrame (isSize + int (length (is_Reason s)) + 160) isSize
     [OpUint8 isPhase (is_Phase s),
      OpUint32 isIndex (der_OutputIndex (is_Ref s)),
      OpBytesFixed isIntent (is_IntentID s),
      OpBytesFixed isChain (der_SourceChainID (is_Ref s)),
      OpBytesFixed isTx (der_SourceTxID (is_Ref s)),
      OpUint64 isMatched (is_MatchedOut s),
      OpBytes isReason (is_Reason s)] MsgWatchPoll"

definition readIntentStatus :: "Message \<Rightarrow> IntentStatus option" where
  "readIntentStatus m = do {
     r \<leftarrow> Message_Root m;
     phase \<leftarrow> Object_Uint8 r isPhase;
     intentID \<leftarrow> copyFixed r isIntent 32;
     index \<leftarrow> Object_Uint32 r isIndex;
     chain \<leftarrow> copyFixed r isChain 32;
     tx \<leftarrow> copyFixed r isTx 32;
     matched \<leftarrow> Object_Uint64 r isMatched;
     reason \<leftarrow> Object_Text r isReason;
     Some \<lparr>is_IntentID = intentID, is_Phase = phase,
       is_Ref = \<lparr>der_SourceChainID = chain, der_SourceTxID = tx, der_OutputIndex = index, der_IntentID = intentID\<rparr>,
       is_Reason = reason, is_MatchedOut = matched\<rparr> }"

definition iwIntent :: int where [dex_layout]: "iwIntent = 0"
definition iwSize :: int where [dex_layout]: "iwSize = 32"

record IntentWatchRef =
  iw_IntentID :: ID

definition buildIntentWatchRef :: "IntentWatchRef \<Rightarrow> (zap_error + Message) option" where
  "buildIntentWatchRef r = buildFrame (iwSize + 40) iwSize
     [OpBytesFixed iwIntent (iw_IntentID r)] MsgNotify"

definition readIntentWatchRef :: "Message \<Rightarrow> IntentWatchRef option" where
  "readIntentWatchRef m = do {
     r \<leftarrow> Message_Root m;
     vIntentID \<leftarrow> copyFixed r iwIntent 32;
     Some \<lparr>iw_IntentID = vIntentID\<rparr> }"

definition buildWatchPollRequest :: "ID \<Rightarrow> (zap_error + Message) option" where
  "buildWatchPollRequest intentID = buildFrame (iwSize + 40) iwSize [OpBytesFixed iwIntent intentID] MsgWatchPoll"

definition readWatchPollRequest :: "Message \<Rightarrow> ID option" where
  "readWatchPollRequest m = do { r \<leftarrow> Message_Root m; copyFixed r iwIntent 32 }"

definition SettleCalldata :: u8 where "SettleCalldata = 0"
definition SettleSubmitted :: u8 where "SettleSubmitted = 1"

definition ssMode :: int where [dex_layout]: "ssMode = 0"
definition ssTo :: int where [dex_layout]: "ssTo = 8"
definition ssObjKey :: int where [dex_layout]: "ssObjKey = 28"
definition ssCTx :: int where [dex_layout]: "ssCTx = 60"
definition ssCall :: int where [dex_layout]: "ssCall = 92"
definition ssSize :: int where [dex_layout]: "ssSize = 100"

record SettlementSubmitResult =
  ss_Mode :: u8
  ss_To :: Account
  ss_Calldata :: bytes
  ss_ObjectKey :: ID
  ss_CTxHash :: ID

definition buildSettlementResult :: "SettlementSubmitResult \<Rightarrow> (zap_error + Message) option" where
  "buildSettlementResult r = buildFrame (ssSize + int (length (ss_Calldata r)) + 120) ssSize
     [OpUint8 ssMode (ss_Mode r),
      OpBytesFixed ssTo (ss_To r),
      OpBytesFixed ssObjKey (ss_ObjectKey r),
      OpBytesFixed ssCTx (ss_CTxHash r),
      OpBytes ssCall (ss_Calldata r)] MsgImport"

definition readSettlementResult :: "Message \<Rightarrow> SettlementSubmitResult option" where
  "readSettlementResult m = do {
     r \<leftarrow> Message_Root m;
     vMode \<leftarrow> Object_Uint8 r ssMode;
     vTo \<leftarrow> copyFixed r ssTo 20;
     vObjectKey \<leftarrow> copyFixed r ssObjKey 32;
     vCTxHash \<leftarrow> copyFixed r ssCTx 32;
     vCalldata \<leftarrow> copyBytes r ssCall;
     Some \<lparr>ss_Mode = vMode, ss_To = vTo, ss_Calldata = vCalldata, ss_ObjectKey = vObjectKey, ss_CTxHash = vCTxHash\<rparr> }"

section \<open>Routes\<close>

definition RoutePending :: u8 where "RoutePending = 0"
definition RouteHopping :: u8 where "RouteHopping = 1"
definition RouteCommitted :: u8 where "RouteCommitted = 2"
definition RouteRefunded :: u8 where "RouteRefunded = 3"
definition RouteRejected :: u8 where "RouteRejected = 4"
definition RouteUnknown :: u8 where "RouteUnknown = 5"

definition rrNet :: int where [dex_layout]: "rrNet = 0"
definition rrCallIdx :: int where [dex_layout]: "rrCallIdx = 4"
definition rrHopCount :: int where [dex_layout]: "rrHopCount = 8"
definition rrAmountIn :: int where [dex_layout]: "rrAmountIn = 16"
definition rrMinOut :: int where [dex_layout]: "rrMinOut = 24"
definition rrDeadline :: int where [dex_layout]: "rrDeadline = 32"
definition rrCChain :: int where [dex_layout]: "rrCChain = 40"
definition rrDChain :: int where [dex_layout]: "rrDChain = 72"
definition rrAccount :: int where [dex_layout]: "rrAccount = 104"
definition rrAssetIn :: int where [dex_layout]: "rrAssetIn = 124"
definition rrAssetAddr :: int where [dex_layout]: "rrAssetAddr = 156"
definition rrRecipient :: int where [dex_layout]: "rrRecipient = 176"
definition rrPath :: int where [dex_layout]: "rrPath = 196"
definition rrSize :: int where [dex_layout]: "rrSize = 204"

record RouteRequest =
  rr_NetworkID :: u32
  rr_CChainID :: ID
  rr_DChainID :: ID
  rr_Account :: Account
  rr_AssetIn :: ID
  rr_AssetInAddr :: Account
  rr_AmountIn :: u64
  rr_Path :: "ID list"
  rr_MinAmountOut :: u64
  rr_Recipient :: Account
  rr_Deadline :: u64
  rr_CallIndex :: u32

definition firstMarket :: "RouteRequest \<Rightarrow> ID \<times> bool" where
  "firstMarket r = (case rr_Path r of [] \<Rightarrow> (ZeroID, False) | p # _ \<Rightarrow> (p, True))"

definition buildRouteRequest :: "RouteRequest \<Rightarrow> (zap_error + Message) option" where
  "buildRouteRequest r =
     (let pathBytes = concat (rr_Path r) in
      buildFrame (rrSize + int (length pathBytes) + 128) rrSize
       [OpUint32 rrNet (rr_NetworkID r),
        OpUint32 rrCallIdx (rr_CallIndex r),
        OpUint32 rrHopCount (word_of_int (int (length (rr_Path r)))),
        OpUint64 rrAmountIn (rr_AmountIn r),
        OpUint64 rrMinOut (rr_MinAmountOut r),
        OpUint64 rrDeadline (rr_Deadline r),
        OpBytesFixed rrCChain (rr_CChainID r),
        OpBytesFixed rrDChain (rr_DChainID r),
        OpBytesFixed rrAccount (rr_Account r),
        OpBytesFixed rrAssetIn (rr_AssetIn r),
        OpBytesFixed rrAssetAddr (rr_AssetInAddr r),
        OpBytesFixed rrRecipient (rr_Recipient r),
        OpBytes rrPath pathBytes] MsgRoutePrepare)"

text \<open>The loop that cuts the path bytes into market ids: \<open>n\<close> turns from index \<open>i\<close> on.\<close>

fun readPath :: "bytes \<Rightarrow> nat \<Rightarrow> int \<Rightarrow> ID list option" where
  "readPath pathBytes 0 i = Some []"
| "readPath pathBytes (Suc n) i = do {
     p \<leftarrow> slice_at pathBytes (i * 32) ((i + 1) * 32);
     ps \<leftarrow> readPath pathBytes n (i + 1);
     Some (p # ps) }"

definition readRouteRequest :: "Message \<Rightarrow> RouteRequest option" where
  "readRouteRequest m = do {
     r \<leftarrow> Message_Root m;
     net \<leftarrow> Object_Uint32 r rrNet;
     callIndex \<leftarrow> Object_Uint32 r rrCallIdx;
     hops \<leftarrow> Object_Uint32 r rrHopCount;
     amountIn \<leftarrow> Object_Uint64 r rrAmountIn;
     minOut \<leftarrow> Object_Uint64 r rrMinOut;
     deadline \<leftarrow> Object_Uint64 r rrDeadline;
     cChain \<leftarrow> copyFixed r rrCChain 32;
     dChain \<leftarrow> copyFixed r rrDChain 32;
     account \<leftarrow> copyFixed r rrAccount 20;
     assetIn \<leftarrow> copyFixed r rrAssetIn 32;
     assetAddr \<leftarrow> copyFixed r rrAssetAddr 20;
     recipient \<leftarrow> copyFixed r rrRecipient 20;
     pathBytes \<leftarrow> copyBytes r rrPath;
     let hopCount = (if length pathBytes div 32 < unat hops then length pathBytes div 32 else unat hops);
     path \<leftarrow> readPath pathBytes hopCount 0;
     Some \<lparr>rr_NetworkID = net, rr_CChainID = cChain, rr_DChainID = dChain, rr_Account = account, rr_AssetIn = assetIn,
       rr_AssetInAddr = assetAddr, rr_AmountIn = amountIn, rr_Path = path, rr_MinAmountOut = minOut, rr_Recipient = recipient,
       rr_Deadline = deadline, rr_CallIndex = callIndex\<rparr> }"

definition rsPhase :: int where [dex_layout]: "rsPhase = 0"
definition rsHopIndex :: int where [dex_layout]: "rsHopIndex = 4"
definition rsHopCount :: int where [dex_layout]: "rsHopCount = 8"
definition rsRefIndex :: int where [dex_layout]: "rsRefIndex = 12"
definition rsHopOut :: int where [dex_layout]: "rsHopOut = 16"
definition rsFinalOut :: int where [dex_layout]: "rsFinalOut = 24"
definition rsIntent :: int where [dex_layout]: "rsIntent = 32"
definition rsRefChain :: int where [dex_layout]: "rsRefChain = 64"
definition rsRefTx :: int where [dex_layout]: "rsRefTx = 96"
definition rsReason :: int where [dex_layout]: "rsReason = 128"
definition rsSize :: int where [dex_layout]: "rsSize = 136"

record RouteStatus =
  rs_IntentID :: ID
  rs_Phase :: u8
  rs_HopIndex :: u32
  rs_HopCount :: u32
  rs_HopAmountOut :: u64
  rs_FinalOut :: u64
  rs_Ref :: DExportRef
  rs_Reason :: bytes

definition buildRouteStatus :: "RouteStatus \<Rightarrow> (zap_error + Message) option" where
  "buildRouteStatus s = buildFrame (rsSize + int (length (rs_Reason s)) + 160) rsSize
     [OpUint8 rsPhase (rs_Phase s),
      OpUint32 rsHopIndex (rs_HopIndex s),
      OpUint32 rsHopCount (rs_HopCount s),
      OpUint32 rsRefIndex (der_OutputIndex (rs_Ref s)),
      OpUint64 rsHopOut (rs_HopAmountOut s),
      OpUint64 rsFinalOut (rs_FinalOut s),
      OpBytesFixed rsIntent (rs_IntentID s),
      OpBytesFixed rsRefChain (der_SourceChainID (rs_Ref s)),
      OpBytesFixed rsRefTx (der_SourceTxID (rs_Ref s)),
      OpBytes rsReason (rs_Reason s)] MsgRouteStatus"

definition readRouteStatus :: "Message \<Rightarrow> RouteStatus option" where
  "readRouteStatus m = do {
     r \<leftarrow> Message_Root m;
     phase \<leftarrow> Object_Uint8 r rsPhase;
     hopIndex \<leftarrow> Object_Uint32 r rsHopIndex;
     hopCount \<leftarrow> Object_Uint32 r rsHopCount;
     index \<leftarrow> Object_Uint32 r rsRefIndex;
     hopOut \<leftarrow> Object_Uint64 r rsHopOut;
     finalOut \<leftarrow> Object_Uint64 r rsFinalOut;
     intentID \<leftarrow> copyFixed r rsIntent 32;
     chain \<leftarrow> copyFixed r rsRefChain 32;
     tx \<leftarrow> copyFixed r rsRefTx 32;
     reason \<leftarrow> Object_Text r rsReason;
     let ref = \<lparr>der_SourceChainID = chain, der_SourceTxID = tx, der_OutputIndex = index, der_IntentID = intentID\<rparr>;
     Some \<lparr>rs_IntentID = intentID, rs_Phase = phase, rs_HopIndex = hopIndex, rs_HopCount = hopCount,
       rs_HopAmountOut = hopOut, rs_FinalOut = finalOut,
       rs_Ref = (if phase \<noteq> RouteCommitted \<and> phase \<noteq> RouteRefunded then ZeroRef else ref), rs_Reason = reason\<rparr> }"

definition buildRouteWatchPoll :: "ID \<Rightarrow> (zap_error + Message) option" where
  "buildRouteWatchPoll intentID = buildFrame (iwSize + 40) iwSize [OpBytesFixed iwIntent intentID] MsgRouteStatus"

definition readRouteWatchPoll :: "Message \<Rightarrow> ID option" where
  "readRouteWatchPoll m = do { r \<leftarrow> Message_Root m; copyFixed r iwIntent 32 }"

section \<open>One frame\<close>

lemma push_bit_flags: "drop_bit 8 (push_bit 8 t) = take_bit 8 t" for t :: u16
  by (rule bit_word_eqI) (auto simp: bit_simps)

lemma flagged_ready:
  fixes fl :: u16
  assumes "builder_ready b"
  defines "b' \<equiv> b\<lparr>b_buf := lput (b_buf b) 6 (le16 fl)\<rparr>"
  shows "builder_ready b'" "live b' = lput (live b) 6 (le16 fl)" "b_pos b' = b_pos b"
proof -
  have len: "16 \<le> b_pos b" "b_pos b \<le> int (length (b_buf b))" "hdr_ok (live b)"
    using assms(1) by (simp_all add: builder_ready_def bwf_def HeaderSize_def)
  show lv: "live b' = lput (live b) 6 (le16 fl)"
    using len by (simp add: b'_def live_def lput_def take_drop min_def)
  have "take 6 (live b') = take 6 (live b)" unfolding lv using len by (simp add: lput_def live_def)
  then have "hdr_ok (live b')" using hdr_ok_take len(3) by blast
  then show "builder_ready b'" using len by (simp add: builder_ready_def bwf_def HeaderSize_def b'_def)
qed (simp add: b'_def)

lemma FinishWithFlags_live:
  assumes "bwf b" and "16 \<le> b_pos b"
  shows "\<exists>b'. FinishWithFlags b fl = Some (b', lput (lput (live b) 6 (le16 fl)) 8
           (le32 (word_of_int (b_rootOffset b)) @ le32 (word_of_int (b_pos b))))"
proof -
  let ?b = "b\<lparr>b_buf := lput (b_buf b) 6 (le16 fl)\<rparr>"
  have len: "b_pos b \<le> int (length (b_buf b))" "16 \<le> length (b_buf b)" using assms by (simp_all add: bwf_def)
  have "bwf ?b" "live ?b = lput (live b) 6 (le16 fl)"
    using assms len by (simp_all add: bwf_def live_def lput_def take_drop min_def)
  moreover have "FinishWithFlags b fl = Builder_Finish ?b"
    using len by (simp add: FinishWithFlags_def lput_put_at)
  ultimately show ?thesis using Builder_Finish_live [of ?b] assms by simp
qed

lemma buildFrame_spec:
  assumes sz: "0 \<le> sz" and ops: "\<forall>op \<in> set ops. op_in sz op \<and> target_ok 16 op" "sorted_wrt ops_disjoint ops"
    and small: "24 + sz + int (sum_list (map (length \<circ> op_tail) ops)) < 2 ^ 31"
  shows "\<exists>m o1. buildFrame cap sz ops t = Some (Inr m) \<and> Parse (msg_data m) = Inr m \<and>
    Message_Flags m = Some (push_bit 8 t) \<and> Message_Root m = Some o1 \<and> (\<forall>op \<in> set ops. field_reads o1 op)"
proof -
  define b where "b = NewBuilder cap"
  define fl :: u16 where "fl = push_bit 8 t"
  define c where "c = b\<lparr>b_buf := lput (b_buf b) 6 (le16 fl)\<rparr>"
  have b: "builder_ready b" "b_pos b = 16" by (simp_all add: b_def)
  note c = flagged_ready [OF b(1), of fl, folded c_def]
  have wf: "bwf b" "HeaderSize \<le> b_pos b" "bwf c" "HeaderSize \<le> b_pos c"
    using b(1) c(1) by (simp_all add: builder_ready_def)
  have "in": "\<forall>op \<in> set ops. op_in sz op" using ops by simp
  obtain b1 ob where so: "StartObject b sz = Some (b1, ob)" "bwf b1"
    "ob_startPos ob = root_start b" "live b1 = live b @ replicate (nat (pad8 (b_pos b) + sz)) 0"
    using StartObject_live [OF wf(1) sz] unfolding root_start_def by blast
  note st = root_start_bounds [OF wf(1,2) sz]
  have pos1: "ob_startPos ob + sz \<le> b_pos b1" using pos_eq_live [OF so(2)] st(4) so by simp
  obtain b2 where r: "run_ops b1 ob ops = Some b2" "bwf b2" "live b2 = root_live b sz ops"
    using run_ops_live [OF so(2) _ "in" pos1] st(1) so(3,4) by (auto simp: becomes_def root_live_def)
  let ?b3 = "fst (FinishAsRoot b2 ob)"
  have b3: "bwf ?b3" "live ?b3 = live b2" "b_rootOffset ?b3 = root_start b" "b_pos ?b3 = b_pos b2"
    using r(2) so(3) by (simp_all add: FinishAsRoot_def Let_def ObjectBuilder_Finish_def bwf_def live_def)
  have len: "length (live b) = 16" "length (live c) = 16"
    using pos_eq_live [OF wf(1)] pos_eq_live [OF wf(3)] b(2) c(3) by simp_all
  have p: "pad8 16 = 0" by (simp add: pad8_def)
  obtain zs where zs: "root_live b sz ops = live b @ zs" "root_live c sz ops = live c @ zs"
    using a_ops_prefix_irrelevant [of "live b" 16 "live c" ops "replicate (nat sz) 0"] len "in" b(2) c(3)
    by (auto simp: root_live_def root_start_def p op_in_def)
  have pos2: "b_pos b2 = int (length (root_live b sz ops))" using pos_eq_live [OF r(2)] r(3) by simp
  have "16 \<le> b_pos ?b3" using pos2 b3(4) by (simp add: zs len)
  from FinishWithFlags_live [OF b3(1) this, of fl] obtain b4 where
    fin: "FinishWithFlags ?b3 fl = Some (b4, root_out c sz ops)"
    using c(3) by (auto simp: b3 root_out_def root_start_def pos2 r(3) zs len c(2) b(2) lput_append_left)
  then have bld: "buildFrame cap sz ops t = Some (Parse (root_out c sz ops))"
    by (simp add: buildFrame_def so(1) r(1) flip: b_def fl_def)
  from build_root_spec [OF c(1) sz _ ops(2)] ops(1) small c(3) b(2)
  obtain c' out m o1 where o: "build_root c sz ops = Some (c', out)" "Parse out = Inr m" "msg_data m = out"
      "Message_Root m = Some o1" "\<forall>op \<in> set ops. field_reads o1 op"
    and sl: "\<forall>lo hi. (16 \<le> lo \<or> hi \<le> 8) \<and> hi \<le> b_pos c \<longrightarrow> slice_at out lo hi = slice_at (live c) lo hi"
    by auto
  have out: "out = root_out c sz ops" using build_root_live [OF wf(3,4) sz "in"] o(1) by auto
  have "slice_at (live c) 6 8 = Some (le16 fl)"
    unfolding c(2) using slice_lput_same [of 6 "le16 fl" "live b"] len by simp
  then have "Message_Flags m = Some fl" using sl c(3) b(2) o(3) by (simp add: Message_Flags_def get_defs)
  then show ?thesis using bld o out by (auto simp: fl_def)
qed

text \<open>What the field readers return for a field that was set, and that they return at all.\<close>

lemma field_copy:
  "field_reads o1 (OpBytesFixed fo v) \<Longrightarrow> length v = n \<Longrightarrow> 0 < n \<Longrightarrow> copyFixed o1 fo n = Some v"
  "field_reads o1 (OpBytes fo v) \<Longrightarrow> copyBytes o1 fo = Some v"
  "field_reads o1 (OpBytes fo v) \<Longrightarrow> Object_Text o1 fo = Some v"
  "field_reads o1 (OpBool fo c) \<Longrightarrow> Object_Bool o1 fo = Some c"
  by (auto simp: copyFixed_def copyBytes_def Object_Text_def Object_Bool_def split: if_splits)

text \<open>A computation that returns, with a value that satisfies \<open>P\<close>: on an object of a parsed message every
  field reader does, so a reader built from them does.\<close>

definition returns :: "'a option \<Rightarrow> ('a \<Rightarrow> bool) \<Rightarrow> bool" where
  "returns c P \<longleftrightarrow> (\<exists>x. c = Some x \<and> P x)"

lemma returns_bind [simp]: "returns (Option.bind c f) P \<longleftrightarrow> returns c (\<lambda>x. returns (f x) P)"
  by (cases c) (auto simp: returns_def)

lemma returns_Some [simp]: "returns (Some x) P \<longleftrightarrow> P x"
  by (simp add: returns_def)

lemma returns_copyFixed:
  assumes "obj_ok m o1" and "0 \<le> fo" and "\<And>xs. length xs = n \<Longrightarrow> P xs"
  shows "returns (copyFixed o1 fo n) P"
  using obj_scalar_total(5) [OF assms(1,2), of "int n"] assms(3)
  by (auto simp: copyFixed_def returns_def split: option.splits)

lemma returns_scalars:
  assumes "obj_ok m o1" and "0 \<le> fo"
  shows "(\<And>v. P8 v) \<Longrightarrow> returns (Object_Uint8 o1 fo) P8" "(\<And>v. P32 v) \<Longrightarrow> returns (Object_Uint32 o1 fo) P32"
    "(\<And>v. P64 v) \<Longrightarrow> returns (Object_Uint64 o1 fo) P64" "(\<And>v. PB v) \<Longrightarrow> returns (Object_Bool o1 fo) PB"
    "(\<And>v. PT v) \<Longrightarrow> returns (Object_Text o1 fo) PT" "(\<And>v. PC v) \<Longrightarrow> returns (copyBytes o1 fo) PC"
  using obj_bytes_total [OF assms] obj_scalar_total [OF assms]
  by (auto simp: returns_def copyBytes_def Object_Text_def Object_Bool_def split: option.splits)

lemmas returns_fields = returns_copyFixed returns_scalars

section \<open>Every frame survives the wire\<close>

text \<open>
  The contract the client and the server rely on for each frame: a well-formed value is built without a
  panic or an error into a message that the receiver parses, that carries the frame's type in the byte the
  dispatcher routes on, and that reads back as the value; and reading any message whatsoever that
  parses returns a value whose arrays have their widths.
\<close>

locale dex_frame =
  fixes build :: "'a \<Rightarrow> (zap_error + Message) option" and read_as :: "Message \<Rightarrow> 'a option"
    and msgType :: u16 and wf :: "'a \<Rightarrow> bool" and shape :: "'a \<Rightarrow> bool"
  assumes sent: "wf x \<Longrightarrow> \<exists>m. build x = Some (Inr m) \<and> Parse (msg_data m) = Inr m \<and>
      Message_Flags m = Some (push_bit 8 msgType) \<and> read_as m = Some x"
    and total: "Parse d = Inr m \<Longrightarrow> \<exists>x. read_as m = Some x \<and> shape x"
begin

lemma delivered: "wf x \<Longrightarrow> build x = Some (Inr m) \<Longrightarrow> read_as m = Some x"
  using sent [of x] by auto

lemma routed: "wf x \<Longrightarrow> build x = Some (Inr m) \<Longrightarrow> map_option (drop_bit 8) (Message_Flags m) = Some (take_bit 8 msgType)"
  using sent [of x] by (auto simp: push_bit_flags)

lemma forwarded: "wf x \<Longrightarrow> build x = Some (Inr m) \<Longrightarrow> Parse (msg_data m) = Inr m' \<Longrightarrow> read_as m' = Some x"
  using sent [of x] by auto

lemma injective: "wf x \<Longrightarrow> wf y \<Longrightarrow> build x = build y \<Longrightarrow> x = y"
  using sent [of x] sent [of y] by auto

end

definition wf_QuoteRequest :: "QuoteRequest \<Rightarrow> bool" where
  "wf_QuoteRequest r \<longleftrightarrow> length (qreq_MarketID r) = 32"

definition wf_QuoteResult :: "QuoteResult \<Rightarrow> bool" where
  "wf_QuoteResult r \<longleftrightarrow> length (qres_MarketID r) = 32"

definition wf_StateRequest :: "StateRequest \<Rightarrow> bool" where
  "wf_StateRequest r \<longleftrightarrow> length (sreq_MarketID r) = 32 \<and> length (sreq_Account r) = 20 \<and> length (sreq_Asset r) = 32 \<and>
     length (sreq_IntentID r) = 32"

definition wf_StateResult :: "StateResult \<Rightarrow> bool" where
  "wf_StateResult r \<longleftrightarrow> length (sres_BaseID r) = 32 \<and> length (sres_QuoteID r) = 32"

definition wf_SwapIntentRequest :: "SwapIntentRequest \<Rightarrow> bool" where
  "wf_SwapIntentRequest r \<longleftrightarrow> length (sir_CChainID r) = 32 \<and> length (sir_DChainID r) = 32 \<and> length (sir_Account r) = 20 \<and>
     length (sir_AssetIn r) = 32 \<and> length (sir_AssetInAddr r) = 20 \<and> length (sir_MarketID r) = 32 \<and> length (sir_Recipient r) = 20"

definition shape_PreparedIntent :: "PreparedIntent \<Rightarrow> bool" where
  "shape_PreparedIntent p \<longleftrightarrow> length (pi_To p) = 20 \<and> length (pi_IntentID p) = 32 \<and> length (pi_DChainID p) = 32 \<and>
     length (pi_CChainID p) = 32 \<and> length (pi_Account p) = 20 \<and> length (pi_Recipient p) = 20 \<and> length (pi_AssetIn p) = 32 \<and>
     length (pi_MarketID p) = 32"

definition wf_PreparedIntent :: "PreparedIntent \<Rightarrow> bool" where
  "wf_PreparedIntent p \<longleftrightarrow> shape_PreparedIntent p \<and> length (pi_Calldata p) + length (pi_HookData p) < 2 ^ 30"

definition wf_DExportRef :: "DExportRef \<Rightarrow> bool" where
  "wf_DExportRef r \<longleftrightarrow> length (der_SourceChainID r) = 32 \<and> length (der_SourceTxID r) = 32 \<and> length (der_IntentID r) = 32"

definition shape_IntentStatus :: "IntentStatus \<Rightarrow> bool" where
  "shape_IntentStatus s \<longleftrightarrow> length (is_IntentID s) = 32 \<and> wf_DExportRef (is_Ref s) \<and> der_IntentID (is_Ref s) = is_IntentID s"

definition wf_IntentStatus :: "IntentStatus \<Rightarrow> bool" where
  "wf_IntentStatus s \<longleftrightarrow> shape_IntentStatus s \<and> length (is_Reason s) < 2 ^ 30"

definition wf_IntentWatchRef :: "IntentWatchRef \<Rightarrow> bool" where
  "wf_IntentWatchRef w \<longleftrightarrow> length (iw_IntentID w) = 32"

definition shape_Settlement :: "SettlementSubmitResult \<Rightarrow> bool" where
  "shape_Settlement s \<longleftrightarrow> length (ss_To s) = 20 \<and> length (ss_ObjectKey s) = 32 \<and> length (ss_CTxHash s) = 32"

definition wf_Settlement :: "SettlementSubmitResult \<Rightarrow> bool" where
  "wf_Settlement s \<longleftrightarrow> shape_Settlement s \<and> length (ss_Calldata s) < 2 ^ 30"

definition shape_RouteRequest :: "RouteRequest \<Rightarrow> bool" where
  "shape_RouteRequest r \<longleftrightarrow> length (rr_CChainID r) = 32 \<and> length (rr_DChainID r) = 32 \<and> length (rr_Account r) = 20 \<and>
     length (rr_AssetIn r) = 32 \<and> length (rr_AssetInAddr r) = 20 \<and> length (rr_Recipient r) = 20 \<and> list_all (\<lambda>p. length p = 32) (rr_Path r)"

definition wf_RouteRequest :: "RouteRequest \<Rightarrow> bool" where
  "wf_RouteRequest r \<longleftrightarrow> shape_RouteRequest r \<and> length (rr_Path r) < 2 ^ 25"

definition shape_RouteStatus :: "RouteStatus \<Rightarrow> bool" where
  "shape_RouteStatus s \<longleftrightarrow> length (rs_IntentID s) = 32 \<and> wf_DExportRef (rs_Ref s) \<and>
     (if rs_Phase s \<in> {RouteCommitted, RouteRefunded} then der_IntentID (rs_Ref s) = rs_IntentID s else rs_Ref s = ZeroRef)"

definition wf_RouteStatus :: "RouteStatus \<Rightarrow> bool" where
  "wf_RouteStatus s \<longleftrightarrow> shape_RouteStatus s \<and> length (rs_Reason s) < 2 ^ 30"

definition wf_ID :: "ID \<Rightarrow> bool" where
  "wf_ID i \<longleftrightarrow> length i = 32"

lemmas quote_wf = wf_QuoteRequest_def wf_QuoteResult_def wf_StateRequest_def wf_StateResult_def
lemmas intent_wf = wf_SwapIntentRequest_def wf_PreparedIntent_def shape_PreparedIntent_def wf_DExportRef_def
  wf_IntentWatchRef_def wf_ID_def shape_IntentStatus_def wf_IntentStatus_def wf_Settlement_def shape_Settlement_def
lemmas route_wf = shape_RouteRequest_def wf_RouteRequest_def shape_RouteStatus_def wf_RouteStatus_def

text \<open>A frame whose builder is one list of disjoint setters and whose reader recovers every one of them.\<close>

lemma frame_sent:
  assumes "build x = buildFrame cap sz ops t" and "0 \<le> sz" and "\<forall>op \<in> set ops. op_in sz op \<and> target_ok 16 op"
    and "sorted_wrt ops_disjoint ops" and "24 + sz + int (sum_list (map (length \<circ> op_tail) ops)) < 2 ^ 31"
    and "\<And>m o1. Message_Root m = Some o1 \<Longrightarrow> \<forall>op \<in> set ops. field_reads o1 op \<Longrightarrow> read_as m = Some x"
  shows "\<exists>m. build x = Some (Inr m) \<and> Parse (msg_data m) = Inr m \<and> Message_Flags m = Some (push_bit 8 t) \<and> read_as m = Some x"
  using buildFrame_spec [OF assms(2-5), of cap t] assms(1,6) by metis

text \<open>A reader returns on any parsed message as soon as it returns on every object of one.\<close>

lemma reads_total:
  assumes "Parse d = Inr m" and "\<And>o1. obj_ok m o1 \<Longrightarrow> returns (f o1) P"
  shows "\<exists>x. Option.bind (Message_Root m) f = Some x \<and> P x"
  using parsed_root_ok [OF assms(1)] assms(2) by (auto simp: returns_def)

lemmas read_copies = copyFixed_def copyBytes_def Object_Text_def Object_Bool_def

lemmas frame_layout = dex_layout op_in_def ops_disjoint_def

lemma fQuoteRequest_sent:
  assumes "wf_QuoteRequest x"
  shows "\<exists>m. buildQuoteRequest x = Some (Inr m) \<and> Parse (msg_data m) = Inr m \<and> Message_Flags m = Some (push_bit 8 MsgQuote) \<and> readQuoteRequest m = Some x"
  by (rule frame_sent [where build = buildQuoteRequest, OF buildQuoteRequest_def])
    (use assms in \<open>cases x; auto simp: frame_layout readQuoteRequest_def quote_wf read_copies split: if_splits\<close>)+

lemma fQuoteRequest_total:
  assumes "Parse d = Inr m"
  shows "\<exists>x. readQuoteRequest m = Some x \<and> wf_QuoteRequest x"
  unfolding readQuoteRequest_def by (rule reads_total [OF assms]) (auto simp: quote_wf dex_layout intro!: returns_fields)

interpretation fQuoteRequest: dex_frame buildQuoteRequest readQuoteRequest MsgQuote wf_QuoteRequest wf_QuoteRequest
  by unfold_locales (rule fQuoteRequest_sent, assumption, rule fQuoteRequest_total)

lemma fQuoteResult_sent:
  assumes "wf_QuoteResult x"
  shows "\<exists>m. buildQuoteResult x = Some (Inr m) \<and> Parse (msg_data m) = Inr m \<and> Message_Flags m = Some (push_bit 8 MsgQuote) \<and> readQuoteResult m = Some x"
  by (rule frame_sent [where build = buildQuoteResult, OF buildQuoteResult_def])
    (use assms in \<open>cases x; auto simp: frame_layout readQuoteResult_def quote_wf read_copies split: if_splits\<close>)+

lemma fQuoteResult_total:
  assumes "Parse d = Inr m"
  shows "\<exists>x. readQuoteResult m = Some x \<and> wf_QuoteResult x"
  unfolding readQuoteResult_def by (rule reads_total [OF assms]) (auto simp: quote_wf dex_layout intro!: returns_fields)

interpretation fQuoteResult: dex_frame buildQuoteResult readQuoteResult MsgQuote wf_QuoteResult wf_QuoteResult
  by unfold_locales (rule fQuoteResult_sent, assumption, rule fQuoteResult_total)

lemma fStateRequest_sent:
  assumes "wf_StateRequest x"
  shows "\<exists>m. buildStateRequest x = Some (Inr m) \<and> Parse (msg_data m) = Inr m \<and> Message_Flags m = Some (push_bit 8 MsgGetState) \<and> readStateRequest m = Some x"
  by (rule frame_sent [where build = buildStateRequest, OF buildStateRequest_def])
    (use assms in \<open>cases x; auto simp: frame_layout readStateRequest_def quote_wf read_copies split: if_splits\<close>)+

lemma fStateRequest_total:
  assumes "Parse d = Inr m"
  shows "\<exists>x. readStateRequest m = Some x \<and> wf_StateRequest x"
  unfolding readStateRequest_def by (rule reads_total [OF assms]) (auto simp: quote_wf dex_layout intro!: returns_fields)

interpretation fStateRequest: dex_frame buildStateRequest readStateRequest MsgGetState wf_StateRequest wf_StateRequest
  by unfold_locales (rule fStateRequest_sent, assumption, rule fStateRequest_total)

lemma fStateResult_sent:
  assumes "wf_StateResult x"
  shows "\<exists>m. buildStateResult x = Some (Inr m) \<and> Parse (msg_data m) = Inr m \<and> Message_Flags m = Some (push_bit 8 MsgGetState) \<and> readStateResult m = Some x"
  by (rule frame_sent [where build = buildStateResult, OF buildStateResult_def])
    (use assms in \<open>cases x; auto simp: frame_layout readStateResult_def quote_wf read_copies split: if_splits\<close>)+

lemma fStateResult_total:
  assumes "Parse d = Inr m"
  shows "\<exists>x. readStateResult m = Some x \<and> wf_StateResult x"
  unfolding readStateResult_def by (rule reads_total [OF assms]) (auto simp: quote_wf dex_layout intro!: returns_fields)

interpretation fStateResult: dex_frame buildStateResult readStateResult MsgGetState wf_StateResult wf_StateResult
  by unfold_locales (rule fStateResult_sent, assumption, rule fStateResult_total)

lemma fSwapIntentRequest_sent:
  assumes "wf_SwapIntentRequest x"
  shows "\<exists>m. buildSwapIntentRequest x = Some (Inr m) \<and> Parse (msg_data m) = Inr m \<and> Message_Flags m = Some (push_bit 8 MsgPrepare) \<and> readSwapIntentRequest m = Some x"
  by (rule frame_sent [where build = buildSwapIntentRequest, OF buildSwapIntentRequest_def])
    (use assms in \<open>cases x; auto simp: frame_layout readSwapIntentRequest_def intent_wf read_copies split: if_splits\<close>)+

lemma fSwapIntentRequest_total:
  assumes "Parse d = Inr m"
  shows "\<exists>x. readSwapIntentRequest m = Some x \<and> wf_SwapIntentRequest x"
  unfolding readSwapIntentRequest_def by (rule reads_total [OF assms]) (auto simp: intent_wf dex_layout intro!: returns_fields)

interpretation fSwapIntentRequest: dex_frame buildSwapIntentRequest readSwapIntentRequest MsgPrepare wf_SwapIntentRequest wf_SwapIntentRequest
  by unfold_locales (rule fSwapIntentRequest_sent, assumption, rule fSwapIntentRequest_total)

lemma fDExportRef_sent:
  assumes "wf_DExportRef x"
  shows "\<exists>m. buildDExportRef x = Some (Inr m) \<and> Parse (msg_data m) = Inr m \<and> Message_Flags m = Some (push_bit 8 MsgImport) \<and> readDExportRef m = Some x"
  by (rule frame_sent [where build = buildDExportRef, OF buildDExportRef_def])
    (use assms in \<open>cases x; auto simp: frame_layout readDExportRef_def intent_wf read_copies split: if_splits\<close>)+

lemma fDExportRef_total:
  assumes "Parse d = Inr m"
  shows "\<exists>x. readDExportRef m = Some x \<and> wf_DExportRef x"
  unfolding readDExportRef_def by (rule reads_total [OF assms]) (auto simp: intent_wf dex_layout intro!: returns_fields)

interpretation fDExportRef: dex_frame buildDExportRef readDExportRef MsgImport wf_DExportRef wf_DExportRef
  by unfold_locales (rule fDExportRef_sent, assumption, rule fDExportRef_total)

lemma fIntentStatus_sent:
  assumes "wf_IntentStatus x"
  shows "\<exists>m. buildIntentStatus x = Some (Inr m) \<and> Parse (msg_data m) = Inr m \<and> Message_Flags m = Some (push_bit 8 MsgWatchPoll) \<and> readIntentStatus m = Some x"
  by (rule frame_sent [where build = buildIntentStatus, OF buildIntentStatus_def])
    (use assms in \<open>cases x; cases "is_Ref x"; auto simp: frame_layout readIntentStatus_def intent_wf read_copies split: if_splits\<close>)+

lemma fIntentStatus_total:
  assumes "Parse d = Inr m"
  shows "\<exists>x. readIntentStatus m = Some x \<and> shape_IntentStatus x"
  unfolding readIntentStatus_def by (rule reads_total [OF assms]) (auto simp: intent_wf dex_layout intro!: returns_fields)

interpretation fIntentStatus: dex_frame buildIntentStatus readIntentStatus MsgWatchPoll wf_IntentStatus shape_IntentStatus
  by unfold_locales (rule fIntentStatus_sent, assumption, rule fIntentStatus_total)

lemma fIntentWatchRef_sent:
  assumes "wf_IntentWatchRef x"
  shows "\<exists>m. buildIntentWatchRef x = Some (Inr m) \<and> Parse (msg_data m) = Inr m \<and> Message_Flags m = Some (push_bit 8 MsgNotify) \<and> readIntentWatchRef m = Some x"
  by (rule frame_sent [where build = buildIntentWatchRef, OF buildIntentWatchRef_def])
    (use assms in \<open>cases x; auto simp: frame_layout readIntentWatchRef_def intent_wf read_copies split: if_splits\<close>)+

lemma fIntentWatchRef_total:
  assumes "Parse d = Inr m"
  shows "\<exists>x. readIntentWatchRef m = Some x \<and> wf_IntentWatchRef x"
  unfolding readIntentWatchRef_def by (rule reads_total [OF assms]) (auto simp: intent_wf dex_layout intro!: returns_fields)

interpretation fIntentWatchRef: dex_frame buildIntentWatchRef readIntentWatchRef MsgNotify wf_IntentWatchRef wf_IntentWatchRef
  by unfold_locales (rule fIntentWatchRef_sent, assumption, rule fIntentWatchRef_total)

lemma fWatchPoll_sent:
  assumes "wf_ID x"
  shows "\<exists>m. buildWatchPollRequest x = Some (Inr m) \<and> Parse (msg_data m) = Inr m \<and> Message_Flags m = Some (push_bit 8 MsgWatchPoll) \<and> readWatchPollRequest m = Some x"
  by (rule frame_sent [where build = buildWatchPollRequest, OF buildWatchPollRequest_def])
    (use assms in \<open>auto simp: frame_layout readWatchPollRequest_def intent_wf read_copies split: if_splits\<close>)+

lemma fWatchPoll_total:
  assumes "Parse d = Inr m"
  shows "\<exists>x. readWatchPollRequest m = Some x \<and> wf_ID x"
  unfolding readWatchPollRequest_def by (rule reads_total [OF assms]) (auto simp: intent_wf dex_layout intro!: returns_fields)

interpretation fWatchPoll: dex_frame buildWatchPollRequest readWatchPollRequest MsgWatchPoll wf_ID wf_ID
  by unfold_locales (rule fWatchPoll_sent, assumption, rule fWatchPoll_total)

lemma fSettlement_sent:
  assumes "wf_Settlement x"
  shows "\<exists>m. buildSettlementResult x = Some (Inr m) \<and> Parse (msg_data m) = Inr m \<and> Message_Flags m = Some (push_bit 8 MsgImport) \<and> readSettlementResult m = Some x"
  by (rule frame_sent [where build = buildSettlementResult, OF buildSettlementResult_def])
    (use assms in \<open>cases x; auto simp: frame_layout readSettlementResult_def intent_wf read_copies split: if_splits\<close>)+

lemma fSettlement_total:
  assumes "Parse d = Inr m"
  shows "\<exists>x. readSettlementResult m = Some x \<and> shape_Settlement x"
  unfolding readSettlementResult_def by (rule reads_total [OF assms]) (auto simp: intent_wf dex_layout intro!: returns_fields)

interpretation fSettlement: dex_frame buildSettlementResult readSettlementResult MsgImport wf_Settlement shape_Settlement
  by unfold_locales (rule fSettlement_sent, assumption, rule fSettlement_total)

lemma fRouteStatus_sent:
  assumes "wf_RouteStatus x"
  shows "\<exists>m. buildRouteStatus x = Some (Inr m) \<and> Parse (msg_data m) = Inr m \<and> Message_Flags m = Some (push_bit 8 MsgRouteStatus) \<and> readRouteStatus m = Some x"
  by (rule frame_sent [where build = buildRouteStatus, OF buildRouteStatus_def])
    (use assms in \<open>cases x; cases "rs_Ref x"; auto simp: frame_layout readRouteStatus_def intent_wf route_wf ZeroRef_def ZeroID_def Let_def read_copies split: if_splits\<close>)+

lemma fRouteStatus_total:
  assumes "Parse d = Inr m"
  shows "\<exists>x. readRouteStatus m = Some x \<and> shape_RouteStatus x"
  unfolding readRouteStatus_def by (rule reads_total [OF assms]) (auto simp: intent_wf route_wf ZeroRef_def ZeroID_def Let_def dex_layout intro!: returns_fields)

interpretation fRouteStatus: dex_frame buildRouteStatus readRouteStatus MsgRouteStatus wf_RouteStatus shape_RouteStatus
  by unfold_locales (rule fRouteStatus_sent, assumption, rule fRouteStatus_total)

lemma fRouteWatchPoll_sent:
  assumes "wf_ID x"
  shows "\<exists>m. buildRouteWatchPoll x = Some (Inr m) \<and> Parse (msg_data m) = Inr m \<and> Message_Flags m = Some (push_bit 8 MsgRouteStatus) \<and> readRouteWatchPoll m = Some x"
  by (rule frame_sent [where build = buildRouteWatchPoll, OF buildRouteWatchPoll_def])
    (use assms in \<open>auto simp: frame_layout readRouteWatchPoll_def intent_wf read_copies split: if_splits\<close>)+

lemma fRouteWatchPoll_total:
  assumes "Parse d = Inr m"
  shows "\<exists>x. readRouteWatchPoll m = Some x \<and> wf_ID x"
  unfolding readRouteWatchPoll_def by (rule reads_total [OF assms]) (auto simp: intent_wf dex_layout intro!: returns_fields)

interpretation fRouteWatchPoll: dex_frame buildRouteWatchPoll readRouteWatchPoll MsgRouteStatus wf_ID wf_ID
  by unfold_locales (rule fRouteWatchPoll_sent, assumption, rule fRouteWatchPoll_total)

lemma fPreparedIntent_sent:
  assumes "wf_PreparedIntent x"
  shows "\<exists>m. buildPreparedIntent x t = Some (Inr m) \<and> Parse (msg_data m) = Inr m \<and> Message_Flags m = Some (push_bit 8 t) \<and> readPreparedIntent m = Some x"
  by (rule frame_sent [where build = "\<lambda>x. buildPreparedIntent x t", OF buildPreparedIntent_def])
    (use assms in \<open>cases x; auto simp: frame_layout readPreparedIntent_def intent_wf read_copies split: if_splits\<close>)+

lemma fPreparedIntent_total:
  assumes "Parse d = Inr m"
  shows "\<exists>x. readPreparedIntent m = Some x \<and> shape_PreparedIntent x"
  unfolding readPreparedIntent_def by (rule reads_total [OF assms]) (auto simp: intent_wf dex_layout intro!: returns_fields)

interpretation fPreparedIntent: dex_frame "\<lambda>x. buildPreparedIntent x t" readPreparedIntent t wf_PreparedIntent shape_PreparedIntent for t
  by unfold_locales (rule fPreparedIntent_sent, assumption, rule fPreparedIntent_total)

text \<open>The path: cutting the concatenated ids gives them back, and the loop never reads out of range.\<close>

lemma readPath_total:
  "0 \<le> i \<Longrightarrow> 32 * (i + int n) \<le> int (length pb) \<Longrightarrow>
    returns (readPath pb n i) (\<lambda>ps. list_all (\<lambda>p. length p = 32) ps \<and> length ps = n)"
proof (induction n arbitrary: i)
  case (Suc n)
  have "returns (readPath pb n (i + 1)) (\<lambda>ps. list_all (\<lambda>p. length p = 32) ps \<and> length ps = n)"
    using Suc.prems by (intro Suc.IH) (simp_all add: algebra_simps)
  moreover have "slice_at pb (i * 32) ((i + 1) * 32) = Some (take 32 (drop (nat (i * 32)) pb))"
    using Suc.prems by (simp add: slice_at_def)
  moreover have "length (take 32 (drop (nat (i * 32)) pb)) = 32" using Suc.prems by auto
  ultimately show ?case by (auto simp: returns_def)
qed simp

lemma length_concat_ids: "list_all (\<lambda>p. length p = 32) ps \<Longrightarrow> length (concat ps) = 32 * length ps"
  by (induction ps) simp_all

lemma readPath_concat:
  "list_all (\<lambda>p. length p = 32) ps \<Longrightarrow> length pre = 32 * k \<Longrightarrow> readPath (pre @ concat ps) (length ps) (int k) = Some ps"
proof (induction ps arbitrary: pre k)
  case (Cons p ps)
  have "slice_at (pre @ concat (p # ps)) (int k * 32) ((int k + 1) * 32) = Some p"
    using Cons.prems by (simp add: slice_at_def nat_mult_distrib)
  moreover have "readPath ((pre @ p) @ concat ps) (length ps) (int (Suc k)) = Some ps"
    using Cons.prems by (intro Cons.IH) simp_all
  ultimately show ?case by (simp add: add.commute)
qed simp

lemma fRouteRequest_sent:
  assumes "wf_RouteRequest x"
  shows "\<exists>m. buildRouteRequest x = Some (Inr m) \<and> Parse (msg_data m) = Inr m \<and> Message_Flags m = Some (push_bit 8 MsgRoutePrepare) \<and> readRouteRequest m = Some x"
proof (rule frame_sent [where build = buildRouteRequest, OF buildRouteRequest_def [unfolded Let_def]])
  have path: "list_all (\<lambda>p. length p = 32) (rr_Path x)" "length (rr_Path x) < 2 ^ 25" using assms by (simp_all add: route_wf)
  note len = length_concat_ids [OF path(1)] and cut = readPath_concat [OF path(1), of "[]" 0, simplified]
  have hops: "unat (word_of_int (int (length (rr_Path x))) :: u32) = length (rr_Path x)"
    using path(2) by (simp add: unat_of_nat)
  show "readRouteRequest m = Some x" if "Message_Root m = Some o1" "\<forall>op \<in> set [OpUint32 rrNet (rr_NetworkID x), OpUint32 rrCallIdx (rr_CallIndex x),
        OpUint32 rrHopCount (word_of_int (int (length (rr_Path x)))), OpUint64 rrAmountIn (rr_AmountIn x), OpUint64 rrMinOut (rr_MinAmountOut x),
        OpUint64 rrDeadline (rr_Deadline x), OpBytesFixed rrCChain (rr_CChainID x), OpBytesFixed rrDChain (rr_DChainID x),
        OpBytesFixed rrAccount (rr_Account x), OpBytesFixed rrAssetIn (rr_AssetIn x), OpBytesFixed rrAssetAddr (rr_AssetInAddr x),
        OpBytesFixed rrRecipient (rr_Recipient x), OpBytes rrPath (concat (rr_Path x))]. field_reads o1 op" for m o1
  proof -
    have "copyBytes o1 rrPath = Some (concat (rr_Path x))" using that by (intro field_copy) simp
    then show ?thesis
      using that assms len cut hops by (auto simp: readRouteRequest_def copyFixed_def route_wf dex_layout split: if_splits)
  qed
qed (use assms length_concat_ids [of "rr_Path x"] in \<open>auto simp: frame_layout route_wf\<close>)

lemma returns_readPath:
  assumes "n \<le> length pb div 32" and "\<And>ps. list_all (\<lambda>p. length p = 32) ps \<Longrightarrow> P ps"
  shows "returns (readPath pb n 0) P"
proof -
  have "n * 32 \<le> length pb" using assms(1) by linarith
  then show ?thesis using readPath_total [of 0 n pb] assms(2) by (auto simp: returns_def)
qed

lemma fRouteRequest_total:
  assumes "Parse d = Inr m"
  shows "\<exists>x. readRouteRequest m = Some x \<and> shape_RouteRequest x"
  unfolding readRouteRequest_def Let_def
  by (rule reads_total [OF assms], unfold returns_bind returns_Some dex_layout)
    (intro returns_fields returns_readPath; simp add: route_wf)

interpretation fRouteRequest: dex_frame buildRouteRequest readRouteRequest MsgRoutePrepare wf_RouteRequest shape_RouteRequest
  by unfold_locales (rule fRouteRequest_sent, assumption, rule fRouteRequest_total)

section \<open>The frames of the protocol\<close>

definition survives :: "('a \<Rightarrow> (zap_error + Message) option) \<Rightarrow> (Message \<Rightarrow> 'a option) \<Rightarrow> u16 \<Rightarrow> 'a \<Rightarrow> bool" where
  "survives build read_as t x \<longleftrightarrow> (\<exists>m. build x = Some (Inr m) \<and> Parse (msg_data m) = Inr m \<and>
     map_option (drop_bit 8) (Message_Flags m) = Some t \<and> read_as m = Some x)"

lemma survivesI:
  "\<exists>m. build x = Some (Inr m) \<and> Parse (msg_data m) = Inr m \<and> Message_Flags m = Some (push_bit 8 t) \<and> read_as m = Some x \<Longrightarrow>
    take_bit 8 t = t \<Longrightarrow> survives build read_as t x"
  by (auto simp: survives_def push_bit_flags)

lemma msg_types_fit [simp]:
  "take_bit 8 MsgQuote = MsgQuote" "take_bit 8 MsgGetState = MsgGetState" "take_bit 8 MsgPrepare = MsgPrepare"
  "take_bit 8 MsgNotify = MsgNotify" "take_bit 8 MsgWatchPoll = MsgWatchPoll" "take_bit 8 MsgImport = MsgImport"
  "take_bit 8 MsgRoutePrepare = MsgRoutePrepare" "take_bit 8 MsgRouteStatus = MsgRouteStatus"
  by (simp_all add: msg_types)


definition sample_id :: ID where
  "sample_id = replicate 32 7"

lemma length_sample_id [simp]: "length sample_id = 32"
  by (simp add: sample_id_def)

definition sample_route :: RouteRequest where
  "sample_route = \<lparr>rr_NetworkID = 1, rr_CChainID = sample_id, rr_DChainID = sample_id, rr_Account = ZeroAccount, rr_AssetIn = sample_id,
     rr_AssetInAddr = ZeroAccount, rr_AmountIn = 1000, rr_Path = [sample_id, ZeroID], rr_MinAmountOut = 5, rr_Recipient = ZeroAccount,
     rr_Deadline = 9, rr_CallIndex = 2\<rparr>"

definition sample_ref :: DExportRef where
  "sample_ref = \<lparr>der_SourceChainID = sample_id, der_SourceTxID = sample_id, der_OutputIndex = 3, der_IntentID = sample_id\<rparr>"

lemmas sample_frames = sample_route_def sample_ref_def ZeroID_def ZeroAccount_def


text \<open>C39. Reading is total and typed: whatever bytes arrive, if they parse as a ZAP message then every reader of
  the protocol returns a value, never a panic, and in that value every account has 20 bytes and every id 32,
  a status's pointer names the status's own intent, a route has only whole market ids, and a route
  status that is not terminal carries no pointer.\<close>

theorem dex_readers_typed:
  assumes "Parse d = Inr m"
  shows "returns (readQuoteRequest m) wf_QuoteRequest \<and> returns (readQuoteResult m) wf_QuoteResult \<and>
    returns (readStateRequest m) wf_StateRequest \<and> returns (readStateResult m) wf_StateResult \<and>
    returns (readSwapIntentRequest m) wf_SwapIntentRequest \<and> returns (readPreparedIntent m) shape_PreparedIntent \<and>
    returns (readDExportRef m) wf_DExportRef \<and> returns (readIntentStatus m) shape_IntentStatus \<and>
    returns (readIntentWatchRef m) wf_IntentWatchRef \<and> returns (readWatchPollRequest m) wf_ID \<and>
    returns (readSettlementResult m) shape_Settlement \<and> returns (readRouteRequest m) shape_RouteRequest \<and>
    returns (readRouteStatus m) shape_RouteStatus \<and> returns (readRouteWatchPoll m) wf_ID"
  unfolding returns_def
  by (intro conjI; rule fQuoteRequest.total [OF assms] fQuoteResult.total [OF assms] fStateRequest.total [OF assms] fStateResult.total [OF assms]
      fSwapIntentRequest.total [OF assms] fPreparedIntent.total [OF assms] fDExportRef.total [OF assms] fIntentStatus.total [OF assms]
      fIntentWatchRef.total [OF assms] fWatchPoll.total [OF assms] fSettlement.total [OF assms] fRouteRequest.total [OF assms]
      fRouteStatus.total [OF assms] fRouteWatchPoll.total [OF assms])

theorem dex_readers_typed_witness:
  "Parse sample_frame = Inr sample_message \<and> returns (readRouteRequest sample_message) shape_RouteRequest \<and>
   returns (readPreparedIntent sample_message) shape_PreparedIntent"
  using dex_readers_typed [of sample_frame sample_message] sample_facts by simp

end
