(* ===== verification/Dex_Calldata.thy ===== *)
theory Dex_Calldata
  imports Dex_Wire
begin

text \<open>
  The byte formats the DEX session reproduces for the settlement contract: hook data, the ABI words and the
  swap and liquidity calldata (\<open>src/dexsession/calldata.go\<close>, \<open>v4liquidity.go\<close>), and the value-boundary
  records and identifiers of \<open>wire.go\<close> and \<open>v4scope.go\<close>. SHA-256 is the argument \<open>sha256\<close> of the definitions
  that hash. A signed Go integer is an \<open>int\<close>, converted to its word where the code converts it.
\<close>

unbundle bit_operations_syntax

section \<open>Hook data\<close>

definition SelectorSwap :: u32 where "SelectorSwap = 0xF3CD914C"
definition intentPhaseTag :: bytes where "intentPhaseTag = [0x44, 0x49, 0x30, 0x31]"
definition settlementPhaseTag :: bytes where "settlementPhaseTag = [0x44, 0x53, 0x30, 0x31]"
definition settlementBodyLen :: nat where "settlementBodyLen = 32 + 32 + 32"

definition EncodeIntentHookData :: "u64 \<Rightarrow> u64 \<Rightarrow> bytes" where
  "EncodeIntentHookData deadline nonce =
     (if deadline = 0 \<and> nonce = 0 then intentPhaseTag
      else
        let d = replicate 24 0 @ be64 deadline in
        if nonce = 0 then intentPhaseTag @ d
        else
          let n = replicate 24 0 @ be64 nonce
          in intentPhaseTag @ d @ n)"

definition EncodeSettlementHookData :: "ID \<Rightarrow> u64 \<Rightarrow> ID \<Rightarrow> bytes" where
  "EncodeSettlementHookData outputID amount intentID =
     (let amt = replicate 24 0 @ be64 amount
      in settlementPhaseTag @ outputID @ amt @ intentID)"

section \<open>ABI words\<close>

type_synonym abiWord = bytes

definition wordAddr :: "Account \<Rightarrow> abiWord" where
  "wordAddr a = replicate 12 0 @ a"

definition wordU24 :: "u32 \<Rightarrow> abiWord" where
  "wordU24 v = replicate 29 0 @ [ucast (drop_bit 16 v), ucast (drop_bit 8 v), ucast v]"

text \<open>The loop over \<open>i < 8\<close> stores byte \<open>i\<close> at \<open>31 - i\<close>; a negative value fills the other 24 with ones.\<close>

definition wordI24 :: "int \<Rightarrow> abiWord" where
  "wordI24 v =
     (let u = word_of_int v :: u64
      in (if v < 0 then replicate 24 0xff else replicate 24 0) @ rev (map (\<lambda>i. ucast (drop_bit (8 * i) u)) [0..<8]))"

definition wordBool :: "bool \<Rightarrow> abiWord" where
  "wordBool b = replicate 31 0 @ [if b then 1 else 0]"

text \<open>The carry loop of \<open>new256Neg\<close>, over the bytes from index 31 down.\<close>

fun neg_loop :: "u16 \<Rightarrow> bytes \<Rightarrow> bytes" where
  "neg_loop carry [] = []"
| "neg_loop carry (x # xs) = (let s = ucast (NOT x) + carry in ucast s # neg_loop (drop_bit 8 s) xs)"

definition new256Neg :: "u64 \<Rightarrow> bytes" where
  "new256Neg v = rev (neg_loop 1 (rev (replicate 24 0 @ be64 v)))"

definition wordI256FromNegU64 :: "u64 \<Rightarrow> abiWord" where
  "wordI256FromNegU64 v = new256Neg v"

definition wordU160Zero :: abiWord where
  "wordU160Zero = replicate 32 0"

definition wordU256FromU64 :: "u64 \<Rightarrow> abiWord" where
  "wordU256FromU64 v = replicate 24 0 @ be64 v"

definition wordI256FromInt64 :: "int \<Rightarrow> abiWord" where
  "wordI256FromInt64 v = (if v < 0 then replicate 24 0xff else replicate 24 0) @ be64 (word_of_int v)"

definition encodeDynamicBytes :: "bytes \<Rightarrow> bytes" where
  "encodeDynamicBytes b =
     (let padded = (length b + 31) div 32 * 32
      in (replicate 24 0 @ be64 (of_nat (length b))) @ b @ replicate (padded - length b) 0)"

section \<open>Calldata\<close>

record PoolKeyArgs =
  pk_Currency0 :: Account
  pk_Currency1 :: Account
  pk_Fee :: u32
  pk_TickSpacing :: int
  pk_Hooks :: Account

definition EncodeSwapCalldata :: "PoolKeyArgs \<Rightarrow> bool \<Rightarrow> u64 \<Rightarrow> bytes \<Rightarrow> bytes" where
  "EncodeSwapCalldata pk zeroForOne amountIn hookData =
     (let headWords = 5 + 3 + 1;
          head = be32 SelectorSwap @ concat [
            wordAddr (pk_Currency0 pk), wordAddr (pk_Currency1 pk), wordU24 (pk_Fee pk), wordI24 (pk_TickSpacing pk),
            wordAddr (pk_Hooks pk), wordBool zeroForOne, wordI256FromNegU64 amountIn, wordU160Zero,
            wordU256FromU64 (headWords * 32)]
      in head @ encodeDynamicBytes hookData)"

definition SelectorModifyLiquidity :: u32 where "SelectorModifyLiquidity = 0x5A6BCFDA"

record ModifyLiquidityArgs =
  ml_TickLower :: int
  ml_TickUpper :: int
  ml_LiquidityDelta :: int
  ml_Salt :: ID

definition EncodeModifyLiquidityCalldata :: "PoolKeyArgs \<Rightarrow> ModifyLiquidityArgs \<Rightarrow> bytes \<Rightarrow> bytes" where
  "EncodeModifyLiquidityCalldata pk args hookData =
     (let headWords = 5 + 4 + 1;
          head = be32 SelectorModifyLiquidity @ concat [
            wordAddr (pk_Currency0 pk), wordAddr (pk_Currency1 pk), wordU24 (pk_Fee pk), wordI24 (pk_TickSpacing pk),
            wordAddr (pk_Hooks pk), wordI24 (ml_TickLower args), wordI24 (ml_TickUpper args),
            wordI256FromInt64 (ml_LiquidityDelta args), ml_Salt args, wordU256FromU64 (headWords * 32)]
      in head @ encodeDynamicBytes hookData)"

section \<open>Value records and identifiers\<close>

text \<open>The bytes of a Go string literal.\<close>

definition ascii :: "string \<Rightarrow> bytes" where
  "ascii cs = map (of_nat \<circ> of_char) cs"

definition exportedObjectSize :: nat where "exportedObjectSize = 20 + 32 + 8"

definition EncodeAtomicObject :: "Account \<Rightarrow> ID \<Rightarrow> u64 \<Rightarrow> bytes" where
  "EncodeAtomicObject owner asset amount = owner @ asset @ be64 amount"

definition DecodeAtomicObject :: "bytes \<Rightarrow> Account \<times> ID \<times> u64 \<times> bool" where
  "DecodeAtomicObject v =
     (if length v \<noteq> exportedObjectSize then (ZeroAccount, ZeroID, 0, False)
      else (take 20 v, take 32 (drop 20 v), u64_be (take 8 (drop 52 v)), True))"

definition nativeIntentDomain :: bytes where
  "nativeIntentDomain = ascii ''lux.dex.native.intent.v1''"

text \<open>What \<open>DeriveIntentID\<close> writes to the hash, in order.\<close>

definition intent_preimage :: "u32 \<Rightarrow> ID \<Rightarrow> ID \<Rightarrow> Account \<Rightarrow> ID \<Rightarrow> u64 \<Rightarrow> ID \<Rightarrow> u64 \<Rightarrow> bytes" where
  "intent_preimage networkID cChainID dChainID account assetIn amountIn marketID nonce =
     nativeIntentDomain @ be32 networkID @ cChainID @ dChainID @ account @ assetIn @ be64 amountIn @ marketID @ be64 nonce"

definition DeriveIntentID ::
  "(bytes \<Rightarrow> bytes) \<Rightarrow> u32 \<Rightarrow> ID \<Rightarrow> ID \<Rightarrow> Account \<Rightarrow> ID \<Rightarrow> u64 \<Rightarrow> ID \<Rightarrow> u64 \<Rightarrow> ID" where
  "DeriveIntentID sha256 networkID cChainID dChainID account assetIn amountIn marketID nonce =
     sha256 (intent_preimage networkID cChainID dChainID account assetIn amountIn marketID nonce)"

definition DeriveUTXOID :: "(bytes \<Rightarrow> bytes) \<Rightarrow> ID \<Rightarrow> u32 \<Rightarrow> ID" where
  "DeriveUTXOID sha256 sourceTxID outputIndex = sha256 (sourceTxID @ be32 outputIndex)"

definition ObjectKey :: "(bytes \<Rightarrow> bytes) \<Rightarrow> DExportRef \<Rightarrow> ID" where
  "ObjectKey sha256 r = DeriveUTXOID sha256 (der_SourceTxID r) (der_OutputIndex r)"

definition DeriveRoutePathHash :: "(bytes \<Rightarrow> bytes) \<Rightarrow> ID list \<Rightarrow> ID" where
  "DeriveRoutePathHash sha256 path =
     sha256 (ascii ''lux.dex.v4.routepath.v1'' @ be32 (word_of_int (int (length path))) @ concat path)"

definition DerivePoolKeyHash :: "(bytes \<Rightarrow> bytes) \<Rightarrow> PoolKeyArgs \<Rightarrow> ID" where
  "DerivePoolKeyHash sha256 pk =
     sha256 (ascii ''lux.dex.v4.poolkey.v1'' @ pk_Currency0 pk @ pk_Currency1 pk @ be32 (pk_Fee pk) @
       be32 (word_of_int (pk_TickSpacing pk)) @ pk_Hooks pk)"

definition DeriveSwapParamsHash :: "(bytes \<Rightarrow> bytes) \<Rightarrow> bool \<Rightarrow> u64 \<Rightarrow> ID" where
  "DeriveSwapParamsHash sha256 zeroForOne amountIn =
     sha256 (ascii ''lux.dex.v4.swapparams.v1'' @ [if zeroForOne then 1 else 0] @ be64 amountIn)"

definition DeriveLiquidityParamsHash :: "(bytes \<Rightarrow> bytes) \<Rightarrow> int \<Rightarrow> int \<Rightarrow> int \<Rightarrow> ID \<Rightarrow> ID" where
  "DeriveLiquidityParamsHash sha256 tickLower tickUpper liquidityDelta salt =
     sha256 (ascii ''lux.dex.v4.lpparams.v1'' @ be32 (word_of_int tickLower) @ be32 (word_of_int tickUpper) @
       be64 (word_of_int liquidityDelta) @ salt)"

section \<open>Two's complement and big-endian words\<close>

lemma be_nat_append: "be_nat (xs @ ys) = be_nat xs * 256 ^ length ys + be_nat ys"
proof -
  have le: "le_nat (a @ b) = le_nat a + 256 ^ length a * le_nat b" for a b
    by (induction a) (simp_all add: algebra_simps)
  show ?thesis by (simp add: be_nat_def le algebra_simps)
qed

lemma nat_zeros [simp]: "le_nat (replicate n 0) = 0" "be_nat (replicate n 0) = 0"
proof -
  show "le_nat (replicate n 0) = 0" by (induction n) simp_all
  then show "be_nat (replicate n 0) = 0" by (simp add: be_nat_def)
qed

lemma be_nat_ones: "be_nat (replicate n 0xff) + 1 = 256 ^ n"
proof -
  have "le_nat (replicate n 0xff) + 1 = 256 ^ n" by (induction n) simp_all
  then show ?thesis by (simp add: be_nat_def)
qed

lemma be_nat_be64: "be_nat (be64 v) = unat v"
  using unat_bounds(4) [of v] by (simp add: be64_def be_nat_def be_bytes_def le_nat_le_bytes)

text \<open>Inverting and adding one negates modulo the width, whatever the width.\<close>

lemma neg_loop_length [simp]: "length (neg_loop c xs) = length xs"
  by (induction c xs rule: neg_loop.induct) (simp_all add: Let_def)

lemma neg_loop_nat:
  "unat c \<le> 1 \<Longrightarrow> \<exists>k\<le>1. le_nat (neg_loop c xs) + 256 ^ length xs * k + le_nat xs + 1 = 256 ^ length xs + unat c"
proof (induction xs arbitrary: c)
  case (Cons x xs)
  define s where "s = ucast (NOT x) + c"
  have "NOT x = - 1 - x" by (simp add: not_eq_complement)
  moreover have "unat (- 1 :: byte) = 255" by code_simp
  then have "unat (- 1 - x) = 255 - unat x" by (subst unat_sub) simp_all
  moreover have "unat (ucast y :: u16) = unat y" for y :: byte using unat_bounds(1) [of y] by (simp add: unsigned_ucast_eq take_bit_nat_eq_self)
  ultimately have "unat (ucast (NOT x) :: u16) = 255 - unat x" by metis
  then have s: "unat s = 255 - unat x + unat c" using Cons.prems unat_bounds(1) [of x] by (simp add: s_def unat_word_ariths)
  have parts: "unat (ucast s :: byte) = unat s mod 256" "unat (drop_bit 8 s) = unat s div 256"
    by (simp_all add: unat_drop_bit_eq unsigned_ucast_eq take_bit_eq_mod) (simp add: drop_bit_eq_div)
  have "unat (drop_bit 8 s) \<le> 1" using s Cons.prems unat_bounds(1) [of x] by (simp add: parts)
  from Cons.IH [OF this] obtain k where "k \<le> 1"
    and k: "le_nat (neg_loop (drop_bit 8 s) xs) + 256 ^ length xs * k + le_nat xs + 1 = 256 ^ length xs + unat s div 256"
    by (auto simp: parts)
  have "unat s mod 256 + 256 * (unat s div 256) + unat x = 255 + unat c" using s unat_bounds(1) [of x] by simp
  moreover have "le_nat (neg_loop c (x # xs)) = unat s mod 256 + 256 * le_nat (neg_loop (drop_bit 8 s) xs)"
    by (simp add: Let_def parts flip: s_def)
  moreover have "256 ^ length (x # xs) * k = 256 * (256 ^ length xs * k)" by simp
  moreover have "le_nat (x # xs) = unat x + 256 * le_nat xs" "256 ^ length (x # xs) = 256 * (256 :: nat) ^ length xs" by simp_all
  ultimately have "le_nat (neg_loop c (x # xs)) + 256 ^ length (x # xs) * k + le_nat (x # xs) + 1 = 256 ^ length (x # xs) + unat c"
    using k by linarith
  with \<open>k \<le> 1\<close> show ?case by blast
qed auto

section \<open>A reference ABI decoder\<close>

text \<open>Word \<open>k\<close> of the arguments after the four selector bytes, the integer a word holds as a signed 256-bit
  number, the address in its low 20 bytes, and a dynamic \<open>bytes\<close> argument found through its offset word.\<close>

definition abi_word :: "bytes \<Rightarrow> nat \<Rightarrow> bytes" where
  "abi_word d k = take 32 (drop (4 + 32 * k) d)"

definition abi_int :: "bytes \<Rightarrow> int" where
  "abi_int w = (if be_nat w < 2 ^ 255 then int (be_nat w) else int (be_nat w) - 2 ^ 256)"

definition abi_bytes :: "bytes \<Rightarrow> nat \<Rightarrow> bytes" where
  "abi_bytes d k =
     (let off = 4 + be_nat (abi_word d k)
      in take (be_nat (take 32 (drop off d))) (drop (off + 32) d))"

text \<open>The hook data of an intent: the tag, then nothing, a deadline, or a deadline and a nonce.\<close>

definition intent_body :: "bytes \<Rightarrow> (nat \<times> nat) option" where
  "intent_body h =
     (let body = drop 4 h in
      if take 4 h \<noteq> intentPhaseTag then None
      else if length body = 0 then Some (0, 0)
      else if length body = 32 then Some (be_nat body, 0)
      else if length body = 64 then Some (be_nat (take 32 body), be_nat (drop 32 body))
      else None)"

lemma length_words [simp]:
  "length a = 20 \<Longrightarrow> length (wordAddr a) = 32" "length (wordU24 v) = 32" "length (wordI24 t) = 32" "length (wordBool b) = 32"
  "length (wordI256FromNegU64 u) = 32" "length wordU160Zero = 32" "length (wordU256FromU64 u) = 32" "length (wordI256FromInt64 t) = 32"
  by (simp_all add: wordAddr_def wordU24_def wordI24_def Let_def wordBool_def wordI256FromNegU64_def new256Neg_def wordU160Zero_def
      wordU256FromU64_def wordI256FromInt64_def)

lemma le_bytes_map: "le_bytes n v = map (\<lambda>i. of_nat (v div 256 ^ i)) [0..<n]"
proof (induction n arbitrary: v)
  case (Suc n)
  have "[0..<Suc n] = 0 # map Suc [0..<n]" by (simp add: map_Suc_upt upt_conv_Cons)
  then show ?case by (simp add: Suc div_mult2_eq)
qed simp

lemma unat_drop_bit: "unat (drop_bit n w) = unat w div 2 ^ n" for w :: "'a::len word"
  by (simp add: unat_drop_bit_eq) (simp add: drop_bit_eq_div)

lemma ucast_drop_bit: "(ucast (drop_bit (8 * i) u) :: byte) = of_nat (unat u div 256 ^ i)" for u :: u64
  by (simp add: word_unat_eq_iff unsigned_ucast_eq unat_drop_bit unat_byte_of_nat take_bit_eq_mod power_mult)

lemma wordI24_eq: "wordI24 v = wordI256FromInt64 v"
  by (simp add: wordI24_def wordI256FromInt64_def Let_def be64_def be_bytes_def le_bytes_map ucast_drop_bit)

lemma abi_int_signed:
  assumes "- (2 ^ 63) \<le> v" and "v < 2 ^ 63"
  shows "abi_int (wordI256FromInt64 v) = v" "abi_int (wordI24 v) = v"
proof -
  show "abi_int (wordI256FromInt64 v) = v"
  proof (cases "v < 0")
    case True
    have "int (unat (word_of_int v :: u64)) = v mod 2 ^ 64" by (simp add: uint_word_of_int flip: uint_int_unat)
    also have "v mod 2 ^ 64 = (v + 2 ^ 64) mod 2 ^ 64" by simp
    also have "\<dots> = v + 2 ^ 64" using True assms(1) by (intro mod_pos_pos_trivial) simp_all
    finally have u: "int (unat (word_of_int v :: u64)) = v + 2 ^ 64" .
    have "be_nat (wordI256FromInt64 v) = be_nat (replicate 24 0xff) * 256 ^ 8 + unat (word_of_int v :: u64)"
      using True by (simp add: wordI256FromInt64_def be_nat_append be_nat_be64)
    moreover have "int (be_nat (replicate 24 0xff)) = 256 ^ 24 - 1" by (simp flip: be_nat_ones [of 24, THEN arg_cong [of _ _ int], simplified])
    ultimately have "int (be_nat (wordI256FromInt64 v)) = v + 2 ^ 256" using u by simp
    then show ?thesis using assms by (simp add: abi_int_def)
  next
    case False
    then have "int (unat (word_of_int v :: u64)) = v" using assms(2) by (simp add: uint_word_of_int flip: uint_int_unat)
    moreover from False have "be_nat (wordI256FromInt64 v) = unat (word_of_int v :: u64)"
      by (simp add: wordI256FromInt64_def be_nat_append be_nat_be64)
    ultimately show ?thesis using unat_bounds(4) [of "word_of_int v"] by (simp add: abi_int_def)
  qed
  then show "abi_int (wordI24 v) = v" by (simp add: wordI24_eq)
qed

lemma be_nat_bound: "be_nat bs < 256 ^ length bs"
  using le_nat_bound [of "rev bs"] by (simp add: be_nat_def)

lemma abi_int_negated: "abi_int (wordI256FromNegU64 v) = - int (unat v)"
proof -
  let ?w = "rev (replicate 24 0 @ be64 v)"
  have v: "le_nat ?w = unat v" using be_nat_append [of "replicate 24 0" "be64 v"] by (simp add: be_nat_def be_nat_be64 [unfolded be_nat_def])
  have r: "be_nat (wordI256FromNegU64 v) = le_nat (neg_loop 1 ?w)" by (simp add: wordI256FromNegU64_def new256Neg_def be_nat_def)
  have lt: "le_nat (neg_loop 1 ?w) < 2 ^ 256" using le_nat_bound [of "neg_loop 1 ?w"] by simp
  obtain k where k: "k \<le> 1" "le_nat (neg_loop 1 ?w) + 2 ^ 256 * k + unat v = 2 ^ 256"
    using neg_loop_nat [of 1 ?w] v by auto
  then consider "k = 0" | "k = 1" by linarith
  then show ?thesis
  proof cases
    case 1
    with k have "int (le_nat (neg_loop 1 ?w) + unat v) = int (2 ^ 256)" by simp
    then have "int (le_nat (neg_loop 1 ?w)) + int (unat v) = 2 ^ 256" by (simp only: of_nat_add of_nat_power of_nat_numeral)
    moreover have "\<not> le_nat (neg_loop 1 ?w) < 2 ^ 255" using 1 k unat_bounds(4) [of v] by simp
    ultimately show ?thesis by (simp only: abi_int_def r if_False)
  next
    case 2
    then show ?thesis using k by (simp add: abi_int_def r)
  qed
qed

lemma be_nat_scalars:
  "be_nat (wordU256FromU64 v) = unat v" "be_nat (wordBool b) = of_bool b" "be_nat wordU160Zero = 0"
  "be_nat (wordU24 f) = unat f mod 2 ^ 24"
proof -
  show "be_nat (wordU256FromU64 v) = unat v" by (simp add: wordU256FromU64_def be_nat_append be_nat_be64)
  show "be_nat (wordBool b) = of_bool b" unfolding wordBool_def be_nat_append by (simp add: be_nat_def)
  show "be_nat wordU160Zero = 0" by (simp only: wordU160Zero_def nat_zeros)
  have "unat (ucast (drop_bit n f) :: byte) = unat f div 2 ^ n mod 256" for n
    by (simp add: unsigned_ucast_eq unat_drop_bit take_bit_eq_mod)
  then have "be_nat (wordU24 f) = unat f div 2 ^ 16 mod 256 * 65536 + unat f div 2 ^ 8 mod 256 * 256 + unat (ucast f :: byte)"
    unfolding wordU24_def be_nat_append by (simp add: be_nat_def)
  also have "unat (ucast f :: byte) = unat f mod 256" by (simp add: unsigned_ucast_eq take_bit_eq_mod)
  also have "unat f div 2 ^ 16 mod 256 * 65536 + unat f div 2 ^ 8 mod 256 * 256 + unat f mod 256 = unat f mod (256 * (256 * 256))"
    by (simp only: mod_mult2_eq) (simp flip: div_mult2_eq)
  finally show "be_nat (wordU24 f) = unat f mod 2 ^ 24" by simp
qed

section \<open>Calldata decodes to what was encoded\<close>

text \<open>Argument words are where the head puts them, and the dynamic argument is found through its offset.\<close>

lemma abi_word_concat:
  assumes "\<forall>w \<in> set ws. length w = 32" and "k < length ws" and "length sel = 4"
  shows "abi_word (sel @ concat ws @ rest) k = ws ! k"
  using assms(1,2)
proof (induction ws arbitrary: k)
  case (Cons w ws)
  show ?case
  proof (cases k)
    case 0
    then show ?thesis using Cons.prems assms(3) by (simp add: abi_word_def)
  next
    case (Suc j)
    have "abi_word (sel @ concat (w # ws) @ rest) k = abi_word (sel @ concat ws @ rest) j"
      using Cons.prems assms(3) Suc by (simp add: abi_word_def)
    then show ?thesis using Cons Suc by simp
  qed
qed simp

lemma length_concat_words: "\<forall>w \<in> set ws. length w = 32 \<Longrightarrow> length (concat ws) = 32 * length ws"
  by (induction ws) simp_all

lemma abi_bytes_concat:
  assumes ws: "\<forall>w \<in> set ws. length w = 32" and k: "k < length ws" and sel: "length sel = 4"
    and off: "be_nat (ws ! k) = 32 * length ws" and small: "length h < 2 ^ 64"
  shows "abi_bytes (sel @ concat ws @ encodeDynamicBytes h) k = h"
proof -
  have len: "length (sel @ concat ws) = 4 + 32 * length ws" using length_concat_words [OF ws] sel by simp
  have w: "be_nat (replicate 24 0 @ be64 (of_nat (length h))) = length h"
    using small by (simp add: be_nat_append be_nat_be64 unat_of_nat)
  have dyn: "take 32 (encodeDynamicBytes h) = replicate 24 0 @ be64 (of_nat (length h))" "take (length h) (drop 32 (encodeDynamicBytes h)) = h"
    by (simp_all add: encodeDynamicBytes_def Let_def)
  have "drop (4 + 32 * length ws) (sel @ concat ws @ encodeDynamicBytes h) = encodeDynamicBytes h"
    "drop (4 + 32 * length ws + 32) (sel @ concat ws @ encodeDynamicBytes h) = drop 32 (encodeDynamicBytes h)"
    using len by (simp_all flip: append_assoc)
  then show ?thesis by (simp only: abi_bytes_def abi_word_concat [OF ws k sel] off Let_def dyn w)
qed

lemma length_encodeDynamicBytes: "\<exists>n. length (encodeDynamicBytes h) = 32 * n"
proof -
  have "(length h + 31) div 32 * 32 + (length h + 31) mod 32 = length h + 31" "(length h + 31) mod 32 < 32" by simp_all
  then have "length h \<le> (length h + 31) div 32 * 32" by linarith
  then have "length (encodeDynamicBytes h) = 32 * (1 + (length h + 31) div 32)" by (simp add: encodeDynamicBytes_def Let_def)
  then show ?thesis by blast
qed

lemma length_calldata:
  assumes "\<forall>w \<in> set ws. length w = 32" and "length sel = 4"
  shows "length (sel @ concat ws @ encodeDynamicBytes h) mod 32 = 4"
proof -
  obtain n where "length (encodeDynamicBytes h) = 32 * n" using length_encodeDynamicBytes by blast
  then have "length (sel @ concat ws @ encodeDynamicBytes h) = 4 + 32 * (length ws + n)"
    using assms(2) length_concat_words [OF assms(1)] by simp
  then show ?thesis by (simp only: mod_mult_self2) simp
qed

definition wf_pool :: "PoolKeyArgs \<Rightarrow> bool" where
  "wf_pool pk \<longleftrightarrow> length (pk_Currency0 pk) = 20 \<and> length (pk_Currency1 pk) = 20 \<and> length (pk_Hooks pk) = 20 \<and>
     - (2 ^ 31) \<le> pk_TickSpacing pk \<and> pk_TickSpacing pk < 2 ^ 31"

text \<open>What the first five words of either calldata mean: the pool key.\<close>

definition pool_words :: "bytes \<Rightarrow> PoolKeyArgs \<Rightarrow> bool" where
  "pool_words d pk \<longleftrightarrow> abi_word d 0 = replicate 12 0 @ pk_Currency0 pk \<and> abi_word d 1 = replicate 12 0 @ pk_Currency1 pk \<and>
     be_nat (abi_word d 2) = unat (pk_Fee pk) mod 2 ^ 24 \<and> abi_int (abi_word d 3) = pk_TickSpacing pk \<and>
     abi_word d 4 = replicate 12 0 @ pk_Hooks pk"

lemma swap_calldata:
  fixes zfo :: bool and amountIn :: u64
  assumes "wf_pool pk" and "length h < 2 ^ 64"
  defines "d \<equiv> EncodeSwapCalldata pk zfo amountIn h"
  shows "take 4 d = be32 SelectorSwap" "length d mod 32 = 4" "pool_words d pk" "be_nat (abi_word d 5) = of_bool zfo"
    "abi_int (abi_word d 6) = - int (unat amountIn)" "be_nat (abi_word d 7) = 0" "abi_bytes d 8 = h"
proof -
  let ?ws = "[wordAddr (pk_Currency0 pk), wordAddr (pk_Currency1 pk), wordU24 (pk_Fee pk), wordI24 (pk_TickSpacing pk),
    wordAddr (pk_Hooks pk), wordBool zfo, wordI256FromNegU64 amountIn, wordU160Zero, wordU256FromU64 ((5 + 3 + 1) * 32)]"
  have d: "d = be32 SelectorSwap @ concat ?ws @ encodeDynamicBytes h"
    by (simp only: d_def EncodeSwapCalldata_def Let_def append_assoc)
  have ws: "\<forall>w \<in> set ?ws. length w = 32" using assms(1) by (simp add: wf_pool_def)
  have word: "abi_word d k = ?ws ! k" if "k < 9" for k
    unfolding d by (rule abi_word_concat [OF ws]) (use that in simp_all)
  show "take 4 d = be32 SelectorSwap" by (simp add: d)
  show "length d mod 32 = 4" unfolding d by (rule length_calldata [OF ws]) simp
  show "pool_words d pk"
    using assms(1) by (simp add: pool_words_def word wordAddr_def be_nat_scalars abi_int_signed wf_pool_def)
  show "be_nat (abi_word d 5) = of_bool zfo" "be_nat (abi_word d 7) = 0" by (simp_all add: word be_nat_scalars)
  show "abi_int (abi_word d 6) = - int (unat amountIn)" by (simp only: word abi_int_negated) (simp add: abi_int_negated)
  show "abi_bytes d 8 = h" unfolding d by (rule abi_bytes_concat [OF ws _ _ _ assms(2)]) (simp_all add: be_nat_scalars)
qed

lemma liquidity_calldata:
  assumes "wf_pool pk" and "length (ml_Salt a) = 32" and "length h < 2 ^ 64"
    and t: "- (2 ^ 31) \<le> ml_TickLower a" "ml_TickLower a < 2 ^ 31" "- (2 ^ 31) \<le> ml_TickUpper a" "ml_TickUpper a < 2 ^ 31"
    and l: "- (2 ^ 63) \<le> ml_LiquidityDelta a" "ml_LiquidityDelta a < 2 ^ 63"
  defines "d \<equiv> EncodeModifyLiquidityCalldata pk a h"
  shows "take 4 d = be32 SelectorModifyLiquidity" "length d mod 32 = 4" "pool_words d pk" "abi_int (abi_word d 5) = ml_TickLower a"
    "abi_int (abi_word d 6) = ml_TickUpper a" "abi_int (abi_word d 7) = ml_LiquidityDelta a" "abi_word d 8 = ml_Salt a" "abi_bytes d 9 = h"
proof -
  let ?ws = "[wordAddr (pk_Currency0 pk), wordAddr (pk_Currency1 pk), wordU24 (pk_Fee pk), wordI24 (pk_TickSpacing pk),
    wordAddr (pk_Hooks pk), wordI24 (ml_TickLower a), wordI24 (ml_TickUpper a), wordI256FromInt64 (ml_LiquidityDelta a), ml_Salt a,
    wordU256FromU64 ((5 + 4 + 1) * 32)]"
  have d: "d = be32 SelectorModifyLiquidity @ concat ?ws @ encodeDynamicBytes h"
    by (simp only: d_def EncodeModifyLiquidityCalldata_def Let_def append_assoc)
  have ws: "\<forall>w \<in> set ?ws. length w = 32" using assms(1,2) by (simp add: wf_pool_def)
  have word: "abi_word d k = ?ws ! k" if "k < 10" for k
    unfolding d by (rule abi_word_concat [OF ws]) (use that in simp_all)
  show "take 4 d = be32 SelectorModifyLiquidity" by (simp add: d)
  show "length d mod 32 = 4" unfolding d by (rule length_calldata [OF ws]) simp
  show "pool_words d pk"
    using assms(1) by (simp add: pool_words_def word wordAddr_def be_nat_scalars abi_int_signed wf_pool_def)
  show "abi_int (abi_word d 5) = ml_TickLower a" "abi_int (abi_word d 6) = ml_TickUpper a"
    "abi_int (abi_word d 7) = ml_LiquidityDelta a" "abi_word d 8 = ml_Salt a"
    using t l by (simp_all add: word abi_int_signed)
  show "abi_bytes d 9 = h" unfolding d by (rule abi_bytes_concat [OF ws _ _ _ assms(3)]) (simp_all add: be_nat_scalars)
qed

lemma intent_hook: "intent_body (EncodeIntentHookData deadline nonce) = Some (unat deadline, unat nonce)"
  by (simp add: EncodeIntentHookData_def intent_body_def Let_def be_nat_append be_nat_be64) (simp add: intentPhaseTag_def be_nat_append be_nat_be64)

lemma settlement_hook:
  fixes amount :: u64
  assumes "length out = 32" and "length i = 32"
  defines "h \<equiv> EncodeSettlementHookData out amount i"
  shows "take 4 h = settlementPhaseTag" "length h = 4 + settlementBodyLen" "take 32 (drop 4 h) = out"
    "be_nat (take 32 (drop 36 h)) = unat amount" "drop 68 h = i" "intent_body h = None"
  using assms(1,2)
  by (simp_all add: h_def EncodeSettlementHookData_def Let_def settlementPhaseTag_def settlementBodyLen_def be_nat_append be_nat_be64
      intent_body_def intentPhaseTag_def)

text \<open>The bytes a wallet is given are the ABI encoding of what was asked: decoding the swap calldata by the
  ABI rules gives back the pool key (the fee modulo its 24 bits, the tick spacing with its sign), the
  direction, the exact input as the negated 256-bit amount, no price limit and the hook data; the
  liquidity calldata gives back the pool key, both ticks, the signed liquidity change, the salt and the hook data;
  and the length is a selector and whole words.\<close>

lemma calldata_decodes:
  assumes "wf_pool pk" and "length h < 2 ^ 64" and "length (ml_Salt a) = 32"
    and "- (2 ^ 31) \<le> ml_TickLower a" and "ml_TickLower a < 2 ^ 31" and "- (2 ^ 31) \<le> ml_TickUpper a" and "ml_TickUpper a < 2 ^ 31"
    and "- (2 ^ 63) \<le> ml_LiquidityDelta a" and "ml_LiquidityDelta a < 2 ^ 63"
  shows "(let d = EncodeSwapCalldata pk zfo amountIn h in
      take 4 d = be32 SelectorSwap \<and> length d mod 32 = 4 \<and> pool_words d pk \<and> be_nat (abi_word d 5) = of_bool zfo \<and>
      abi_int (abi_word d 6) = - int (unat amountIn) \<and> be_nat (abi_word d 7) = 0 \<and> abi_bytes d 8 = h) \<and>
    (let d = EncodeModifyLiquidityCalldata pk a h in
      take 4 d = be32 SelectorModifyLiquidity \<and> length d mod 32 = 4 \<and> pool_words d pk \<and>
      abi_int (abi_word d 5) = ml_TickLower a \<and> abi_int (abi_word d 6) = ml_TickUpper a \<and>
      abi_int (abi_word d 7) = ml_LiquidityDelta a \<and> abi_word d 8 = ml_Salt a \<and> abi_bytes d 9 = h)"
  unfolding Let_def using swap_calldata [OF assms(1,2)] liquidity_calldata [OF assms(1,3,2,4-)] by blast

definition sample_pool :: PoolKeyArgs where
  "sample_pool = \<lparr>pk_Currency0 = replicate 20 1, pk_Currency1 = replicate 20 2, pk_Fee = 3000, pk_TickSpacing = - 60, pk_Hooks = ZeroAccount\<rparr>"

lemma wf_sample_pool: "wf_pool sample_pool"
  by (simp add: wf_pool_def sample_pool_def ZeroAccount_def)

section \<open>Value records and identifiers bind their fields\<close>

text \<open>The record decodes to its fields, and only canonical records decode.\<close>

lemma atomic_object_roundtrip:
  "length owner = 20 \<Longrightarrow> length asset = 32 \<Longrightarrow> DecodeAtomicObject (EncodeAtomicObject owner asset amount) = (owner, asset, amount, True)"
  "DecodeAtomicObject v = (owner', asset', amount', True) \<Longrightarrow> EncodeAtomicObject owner' asset' amount' = v \<and> length owner' = 20 \<and> length asset' = 32"
proof -
  show "length owner = 20 \<Longrightarrow> length asset = 32 \<Longrightarrow> DecodeAtomicObject (EncodeAtomicObject owner asset amount) = (owner, asset, amount, True)"
    by (simp add: DecodeAtomicObject_def EncodeAtomicObject_def exportedObjectSize_def)
  assume "DecodeAtomicObject v = (owner', asset', amount', True)"
  then have v: "length v = 60" "owner' = take 20 v" "asset' = take 32 (drop 20 v)" "amount' = u64_be (take 8 (drop 52 v))"
    by (auto simp: DecodeAtomicObject_def exportedObjectSize_def split: if_splits)
  then have "be64 amount' = drop 52 v" using codec_roundtrip_bytes(5) [of "drop 52 v"] by simp
  moreover have "take 20 v @ take 32 (drop 20 v) @ drop 52 v = v" using append_take_drop_id [of 32 "drop 20 v"] by simp
  ultimately show "EncodeAtomicObject owner' asset' amount' = v \<and> length owner' = 20 \<and> length asset' = 32"
    using v by (simp add: EncodeAtomicObject_def)
qed

text \<open>Two requests hash the same bytes for their intent id only if they agree in every field, so ids
  that coincide on different requests are a collision of the hash.\<close>

lemma intent_preimage_inj:
  assumes "intent_preimage n c d acct asset amt mkt k = intent_preimage n' c' d' acct' asset' amt' mkt' k'"
    and "length c = 32" "length c' = 32" "length d = 32" "length d' = 32" "length acct = 20" "length acct' = 20"
    and "length asset = 32" "length asset' = 32" "length mkt = 32" "length mkt' = 32"
  shows "n = n' \<and> c = c' \<and> d = d' \<and> acct = acct' \<and> asset = asset' \<and> amt = amt' \<and> mkt = mkt' \<and> k = k'"
  using assms by (simp add: intent_preimage_def)

lemma utxo_preimage_inj:
  "length t = 32 \<Longrightarrow> length t' = 32 \<Longrightarrow> t @ be32 i = t' @ be32 i' \<longleftrightarrow> t = t' \<and> i = i'"
  by simp

end
