(* ===== verification/Dex_Session.thy ===== *)
theory Dex_Session
  imports Dex_Calldata Zap_Node
begin

text \<open>
  The client session of the DEX protocol and the node that serves it: capabilities (\<open>src/dexsession/capability.go\<close>),
  promises (\<open>promise.go\<close>), the operations (\<open>session.go\<close>), watches (\<open>watch.go\<close>), the flows (\<open>pipeline.go\<close>) and the
  server's handlers (\<open>server.go\<close>). A promise is unresolved, resolved with a value or an error, or its goroutine
  has panicked. The transport is the argument \<open>call\<close> of an operation, one per call site, so the peer may answer each
  call differently or never. The random token of a new capability is an argument; a venue is a record of functions.
\<close>

unbundle bit_operations_syntax

section \<open>Errors and promises\<close>

datatype dex_error =
    ErrNoAuthority | ErrRevoked | ErrScopeMismatch | ErrScopeUnset | CtxErr | TransportErr | BuildErr zap_error
  | NilWatch | ZeroAmount | UnknownMarket | EmptyPath | IntentRejected bytes | NoSender | SendErr | NotClientSession
  | BadLiquidity

datatype 'a Promise = Pending | Crashed | Resolved "dex_error + 'a"

definition fulfil :: "'a Promise \<Rightarrow> dex_error + 'a \<Rightarrow> 'a Promise" where
  "fulfil p r = (case p of Resolved r0 \<Rightarrow> p | _ \<Rightarrow> Resolved r)"

text \<open>\<open>Await\<close> selects between the promise and the context: \<open>ctxFirst\<close> is that the context's branch is taken, which
  the select may do whenever the context has ended, also when the promise is resolved.\<close>

definition Await :: "bool \<Rightarrow> 'a Promise \<Rightarrow> 'a Promise" where
  "Await ctxFirst p = (if ctxFirst then Resolved (Inl CtxErr) else p)"

definition thenAsync :: "bool \<Rightarrow> 'a Promise \<Rightarrow> ('a \<Rightarrow> 'b Promise) \<Rightarrow> 'b Promise" where
  "thenAsync ctxFirst p fn =
     (case Await ctxFirst p of
        Pending \<Rightarrow> Pending
      | Crashed \<Rightarrow> Crashed
      | Resolved (Inl err) \<Rightarrow> Resolved (Inl err)
      | Resolved (Inr v) \<Rightarrow> fn v)"

text \<open>The body the operations share: build the request, call the peer, read the answer.\<close>

definition roundTrip :: "(zap_error + Message) option \<Rightarrow> (Message \<Rightarrow> Message Promise) \<Rightarrow> (Message \<Rightarrow> 'a option) \<Rightarrow> 'a Promise" where
  "roundTrip req call rd =
     (case req of
        None \<Rightarrow> Crashed
      | Some (Inl err) \<Rightarrow> Resolved (Inl (BuildErr err))
      | Some (Inr reqMsg) \<Rightarrow>
          thenAsync False (call reqMsg) (\<lambda>resp. case rd resp of None \<Rightarrow> Crashed | Some v \<Rightarrow> Resolved (Inr v)))"

section \<open>Capabilities\<close>

type_synonym Authority = u32
type_synonym token = bytes

definition AuthQuote :: Authority where "AuthQuote = push_bit 0 1"
definition AuthIntent :: Authority where "AuthIntent = push_bit 1 1"
definition AuthWatch :: Authority where "AuthWatch = push_bit 2 1"
definition AuthSettlement :: Authority where "AuthSettlement = push_bit 3 1"
definition AuthAdmin :: Authority where "AuthAdmin = push_bit 4 1"
definition AuthorityPublic :: Authority where "AuthorityPublic = AuthQuote OR AuthIntent OR AuthWatch OR AuthSettlement"
definition AuthorityReadOnly :: Authority where "AuthorityReadOnly = AuthQuote"

record grant =
  g_bits :: Authority
  g_revoked :: bool

record capCore =
  cc_tok :: token
  cc_bits :: Authority

record clientSession =
  cs_peerID :: bytes
  cs_grant :: Authority
  cs_market :: "ID \<Rightarrow> PoolKeyArgs option"
  cs_grants :: "token \<rightharpoonup> grant"

definition NewSession :: "bytes \<Rightarrow> Authority \<Rightarrow> (ID \<Rightarrow> PoolKeyArgs option) option \<Rightarrow> clientSession" where
  "NewSession peerID grant markets =
     \<lparr>cs_peerID = peerID, cs_grant = grant, cs_market = (case markets of None \<Rightarrow> (\<lambda>_. None) | Some m \<Rightarrow> m), cs_grants = Map.empty\<rparr>"

text \<open>\<open>t\<close> is what \<open>newToken\<close> drew, all zero if the random source failed.\<close>

definition issue :: "clientSession \<Rightarrow> Authority \<Rightarrow> token \<Rightarrow> clientSession \<times> (dex_error + capCore)" where
  "issue s bits t =
     (if cs_grant s AND bits \<noteq> bits then (s, Inl ErrNoAuthority)
      else if t = replicate 32 0 then (s, Inl ErrNoAuthority)
      else (s\<lparr>cs_grants := (cs_grants s)(t \<mapsto> \<lparr>g_bits = bits, g_revoked = False\<rparr>)\<rparr>, Inr \<lparr>cc_tok = t, cc_bits = bits\<rparr>))"

definition checkGrant :: "clientSession \<Rightarrow> token \<Rightarrow> Authority \<Rightarrow> dex_error option" where
  "checkGrant s t need =
     (case cs_grants s t of
        None \<Rightarrow> Some ErrNoAuthority
      | Some g \<Rightarrow>
          if g_revoked g then Some ErrRevoked
          else if g_bits g AND need \<noteq> need then Some ErrNoAuthority
          else None)"

definition Revoke :: "clientSession \<Rightarrow> token \<Rightarrow> clientSession" where
  "Revoke s t =
     (case cs_grants s t of
        None \<Rightarrow> s
      | Some g \<Rightarrow> s\<lparr>cs_grants := (cs_grants s)(t \<mapsto> g\<lparr>g_revoked := True\<rparr>)\<rparr>)"

text \<open>\<open>None\<close> for a nil capability; the session is the one that issued it.\<close>

definition authorize :: "clientSession \<Rightarrow> capCore option \<Rightarrow> Authority \<Rightarrow> dex_error option" where
  "authorize s c need =
     (case c of
        None \<Rightarrow> Some ErrNoAuthority
      | Some core \<Rightarrow> if cc_bits core AND need \<noteq> need then Some ErrNoAuthority else checkGrant s (cc_tok core) need)"

definition QuoteCap :: "clientSession \<Rightarrow> token \<Rightarrow> clientSession \<times> (dex_error + capCore)" where
  "QuoteCap s t = issue s AuthQuote t"

definition IntentCap :: "clientSession \<Rightarrow> token \<Rightarrow> clientSession \<times> (dex_error + capCore)" where
  "IntentCap s t = issue s AuthIntent t"

definition WatchCap :: "clientSession \<Rightarrow> token \<Rightarrow> clientSession \<times> (dex_error + capCore)" where
  "WatchCap s t = issue s AuthWatch t"

definition SettlementCap :: "clientSession \<Rightarrow> token \<Rightarrow> clientSession \<times> (dex_error + capCore)" where
  "SettlementCap s t = issue s AuthSettlement t"

definition AdminCap :: "clientSession \<Rightarrow> token \<Rightarrow> clientSession \<times> (dex_error + capCore)" where
  "AdminCap s t = issue s AuthAdmin t"

definition requireGrant :: "clientSession \<Rightarrow> Authority \<Rightarrow> dex_error option" where
  "requireGrant s need = (if cs_grant s AND need \<noteq> need then Some ErrNoAuthority else None)"

section \<open>Operations\<close>

definition addr9999 :: Account where
  "addr9999 = replicate 18 0 @ [0x99, 0x99]"

definition zeroForOneFor :: "SwapIntentRequest \<Rightarrow> bool" where
  "zeroForOneFor req = True"

definition Quote :: "clientSession \<Rightarrow> (Message \<Rightarrow> Message Promise) \<Rightarrow> QuoteRequest \<Rightarrow> QuoteResult Promise" where
  "Quote s call req =
     (case requireGrant s AuthQuote of
        Some err \<Rightarrow> Resolved (Inl err)
      | None \<Rightarrow> roundTrip (buildQuoteRequest req) call readQuoteResult)"

definition GetState :: "clientSession \<Rightarrow> (Message \<Rightarrow> Message Promise) \<Rightarrow> StateRequest \<Rightarrow> StateResult Promise" where
  "GetState s call req =
     (case requireGrant s AuthQuote of
        Some err \<Rightarrow> Resolved (Inl err)
      | None \<Rightarrow> roundTrip (buildStateRequest req) call readStateResult)"

definition quoteFor :: "SwapIntentRequest \<Rightarrow> QuoteRequest" where
  "quoteFor req = \<lparr>qreq_MarketID = sir_MarketID req, qreq_AmountIn = sir_AmountIn req, qreq_ZeroForOne = zeroForOneFor req\<rparr>"

text \<open>The quote is awaited; an error of it (the context's included) leaves the estimate at 0.\<close>

definition prepareLocal ::
  "(bytes \<Rightarrow> bytes) \<Rightarrow> clientSession \<Rightarrow> (Message \<Rightarrow> Message Promise) \<Rightarrow> SwapIntentRequest \<Rightarrow> PreparedIntent Promise" where
  "prepareLocal sha256 s call req =
     (if sir_AmountIn req = 0 then Resolved (Inl ZeroAmount)
      else
        case cs_market s (sir_MarketID req) of
          None \<Rightarrow> Resolved (Inl UnknownMarket)
        | Some pk \<Rightarrow>
            let prepared = (\<lambda>quoted.
              let intentID = DeriveIntentID sha256 (sir_NetworkID req) (sir_CChainID req) (sir_DChainID req) (sir_Account req)
                    (sir_AssetIn req) (sir_AmountIn req) (sir_MarketID req) (sir_Nonce req);
                  hookData = EncodeIntentHookData (sir_Deadline req) (sir_Nonce req);
                  calldata = EncodeSwapCalldata pk (zeroForOneFor req) (sir_AmountIn req) hookData
              in \<lparr>pi_To = addr9999, pi_Calldata = calldata, pi_HookData = hookData, pi_IntentID = intentID, pi_QuotedOut = quoted,
                   pi_DChainID = sir_DChainID req, pi_CChainID = sir_CChainID req, pi_Account = sir_Account req,
                   pi_Recipient = sir_Recipient req, pi_AssetIn = sir_AssetIn req, pi_AmountIn = sir_AmountIn req,
                   pi_MarketID = sir_MarketID req\<rparr>)
            in case Quote s call (quoteFor req) of
                 Pending \<Rightarrow> Pending
               | Crashed \<Rightarrow> Crashed
               | Resolved (Inl err) \<Rightarrow> Resolved (Inr (prepared 0))
               | Resolved (Inr qr) \<Rightarrow> Resolved (Inr (prepared (qres_AmountOut qr))))"

definition PrepareSwapIntent ::
  "(bytes \<Rightarrow> bytes) \<Rightarrow> clientSession \<Rightarrow> (Message \<Rightarrow> Message Promise) \<Rightarrow> SwapIntentRequest \<Rightarrow> PreparedIntent Promise" where
  "PrepareSwapIntent sha256 s call req =
     (case requireGrant s AuthIntent of
        Some err \<Rightarrow> Resolved (Inl err)
      | None \<Rightarrow> prepareLocal sha256 s call req)"

text \<open>A watch holds its session, nil in the zero value, and the intent it follows.\<close>

record IntentWatch =
  iwt_session :: "clientSession option"
  iwt_intentID :: ID

definition NotifyIntent ::
  "bool \<Rightarrow> clientSession \<Rightarrow> (Message \<Rightarrow> Message Promise) \<Rightarrow> PreparedIntent Promise \<Rightarrow> IntentWatch Promise" where
  "NotifyIntent ctxFirst s call intent = thenAsync ctxFirst intent (\<lambda>pi.
     case requireGrant s AuthIntent of
       Some err \<Rightarrow> Resolved (Inl err)
     | None \<Rightarrow> thenAsync False (roundTrip (buildPreparedIntent pi MsgNotify) call readIntentWatchRef) (\<lambda>ref.
         Resolved (Inr \<lparr>iwt_session = Some s, iwt_intentID = iw_IntentID ref\<rparr>)))"

definition ImportSettlement ::
  "bool \<Rightarrow> clientSession \<Rightarrow> (Message \<Rightarrow> Message Promise) \<Rightarrow> DExportRef Promise \<Rightarrow> SettlementSubmitResult Promise" where
  "ImportSettlement ctxFirst s call ref = thenAsync ctxFirst ref (\<lambda>r.
     case requireGrant s AuthSettlement of
       Some err \<Rightarrow> Resolved (Inl err)
     | None \<Rightarrow> roundTrip (buildDExportRef r) call readSettlementResult)"

section \<open>Watches\<close>

definition IntentWatch_Poll :: "IntentWatch \<Rightarrow> (Message \<Rightarrow> Message Promise) \<Rightarrow> IntentStatus Promise" where
  "IntentWatch_Poll w call =
     (case iwt_session w of
        None \<Rightarrow> Resolved (Inl NilWatch)
      | Some s \<Rightarrow>
          (case requireGrant s AuthWatch of
             Some err \<Rightarrow> Resolved (Inl err)
           | None \<Rightarrow> roundTrip (buildWatchPollRequest (iwt_intentID w)) call readIntentStatus))"

text \<open>One turn of a polling loop: whether the context has ended at its start, how the peer answers the poll, and
  whether the context ends while it waits. A run that uses up its turns has not resolved yet. The first
  component is the waits in milliseconds.\<close>

record turn =
  t_done :: bool
  t_call :: "Message \<Rightarrow> Message Promise"
  t_doneWaiting :: bool

definition maxBackoff :: int where "maxBackoff = 2000"

definition nextBackoff :: "int \<Rightarrow> int" where
  "nextBackoff backoff =
     (if backoff < maxBackoff then
        let b = backoff * 2 in if maxBackoff < b then maxBackoff else b
      else backoff)"

fun streamUntilCommitted :: "IntentWatch \<Rightarrow> int \<Rightarrow> turn list \<Rightarrow> int list \<times> DExportRef Promise" where
  "streamUntilCommitted w backoff [] = ([], Pending)"
| "streamUntilCommitted w backoff (t # ts) =
     (if t_done t then ([], Resolved (Inl CtxErr))
      else
        case IntentWatch_Poll w (t_call t) of
          Pending \<Rightarrow> ([], Pending)
        | Crashed \<Rightarrow> ([], Crashed)
        | Resolved (Inl err) \<Rightarrow> ([], Resolved (Inl err))
        | Resolved (Inr st) \<Rightarrow>
            if is_Phase st = PhaseCommitted then
              ([], Resolved (Inr ((is_Ref st)\<lparr>der_IntentID := iwt_intentID w\<rparr>)))
            else if is_Phase st = PhaseRejected then
              let reason = (if is_Reason st = [] then ascii ''intent rejected by D'' else is_Reason st)
              in ([], Resolved (Inl (IntentRejected reason)))
            else if t_doneWaiting t then ([backoff], Resolved (Inl CtxErr))
            else
              let (waits, r) = streamUntilCommitted w (nextBackoff backoff) ts
              in (backoff # waits, r))"

definition OnCommitted :: "IntentWatch \<Rightarrow> turn list \<Rightarrow> DExportRef Promise" where
  "OnCommitted w ts =
     (case iwt_session w of
        None \<Rightarrow> Resolved (Inl NilWatch)
      | Some s \<Rightarrow>
          (case requireGrant s AuthWatch of
             Some err \<Rightarrow> Resolved (Inl err)
           | None \<Rightarrow> snd (streamUntilCommitted w 25 ts)))"

section \<open>Flows\<close>

record FlowStages =
  fs_Quote :: "QuoteResult Promise"
  fs_Intent :: "PreparedIntent Promise"
  fs_Watch :: "IntentWatch Promise"
  fs_Committed :: "DExportRef Promise"
  fs_Settle :: "SettlementSubmitResult Promise"

text \<open>How the peer answers each stage, and at which stage the context wins a select.\<close>

record flow_env =
  fe_quote :: "Message \<Rightarrow> Message Promise"
  fe_prepare :: "Message \<Rightarrow> Message Promise"
  fe_notify :: "Message \<Rightarrow> Message Promise"
  fe_turns :: "turn list"
  fe_import :: "Message \<Rightarrow> Message Promise"
  fe_ctx :: "nat \<Rightarrow> bool"

definition SwapFlow :: "(bytes \<Rightarrow> bytes) \<Rightarrow> clientSession \<Rightarrow> flow_env \<Rightarrow> SwapIntentRequest \<Rightarrow> FlowStages" where
  "SwapFlow sha256 s env req =
     (let quote = Quote s (fe_quote env) (quoteFor req);
          intent = PrepareSwapIntent sha256 s (fe_prepare env) req;
          watch = NotifyIntent (fe_ctx env 0) s (fe_notify env) intent;
          committed = thenAsync (fe_ctx env 1) watch (\<lambda>w. Await (fe_ctx env 2) (OnCommitted w (fe_turns env)));
          settle = ImportSettlement (fe_ctx env 3) s (fe_import env) committed
      in \<lparr>fs_Quote = quote, fs_Intent = intent, fs_Watch = watch, fs_Committed = committed, fs_Settle = settle\<rparr>)"

text \<open>\<open>send\<close> signs and submits the user's transaction, an argument of the flow; nil is \<open>None\<close>, an error \<open>False\<close>.\<close>

definition SwapFlowWithSender ::
  "(bytes \<Rightarrow> bytes) \<Rightarrow> clientSession \<Rightarrow> flow_env \<Rightarrow> SwapIntentRequest \<Rightarrow> (Account \<Rightarrow> bytes \<Rightarrow> bool) option \<Rightarrow> FlowStages" where
  "SwapFlowWithSender sha256 s env req send =
     (let quote = Quote s (fe_quote env) (quoteFor req);
          intent = PrepareSwapIntent sha256 s (fe_prepare env) req;
          funded = thenAsync (fe_ctx env 4) intent (\<lambda>pi.
            case send of
              None \<Rightarrow> Resolved (Inl NoSender)
            | Some f \<Rightarrow> if f (pi_To pi) (pi_Calldata pi) then Resolved (Inr pi) else Resolved (Inl SendErr));
          watch = NotifyIntent (fe_ctx env 0) s (fe_notify env) funded;
          committed = thenAsync (fe_ctx env 1) watch (\<lambda>w. Await (fe_ctx env 2) (OnCommitted w (fe_turns env)));
          settle = ImportSettlement (fe_ctx env 3) s (fe_import env) committed
      in \<lparr>fs_Quote = quote, fs_Intent = intent, fs_Watch = watch, fs_Committed = committed, fs_Settle = settle\<rparr>)"

section \<open>The serving node\<close>

text \<open>A venue and, where it also serves routes, its route part. \<open>None\<close> is the error of a method.\<close>

record Venue =
  v_Quote :: "QuoteRequest \<Rightarrow> QuoteResult option"
  v_State :: "StateRequest \<Rightarrow> StateResult option"
  v_NotifyIntent :: "PreparedIntent \<Rightarrow> IntentWatchRef option"
  v_WatchStatus :: "ID \<Rightarrow> IntentStatus option"
  v_ResolveExport :: "DExportRef \<Rightarrow> SettlementSubmitResult option"

record RouteVenue =
  rv_NotifyRoute :: "RouteRequest \<Rightarrow> IntentWatchRef option"
  rv_RouteStatus :: "ID \<Rightarrow> RouteStatus option"

definition respond :: "(zap_error + Message) option \<Rightarrow> handler_result" where
  "respond r = (case r of None \<Rightarrow> HPanic | Some (Inl e) \<Rightarrow> HErr | Some (Inr m) \<Rightarrow> HOk (Some m))"

definition handleQuote :: "Venue \<Rightarrow> Handler" where
  "handleQuote v peer msg =
     (case readQuoteRequest msg of
        None \<Rightarrow> HPanic
      | Some req \<Rightarrow>
          (case v_Quote v req of
             None \<Rightarrow> respond (buildQuoteResult \<lparr>qres_MarketID = qreq_MarketID req, qres_AmountIn = 0, qres_AmountOut = 0,
                        qres_BestPricePx = 0, qres_Liquid = False\<rparr>)
           | Some res \<Rightarrow> respond (buildQuoteResult res)))"

definition handleGetState :: "Venue \<Rightarrow> Handler" where
  "handleGetState v peer msg =
     (case readStateRequest msg of
        None \<Rightarrow> HPanic
      | Some req \<Rightarrow>
          (case v_State v req of
             None \<Rightarrow> respond (buildStateResult \<lparr>sres_Kind = sreq_Kind req, sres_Exists = False, sres_BaseID = ZeroID,
                        sres_QuoteID = ZeroID, sres_Available = 0, sres_Known = False\<rparr>)
           | Some res \<Rightarrow> respond (buildStateResult res)))"

definition handleNotify :: "Venue \<Rightarrow> Handler" where
  "handleNotify v peer msg =
     (case readPreparedIntent msg of
        None \<Rightarrow> HPanic
      | Some pi \<Rightarrow>
          (case v_NotifyIntent v pi of
             None \<Rightarrow> respond (buildIntentWatchRef \<lparr>iw_IntentID = pi_IntentID pi\<rparr>)
           | Some ref \<Rightarrow> respond (buildIntentWatchRef ref)))"

definition handleWatchPoll :: "Venue \<Rightarrow> Handler" where
  "handleWatchPoll v peer msg =
     (case readWatchPollRequest msg of
        None \<Rightarrow> HPanic
      | Some intentID \<Rightarrow>
          (case v_WatchStatus v intentID of
             None \<Rightarrow> respond (buildIntentStatus \<lparr>is_IntentID = intentID, is_Phase = PhaseUnknown, is_Ref = ZeroRef,
                        is_Reason = ascii ''venue unavailable'', is_MatchedOut = 0\<rparr>)
           | Some st \<Rightarrow> respond (buildIntentStatus (st\<lparr>is_IntentID := intentID\<rparr>))))"

definition handleImport :: "(bytes \<Rightarrow> bytes) \<Rightarrow> Venue \<Rightarrow> Handler" where
  "handleImport sha256 v peer msg =
     (case readDExportRef msg of
        None \<Rightarrow> HPanic
      | Some ref \<Rightarrow>
          (case v_ResolveExport v ref of
             None \<Rightarrow> respond (buildSettlementResult \<lparr>ss_Mode = SettleCalldata, ss_To = addr9999, ss_Calldata = [],
                        ss_ObjectKey = ObjectKey sha256 ref, ss_CTxHash = ZeroID\<rparr>)
           | Some res \<Rightarrow> respond (buildSettlementResult (res\<lparr>ss_ObjectKey := ObjectKey sha256 ref, ss_To := addr9999\<rparr>))))"

definition handleRoutePrepare :: "(bytes \<Rightarrow> bytes) \<Rightarrow> RouteVenue \<Rightarrow> Handler" where
  "handleRoutePrepare sha256 rv peer msg =
     (case readRouteRequest msg of
        None \<Rightarrow> HPanic
      | Some req \<Rightarrow>
          (case rv_NotifyRoute rv req of
             None \<Rightarrow>
               let (first, ok) = firstMarket req;
                   intentID = DeriveIntentID sha256 (rr_NetworkID req) (rr_CChainID req) (rr_DChainID req) (rr_Account req)
                     (rr_AssetIn req) (rr_AmountIn req) first (ucast (rr_CallIndex req))
               in respond (buildIntentWatchRef \<lparr>iw_IntentID = intentID\<rparr>)
           | Some ref \<Rightarrow> respond (buildIntentWatchRef ref)))"

definition handleRouteStatus :: "RouteVenue \<Rightarrow> Handler" where
  "handleRouteStatus rv peer msg =
     (case readRouteWatchPoll msg of
        None \<Rightarrow> HPanic
      | Some intentID \<Rightarrow>
          (case rv_RouteStatus rv intentID of
             None \<Rightarrow> respond (buildRouteStatus \<lparr>rs_IntentID = intentID, rs_Phase = RouteUnknown, rs_HopIndex = 0, rs_HopCount = 0,
                        rs_HopAmountOut = 0, rs_FinalOut = 0, rs_Ref = ZeroRef,
                        rs_Reason = ascii ''venue unavailable''\<rparr>)
           | Some st \<Rightarrow> respond (buildRouteStatus (st\<lparr>rs_IntentID := intentID\<rparr>))))"

definition registerHandlers :: "(bytes \<Rightarrow> bytes) \<Rightarrow> Node \<Rightarrow> Venue \<Rightarrow> RouteVenue option \<Rightarrow> Node" where
  "registerHandlers sha256 node v rv =
     (let n1 = Node_Handle node MsgQuote (handleQuote v);
          n2 = Node_Handle n1 MsgGetState (handleGetState v);
          n3 = Node_Handle n2 MsgNotify (handleNotify v);
          n4 = Node_Handle n3 MsgWatchPoll (handleWatchPoll v);
          n5 = Node_Handle n4 MsgImport (handleImport sha256 v)
      in case rv of
           None \<Rightarrow> n5
         | Some r \<Rightarrow> Node_Handle (Node_Handle n5 MsgRoutePrepare (handleRoutePrepare sha256 r)) MsgRouteStatus (handleRouteStatus r))"

text \<open>\<open>fs_routes\<close> is the venue as a \<open>RouteVenue\<close>, when it implements that interface too.\<close>

record FullServiceNode =
  fs_node :: Node
  fs_venue :: Venue
  fs_routes :: "RouteVenue option"
  fs_markets :: "(ID \<Rightarrow> PoolKeyArgs option) option"

definition NewFullServiceNode :: "(bytes \<Rightarrow> bytes) \<Rightarrow> Node \<Rightarrow> Venue \<Rightarrow> RouteVenue option \<Rightarrow>
    (ID \<Rightarrow> PoolKeyArgs option) option \<Rightarrow> FullServiceNode" where
  "NewFullServiceNode sha256 node v rv markets =
     \<lparr>fs_node = registerHandlers sha256 node v rv, fs_venue = v, fs_routes = rv, fs_markets = markets\<rparr>"

definition Bootstrap :: "FullServiceNode \<Rightarrow> bytes \<Rightarrow> Authority \<Rightarrow> clientSession" where
  "Bootstrap fsn peerID grant = NewSession peerID grant (fs_markets fsn)"

text \<open>How a node with these handlers answers a call: the reply of its dispatch, parsed by the caller, or nothing.\<close>

definition peer_call :: "Node \<Rightarrow> bytes \<Rightarrow> Message \<Rightarrow> Message Promise" where
  "peer_call node callerID m =
     (case handler_reply (n_handlers node) callerID (Message_Bytes m) of
        None \<Rightarrow> Pending
      | Some r \<Rightarrow> (case Parse (Message_Bytes r) of Inl e \<Rightarrow> Pending | Inr r' \<Rightarrow> Resolved (Inr r')))"

section \<open>Capabilities are exact\<close>

text \<open>What the holder of a session can do to its grant table.\<close>

datatype grant_op = Issue Authority token | RevokeTok token

fun run_grant_op :: "clientSession \<Rightarrow> grant_op \<Rightarrow> clientSession" where
  "run_grant_op s (Issue bits t) = fst (issue s bits t)"
| "run_grant_op s (RevokeTok t) = Revoke s t"

lemma issue_cases:
  "issue s bits t = (s', Inr c) \<longleftrightarrow> cs_grant s AND bits = bits \<and> t \<noteq> replicate 32 0 \<and> c = \<lparr>cc_tok = t, cc_bits = bits\<rparr> \<and>
     s' = s\<lparr>cs_grants := (cs_grants s)(t \<mapsto> \<lparr>g_bits = bits, g_revoked = False\<rparr>)\<rparr>"
  by (auto simp: issue_def)

lemma run_grant_op_grant [simp]: "cs_grant (run_grant_op s op) = cs_grant s"
  by (cases op) (auto simp: issue_def Revoke_def split: option.splits)

lemma run_grant_ops_grant [simp]: "cs_grant (foldl run_grant_op s ops) = cs_grant s"
  by (induction ops arbitrary: s) simp_all

lemma run_grant_op_other:
  assumes "\<forall>bits. op \<noteq> Issue bits t" and "cs_grants s t = Some g"
  shows "cs_grants (run_grant_op s op) t = Some (g\<lparr>g_revoked := g_revoked g \<or> RevokeTok t = op\<rparr>)"
proof (cases op)
  case (Issue b u)
  then show ?thesis using assms by (auto simp: issue_def)
next
  case (RevokeTok u)
  then show ?thesis using assms by (cases "u = t") (auto simp: Revoke_def split: option.splits)
qed

lemma run_grant_ops_other:
  assumes "\<forall>bits. Issue bits t \<notin> set ops" and "cs_grants s t = Some g"
  shows "cs_grants (foldl run_grant_op s ops) t = Some (g\<lparr>g_revoked := g_revoked g \<or> RevokeTok t \<in> set ops\<rparr>)"
  using assms
proof (induction ops arbitrary: s g)
  case (Cons op ops)
  from Cons.prems run_grant_op_other [of op t s g]
  have "cs_grants (run_grant_op s op) t = Some (g\<lparr>g_revoked := g_revoked g \<or> RevokeTok t = op\<rparr>)" by auto
  from Cons.IH [OF _ this] Cons.prems show ?case by (auto simp: disj_assoc)
qed simp

lemma AND_trans: "g AND b = b \<Longrightarrow> b AND n = n \<Longrightarrow> g AND n = n" for g b n :: Authority
  by (metis and.assoc)

text \<open>C19. A capability is worth exactly what it was issued for: the session issues a capability only within the
  authority it was bootstrapped with, and whatever capabilities are issued and revoked afterwards, as long
  as the random source does not repeat the token, the capability authorises an operation if and only if its
  bits cover what the operation needs and it has not itself been revoked; so it never authorises anything
  beyond the session's own grant.\<close>

theorem capability_exact:
  assumes "issue s bits t = (s1, Inr c)" and "\<forall>b. Issue b t \<notin> set ops"
  shows "cs_grant s AND bits = bits \<and>
    (authorize (foldl run_grant_op s1 ops) (Some c) need = None \<longleftrightarrow> bits AND need = need \<and> RevokeTok t \<notin> set ops) \<and>
    (authorize (foldl run_grant_op s1 ops) (Some c) need = None \<longrightarrow> requireGrant (foldl run_grant_op s1 ops) need = None) \<and>
    (bits AND need = need \<and> RevokeTok t \<in> set ops \<longrightarrow> authorize (foldl run_grant_op s1 ops) (Some c) need = Some ErrRevoked)"
proof -
  have i: "cs_grant s AND bits = bits" "c = \<lparr>cc_tok = t, cc_bits = bits\<rparr>"
    "s1 = s\<lparr>cs_grants := (cs_grants s)(t \<mapsto> \<lparr>g_bits = bits, g_revoked = False\<rparr>)\<rparr>"
    using assms(1) by (auto simp: issue_cases)
  have g: "cs_grants (foldl run_grant_op s1 ops) t = Some \<lparr>g_bits = bits, g_revoked = (RevokeTok t \<in> set ops)\<rparr>"
    using run_grant_ops_other [OF assms(2), of s1 "\<lparr>g_bits = bits, g_revoked = False\<rparr>"] i(3) by simp
  then show ?thesis using i AND_trans [OF i(1)] by (auto simp: authorize_def checkGrant_def requireGrant_def)
qed

definition sample_token :: token where
  "sample_token = replicate 32 5"

definition sample_session :: clientSession where
  "sample_session = NewSession [112] AuthorityPublic (Some (\<lambda>m. if m = sample_id then Some sample_pool else None))"

lemmas authority_defs = AuthQuote_def AuthIntent_def AuthWatch_def AuthSettlement_def AuthAdmin_def AuthorityPublic_def AuthorityReadOnly_def

lemma sample_grants [simp]:
  "cs_grant sample_session AND AuthQuote = AuthQuote" "cs_grant sample_session AND AuthIntent = AuthIntent"
  "cs_grant sample_session AND AuthWatch = AuthWatch" "cs_grant sample_session AND AuthSettlement = AuthSettlement"
  "cs_grant sample_session AND AuthAdmin \<noteq> AuthAdmin" "AuthWatch AND AuthIntent \<noteq> AuthIntent"
  by (simp_all add: sample_session_def NewSession_def authority_defs)

theorem capability_exact_witness:
  "\<exists>s1 c. WatchCap sample_session sample_token = (s1, Inr c) \<and>
     authorize (foldl run_grant_op s1 [Issue AuthQuote (replicate 32 6), RevokeTok (replicate 32 6)]) (Some c) AuthWatch = None \<and>
     authorize (foldl run_grant_op s1 [Issue AuthQuote (replicate 32 6), RevokeTok (replicate 32 6)]) (Some c) AuthIntent \<noteq> None \<and>
     authorize (foldl run_grant_op s1 [RevokeTok sample_token]) (Some c) AuthWatch = Some ErrRevoked"
proof -
  obtain s1 c where i: "issue sample_session AuthWatch sample_token = (s1, Inr c)"
    by (simp add: issue_def sample_token_def)
  have ne: "replicate 32 (6 :: byte) \<noteq> sample_token" by (simp add: sample_token_def)
  from capability_exact [OF i, of "[Issue AuthQuote (replicate 32 6), RevokeTok (replicate 32 6)]" AuthWatch]
    capability_exact [OF i, of "[Issue AuthQuote (replicate 32 6), RevokeTok (replicate 32 6)]" AuthIntent]
    capability_exact [OF i, of "[RevokeTok sample_token]" AuthWatch] ne i
  show ?thesis unfolding WatchCap_def by (intro exI [of _ s1] exI [of _ c]) (auto simp del: run_grant_op.simps foldl_Cons)
qed

section \<open>Prepared intents\<close>

text \<open>The intent a request yields, whatever the estimate.\<close>

definition prepared_for :: "(bytes \<Rightarrow> bytes) \<Rightarrow> PoolKeyArgs \<Rightarrow> SwapIntentRequest \<Rightarrow> u64 \<Rightarrow> PreparedIntent" where
  "prepared_for sha256 pk req quoted =
     \<lparr>pi_To = addr9999, pi_Calldata = EncodeSwapCalldata pk True (sir_AmountIn req) (EncodeIntentHookData (sir_Deadline req) (sir_Nonce req)),
      pi_HookData = EncodeIntentHookData (sir_Deadline req) (sir_Nonce req),
      pi_IntentID = DeriveIntentID sha256 (sir_NetworkID req) (sir_CChainID req) (sir_DChainID req) (sir_Account req)
        (sir_AssetIn req) (sir_AmountIn req) (sir_MarketID req) (sir_Nonce req),
      pi_QuotedOut = quoted, pi_DChainID = sir_DChainID req, pi_CChainID = sir_CChainID req, pi_Account = sir_Account req,
      pi_Recipient = sir_Recipient req, pi_AssetIn = sir_AssetIn req, pi_AmountIn = sir_AmountIn req, pi_MarketID = sir_MarketID req\<rparr>"

definition quoted_out :: "QuoteResult Promise \<Rightarrow> u64" where
  "quoted_out q = (case q of Resolved (Inr qr) \<Rightarrow> qres_AmountOut qr | _ \<Rightarrow> 0)"

lemma prepareLocal_eq:
  "prepareLocal sha256 s call req =
     (if sir_AmountIn req = 0 then Resolved (Inl ZeroAmount)
      else case cs_market s (sir_MarketID req) of
        None \<Rightarrow> Resolved (Inl UnknownMarket)
      | Some pk \<Rightarrow>
          (case Quote s call (quoteFor req) of
             Pending \<Rightarrow> Pending
           | Crashed \<Rightarrow> Crashed
           | q \<Rightarrow> Resolved (Inr (prepared_for sha256 pk req (quoted_out q)))))"
  by (simp add: prepareLocal_def prepared_for_def quoted_out_def zeroForOneFor_def Let_def split: option.splits Promise.splits sum.splits)

lemma PrepareSwapIntent_Inr:
  assumes "PrepareSwapIntent sha256 s call req = Resolved (Inr p)"
  shows "\<exists>pk q. cs_grant s AND AuthIntent = AuthIntent \<and> sir_AmountIn req \<noteq> 0 \<and> cs_market s (sir_MarketID req) = Some pk \<and>
    p = prepared_for sha256 pk req q"
  using assms by (auto simp: PrepareSwapIntent_def requireGrant_def prepareLocal_eq split: option.splits if_splits Promise.splits)

lemma length_EncodeIntentHookData: "length (EncodeIntentHookData d n) \<le> 68"
  by (auto simp: EncodeIntentHookData_def Let_def intentPhaseTag_def)


definition sample_request :: SwapIntentRequest where
  "sample_request = \<lparr>sir_NetworkID = 1, sir_CChainID = replicate 32 1, sir_DChainID = replicate 32 2, sir_Account = replicate 20 3,
     sir_AssetIn = ZeroID, sir_AssetInAddr = ZeroAccount, sir_AmountIn = 1000, sir_MarketID = sample_id, sir_MinAmountOut = 990,
     sir_Recipient = replicate 20 3, sir_Deadline = 77, sir_Nonce = 9\<rparr>"

lemma sample_prepare:
  "PrepareSwapIntent sha256 sample_session (\<lambda>_. Resolved (Inl TransportErr)) sample_request =
     Resolved (Inr (prepared_for sha256 sample_pool sample_request 0))"
proof -
  have m: "cs_market sample_session (sir_MarketID sample_request) = Some sample_pool" "sir_AmountIn sample_request \<noteq> 0"
    by (simp_all add: sample_session_def NewSession_def sample_request_def)
  obtain r where "buildQuoteRequest (quoteFor sample_request) = Some (Inr r)"
    using fQuoteRequest.sent [of "quoteFor sample_request"] by (auto simp: wf_QuoteRequest_def quoteFor_def sample_request_def)
  then have "Quote sample_session (\<lambda>_. Resolved (Inl TransportErr)) (quoteFor sample_request) = Resolved (Inl TransportErr)"
    by (simp add: Quote_def requireGrant_def roundTrip_def thenAsync_def Await_def)
  then show ?thesis by (simp add: PrepareSwapIntent_def requireGrant_def prepareLocal_eq m quoted_out_def)
qed


text \<open>A peer cannot influence what the user signs: for any two behaviours of the peer, the preparation fails for
  one exactly as it fails for the other, and if it returns for both, the two prepared intents agree in
  everything but the estimate; in particular in target, calldata, hook data and intent id.\<close>

lemma prepare_ignores_peer:
  "(PrepareSwapIntent sha256 s call req = Resolved (Inr p) \<and> PrepareSwapIntent sha256 s call' req = Resolved (Inr p') \<longrightarrow>
      p' = p\<lparr>pi_QuotedOut := pi_QuotedOut p'\<rparr>) \<and>
   (PrepareSwapIntent sha256 s call req = Resolved (Inl e) \<longrightarrow> PrepareSwapIntent sha256 s call' req = Resolved (Inl e))"
proof (intro conjI impI)
  assume "PrepareSwapIntent sha256 s call req = Resolved (Inr p) \<and> PrepareSwapIntent sha256 s call' req = Resolved (Inr p')"
  then show "p' = p\<lparr>pi_QuotedOut := pi_QuotedOut p'\<rparr>"
    using PrepareSwapIntent_Inr [of sha256 s call req p] PrepareSwapIntent_Inr [of sha256 s call' req p'] by (auto simp: prepared_for_def)
next
  assume "PrepareSwapIntent sha256 s call req = Resolved (Inl e)"
  then show "PrepareSwapIntent sha256 s call' req = Resolved (Inl e)"
    by (auto simp: PrepareSwapIntent_def requireGrant_def prepareLocal_eq split: option.splits if_splits Promise.splits)
qed

section \<open>Calls to a serving node\<close>

text \<open>The contract between a client's call and the handler that serves it: the request frame is routed to the handler,
  which reads what was asked, and the caller reads what the handler answered.\<close>

lemma served:
  assumes req: "\<exists>m. breq = Some (Inr m) \<and> Parse (msg_data m) = Inr m \<and> Message_Flags m = Some (push_bit 8 t) \<and> rreq m = Some q"
    and h: "n_handlers node t = Some h" "take_bit 8 t = t" "\<And>m. rreq m = Some q \<Longrightarrow> h cid m = respond bres"
    and resp: "\<exists>m. bres = Some (Inr m) \<and> Parse (msg_data m) = Inr m \<and> Message_Flags m = Some fl \<and> rd m = Some x"
  shows "roundTrip breq (peer_call node cid) rd = Resolved (Inr x)"
proof -
  obtain m where m: "breq = Some (Inr m)" "Parse (msg_data m) = Inr m" "Message_Flags m = Some (push_bit 8 t)" "rreq m = Some q"
    using req by blast
  obtain r where r: "bres = Some (Inr r)" "Parse (msg_data r) = Inr r" "rd r = Some x" using resp by blast
  have "handler_reply (n_handlers node) cid (msg_data m) = Some r"
    using m h r(1) by (simp add: handler_reply_def push_bit_flags respond_def)
  then show ?thesis using m(1) r by (simp add: roundTrip_def thenAsync_def Await_def peer_call_def Message_Bytes_def)
qed

lemma registered:
  "n_handlers (registerHandlers sha256 node v rv) MsgQuote = Some (handleQuote v)"
  "n_handlers (registerHandlers sha256 node v rv) MsgGetState = Some (handleGetState v)"
  "n_handlers (registerHandlers sha256 node v rv) MsgNotify = Some (handleNotify v)"
  "n_handlers (registerHandlers sha256 node v rv) MsgWatchPoll = Some (handleWatchPoll v)"
  "n_handlers (registerHandlers sha256 node v rv) MsgImport = Some (handleImport sha256 v)"
  "n_handlers (registerHandlers sha256 node v (Some r)) MsgRoutePrepare = Some (handleRoutePrepare sha256 r)"
  "n_handlers (registerHandlers sha256 node v (Some r)) MsgRouteStatus = Some (handleRouteStatus r)"
  by (cases rv; simp add: registerHandlers_def Let_def Node_Handle_def msg_types)+

text \<open>The answers of a venue that keep to the widths of the protocol.\<close>

definition venue_ok :: "Venue \<Rightarrow> bool" where
  "venue_ok v \<longleftrightarrow> (\<forall>q r. v_Quote v q = Some r \<longrightarrow> wf_QuoteResult r) \<and> (\<forall>q r. v_State v q = Some r \<longrightarrow> wf_StateResult r) \<and>
     (\<forall>p r. v_NotifyIntent v p = Some r \<longrightarrow> wf_IntentWatchRef r) \<and>
     (\<forall>i st. v_WatchStatus v i = Some st \<longrightarrow> wf_DExportRef (is_Ref st) \<and> length (is_Reason st) < 2 ^ 30) \<and>
     (\<forall>r x. v_ResolveExport v r = Some x \<longrightarrow> wf_Settlement x)"

text \<open>What each kind of call to a serving node returns.\<close>

definition served_quote :: "Venue \<Rightarrow> QuoteRequest \<Rightarrow> QuoteResult" where
  "served_quote v q = (case v_Quote v q of Some r \<Rightarrow> r
     | None \<Rightarrow> \<lparr>qres_MarketID = qreq_MarketID q, qres_AmountIn = 0, qres_AmountOut = 0, qres_BestPricePx = 0, qres_Liquid = False\<rparr>)"

definition served_watch :: "Venue \<Rightarrow> PreparedIntent \<Rightarrow> ID" where
  "served_watch v p = (case v_NotifyIntent v p of Some r \<Rightarrow> iw_IntentID r | None \<Rightarrow> pi_IntentID p)"

definition served_status :: "Venue \<Rightarrow> ID \<Rightarrow> IntentStatus" where
  "served_status v i = (case v_WatchStatus v i of
       Some st \<Rightarrow> st\<lparr>is_IntentID := i, is_Ref := (is_Ref st)\<lparr>der_IntentID := i\<rparr>\<rparr>
     | None \<Rightarrow> \<lparr>is_IntentID = i, is_Phase = PhaseUnknown, is_Ref = ZeroRef\<lparr>der_IntentID := i\<rparr>, is_Reason = ascii ''venue unavailable'',
         is_MatchedOut = 0\<rparr>)"

definition served_import :: "(bytes \<Rightarrow> bytes) \<Rightarrow> Venue \<Rightarrow> DExportRef \<Rightarrow> SettlementSubmitResult" where
  "served_import sha256 v r = (case v_ResolveExport v r of
       Some x \<Rightarrow> x\<lparr>ss_ObjectKey := ObjectKey sha256 r, ss_To := addr9999\<rparr>
     | None \<Rightarrow> \<lparr>ss_Mode = SettleCalldata, ss_To = addr9999, ss_Calldata = [], ss_ObjectKey = ObjectKey sha256 r, ss_CTxHash = ZeroID\<rparr>)"

lemma length_addr9999 [simp]: "length addr9999 = 20"
  by (simp add: addr9999_def)

lemma served_calls:
  fixes sha256 :: "bytes \<Rightarrow> bytes" and nd :: Node and rv :: "RouteVenue option"
  assumes v: "venue_ok v" and sha: "\<And>d. length (sha256 d) = 32"
  defines "node \<equiv> registerHandlers sha256 nd v rv"
  shows "wf_QuoteRequest q \<Longrightarrow> roundTrip (buildQuoteRequest q) (peer_call node cid) readQuoteResult = Resolved (Inr (served_quote v q))"
    "wf_PreparedIntent p \<Longrightarrow> roundTrip (buildPreparedIntent p MsgNotify) (peer_call node cid) readIntentWatchRef =
       Resolved (Inr \<lparr>iw_IntentID = served_watch v p\<rparr>)"
    "wf_ID i \<Longrightarrow> roundTrip (buildWatchPollRequest i) (peer_call node cid) readIntentStatus = Resolved (Inr (served_status v i))"
    "wf_DExportRef r \<Longrightarrow> roundTrip (buildDExportRef r) (peer_call node cid) readSettlementResult = Resolved (Inr (served_import sha256 v r))"
proof -
  show "roundTrip (buildQuoteRequest q) (peer_call node cid) readQuoteResult = Resolved (Inr (served_quote v q))" if q: "wf_QuoteRequest q"
  proof (rule served [OF fQuoteRequest.sent [OF q] registered(1) [of sha256 nd v rv, folded node_def] msg_types_fit(1) _ fQuoteResult.sent])
    show "wf_QuoteResult (served_quote v q)"
      using v q by (auto simp: served_quote_def venue_ok_def quote_wf split: option.splits)
    show "handleQuote v cid m = respond (buildQuoteResult (served_quote v q))" if "readQuoteRequest m = Some q" for m
      using that by (simp add: handleQuote_def served_quote_def split: option.splits)
  qed
  show "roundTrip (buildPreparedIntent p MsgNotify) (peer_call node cid) readIntentWatchRef = Resolved (Inr \<lparr>iw_IntentID = served_watch v p\<rparr>)"
    if p: "wf_PreparedIntent p"
  proof (rule served [OF fPreparedIntent.sent [OF p] registered(3) [of sha256 nd v rv, folded node_def] msg_types_fit(4) _ fIntentWatchRef.sent])
    show "wf_IntentWatchRef \<lparr>iw_IntentID = served_watch v p\<rparr>"
      using v p by (auto simp: served_watch_def venue_ok_def intent_wf split: option.splits)
    show "handleNotify v cid m = respond (buildIntentWatchRef \<lparr>iw_IntentID = served_watch v p\<rparr>)" if "readPreparedIntent m = Some p" for m
      using that by (cases "v_NotifyIntent v p") (simp_all add: handleNotify_def served_watch_def buildIntentWatchRef_def)
  qed
  show "roundTrip (buildWatchPollRequest i) (peer_call node cid) readIntentStatus = Resolved (Inr (served_status v i))" if i: "wf_ID i"
  proof (rule served [OF fWatchPoll.sent [OF i] registered(4) [of sha256 nd v rv, folded node_def] msg_types_fit(5) _ fIntentStatus.sent])
    show "wf_IntentStatus (served_status v i)"
      using v i by (auto simp: served_status_def venue_ok_def intent_wf ZeroRef_def ZeroID_def ascii_def split: option.splits)
    show "handleWatchPoll v cid m = respond (buildIntentStatus (served_status v i))" if "readWatchPollRequest m = Some i" for m
      using that by (cases "v_WatchStatus v i") (simp_all add: handleWatchPoll_def served_status_def buildIntentStatus_def)
  qed
  show "roundTrip (buildDExportRef r) (peer_call node cid) readSettlementResult = Resolved (Inr (served_import sha256 v r))" if r: "wf_DExportRef r"
  proof (rule served [OF fDExportRef.sent [OF r] registered(5) [of sha256 nd v rv, folded node_def] msg_types_fit(6) _ fSettlement.sent])
    show "wf_Settlement (served_import sha256 v r)"
      using v r sha by (auto simp: served_import_def venue_ok_def intent_wf ObjectKey_def DeriveUTXOID_def ZeroID_def split: option.splits)
    show "handleImport sha256 v cid m = respond (buildSettlementResult (served_import sha256 v r))" if "readDExportRef m = Some r" for m
      using that by (cases "v_ResolveExport v r") (simp_all add: handleImport_def served_import_def)
  qed
qed

section \<open>Polling\<close>

text \<open>The waits double from 25 milliseconds up to two seconds and stay there.\<close>

lemma nextBackoff_pow: "(nextBackoff ^^ k) 25 = min 2000 (25 * 2 ^ k)"
  by (induction k) (auto simp: nextBackoff_def maxBackoff_def Let_def min_def)

text \<open>A turn against a node that serves the venue as it is at that time.\<close>

definition serving_turn :: "(bytes \<Rightarrow> bytes) \<Rightarrow> Node \<Rightarrow> RouteVenue option \<Rightarrow> bytes \<Rightarrow> Venue \<Rightarrow> turn" where
  "serving_turn sha256 nd rv cid v =
     \<lparr>t_done = False, t_call = peer_call (registerHandlers sha256 nd v rv) cid, t_doneWaiting = False\<rparr>"

lemma poll_served:
  assumes "venue_ok v" and "\<And>d. length (sha256 d) = 32" and "iwt_session w = Some s" and "cs_grant s AND AuthWatch = AuthWatch"
    and "length (iwt_intentID w) = 32"
  shows "IntentWatch_Poll w (t_call (serving_turn sha256 nd rv cid v)) = Resolved (Inr (served_status v (iwt_intentID w)))"
  using served_calls(3) [OF assms(1,2), where i = "iwt_intentID w"] assms
  by (simp add: IntentWatch_Poll_def serving_turn_def requireGrant_def wf_ID_def)

lemma stream_commits:
  assumes w: "iwt_session w = Some s" "cs_grant s AND AuthWatch = AuthWatch" "length (iwt_intentID w) = 32"
    and sha: "\<And>d. length (sha256 d) = 32"
    and us: "\<forall>u \<in> set us. venue_ok u \<and> is_Phase (served_status u (iwt_intentID w)) \<notin> {PhaseCommitted, PhaseRejected}"
    and v: "venue_ok v" "is_Phase (served_status v (iwt_intentID w)) = PhaseCommitted"
  shows "streamUntilCommitted w ((nextBackoff ^^ n) 25) (map (serving_turn sha256 nd rv cid) (us @ [v])) =
    (map (\<lambda>k. min 2000 (25 * 2 ^ k)) [n..<n + length us],
     Resolved (Inr ((is_Ref (served_status v (iwt_intentID w)))\<lparr>der_IntentID := iwt_intentID w\<rparr>)))"
  using us
proof (induction us arbitrary: n)
  case Nil
  then show ?case
    using v poll_served [where ?sha256.0 = sha256 and v = v and nd = nd and rv = rv and cid = cid, OF v(1) sha w] by (simp add: serving_turn_def)
next
  case (Cons u us)
  have "streamUntilCommitted w ((nextBackoff ^^ Suc n) 25) (map (serving_turn sha256 nd rv cid) (us @ [v])) =
    (map (\<lambda>k. min 2000 (25 * 2 ^ k)) [Suc n..<Suc n + length us],
     Resolved (Inr ((is_Ref (served_status v (iwt_intentID w)))\<lparr>der_IntentID := iwt_intentID w\<rparr>)))"
    using Cons.prems by (intro Cons.IH) simp
  moreover have "streamUntilCommitted w b (serving_turn sha256 nd rv cid u # ts) =
      (b # fst (streamUntilCommitted w (nextBackoff b) ts), snd (streamUntilCommitted w (nextBackoff b) ts))" for b ts
    using Cons.prems poll_served [where ?sha256.0 = sha256 and v = u and nd = nd and rv = rv and cid = cid, OF _ sha w]
    by (simp add: serving_turn_def split: prod.splits)
  moreover have "[n..<n + length (u # us)] = n # [Suc n..<Suc n + length us]" by (subst upt_conv_Cons) simp_all
  ultimately show ?case by (simp only: append_Cons list.map funpow.simps o_apply fst_conv snd_conv nextBackoff_pow [of n])
qed

section \<open>The flow\<close>

lemma Await_False [simp]: "Await False p = p"
  by (simp add: Await_def)

lemma thenAsync_Resolved [simp]: "thenAsync False (Resolved (Inr v)) f = f v"
  by (simp add: thenAsync_def)

lemma wf_prepared_for:
  assumes "wf_SwapIntentRequest req" and "wf_pool pk" and "\<And>d. length (sha256 d) = 32"
  shows "wf_PreparedIntent (prepared_for sha256 pk req q)"
proof -
  let ?h = "EncodeIntentHookData (sir_Deadline req) (sir_Nonce req)"
  have h: "length ?h \<le> 68" by (rule length_EncodeIntentHookData)
  have "(length ?h + 31) div 32 * 32 \<le> length ?h + 31" by (rule div_times_less_eq_dividend)
  then have "length (encodeDynamicBytes ?h) \<le> 32 + 68 + 31 + 68" using h by (simp add: encodeDynamicBytes_def Let_def)
  then have "length (EncodeSwapCalldata pk True (sir_AmountIn req) ?h) \<le> 600"
    using assms(2) by (simp add: EncodeSwapCalldata_def Let_def wf_pool_def)
  then show ?thesis
    using assms(1,3) h by (simp add: prepared_for_def intent_wf DeriveIntentID_def)
qed

definition honest_env :: "(bytes \<Rightarrow> bytes) \<Rightarrow> Node \<Rightarrow> RouteVenue option \<Rightarrow> bytes \<Rightarrow> Venue \<Rightarrow> Venue list \<Rightarrow> flow_env" where
  "honest_env sha256 nd rv cid v us =
     \<lparr>fe_quote = peer_call (registerHandlers sha256 nd v rv) cid, fe_prepare = peer_call (registerHandlers sha256 nd v rv) cid,
      fe_notify = peer_call (registerHandlers sha256 nd v rv) cid, fe_turns = map (serving_turn sha256 nd rv cid) us,
      fe_import = peer_call (registerHandlers sha256 nd v rv) cid, fe_ctx = (\<lambda>_. False)\<rparr>"

text \<open>The whole trade completes against a serving node: for a well-formed request on a market the session knows,
  with the authorities a public session has, if the venue accepts the intent, reports any number of
  phases that are not final and then the committed export, the flow prepares the intent with the venue's
  quote, watches exactly that intent, resolves to the venue's pointer bound to that intent, and returns a
  settlement that names the object key derived from that pointer and goes to 0x9999, whatever key and
  target the venue put into its answer.\<close>

lemma flow_completes:
  assumes req: "wf_SwapIntentRequest req" "sir_AmountIn req \<noteq> 0" "cs_market s (sir_MarketID req) = Some pk" "wf_pool pk"
    and s: "cs_grant s AND AuthorityPublic = AuthorityPublic"
    and sha: "\<And>d. length (sha256 d) = 32"
    and v: "venue_ok v" "\<And>p. served_watch v p = pi_IntentID p"
    and intentID: "intentID = pi_IntentID (prepared_for sha256 pk req 0)"
    and us: "\<forall>u \<in> set us. venue_ok u \<and> is_Phase (served_status u intentID) \<notin> {PhaseCommitted, PhaseRejected}"
    and fin: "venue_ok u" "is_Phase (served_status u intentID) = PhaseCommitted" "ref = is_Ref (served_status u intentID)"
  shows "\<exists>x. SwapFlow sha256 s (honest_env sha256 nd rv cid v (us @ [u])) req =
      \<lparr>fs_Quote = Resolved (Inr (served_quote v (quoteFor req))),
       fs_Intent = Resolved (Inr (prepared_for sha256 pk req (qres_AmountOut (served_quote v (quoteFor req))))),
       fs_Watch = Resolved (Inr \<lparr>iwt_session = Some s, iwt_intentID = intentID\<rparr>),
       fs_Committed = Resolved (Inr ref), fs_Settle = Resolved (Inr x)\<rparr> \<and>
    der_IntentID ref = intentID \<and> ss_ObjectKey x = ObjectKey sha256 ref \<and> ss_To x = addr9999"
proof -
  let ?node = "registerHandlers sha256 nd v rv" and ?w = "\<lparr>iwt_session = Some s, iwt_intentID = intentID\<rparr>"
  have auth: "cs_grant s AND AuthQuote = AuthQuote" "cs_grant s AND AuthIntent = AuthIntent" "cs_grant s AND AuthWatch = AuthWatch"
    "cs_grant s AND AuthSettlement = AuthSettlement"
    by (rule AND_trans [OF s], simp add: authority_defs)+
  note calls = served_calls [OF v(1) sha, where nd = nd and rv = rv and cid = cid]
  have q: "Quote s (peer_call ?node cid) (quoteFor req) = Resolved (Inr (served_quote v (quoteFor req)))"
    using calls(1) [of "quoteFor req"] req(1) auth by (simp add: Quote_def requireGrant_def quoteFor_def quote_wf intent_wf)
  define p where "p = prepared_for sha256 pk req (qres_AmountOut (served_quote v (quoteFor req)))"
  have prep: "PrepareSwapIntent sha256 s (peer_call ?node cid) req = Resolved (Inr p)"
    using req auth q by (simp add: PrepareSwapIntent_def requireGrant_def prepareLocal_eq quoted_out_def p_def)
  have id: "pi_IntentID p = intentID" "length intentID = 32" using intentID sha by (simp_all add: p_def prepared_for_def DeriveIntentID_def)
  have "wf_PreparedIntent p" using wf_prepared_for [OF req(1,4) sha] by (simp add: p_def)
  then have n: "NotifyIntent False s (peer_call ?node cid) (Resolved (Inr p)) = Resolved (Inr ?w)"
    using calls(2) [of p] auth v(2) id by (simp add: NotifyIntent_def requireGrant_def)
  have dref: "der_IntentID ref = intentID" using fin(3) by (simp add: served_status_def ZeroRef_def split: option.splits)
  have c: "OnCommitted ?w (map (serving_turn sha256 nd rv cid) (us @ [u])) = Resolved (Inr ref)"
    using stream_commits [of ?w s sha256 us u 0 nd rv cid] auth id sha us fin dref by (simp add: OnCommitted_def requireGrant_def)
  have "wf_DExportRef ref"
    using fin id(2) by (auto simp: served_status_def venue_ok_def intent_wf ZeroRef_def ZeroID_def split: option.splits)
  then have "ImportSettlement False s (peer_call ?node cid) (Resolved (Inr ref)) = Resolved (Inr (served_import sha256 v ref))"
    using calls(4) [of ref] auth by (simp add: ImportSettlement_def requireGrant_def)
  then show ?thesis
    using q prep n c dref
    by (intro exI [of _ "served_import sha256 v ref"])
      (simp add: SwapFlow_def honest_env_def Let_def p_def served_import_def split: option.splits)
qed

definition toy_hash :: "bytes \<Rightarrow> bytes" where
  "toy_hash d = take 32 (d @ replicate 32 0)"

lemma length_toy_hash [simp]: "length (toy_hash d) = 32"
  by (simp add: toy_hash_def)

text \<open>A venue at one moment of an intent's life, whose answers also try to redirect the settlement.\<close>

definition sample_venue :: "u8 \<Rightarrow> Venue" where
  "sample_venue phase = \<lparr>v_Quote = (\<lambda>q. Some \<lparr>qres_MarketID = sample_id, qres_AmountIn = qreq_AmountIn q, qres_AmountOut = 990,
       qres_BestPricePx = 0, qres_Liquid = True\<rparr>),
     v_State = (\<lambda>q. None), v_NotifyIntent = (\<lambda>p. None),
     v_WatchStatus = (\<lambda>i. Some \<lparr>is_IntentID = sample_id, is_Phase = phase, is_Ref = sample_ref, is_Reason = [], is_MatchedOut = 990\<rparr>),
     v_ResolveExport = (\<lambda>r. Some \<lparr>ss_Mode = SettleCalldata, ss_To = ZeroAccount, ss_Calldata = [1], ss_ObjectKey = ZeroID, ss_CTxHash = ZeroID\<rparr>)\<rparr>"

lemma sample_venue_facts [simp]:
  "venue_ok (sample_venue ph)" "served_watch (sample_venue ph) p = pi_IntentID p"
  "is_Phase (served_status (sample_venue ph) i) = ph" "is_Ref (served_status (sample_venue ph) i) = sample_ref\<lparr>der_IntentID := i\<rparr>"
  by (simp_all add: venue_ok_def sample_venue_def quote_wf intent_wf sample_ref_def ZeroAccount_def ZeroID_def served_watch_def served_status_def)

lemmas phase_defs = PhasePending_def PhaseMatching_def PhaseCommitted_def PhaseRejected_def PhaseUnknown_def

lemma sample_request_facts:
  "wf_SwapIntentRequest sample_request" "sir_AmountIn sample_request \<noteq> 0" "cs_market sample_session (sir_MarketID sample_request) = Some sample_pool"
  "cs_grant sample_session AND AuthorityPublic = AuthorityPublic"
  by (simp_all add: sample_request_def intent_wf ZeroID_def ZeroAccount_def sample_session_def NewSession_def)

text \<open>The slippage floor never leaves the client: nothing a swap flow does or returns depends on the minimum output of
  the request, whatever the peer answers; neither the calldata the user signs nor any message sent to the
  peer carries it.\<close>

lemma min_out_never_used:
  "SwapFlow sha256 s env (req\<lparr>sir_MinAmountOut := m\<rparr>) = SwapFlow sha256 s env req \<and>
   SwapFlowWithSender sha256 s env (req\<lparr>sir_MinAmountOut := m\<rparr>) send = SwapFlowWithSender sha256 s env req send"
proof -
  have q: "quoteFor (req\<lparr>sir_MinAmountOut := m\<rparr>) = quoteFor req" by (simp add: quoteFor_def zeroForOneFor_def)
  have "prepared_for sha256 pk (req\<lparr>sir_MinAmountOut := m\<rparr>) x = prepared_for sha256 pk req x" for pk x by (simp add: prepared_for_def)
  then have "PrepareSwapIntent sha256 s call (req\<lparr>sir_MinAmountOut := m\<rparr>) = PrepareSwapIntent sha256 s call req" for call
    by (simp add: PrepareSwapIntent_def prepareLocal_eq q cong: option.case_cong Promise.case_cong)
  then show ?thesis by (simp add: SwapFlow_def SwapFlowWithSender_def q)
qed



end
