(* ===== verification/Dex_V4.thy ===== *)
theory Dex_V4
  imports Dex_Session
begin

text \<open>
  The per-action sessions on top of the client session: scopes and scoped capabilities (\<open>src/dexsession/v4scope.go\<close>), the
  control-plane message set (\<open>v4msg.go\<close>), the swap, route, liquidity, removal and state sessions (\<open>v4session.go\<close>)
  and route watches (\<open>v4route.go\<close>). A session's operations take the client session as it is when they run, because its
  grant table changes when sessions are opened and closed. \<open>errText\<close> renders an error as text.
\<close>

unbundle bit_operations_syntax

named_theorems v4_msgs

section \<open>Scopes\<close>

definition ActionSwap :: u8 where "ActionSwap = 0"
definition ActionRoute :: u8 where "ActionRoute = 1"
definition ActionModifyLiquidity :: u8 where "ActionModifyLiquidity = 2"
definition ActionCollect :: u8 where "ActionCollect = 3"
definition ActionCancel :: u8 where "ActionCancel = 4"
definition ActionState :: u8 where "ActionState = 5"

definition V4Action_String :: "u8 \<Rightarrow> string" where
  "V4Action_String a =
     (if a = ActionSwap then ''swap''
      else if a = ActionRoute then ''route''
      else if a = ActionModifyLiquidity then ''modifyLiquidity''
      else if a = ActionCollect then ''collect''
      else if a = ActionCancel then ''cancel''
      else if a = ActionState then ''state''
      else ''unknown'')"

record V4ActionScope =
  sp_NetworkID :: u32
  sp_CChainID :: ID
  sp_DChainID :: ID
  sp_Addr9999 :: Account
  sp_Account :: Account
  sp_PoolKeyHash :: ID
  sp_ParamsHash :: ID
  sp_Kind :: u8
  sp_IntentID :: ID

definition v4ScopeDomain :: bytes where
  "v4ScopeDomain = ascii ''lux.dex.v4.session.v1''"

text \<open>What \<open>DeriveSessionID\<close> writes to the hash, in order.\<close>

definition scope_preimage :: "V4ActionScope \<Rightarrow> bytes" where
  "scope_preimage s = v4ScopeDomain @ be32 (sp_NetworkID s) @ sp_CChainID s @ sp_DChainID s @ sp_Addr9999 s @ sp_Account s @
     sp_PoolKeyHash s @ sp_ParamsHash s @ [sp_Kind s] @ sp_IntentID s"

definition DeriveSessionID :: "(bytes \<Rightarrow> bytes) \<Rightarrow> V4ActionScope \<Rightarrow> ID" where
  "DeriveSessionID sha256 s = sha256 (scope_preimage s)"

record scopedCap =
  sc_core :: "capCore option"
  sc_scope :: V4ActionScope
  sc_sessionID :: ID

definition newScopedCap :: "(bytes \<Rightarrow> bytes) \<Rightarrow> capCore \<Rightarrow> V4ActionScope \<Rightarrow> scopedCap" where
  "newScopedCap sha256 core scope = \<lparr>sc_core = Some core, sc_scope = scope, sc_sessionID = DeriveSessionID sha256 scope\<rparr>"

definition authorizeScoped :: "(bytes \<Rightarrow> bytes) \<Rightarrow> clientSession \<Rightarrow> scopedCap option \<Rightarrow> Authority \<Rightarrow> V4ActionScope \<Rightarrow> dex_error option" where
  "authorizeScoped sha256 dex c need want =
     (case c of
        None \<Rightarrow> Some ErrNoAuthority
      | Some s \<Rightarrow>
          if sc_core s = None then Some ErrNoAuthority
          else if sc_sessionID s = ZeroID then Some ErrScopeUnset
          else
            case authorize dex (sc_core s) need of
              Some err \<Rightarrow> Some err
            | None \<Rightarrow> if DeriveSessionID sha256 want \<noteq> sc_sessionID s then Some ErrScopeMismatch else None)"

definition authorizeSelf :: "(bytes \<Rightarrow> bytes) \<Rightarrow> clientSession \<Rightarrow> scopedCap \<Rightarrow> Authority \<Rightarrow> dex_error option" where
  "authorizeSelf sha256 dex s need = authorizeScoped sha256 dex (Some s) need (sc_scope s)"

definition scopedCap_Authority :: "scopedCap option \<Rightarrow> Authority" where
  "scopedCap_Authority c =
     (case c of None \<Rightarrow> 0 | Some s \<Rightarrow> (case sc_core s of None \<Rightarrow> 0 | Some core \<Rightarrow> cc_bits core))"

section \<open>Messages\<close>

type_synonym V4MsgType = u16

definition V4_SWAP_OPEN :: V4MsgType where [v4_msgs]: "V4_SWAP_OPEN = 0x1000"
definition V4_SWAP_PREPARE_INTENT :: V4MsgType where [v4_msgs]: "V4_SWAP_PREPARE_INTENT = 0x1001"
definition V4_SWAP_NOTIFY_C_EXPORT :: V4MsgType where [v4_msgs]: "V4_SWAP_NOTIFY_C_EXPORT = 0x1002"
definition V4_SWAP_D_IMPORTED :: V4MsgType where [v4_msgs]: "V4_SWAP_D_IMPORTED = 0x1003"
definition V4_SWAP_MATCHED :: V4MsgType where [v4_msgs]: "V4_SWAP_MATCHED = 0x1004"
definition V4_SWAP_D_EXPORT_READY :: V4MsgType where [v4_msgs]: "V4_SWAP_D_EXPORT_READY = 0x1005"
definition V4_SWAP_PREPARE_C_SETTLEMENT :: V4MsgType where [v4_msgs]: "V4_SWAP_PREPARE_C_SETTLEMENT = 0x1006"
definition V4_SWAP_SUBMIT_C_SETTLEMENT :: V4MsgType where [v4_msgs]: "V4_SWAP_SUBMIT_C_SETTLEMENT = 0x1007"
definition V4_SWAP_C_SETTLED :: V4MsgType where [v4_msgs]: "V4_SWAP_C_SETTLED = 0x1008"
definition V4_ROUTE_OPEN :: V4MsgType where [v4_msgs]: "V4_ROUTE_OPEN = 0x1100"
definition V4_ROUTE_PREPARE_INTENT :: V4MsgType where [v4_msgs]: "V4_ROUTE_PREPARE_INTENT = 0x1101"
definition V4_ROUTE_NOTIFY_C_EXPORT :: V4MsgType where [v4_msgs]: "V4_ROUTE_NOTIFY_C_EXPORT = 0x1102"
definition V4_ROUTE_HOP_STARTED :: V4MsgType where [v4_msgs]: "V4_ROUTE_HOP_STARTED = 0x1103"
definition V4_ROUTE_HOP_FILLED :: V4MsgType where [v4_msgs]: "V4_ROUTE_HOP_FILLED = 0x1104"
definition V4_ROUTE_D_EXPORT_READY :: V4MsgType where [v4_msgs]: "V4_ROUTE_D_EXPORT_READY = 0x1105"
definition V4_ROUTE_REFUND_READY :: V4MsgType where [v4_msgs]: "V4_ROUTE_REFUND_READY = 0x1106"
definition V4_ROUTE_PREPARE_C_SETTLEMENT :: V4MsgType where [v4_msgs]: "V4_ROUTE_PREPARE_C_SETTLEMENT = 0x1107"
definition V4_ROUTE_C_SETTLED :: V4MsgType where [v4_msgs]: "V4_ROUTE_C_SETTLED = 0x1108"
definition V4_LP_OPEN :: V4MsgType where [v4_msgs]: "V4_LP_OPEN = 0x1200"
definition V4_LP_PREPARE_COMMIT :: V4MsgType where [v4_msgs]: "V4_LP_PREPARE_COMMIT = 0x1201"
definition V4_LP_NOTIFY_C_EXPORT :: V4MsgType where [v4_msgs]: "V4_LP_NOTIFY_C_EXPORT = 0x1202"
definition V4_LP_D_COMMITTED :: V4MsgType where [v4_msgs]: "V4_LP_D_COMMITTED = 0x1203"
definition V4_LP_POSITION_OPEN :: V4MsgType where [v4_msgs]: "V4_LP_POSITION_OPEN = 0x1204"
definition V4_COLLECT_OPEN :: V4MsgType where [v4_msgs]: "V4_COLLECT_OPEN = 0x1300"
definition V4_COLLECT_REQUEST :: V4MsgType where [v4_msgs]: "V4_COLLECT_REQUEST = 0x1301"
definition V4_COLLECT_D_EXPORT_READY :: V4MsgType where [v4_msgs]: "V4_COLLECT_D_EXPORT_READY = 0x1302"
definition V4_COLLECT_PREPARE_C_SETTLEMENT :: V4MsgType where [v4_msgs]: "V4_COLLECT_PREPARE_C_SETTLEMENT = 0x1303"
definition V4_COLLECT_C_SETTLED :: V4MsgType where [v4_msgs]: "V4_COLLECT_C_SETTLED = 0x1304"
definition V4_CANCEL_OPEN :: V4MsgType where [v4_msgs]: "V4_CANCEL_OPEN = 0x1400"
definition V4_CANCEL_REQUEST :: V4MsgType where [v4_msgs]: "V4_CANCEL_REQUEST = 0x1401"
definition V4_CANCEL_D_EXPORT_READY :: V4MsgType where [v4_msgs]: "V4_CANCEL_D_EXPORT_READY = 0x1402"
definition V4_CANCEL_PREPARE_C_SETTLEMENT :: V4MsgType where [v4_msgs]: "V4_CANCEL_PREPARE_C_SETTLEMENT = 0x1403"
definition V4_CANCEL_C_SETTLED :: V4MsgType where [v4_msgs]: "V4_CANCEL_C_SETTLED = 0x1404"
definition V4_STATE_OPEN :: V4MsgType where [v4_msgs]: "V4_STATE_OPEN = 0x1500"
definition V4_STATE_QUOTE_UPDATE :: V4MsgType where [v4_msgs]: "V4_STATE_QUOTE_UPDATE = 0x1501"
definition V4_STATE_BOOK_UPDATE :: V4MsgType where [v4_msgs]: "V4_STATE_BOOK_UPDATE = 0x1502"
definition V4_STATE_CLOSE :: V4MsgType where [v4_msgs]: "V4_STATE_CLOSE = 0x1503"
definition V4_ERROR :: V4MsgType where [v4_msgs]: "V4_ERROR = 0x1F00"
definition V4_HALTED :: V4MsgType where [v4_msgs]: "V4_HALTED = 0x1F01"

definition V4MsgType_String :: "V4MsgType \<Rightarrow> string" where
  "V4MsgType_String t =
     (if t = V4_SWAP_OPEN then ''V4_SWAP_OPEN''
      else if t = V4_SWAP_PREPARE_INTENT then ''V4_SWAP_PREPARE_INTENT''
      else if t = V4_SWAP_NOTIFY_C_EXPORT then ''V4_SWAP_NOTIFY_C_EXPORT''
      else if t = V4_SWAP_D_IMPORTED then ''V4_SWAP_D_IMPORTED''
      else if t = V4_SWAP_MATCHED then ''V4_SWAP_MATCHED''
      else if t = V4_SWAP_D_EXPORT_READY then ''V4_SWAP_D_EXPORT_READY''
      else if t = V4_SWAP_PREPARE_C_SETTLEMENT then ''V4_SWAP_PREPARE_C_SETTLEMENT''
      else if t = V4_SWAP_SUBMIT_C_SETTLEMENT then ''V4_SWAP_SUBMIT_C_SETTLEMENT''
      else if t = V4_SWAP_C_SETTLED then ''V4_SWAP_C_SETTLED''
      else if t = V4_ROUTE_HOP_STARTED then ''V4_ROUTE_HOP_STARTED''
      else if t = V4_ROUTE_HOP_FILLED then ''V4_ROUTE_HOP_FILLED''
      else if t = V4_ROUTE_D_EXPORT_READY then ''V4_ROUTE_D_EXPORT_READY''
      else if t = V4_ROUTE_REFUND_READY then ''V4_ROUTE_REFUND_READY''
      else if t = V4_LP_D_COMMITTED then ''V4_LP_D_COMMITTED''
      else if t = V4_LP_POSITION_OPEN then ''V4_LP_POSITION_OPEN''
      else if t = V4_COLLECT_D_EXPORT_READY then ''V4_COLLECT_D_EXPORT_READY''
      else if t = V4_CANCEL_D_EXPORT_READY then ''V4_CANCEL_D_EXPORT_READY''
      else if t = V4_ERROR then ''V4_ERROR''
      else if t = V4_HALTED then ''V4_HALTED''
      else ''V4_MSG'')"

datatype V4Dir = DirCToD | DirDToC | DirLocal

definition V4MsgType_Dir :: "V4MsgType \<Rightarrow> V4Dir" where
  "V4MsgType_Dir t =
     (if t \<in> {V4_SWAP_OPEN, V4_ROUTE_OPEN, V4_LP_OPEN, V4_COLLECT_OPEN, V4_CANCEL_OPEN, V4_STATE_OPEN, V4_STATE_CLOSE} then DirLocal
      else if t \<in> {V4_SWAP_PREPARE_INTENT, V4_SWAP_NOTIFY_C_EXPORT, V4_SWAP_PREPARE_C_SETTLEMENT, V4_SWAP_SUBMIT_C_SETTLEMENT,
                   V4_ROUTE_PREPARE_INTENT, V4_ROUTE_NOTIFY_C_EXPORT, V4_ROUTE_PREPARE_C_SETTLEMENT,
                   V4_LP_PREPARE_COMMIT, V4_LP_NOTIFY_C_EXPORT, V4_COLLECT_REQUEST, V4_COLLECT_PREPARE_C_SETTLEMENT,
                   V4_CANCEL_REQUEST, V4_CANCEL_PREPARE_C_SETTLEMENT} then DirCToD
      else DirDToC)"

definition CreditsValue :: "V4MsgType \<Rightarrow> bool" where
  "CreditsValue t = False"

definition v4Wire :: "V4MsgType \<Rightarrow> u16 \<times> bool" where
  "v4Wire t =
     (if t \<in> {V4_SWAP_PREPARE_INTENT, V4_ROUTE_PREPARE_INTENT} then (MsgPrepare, True)
      else if t \<in> {V4_SWAP_NOTIFY_C_EXPORT, V4_ROUTE_NOTIFY_C_EXPORT, V4_LP_NOTIFY_C_EXPORT} then (MsgNotify, True)
      else if t \<in> {V4_SWAP_PREPARE_C_SETTLEMENT, V4_ROUTE_PREPARE_C_SETTLEMENT, V4_COLLECT_PREPARE_C_SETTLEMENT,
                   V4_CANCEL_PREPARE_C_SETTLEMENT} then (MsgImport, True)
      else if t \<in> {V4_LP_PREPARE_COMMIT, V4_COLLECT_REQUEST, V4_CANCEL_REQUEST} then (MsgPrepare, True)
      else if t = V4_STATE_QUOTE_UPDATE then (MsgQuote, True)
      else if t = V4_STATE_BOOK_UPDATE then (MsgGetState, True)
      else (0, False))"

record V4Event =
  ev_Type :: V4MsgType
  ev_SessionID :: ID
  ev_IntentID :: ID
  ev_EstAmount :: u64
  ev_HopIndex :: u32
  ev_Ref :: DExportRef
  ev_Reason :: bytes

text \<open>An event whose unnamed fields are zero.\<close>

definition mkEvent :: "V4MsgType \<Rightarrow> ID \<Rightarrow> ID \<Rightarrow> V4Event" where
  "mkEvent t sid intentID = \<lparr>ev_Type = t, ev_SessionID = sid, ev_IntentID = intentID, ev_EstAmount = 0, ev_HopIndex = 0,
     ev_Ref = ZeroRef, ev_Reason = []\<rparr>"

definition HasRef :: "V4Event \<Rightarrow> bool" where
  "HasRef e \<longleftrightarrow> ev_Type e = V4_SWAP_D_EXPORT_READY \<or> ev_Type e = V4_ROUTE_D_EXPORT_READY \<or> ev_Type e = V4_ROUTE_REFUND_READY \<or>
     ev_Type e = V4_COLLECT_D_EXPORT_READY \<or> ev_Type e = V4_CANCEL_D_EXPORT_READY"

section \<open>Opening sessions\<close>

record V4PrecompileSession =
  v4_dex :: clientSession
  v4_netID :: u32
  v4_cChain :: ID
  v4_dChain :: ID
  v4_addr :: Account

text \<open>The first argument is the configured session, \<open>None\<close> when it is not a client session.\<close>

definition NewV4PrecompileSession :: "clientSession option \<Rightarrow> u32 \<Rightarrow> ID \<Rightarrow> ID \<Rightarrow> Account \<Rightarrow> dex_error + V4PrecompileSession" where
  "NewV4PrecompileSession cs networkID cChainID dChainID addr =
     (case cs of
        None \<Rightarrow> Inl NotClientSession
      | Some s \<Rightarrow> Inr \<lparr>v4_dex = s, v4_netID = networkID, v4_cChain = cChainID, v4_dChain = dChainID,
          v4_addr = (if addr = ZeroAccount then addr9999 else addr)\<rparr>)"

definition scopeFor :: "V4PrecompileSession \<Rightarrow> u8 \<Rightarrow> Account \<Rightarrow> ID \<Rightarrow> ID \<Rightarrow> ID \<Rightarrow> V4ActionScope" where
  "scopeFor v kind account poolKeyHash paramsHash intentID =
     \<lparr>sp_NetworkID = v4_netID v, sp_CChainID = v4_cChain v, sp_DChainID = v4_dChain v, sp_Addr9999 = v4_addr v, sp_Account = account,
      sp_PoolKeyHash = poolKeyHash, sp_ParamsHash = paramsHash, sp_Kind = kind, sp_IntentID = intentID\<rparr>"

definition mint :: "(bytes \<Rightarrow> bytes) \<Rightarrow> V4PrecompileSession \<Rightarrow> Authority \<Rightarrow> V4ActionScope \<Rightarrow> token \<Rightarrow>
    V4PrecompileSession \<times> (dex_error + scopedCap)" where
  "mint sha256 v bits scope t =
     (case issue (v4_dex v) bits t of
        (dex, Inl err) \<Rightarrow> (v\<lparr>v4_dex := dex\<rparr>, Inl err)
      | (dex, Inr core) \<Rightarrow> (v\<lparr>v4_dex := dex\<rparr>, Inr (newScopedCap sha256 core scope)))"

record V4SwapSession =
  sw_cap :: scopedCap
  sw_req :: SwapIntentRequest
  sw_intentID :: ID

definition OpenSwap :: "(bytes \<Rightarrow> bytes) \<Rightarrow> V4PrecompileSession \<Rightarrow> SwapIntentRequest \<Rightarrow> token \<Rightarrow>
    V4PrecompileSession \<times> (dex_error + V4SwapSession)" where
  "OpenSwap sha256 v req t =
     (case cs_market (v4_dex v) (sir_MarketID req) of
        None \<Rightarrow> (v, Inl UnknownMarket)
      | Some pk \<Rightarrow>
          let zfo = zeroForOneFor req;
              poolKeyHash = DerivePoolKeyHash sha256 pk;
              paramsHash = DeriveSwapParamsHash sha256 zfo (sir_AmountIn req);
              intentID = DeriveIntentID sha256 (sir_NetworkID req) (sir_CChainID req) (sir_DChainID req) (sir_Account req)
                (sir_AssetIn req) (sir_AmountIn req) (sir_MarketID req) (sir_Nonce req);
              scope = scopeFor v ActionSwap (sir_Account req) poolKeyHash paramsHash intentID
          in case mint sha256 v (AuthIntent OR AuthWatch OR AuthSettlement) scope t of
               (v', Inl err) \<Rightarrow> (v', Inl err)
             | (v', Inr cap) \<Rightarrow> (v', Inr \<lparr>sw_cap = cap, sw_req = req, sw_intentID = intentID\<rparr>))"

record V4RouteSession =
  rt_cap :: scopedCap
  rt_req :: RouteRequest
  rt_intentID :: ID
  rt_entry :: ID

definition OpenRoute :: "(bytes \<Rightarrow> bytes) \<Rightarrow> V4PrecompileSession \<Rightarrow> RouteRequest \<Rightarrow> token \<Rightarrow>
    V4PrecompileSession \<times> (dex_error + V4RouteSession)" where
  "OpenRoute sha256 v req t =
     (case firstMarket req of (first, ok) \<Rightarrow>
        if \<not> ok then (v, Inl EmptyPath)
        else
          case cs_market (v4_dex v) first of
            None \<Rightarrow> (v, Inl UnknownMarket)
          | Some pk \<Rightarrow>
              let pathHash = DeriveRoutePathHash sha256 (rr_Path req);
                  paramsHash = DeriveSwapParamsHash sha256 True (rr_AmountIn req);
                  intentID = DeriveIntentID sha256 (rr_NetworkID req) (rr_CChainID req) (rr_DChainID req) (rr_Account req)
                    (rr_AssetIn req) (rr_AmountIn req) first (ucast (rr_CallIndex req));
                  scope = scopeFor v ActionRoute (rr_Account req) pathHash paramsHash intentID
              in case mint sha256 v (AuthIntent OR AuthWatch OR AuthSettlement) scope t of
                   (v', Inl err) \<Rightarrow> (v', Inl err)
                 | (v', Inr cap) \<Rightarrow> (v', Inr \<lparr>rt_cap = cap, rt_req = req, rt_intentID = intentID, rt_entry = first\<rparr>))"

record LiquidityRequest =
  lr_NetworkID :: u32
  lr_CChainID :: ID
  lr_DChainID :: ID
  lr_Account :: Account
  lr_MarketID :: ID
  lr_TickLower :: int
  lr_TickUpper :: int
  lr_LiquidityDelta :: int
  lr_Salt :: ID
  lr_AssetIn :: ID
  lr_AmountIn :: u64
  lr_CallIndex :: u32

record V4LiquiditySession =
  lp_cap :: scopedCap
  lp_req :: LiquidityRequest
  lp_pk :: PoolKeyArgs
  lp_intentID :: ID

definition OpenModifyLiquidity :: "(bytes \<Rightarrow> bytes) \<Rightarrow> V4PrecompileSession \<Rightarrow> LiquidityRequest \<Rightarrow> token \<Rightarrow>
    V4PrecompileSession \<times> (dex_error + V4LiquiditySession)" where
  "OpenModifyLiquidity sha256 v req t =
     (if lr_LiquidityDelta req \<le> 0 then (v, Inl BadLiquidity)
      else
        case cs_market (v4_dex v) (lr_MarketID req) of
          None \<Rightarrow> (v, Inl UnknownMarket)
        | Some pk \<Rightarrow>
            let poolKeyHash = DerivePoolKeyHash sha256 pk;
                paramsHash = DeriveLiquidityParamsHash sha256 (lr_TickLower req) (lr_TickUpper req) (lr_LiquidityDelta req) (lr_Salt req);
                intentID = DeriveIntentID sha256 (lr_NetworkID req) (lr_CChainID req) (lr_DChainID req) (lr_Account req)
                  (lr_AssetIn req) (lr_AmountIn req) (lr_MarketID req) (ucast (lr_CallIndex req));
                scope = scopeFor v ActionModifyLiquidity (lr_Account req) poolKeyHash paramsHash intentID
            in case mint sha256 v (AuthIntent OR AuthWatch) scope t of
                 (v', Inl err) \<Rightarrow> (v', Inl err)
               | (v', Inr cap) \<Rightarrow> (v', Inr \<lparr>lp_cap = cap, lp_req = req, lp_pk = pk, lp_intentID = intentID\<rparr>))"

record CollectRequest =
  cr_NetworkID :: u32
  cr_CChainID :: ID
  cr_DChainID :: ID
  cr_Account :: Account
  cr_MarketID :: ID
  cr_TickLower :: int
  cr_TickUpper :: int
  cr_LiquidityDelta :: int
  cr_Salt :: ID
  cr_AssetOut :: ID
  cr_CallIndex :: u32
  cr_IsCancel :: bool

record V4CollectSession =
  co_cap :: scopedCap
  co_req :: CollectRequest
  co_pk :: PoolKeyArgs
  co_intentID :: ID
  co_kind :: u8

definition openRemoval :: "(bytes \<Rightarrow> bytes) \<Rightarrow> V4PrecompileSession \<Rightarrow> CollectRequest \<Rightarrow> u8 \<Rightarrow> token \<Rightarrow>
    V4PrecompileSession \<times> (dex_error + V4CollectSession)" where
  "openRemoval sha256 v req kind t =
     (if 0 \<le> cr_LiquidityDelta req then (v, Inl BadLiquidity)
      else
        case cs_market (v4_dex v) (cr_MarketID req) of
          None \<Rightarrow> (v, Inl UnknownMarket)
        | Some pk \<Rightarrow>
            let poolKeyHash = DerivePoolKeyHash sha256 pk;
                paramsHash = DeriveLiquidityParamsHash sha256 (cr_TickLower req) (cr_TickUpper req) (cr_LiquidityDelta req) (cr_Salt req);
                intentID = DeriveIntentID sha256 (cr_NetworkID req) (cr_CChainID req) (cr_DChainID req) (cr_Account req)
                  (cr_AssetOut req) 0 (cr_MarketID req) (ucast (cr_CallIndex req));
                scope = scopeFor v kind (cr_Account req) poolKeyHash paramsHash intentID
            in case mint sha256 v (AuthIntent OR AuthWatch OR AuthSettlement) scope t of
                 (v', Inl err) \<Rightarrow> (v', Inl err)
               | (v', Inr cap) \<Rightarrow> (v', Inr \<lparr>co_cap = cap, co_req = req, co_pk = pk, co_intentID = intentID, co_kind = kind\<rparr>))"

definition OpenCollect :: "(bytes \<Rightarrow> bytes) \<Rightarrow> V4PrecompileSession \<Rightarrow> CollectRequest \<Rightarrow> token \<Rightarrow>
    V4PrecompileSession \<times> (dex_error + V4CollectSession)" where
  "OpenCollect sha256 v req t = openRemoval sha256 v req ActionCollect t"

definition OpenCancel :: "(bytes \<Rightarrow> bytes) \<Rightarrow> V4PrecompileSession \<Rightarrow> CollectRequest \<Rightarrow> token \<Rightarrow>
    V4PrecompileSession \<times> (dex_error + V4CollectSession)" where
  "OpenCancel sha256 v req t = openRemoval sha256 v (req\<lparr>cr_IsCancel := True\<rparr>) ActionCancel t"

record V4StateSession =
  ss4_cap :: scopedCap
  ss4_marketID :: ID

definition OpenState :: "(bytes \<Rightarrow> bytes) \<Rightarrow> V4PrecompileSession \<Rightarrow> Account \<Rightarrow> ID \<Rightarrow> token \<Rightarrow>
    V4PrecompileSession \<times> (dex_error + V4StateSession)" where
  "OpenState sha256 v account marketID t =
     (case cs_market (v4_dex v) marketID of
        None \<Rightarrow> (v, Inl UnknownMarket)
      | Some pk \<Rightarrow>
          let scope = scopeFor v ActionState account (DerivePoolKeyHash sha256 pk) ZeroID ZeroID
          in case mint sha256 v AuthQuote scope t of
               (v', Inl err) \<Rightarrow> (v', Inl err)
             | (v', Inr cap) \<Rightarrow> (v', Inr \<lparr>ss4_cap = cap, ss4_marketID = marketID\<rparr>))"

text \<open>\<open>Close\<close> of every session revokes its token.\<close>

definition Scoped_Close :: "clientSession \<Rightarrow> scopedCap \<Rightarrow> clientSession" where
  "Scoped_Close dex cap = (case sc_core cap of None \<Rightarrow> dex | Some core \<Rightarrow> Revoke dex (cc_tok core))"

section \<open>Swap sessions\<close>

text \<open>\<open>gated\<close> is the gate in front of every operation: refused, it resolves to the error.\<close>

definition gated :: "dex_error option \<Rightarrow> 'a Promise \<Rightarrow> 'a Promise" where
  "gated e p = (case e of Some err \<Rightarrow> Resolved (Inl err) | None \<Rightarrow> p)"

definition Swap_WritePrepareIntent :: "(bytes \<Rightarrow> bytes) \<Rightarrow> clientSession \<Rightarrow> V4SwapSession \<Rightarrow> (Message \<Rightarrow> Message Promise) \<Rightarrow> PreparedIntent Promise" where
  "Swap_WritePrepareIntent sha256 dex s call =
     gated (authorizeSelf sha256 dex (sw_cap s) AuthIntent) (PrepareSwapIntent sha256 dex call (sw_req s))"

text \<open>The guard of the notifications and settlements: a value of another intent is refused.\<close>

definition guard_intent :: "ID \<Rightarrow> PreparedIntent \<Rightarrow> PreparedIntent Promise" where
  "guard_intent intentID pi = (if pi_IntentID pi \<noteq> intentID then Resolved (Inl ErrScopeMismatch) else Resolved (Inr pi))"

definition guard_ref :: "ID \<Rightarrow> DExportRef \<Rightarrow> DExportRef Promise" where
  "guard_ref intentID r = (if der_IntentID r \<noteq> intentID then Resolved (Inl ErrScopeMismatch) else Resolved (Inr r))"

definition Swap_WriteNotifyCToDExport :: "(bytes \<Rightarrow> bytes) \<Rightarrow> bool \<Rightarrow> bool \<Rightarrow> clientSession \<Rightarrow> V4SwapSession \<Rightarrow> (Message \<Rightarrow> Message Promise) \<Rightarrow>
    PreparedIntent Promise \<Rightarrow> IntentWatch Promise" where
  "Swap_WriteNotifyCToDExport sha256 ctx1 ctx2 dex s call intent =
     gated (authorizeSelf sha256 dex (sw_cap s) AuthIntent)
       (NotifyIntent ctx2 dex call (thenAsync ctx1 intent (guard_intent (sw_intentID s))))"

definition Swap_OnExportReady :: "(bytes \<Rightarrow> bytes) \<Rightarrow> clientSession \<Rightarrow> V4SwapSession \<Rightarrow> IntentWatch \<Rightarrow> turn list \<Rightarrow> DExportRef Promise" where
  "Swap_OnExportReady sha256 dex s watch ts = gated (authorizeSelf sha256 dex (sw_cap s) AuthWatch) (OnCommitted watch ts)"

definition Swap_WritePrepareCSettlement :: "(bytes \<Rightarrow> bytes) \<Rightarrow> bool \<Rightarrow> bool \<Rightarrow> clientSession \<Rightarrow> V4SwapSession \<Rightarrow> (Message \<Rightarrow> Message Promise) \<Rightarrow>
    DExportRef Promise \<Rightarrow> SettlementSubmitResult Promise" where
  "Swap_WritePrepareCSettlement sha256 ctx1 ctx2 dex s call ref =
     gated (authorizeSelf sha256 dex (sw_cap s) AuthSettlement)
       (ImportSettlement ctx2 dex call (thenAsync ctx1 ref (guard_ref (sw_intentID s))))"

definition Swap_Run :: "(bytes \<Rightarrow> bytes) \<Rightarrow> clientSession \<Rightarrow> V4SwapSession \<Rightarrow> flow_env \<Rightarrow> FlowStages" where
  "Swap_Run sha256 dex s env =
     (let intent = Swap_WritePrepareIntent sha256 dex s (fe_prepare env);
          watch = Swap_WriteNotifyCToDExport sha256 (fe_ctx env 4) (fe_ctx env 0) dex s (fe_notify env) intent;
          committed = thenAsync (fe_ctx env 1) watch (\<lambda>w. Await (fe_ctx env 2) (Swap_OnExportReady sha256 dex s w (fe_turns env)));
          settle = Swap_WritePrepareCSettlement sha256 (fe_ctx env 5) (fe_ctx env 3) dex s (fe_import env) committed;
          quote = Quote dex (fe_quote env) (quoteFor (sw_req s))
      in \<lparr>fs_Quote = quote, fs_Intent = intent, fs_Watch = watch, fs_Committed = committed, fs_Settle = settle\<rparr>)"

text \<open>One turn of an event stream: the turn of a poll, and whether the first and the second event it sends are taken by the
  receiver before the context ends.\<close>

record event_turn = turn +
  et_sent1 :: bool
  et_sent2 :: bool

definition watchPollCadence :: int where "watchPollCadence = 25"

definition emit :: "bool \<Rightarrow> V4Event \<Rightarrow> V4Event list" where
  "emit sent ev = (if sent then [ev] else [])"

fun streamEvents :: "(dex_error \<Rightarrow> bytes) \<Rightarrow> V4SwapSession \<Rightarrow> IntentWatch \<Rightarrow> bool \<Rightarrow> event_turn list \<Rightarrow> V4Event list" where
  "streamEvents errText s w emittedImported [] = []"
| "streamEvents errText s w emittedImported (t # ts) =
     (if t_done t then []
      else
        let sid = sc_sessionID (sw_cap s) in
        case IntentWatch_Poll w (t_call t) of
          Pending \<Rightarrow> []
        | Crashed \<Rightarrow> []
        | Resolved (Inl err) \<Rightarrow> emit (et_sent1 t) ((mkEvent V4_ERROR sid (sw_intentID s))\<lparr>ev_Reason := errText err\<rparr>)
        | Resolved (Inr st) \<Rightarrow>
            if is_Phase st = PhaseMatching then
              let matched = (mkEvent V4_SWAP_MATCHED sid (sw_intentID s))\<lparr>ev_EstAmount := is_MatchedOut st\<rparr>;
                  rest = (if t_doneWaiting t then [] else streamEvents errText s w True ts)
              in if emittedImported then
                   (if et_sent2 t then matched # rest else [])
                 else if et_sent1 t then
                   mkEvent V4_SWAP_D_IMPORTED sid (sw_intentID s) # (if et_sent2 t then matched # rest else [])
                 else []
            else if is_Phase st = PhaseCommitted then
              emit (et_sent1 t) ((mkEvent V4_SWAP_D_EXPORT_READY sid (sw_intentID s))
                \<lparr>ev_EstAmount := is_MatchedOut st, ev_Ref := (is_Ref st)\<lparr>der_IntentID := sw_intentID s\<rparr>\<rparr>)
            else if is_Phase st = PhaseRejected then
              let reason = (if is_Reason st = [] then ascii ''intent rejected by D'' else is_Reason st)
              in emit (et_sent1 t) ((mkEvent V4_ERROR sid (sw_intentID s))\<lparr>ev_Reason := reason\<rparr>)
            else if t_doneWaiting t then []
            else streamEvents errText s w emittedImported ts)"

definition Swap_ReadStream :: "(dex_error \<Rightarrow> bytes) \<Rightarrow> (bytes \<Rightarrow> bytes) \<Rightarrow> clientSession \<Rightarrow> V4SwapSession \<Rightarrow> IntentWatch \<Rightarrow> event_turn list \<Rightarrow> V4Event list" where
  "Swap_ReadStream errText sha256 dex s w ts =
     (case authorizeSelf sha256 dex (sw_cap s) AuthWatch of
        Some err \<Rightarrow> [(mkEvent V4_ERROR (sc_sessionID (sw_cap s)) (sw_intentID s))\<lparr>ev_Reason := errText err\<rparr>]
      | None \<Rightarrow> streamEvents errText s w False ts)"

section \<open>Route sessions\<close>

definition prepareRouteLocal :: "clientSession \<Rightarrow> V4RouteSession \<Rightarrow> PreparedIntent Promise" where
  "prepareRouteLocal dex s =
     (let req = rt_req s in
      if rr_AmountIn req = 0 then Resolved (Inl ZeroAmount)
      else if rr_Path req = [] then Resolved (Inl EmptyPath)
      else
        case cs_market dex (rt_entry s) of
          None \<Rightarrow> Resolved (Inl UnknownMarket)
        | Some pk \<Rightarrow>
            let hookData = EncodeIntentHookData (rr_Deadline req) (ucast (rr_CallIndex req));
                calldata = EncodeSwapCalldata pk True (rr_AmountIn req) hookData
            in Resolved (Inr \<lparr>pi_To = addr9999, pi_Calldata = calldata, pi_HookData = hookData, pi_IntentID = rt_intentID s,
                 pi_QuotedOut = 0, pi_DChainID = rr_DChainID req, pi_CChainID = rr_CChainID req, pi_Account = rr_Account req,
                 pi_Recipient = rr_Recipient req, pi_AssetIn = rr_AssetIn req, pi_AmountIn = rr_AmountIn req, pi_MarketID = rt_entry s\<rparr>))"

definition Route_WritePrepareIntent :: "(bytes \<Rightarrow> bytes) \<Rightarrow> clientSession \<Rightarrow> V4RouteSession \<Rightarrow> PreparedIntent Promise" where
  "Route_WritePrepareIntent sha256 dex s = gated (authorizeSelf sha256 dex (rt_cap s) AuthIntent) (prepareRouteLocal dex s)"

record RouteWatch =
  rw_session :: "V4RouteSession option"
  rw_intentID :: ID
  rw_hopCount :: u32

definition Route_WriteNotifyCToDExport :: "(bytes \<Rightarrow> bytes) \<Rightarrow> bool \<Rightarrow> clientSession \<Rightarrow> V4RouteSession \<Rightarrow> (Message \<Rightarrow> Message Promise) \<Rightarrow>
    PreparedIntent Promise \<Rightarrow> RouteWatch Promise" where
  "Route_WriteNotifyCToDExport sha256 ctxFirst dex s call intent =
     gated (authorizeSelf sha256 dex (rt_cap s) AuthIntent) (thenAsync ctxFirst intent (\<lambda>pi.
       if pi_IntentID pi \<noteq> rt_intentID s then Resolved (Inl ErrScopeMismatch)
       else thenAsync False (roundTrip (buildRouteRequest (rt_req s)) call Some) (\<lambda>resp.
         Resolved (Inr \<lparr>rw_session = Some s, rw_intentID = rt_intentID s, rw_hopCount = word_of_int (int (length (rr_Path (rt_req s))))\<rparr>))))"

definition RouteWatch_Poll :: "(bytes \<Rightarrow> bytes) \<Rightarrow> clientSession \<Rightarrow> RouteWatch \<Rightarrow> (Message \<Rightarrow> Message Promise) \<Rightarrow> RouteStatus Promise" where
  "RouteWatch_Poll sha256 dex w call =
     (case rw_session w of
        None \<Rightarrow> Resolved (Inl NilWatch)
      | Some s \<Rightarrow>
          gated (authorizeSelf sha256 dex (rt_cap s) AuthWatch) (roundTrip (buildRouteWatchPoll (rw_intentID w)) call readRouteStatus))"

fun streamUntilFinal :: "(bytes \<Rightarrow> bytes) \<Rightarrow> clientSession \<Rightarrow> RouteWatch \<Rightarrow> int \<Rightarrow> turn list \<Rightarrow> int list \<times> DExportRef Promise" where
  "streamUntilFinal sha256 dex w backoff [] = ([], Pending)"
| "streamUntilFinal sha256 dex w backoff (t # ts) =
     (if t_done t then ([], Resolved (Inl CtxErr))
      else
        case RouteWatch_Poll sha256 dex w (t_call t) of
          Pending \<Rightarrow> ([], Pending)
        | Crashed \<Rightarrow> ([], Crashed)
        | Resolved (Inl err) \<Rightarrow> ([], Resolved (Inl err))
        | Resolved (Inr st) \<Rightarrow>
            if rs_Phase st = RouteCommitted \<or> rs_Phase st = RouteRefunded then
              ([], Resolved (Inr ((rs_Ref st)\<lparr>der_IntentID := rw_intentID w\<rparr>)))
            else if rs_Phase st = RouteRejected then
              let reason = (if rs_Reason st = [] then ascii ''route rejected by D'' else rs_Reason st)
              in ([], Resolved (Inl (IntentRejected reason)))
            else if t_doneWaiting t then ([backoff], Resolved (Inl CtxErr))
            else
              let (waits, r) = streamUntilFinal sha256 dex w (nextBackoff backoff) ts
              in (backoff # waits, r))"

definition Route_OnFinalExport :: "(bytes \<Rightarrow> bytes) \<Rightarrow> clientSession \<Rightarrow> V4RouteSession \<Rightarrow> RouteWatch \<Rightarrow> turn list \<Rightarrow> DExportRef Promise" where
  "Route_OnFinalExport sha256 dex s w ts =
     gated (authorizeSelf sha256 dex (rt_cap s) AuthWatch) (snd (streamUntilFinal sha256 dex w 25 ts))"

definition Route_WritePrepareCSettlement :: "(bytes \<Rightarrow> bytes) \<Rightarrow> bool \<Rightarrow> bool \<Rightarrow> clientSession \<Rightarrow> V4RouteSession \<Rightarrow> (Message \<Rightarrow> Message Promise) \<Rightarrow>
    DExportRef Promise \<Rightarrow> SettlementSubmitResult Promise" where
  "Route_WritePrepareCSettlement sha256 ctx1 ctx2 dex s call ref =
     gated (authorizeSelf sha256 dex (rt_cap s) AuthSettlement)
       (ImportSettlement ctx2 dex call (thenAsync ctx1 ref (guard_ref (rt_intentID s))))"

fun streamRoute :: "(dex_error \<Rightarrow> bytes) \<Rightarrow> (bytes \<Rightarrow> bytes) \<Rightarrow> clientSession \<Rightarrow> V4RouteSession \<Rightarrow> RouteWatch \<Rightarrow> int \<Rightarrow> event_turn list \<Rightarrow> V4Event list" where
  "streamRoute errText sha256 dex s w lastHop [] = []"
| "streamRoute errText sha256 dex s w lastHop (t # ts) =
     (if t_done t then []
      else
        let sid = sc_sessionID (rt_cap s) in
        case RouteWatch_Poll sha256 dex w (t_call t) of
          Pending \<Rightarrow> []
        | Crashed \<Rightarrow> []
        | Resolved (Inl err) \<Rightarrow> emit (et_sent1 t) ((mkEvent V4_ERROR sid (rt_intentID s))\<lparr>ev_Reason := errText err\<rparr>)
        | Resolved (Inr st) \<Rightarrow>
            if rs_Phase st = RouteHopping then
              let started = lastHop < uint (rs_HopIndex st);
                  lastHop' = (if started then uint (rs_HopIndex st) else lastHop);
                  filled = (mkEvent V4_ROUTE_HOP_FILLED sid (rt_intentID s))\<lparr>ev_HopIndex := rs_HopIndex st, ev_EstAmount := rs_HopAmountOut st\<rparr>;
                  rest = (if t_doneWaiting t then [] else streamRoute errText sha256 dex s w lastHop' ts);
                  tail = (if et_sent2 t then filled # rest else [])
              in if \<not> started then tail
                 else if et_sent1 t then (mkEvent V4_ROUTE_HOP_STARTED sid (rt_intentID s))\<lparr>ev_HopIndex := rs_HopIndex st\<rparr> # tail
                 else []
            else if rs_Phase st = RouteCommitted then
              emit (et_sent1 t) ((mkEvent V4_ROUTE_D_EXPORT_READY sid (rt_intentID s))
                \<lparr>ev_EstAmount := rs_FinalOut st, ev_Ref := (rs_Ref st)\<lparr>der_IntentID := rt_intentID s\<rparr>\<rparr>)
            else if rs_Phase st = RouteRefunded then
              emit (et_sent1 t) ((mkEvent V4_ROUTE_REFUND_READY sid (rt_intentID s))
                \<lparr>ev_EstAmount := rs_FinalOut st, ev_Ref := (rs_Ref st)\<lparr>der_IntentID := rt_intentID s\<rparr>, ev_Reason := rs_Reason st\<rparr>)
            else if rs_Phase st = RouteRejected then
              let reason = (if rs_Reason st = [] then ascii ''route rejected by D'' else rs_Reason st)
              in emit (et_sent1 t) ((mkEvent V4_ERROR sid (rt_intentID s))\<lparr>ev_Reason := reason\<rparr>)
            else if t_doneWaiting t then []
            else streamRoute errText sha256 dex s w lastHop ts)"

definition Route_ReadStream :: "(dex_error \<Rightarrow> bytes) \<Rightarrow> (bytes \<Rightarrow> bytes) \<Rightarrow> clientSession \<Rightarrow> V4RouteSession \<Rightarrow> RouteWatch \<Rightarrow> event_turn list \<Rightarrow> V4Event list" where
  "Route_ReadStream errText sha256 dex s w ts =
     (case authorizeSelf sha256 dex (rt_cap s) AuthWatch of
        Some err \<Rightarrow> [(mkEvent V4_ERROR (sc_sessionID (rt_cap s)) (rt_intentID s))\<lparr>ev_Reason := errText err\<rparr>]
      | None \<Rightarrow> streamRoute errText sha256 dex s w (- 1) ts)"

section \<open>Liquidity, removal and state sessions\<close>

definition LP_WritePrepareCommit :: "(bytes \<Rightarrow> bytes) \<Rightarrow> clientSession \<Rightarrow> V4LiquiditySession \<Rightarrow> PreparedIntent Promise" where
  "LP_WritePrepareCommit sha256 dex s = gated (authorizeSelf sha256 dex (lp_cap s) AuthIntent)
     (let req = lp_req s;
          args = \<lparr>ml_TickLower = lr_TickLower req, ml_TickUpper = lr_TickUpper req, ml_LiquidityDelta = lr_LiquidityDelta req, ml_Salt = lr_Salt req\<rparr>;
          hookData = EncodeIntentHookData 0 (ucast (lr_CallIndex req));
          calldata = EncodeModifyLiquidityCalldata (lp_pk s) args hookData
      in Resolved (Inr \<lparr>pi_To = addr9999, pi_Calldata = calldata, pi_HookData = hookData, pi_IntentID = lp_intentID s, pi_QuotedOut = 0,
           pi_DChainID = lr_DChainID req, pi_CChainID = lr_CChainID req, pi_Account = lr_Account req, pi_Recipient = ZeroAccount,
           pi_AssetIn = lr_AssetIn req, pi_AmountIn = lr_AmountIn req, pi_MarketID = lr_MarketID req\<rparr>))"

definition LP_WriteNotifyCToDExport :: "(bytes \<Rightarrow> bytes) \<Rightarrow> bool \<Rightarrow> bool \<Rightarrow> clientSession \<Rightarrow> V4LiquiditySession \<Rightarrow> (Message \<Rightarrow> Message Promise) \<Rightarrow>
    PreparedIntent Promise \<Rightarrow> IntentWatch Promise" where
  "LP_WriteNotifyCToDExport sha256 ctx1 ctx2 dex s call intent =
     gated (authorizeSelf sha256 dex (lp_cap s) AuthIntent)
       (NotifyIntent ctx2 dex call (thenAsync ctx1 intent (guard_intent (lp_intentID s))))"

definition Collect_WriteRequest :: "(bytes \<Rightarrow> bytes) \<Rightarrow> clientSession \<Rightarrow> V4CollectSession \<Rightarrow> PreparedIntent Promise" where
  "Collect_WriteRequest sha256 dex s = gated (authorizeSelf sha256 dex (co_cap s) AuthIntent)
     (let req = co_req s;
          args = \<lparr>ml_TickLower = cr_TickLower req, ml_TickUpper = cr_TickUpper req, ml_LiquidityDelta = cr_LiquidityDelta req, ml_Salt = cr_Salt req\<rparr>;
          hookData = EncodeIntentHookData 0 (ucast (cr_CallIndex req));
          calldata = EncodeModifyLiquidityCalldata (co_pk s) args hookData
      in Resolved (Inr \<lparr>pi_To = addr9999, pi_Calldata = calldata, pi_HookData = hookData, pi_IntentID = co_intentID s, pi_QuotedOut = 0,
           pi_DChainID = cr_DChainID req, pi_CChainID = cr_CChainID req, pi_Account = cr_Account req, pi_Recipient = ZeroAccount,
           pi_AssetIn = cr_AssetOut req, pi_AmountIn = 0, pi_MarketID = cr_MarketID req\<rparr>))"

definition Collect_WriteNotify :: "(bytes \<Rightarrow> bytes) \<Rightarrow> bool \<Rightarrow> bool \<Rightarrow> clientSession \<Rightarrow> V4CollectSession \<Rightarrow> (Message \<Rightarrow> Message Promise) \<Rightarrow>
    PreparedIntent Promise \<Rightarrow> IntentWatch Promise" where
  "Collect_WriteNotify sha256 ctx1 ctx2 dex s call intent =
     gated (authorizeSelf sha256 dex (co_cap s) AuthIntent)
       (NotifyIntent ctx2 dex call (thenAsync ctx1 intent (guard_intent (co_intentID s))))"

definition Collect_OnExportReady :: "(bytes \<Rightarrow> bytes) \<Rightarrow> clientSession \<Rightarrow> V4CollectSession \<Rightarrow> IntentWatch \<Rightarrow> turn list \<Rightarrow> DExportRef Promise" where
  "Collect_OnExportReady sha256 dex s watch ts = gated (authorizeSelf sha256 dex (co_cap s) AuthWatch) (OnCommitted watch ts)"

definition Collect_WritePrepareCSettlement :: "(bytes \<Rightarrow> bytes) \<Rightarrow> bool \<Rightarrow> bool \<Rightarrow> clientSession \<Rightarrow> V4CollectSession \<Rightarrow> (Message \<Rightarrow> Message Promise) \<Rightarrow>
    DExportRef Promise \<Rightarrow> SettlementSubmitResult Promise" where
  "Collect_WritePrepareCSettlement sha256 ctx1 ctx2 dex s call ref =
     gated (authorizeSelf sha256 dex (co_cap s) AuthSettlement)
       (ImportSettlement ctx2 dex call (thenAsync ctx1 ref (guard_ref (co_intentID s))))"

definition State_ReadQuote :: "(bytes \<Rightarrow> bytes) \<Rightarrow> clientSession \<Rightarrow> V4StateSession \<Rightarrow> (Message \<Rightarrow> Message Promise) \<Rightarrow> u64 \<Rightarrow> bool \<Rightarrow> QuoteResult Promise" where
  "State_ReadQuote sha256 dex s call amountIn zeroForOne = gated (authorizeSelf sha256 dex (ss4_cap s) AuthQuote)
     (Quote dex call \<lparr>qreq_MarketID = ss4_marketID s, qreq_AmountIn = amountIn, qreq_ZeroForOne = zeroForOne\<rparr>)"

definition State_ReadState :: "(bytes \<Rightarrow> bytes) \<Rightarrow> clientSession \<Rightarrow> V4StateSession \<Rightarrow> (Message \<Rightarrow> Message Promise) \<Rightarrow> u8 \<Rightarrow> Account \<Rightarrow> ID \<Rightarrow> StateResult Promise" where
  "State_ReadState sha256 dex s call kind account asset = gated (authorizeSelf sha256 dex (ss4_cap s) AuthQuote)
     (GetState dex call \<lparr>sreq_Kind = kind, sreq_MarketID = ss4_marketID s, sreq_Account = account, sreq_Asset = asset, sreq_IntentID = ZeroID\<rparr>)"

text \<open>The loop of \<open>StreamQuotes\<close>: a quote is awaited, reported and followed by the pause; \<open>t_done\<close> is that the context wins
  the await.\<close>

fun stream_quotes :: "(dex_error \<Rightarrow> bytes) \<Rightarrow> clientSession \<Rightarrow> V4StateSession \<Rightarrow> u64 \<Rightarrow> bool \<Rightarrow> event_turn list \<Rightarrow> V4Event list" where
  "stream_quotes errText dex s amountIn zeroForOne [] = []"
| "stream_quotes errText dex s amountIn zeroForOne (t # ts) =
     (let sid = sc_sessionID (ss4_cap s) in
      case Await (t_done t) (Quote dex (t_call t) \<lparr>qreq_MarketID = ss4_marketID s, qreq_AmountIn = amountIn, qreq_ZeroForOne = zeroForOne\<rparr>) of
        Pending \<Rightarrow> []
      | Crashed \<Rightarrow> []
      | Resolved (Inl err) \<Rightarrow> emit (et_sent1 t) ((mkEvent V4_ERROR sid ZeroID)\<lparr>ev_Reason := errText err\<rparr>)
      | Resolved (Inr qr) \<Rightarrow>
          if \<not> et_sent1 t then []
          else (mkEvent V4_STATE_QUOTE_UPDATE sid ZeroID)\<lparr>ev_EstAmount := qres_AmountOut qr\<rparr> #
            (if t_doneWaiting t then [] else stream_quotes errText dex s amountIn zeroForOne ts))"

definition StreamQuotes :: "(dex_error \<Rightarrow> bytes) \<Rightarrow> (bytes \<Rightarrow> bytes) \<Rightarrow> clientSession \<Rightarrow> V4StateSession \<Rightarrow> u64 \<Rightarrow> bool \<Rightarrow> event_turn list \<Rightarrow> V4Event list" where
  "StreamQuotes errText sha256 dex s amountIn zeroForOne ts =
     (case authorizeSelf sha256 dex (ss4_cap s) AuthQuote of
        Some err \<Rightarrow> [(mkEvent V4_ERROR (sc_sessionID (ss4_cap s)) ZeroID)\<lparr>ev_Reason := errText err\<rparr>]
      | None \<Rightarrow> stream_quotes errText dex s amountIn zeroForOne ts)"

section \<open>Scopes confine capabilities\<close>

definition wf_scope :: "V4ActionScope \<Rightarrow> bool" where
  "wf_scope s \<longleftrightarrow> length (sp_CChainID s) = 32 \<and> length (sp_DChainID s) = 32 \<and> length (sp_Addr9999 s) = 20 \<and> length (sp_Account s) = 20 \<and>
     length (sp_PoolKeyHash s) = 32 \<and> length (sp_ParamsHash s) = 32 \<and> length (sp_IntentID s) = 32"

lemma scope_preimage_inj: "wf_scope s \<Longrightarrow> wf_scope s' \<Longrightarrow> scope_preimage s = scope_preimage s' \<Longrightarrow> s = s'"
  by (cases s; cases s') (simp add: scope_preimage_def wf_scope_def)

text \<open>The bytes hashed for a session id are never those hashed for an intent id or an object key.\<close>

lemma domains_separated:
  assumes "wf_scope s"
  shows "scope_preimage s \<noteq> intent_preimage n c d acct asset amt mkt k" "length tx = 32 \<Longrightarrow> scope_preimage s \<noteq> tx @ be32 i"
proof -
  have "scope_preimage s ! 8 = 118" "intent_preimage n c d acct asset amt mkt k ! 8 = 110"
    by (simp_all add: scope_preimage_def intent_preimage_def v4ScopeDomain_def nativeIntentDomain_def ascii_def nth_append)
  then show "scope_preimage s \<noteq> intent_preimage n c d acct asset amt mkt k" by auto
  have "length (scope_preimage s) = 226" using assms by (simp add: scope_preimage_def wf_scope_def v4ScopeDomain_def ascii_def)
  then show "scope_preimage s \<noteq> tx @ be32 i" if "length tx = 32" using that by (auto dest: arg_cong [where f = length])
qed

text \<open>C20. A scoped capability drives its own action only: it is accepted for an operation on a scope exactly when its
  session id is set, the underlying capability authorises the operation at the client session, and the two
  scopes hash to the same session id; so if it is accepted for a scope that differs from its own in any
  field (network, chains, contract, account, pool, parameters, kind or intent), two different hash inputs
  have been found with the same digest.\<close>

theorem scope_confined:
  assumes "wf_scope scope" and "wf_scope want"
  shows "(authorizeScoped sha256 dex (Some (newScopedCap sha256 core scope)) need want = None \<longleftrightarrow>
      DeriveSessionID sha256 scope \<noteq> ZeroID \<and> authorize dex (Some core) need = None \<and> sha256 (scope_preimage want) = sha256 (scope_preimage scope)) \<and>
    (authorizeScoped sha256 dex (Some (newScopedCap sha256 core scope)) need want = None \<and> want \<noteq> scope \<longrightarrow>
      scope_preimage want \<noteq> scope_preimage scope \<and> sha256 (scope_preimage want) = sha256 (scope_preimage scope))"
proof -
  have "authorizeScoped sha256 dex (Some (newScopedCap sha256 core scope)) need want = None \<longleftrightarrow>
      DeriveSessionID sha256 scope \<noteq> ZeroID \<and> authorize dex (Some core) need = None \<and> sha256 (scope_preimage want) = sha256 (scope_preimage scope)"
    by (auto simp: authorizeScoped_def newScopedCap_def DeriveSessionID_def split: option.splits if_splits)
  moreover have "scope_preimage want = scope_preimage scope \<Longrightarrow> want = scope" using scope_preimage_inj assms by blast
  ultimately show ?thesis by blast
qed

section \<open>A swap session settles its own intent\<close>

lemma thenAsync_Inr: "thenAsync c p f = Resolved (Inr y) \<longleftrightarrow> (\<not> c \<and> (\<exists>x. p = Resolved (Inr x) \<and> f x = Resolved (Inr y)))"
  by (auto simp: thenAsync_def Await_def split: Promise.splits sum.splits)

lemma gated_Inr: "gated e p = Resolved (Inr y) \<longleftrightarrow> e = None \<and> p = Resolved (Inr y)"
  by (auto simp: gated_def split: option.splits)

lemma stream_ref_intent: "snd (streamUntilCommitted w b ts) = Resolved (Inr r) \<Longrightarrow> der_IntentID r = iwt_intentID w"
proof (induction w b ts rule: streamUntilCommitted.induct)
  case (2 w b t ts)
  then show ?case by (auto simp: Let_def split: if_splits Promise.splits sum.splits prod.splits)
qed simp

lemma OnCommitted_intent: "OnCommitted w ts = Resolved (Inr r) \<Longrightarrow> der_IntentID r = iwt_intentID w"
  by (auto simp: OnCommitted_def stream_ref_intent split: option.splits)

text \<open>C16. Whatever the peer does, a swap session that returns a settlement has walked its own intent all the way: it was
  authorised to prepare, watch and settle, the prepared intent and the watch carry the session's intent id,
  and the pointer it asked to settle is bound to that intent.\<close>

theorem swap_session_bound:
  assumes "fs_Settle (Swap_Run sha256 dex s env) = Resolved (Inr x)"
  shows "\<exists>p w r. fs_Intent (Swap_Run sha256 dex s env) = Resolved (Inr p) \<and> pi_IntentID p = sw_intentID s \<and>
    fs_Watch (Swap_Run sha256 dex s env) = Resolved (Inr w) \<and> iwt_intentID w = sw_intentID s \<and>
    fs_Committed (Swap_Run sha256 dex s env) = Resolved (Inr r) \<and> der_IntentID r = sw_intentID s \<and>
    roundTrip (buildDExportRef r) (fe_import env) readSettlementResult = Resolved (Inr x) \<and>
    (\<forall>need \<in> {AuthIntent, AuthWatch, AuthSettlement}. authorizeSelf sha256 dex (sw_cap s) need = None)"
proof -
  let ?run = "Swap_Run sha256 dex s env"
  have st: "Swap_WritePrepareCSettlement sha256 (fe_ctx env 5) (fe_ctx env 3) dex s (fe_import env) (fs_Committed ?run) = Resolved (Inr x)"
    using assms by (simp add: Swap_Run_def Let_def)
  then obtain r where r: "fs_Committed ?run = Resolved (Inr r)" "der_IntentID r = sw_intentID s"
      "roundTrip (buildDExportRef r) (fe_import env) readSettlementResult = Resolved (Inr x)"
    and a3: "authorizeSelf sha256 dex (sw_cap s) AuthSettlement = None"
    by (auto simp: Swap_WritePrepareCSettlement_def gated_Inr ImportSettlement_def thenAsync_Inr guard_ref_def split: if_splits option.splits)
  from r(1) obtain w where w: "fs_Watch ?run = Resolved (Inr w)" "OnCommitted w (fe_turns env) = Resolved (Inr r)"
    and a2: "authorizeSelf sha256 dex (sw_cap s) AuthWatch = None"
    by (auto simp: Swap_Run_def Let_def thenAsync_Inr Swap_OnExportReady_def gated_Inr Await_def split: if_splits)
  from w(1) obtain p where p: "fs_Intent ?run = Resolved (Inr p)" "pi_IntentID p = sw_intentID s"
    and a1: "authorizeSelf sha256 dex (sw_cap s) AuthIntent = None"
    by (auto simp: Swap_Run_def Let_def Swap_WriteNotifyCToDExport_def gated_Inr NotifyIntent_def thenAsync_Inr guard_intent_def split: if_splits option.splits)
  show ?thesis
    using p w r a1 a2 a3 OnCommitted_intent [OF w(2)] by (intro exI [of _ p] exI [of _ w] exI [of _ r]) simp
qed

section \<open>Event streams\<close>

text \<open>What every stream keeps: each event is a read from D, labelled with the session and the intent, credits nothing, and has a
  pointer only if it is of a kind that has one, the intent's own; and nothing follows such an event.\<close>

definition event_ok :: "ID \<Rightarrow> ID \<Rightarrow> V4Event \<Rightarrow> bool" where
  "event_ok sid intentID e \<longleftrightarrow> ev_SessionID e = sid \<and> ev_IntentID e = intentID \<and> V4MsgType_Dir (ev_Type e) = DirDToC \<and> \<not> CreditsValue (ev_Type e) \<and>
     (if HasRef e then der_IntentID (ev_Ref e) = intentID else ev_Ref e = ZeroRef)"

fun events_ok :: "ID \<Rightarrow> ID \<Rightarrow> V4Event list \<Rightarrow> bool" where
  "events_ok sid intentID [] \<longleftrightarrow> True"
| "events_ok sid intentID (e # es) \<longleftrightarrow> event_ok sid intentID e \<and> (HasRef e \<longrightarrow> es = []) \<and> events_ok sid intentID es"

lemmas event_defs = event_ok_def mkEvent_def HasRef_def V4MsgType_Dir_def CreditsValue_def v4_msgs

lemma events_ok_emit: "event_ok sid i e \<Longrightarrow> events_ok sid i (emit b e)"
  by (simp add: emit_def)

text \<open>The events of the streams, as the code builds them.\<close>

lemma stream_event_ok [simp]:
  "event_ok sid i ((mkEvent V4_ERROR sid i)\<lparr>ev_Reason := r\<rparr>)" "\<not> HasRef ((mkEvent V4_ERROR sid i)\<lparr>ev_Reason := r\<rparr>)"
  "event_ok sid i (mkEvent V4_SWAP_D_IMPORTED sid i)" "\<not> HasRef (mkEvent V4_SWAP_D_IMPORTED sid i)"
  "event_ok sid i ((mkEvent V4_SWAP_MATCHED sid i)\<lparr>ev_EstAmount := a\<rparr>)" "\<not> HasRef ((mkEvent V4_SWAP_MATCHED sid i)\<lparr>ev_EstAmount := a\<rparr>)"
  "event_ok sid i ((mkEvent V4_STATE_QUOTE_UPDATE sid i)\<lparr>ev_EstAmount := a\<rparr>)" "\<not> HasRef ((mkEvent V4_STATE_QUOTE_UPDATE sid i)\<lparr>ev_EstAmount := a\<rparr>)"
  "event_ok sid i ((mkEvent V4_ROUTE_HOP_STARTED sid i)\<lparr>ev_HopIndex := h\<rparr>)" "\<not> HasRef ((mkEvent V4_ROUTE_HOP_STARTED sid i)\<lparr>ev_HopIndex := h\<rparr>)"
  "event_ok sid i ((mkEvent V4_ROUTE_HOP_FILLED sid i)\<lparr>ev_HopIndex := h, ev_EstAmount := a\<rparr>)"
  "\<not> HasRef ((mkEvent V4_ROUTE_HOP_FILLED sid i)\<lparr>ev_HopIndex := h, ev_EstAmount := a\<rparr>)"
  "event_ok sid i ((mkEvent V4_SWAP_D_EXPORT_READY sid i)\<lparr>ev_EstAmount := a, ev_Ref := ref\<lparr>der_IntentID := i\<rparr>\<rparr>)"
  "event_ok sid i ((mkEvent V4_ROUTE_D_EXPORT_READY sid i)\<lparr>ev_EstAmount := a, ev_Ref := ref\<lparr>der_IntentID := i\<rparr>\<rparr>)"
  "event_ok sid i ((mkEvent V4_ROUTE_REFUND_READY sid i)\<lparr>ev_EstAmount := a, ev_Ref := ref\<lparr>der_IntentID := i\<rparr>, ev_Reason := r\<rparr>)"
  by (simp_all add: event_defs)

lemma streamEvents_ok: "events_ok (sc_sessionID (sw_cap s)) (sw_intentID s) (streamEvents errText s w em ts)"
  by (induction errText s w em ts rule: streamEvents.induct)
    (auto simp: Let_def events_ok_emit split: Promise.splits sum.splits)

lemma stream_quotes_ok: "events_ok (sc_sessionID (ss4_cap s)) ZeroID (stream_quotes errText dex s a z ts)"
  by (induction errText dex s a z ts rule: stream_quotes.induct)
    (auto simp: Let_def events_ok_emit split: Promise.splits sum.splits)

lemma streamRoute_ok: "events_ok (sc_sessionID (rt_cap s)) (rt_intentID s) (streamRoute errText sha256 dex s w h ts)"
proof (induction ts arbitrary: h)
  case (Cons t ts)
  show ?case
    by (cases "RouteWatch_Poll sha256 dex w (t_call t)")
      (simp_all add: Let_def events_ok_emit Cons.IH split: sum.split)
qed simp

text \<open>The hops a route stream announces, in order.\<close>

definition started_hops :: "V4Event list \<Rightarrow> int list" where
  "started_hops es = map (\<lambda>e. uint (ev_HopIndex e)) (filter (\<lambda>e. ev_Type e = V4_ROUTE_HOP_STARTED) es)"

lemma started_hops_simps [simp]:
  "started_hops [] = []"
  "started_hops (e # es) = (if ev_Type e = V4_ROUTE_HOP_STARTED then uint (ev_HopIndex e) # started_hops es else started_hops es)"
  by (simp_all add: started_hops_def)

lemma streamRoute_hops: "sorted_wrt (<) (h # started_hops (streamRoute errText sha256 dex s w h ts))"
proof (induction ts arbitrary: h)
  case (Cons t ts)
  have other: "started_hops (emit b ((mkEvent V4_ERROR sid i)\<lparr>ev_Reason := r\<rparr>)) = []"
    "started_hops (emit b ((mkEvent V4_ROUTE_D_EXPORT_READY sid i)\<lparr>ev_EstAmount := a, ev_Ref := f\<rparr>)) = []"
    "started_hops (emit b ((mkEvent V4_ROUTE_REFUND_READY sid i)\<lparr>ev_EstAmount := a, ev_Ref := f, ev_Reason := r\<rparr>)) = []" for b sid i r a f
    by (simp_all add: emit_def mkEvent_def v4_msgs)
  have hop: "ev_Type (mkEvent t' sid i) = t'" "V4_ROUTE_HOP_FILLED \<noteq> V4_ROUTE_HOP_STARTED" for t' sid i
    by (simp_all add: mkEvent_def v4_msgs)
  have step: "\<forall>x \<in> set (started_hops (streamRoute errText sha256 dex s w k ts)). k < x"
    "sorted_wrt (<) (started_hops (streamRoute errText sha256 dex s w k ts))" for k
    using Cons.IH [of k] by simp_all
  have up: "h < k \<Longrightarrow> x \<in> set (started_hops (streamRoute errText sha256 dex s w k ts)) \<Longrightarrow> h < x" for k x
    using step(1) [of k] by (auto dest: less_trans)
  show ?case
    by (cases "RouteWatch_Poll sha256 dex w (t_call t)")
      (use step in \<open>auto simp: Let_def other hop split: sum.split dest: up\<close>)
qed simp

text \<open>C17. No event stream can move value or smuggle a pointer, whatever the peer reports: every event a swap, route or quote stream
  delivers is a read from D labelled with the session's own id and intent; only a final export or refund
  event carries a pointer, that pointer is bound to the session's own intent, and it is the last event of
  the stream; and a route stream announces its hops in strictly increasing order.\<close>

theorem event_streams_safe:
  "events_ok (sc_sessionID (sw_cap a)) (sw_intentID a) (Swap_ReadStream errText sha256 dex a w ts) \<and>
   events_ok (sc_sessionID (rt_cap r)) (rt_intentID r) (Route_ReadStream errText sha256 dex r rw ts) \<and>
   events_ok (sc_sessionID (ss4_cap q)) ZeroID (StreamQuotes errText sha256 dex q amountIn zfo ts) \<and>
   sorted_wrt (<) (started_hops (Route_ReadStream errText sha256 dex r rw ts))"
proof -
  have "started_hops [(mkEvent V4_ERROR sid i)\<lparr>ev_Reason := x\<rparr>] = []" for sid i x by (simp add: mkEvent_def v4_msgs)
  moreover have "sorted_wrt (<) (started_hops (streamRoute errText sha256 dex r rw (- 1) ts))"
    using streamRoute_hops [of "- 1" errText sha256 dex r rw ts] by simp
  ultimately show ?thesis
    by (auto simp: Swap_ReadStream_def Route_ReadStream_def StreamQuotes_def streamEvents_ok streamRoute_ok stream_quotes_ok split: option.splits)
qed

section \<open>Opened sessions\<close>

lemma mint_Inr:
  "mint sha256 v bits scope t = (v', Inr cap) \<longleftrightarrow>
    (\<exists>dex core. issue (v4_dex v) bits t = (dex, Inr core) \<and> v' = v\<lparr>v4_dex := dex\<rparr> \<and> cap = newScopedCap sha256 core scope)"
  by (auto simp: mint_def split: prod.splits sum.splits)

lemma OpenSwap_Inr:
  assumes "OpenSwap sha256 v req t = (v', Inr s)"
  shows "\<exists>pk dex core scope. cs_market (v4_dex v) (sir_MarketID req) = Some pk \<and>
    issue (v4_dex v) (AuthIntent OR AuthWatch OR AuthSettlement) t = (dex, Inr core) \<and> v' = v\<lparr>v4_dex := dex\<rparr> \<and>
    s = \<lparr>sw_cap = newScopedCap sha256 core scope, sw_req = req, sw_intentID = pi_IntentID (prepared_for sha256 pk req 0)\<rparr>"
  using assms by (auto simp: OpenSwap_def mint_Inr prepared_for_def Let_def split: option.splits prod.splits sum.splits)

text \<open>A route is signed as one plain intent: what an opened route session gives the user to sign goes to 0x9999 and decodes to
  exact input of the requested amount on the pool of the first market of the path, with hook data that
  carries the deadline and the call index; re-deriving the intent id from that calldata and the first
  market gives the id under which the session watches the route, and no part of the path is in the calldata.\<close>

lemma route_intent_rederivable:
  assumes "OpenRoute sha256 v req t = (v', Inr s)" and "Route_WritePrepareIntent sha256 dex s = Resolved (Inr p)"
    and "cs_market dex = cs_market (v4_dex v)" and "\<forall>m pk. cs_market dex m = Some pk \<longrightarrow> wf_pool pk"
  shows "\<exists>first rest pk. rr_Path req = first # rest \<and> cs_market dex first = Some pk \<and> pi_To p = addr9999 \<and> pool_words (pi_Calldata p) pk \<and>
    intent_body (abi_bytes (pi_Calldata p) 8) = Some (unat (rr_Deadline req), unat (rr_CallIndex req)) \<and>
    pi_IntentID p = rt_intentID s \<and>
    rt_intentID s = DeriveIntentID sha256 (rr_NetworkID req) (rr_CChainID req) (rr_DChainID req) (rr_Account req) (rr_AssetIn req)
      (of_int (- abi_int (abi_word (pi_Calldata p) 6))) first (of_nat (snd (the (intent_body (abi_bytes (pi_Calldata p) 8))))) \<and>
    pi_Calldata p = EncodeSwapCalldata pk True (rr_AmountIn req) (EncodeIntentHookData (rr_Deadline req) (ucast (rr_CallIndex req)))"
proof -
  obtain first rest where path: "rr_Path req = first # rest" and s: "rt_req s = req" "rt_entry s = first"
      "rt_intentID s = DeriveIntentID sha256 (rr_NetworkID req) (rr_CChainID req) (rr_DChainID req) (rr_Account req)
         (rr_AssetIn req) (rr_AmountIn req) first (ucast (rr_CallIndex req))"
    using assms(1) by (auto simp: OpenRoute_def firstMarket_def Let_def split: list.splits option.splits prod.splits sum.splits if_splits)
  let ?h = "EncodeIntentHookData (rr_Deadline req) (ucast (rr_CallIndex req))"
  obtain pk where pk: "cs_market dex first = Some pk" "pi_To p = addr9999" "pi_IntentID p = rt_intentID s"
      "pi_Calldata p = EncodeSwapCalldata pk True (rr_AmountIn req) ?h"
    using assms(2) s path by (auto simp: Route_WritePrepareIntent_def gated_Inr prepareRouteLocal_def Let_def split: if_splits option.splits)
  have "length ?h < 2 ^ 64" using length_EncodeIntentHookData [of "rr_Deadline req" "ucast (rr_CallIndex req)"] by simp
  note c = swap_calldata [OF assms(4) [THEN spec, THEN spec, THEN mp, OF pk(1)] this, of True "rr_AmountIn req"]
  have u: "unat (ucast (rr_CallIndex req) :: u64) = unat (rr_CallIndex req)"
    using unat_bounds(3) [of "rr_CallIndex req"] by (simp add: unsigned_ucast_eq take_bit_nat_eq_self)
  have "of_nat (unat (rr_CallIndex req)) = (ucast (rr_CallIndex req) :: u64)" by (simp flip: u)
  then show ?thesis
    using path pk s c by (intro exI [of _ first] exI [of _ rest] exI [of _ pk]) (simp add: intent_hook u)
qed

lemma opened_authorized:
  assumes "OpenSwap sha256 v req t = (v', Inr s)" and "sc_sessionID (sw_cap s) \<noteq> ZeroID"
    and "need \<in> {AuthIntent, AuthWatch, AuthSettlement}"
  shows "authorizeSelf sha256 (v4_dex v') (sw_cap s) need = None"
proof -
  obtain dex core scope where o: "issue (v4_dex v) (AuthIntent OR AuthWatch OR AuthSettlement) t = (dex, Inr core)" "v' = v\<lparr>v4_dex := dex\<rparr>"
    "sw_cap s = newScopedCap sha256 core scope"
    using OpenSwap_Inr [OF assms(1)] by (metis V4SwapSession.select_convs(1))
  have "(AuthIntent OR AuthWatch OR AuthSettlement) AND need = need" using assms(3) by (auto simp: authority_defs)
  then show ?thesis
    using o assms(2) by (auto simp: issue_cases authorizeSelf_def authorizeScoped_def newScopedCap_def authorize_def checkGrant_def)
qed

text \<open>An authorised session whose stages carry its own intent runs exactly as the plain flow.\<close>

lemma run_eq_flow:
  assumes auth: "\<And>need. need \<in> {AuthIntent, AuthWatch, AuthSettlement} \<Longrightarrow> authorizeSelf sha256 dex (sw_cap s) need = None"
    and ctx: "fe_ctx env = (\<lambda>_. False)"
    and p: "fs_Intent (SwapFlow sha256 dex env (sw_req s)) = Resolved (Inr p)" "pi_IntentID p = sw_intentID s"
    and r: "fs_Committed (SwapFlow sha256 dex env (sw_req s)) = Resolved (Inr r)" "der_IntentID r = sw_intentID s"
  shows "Swap_Run sha256 dex s env = SwapFlow sha256 dex env (sw_req s)"
proof -
  have a: "gated (authorizeSelf sha256 dex (sw_cap s) AuthIntent) x = x" "gated (authorizeSelf sha256 dex (sw_cap s) AuthWatch) y = y"
    "gated (authorizeSelf sha256 dex (sw_cap s) AuthSettlement) z = z" for x y z
    using auth by (simp_all add: gated_def)
  have i: "PrepareSwapIntent sha256 dex (fe_prepare env) (sw_req s) = Resolved (Inr p)" using p(1) by (simp add: SwapFlow_def Let_def)
  have c: "thenAsync False (NotifyIntent False dex (fe_notify env) (Resolved (Inr p))) (\<lambda>w. OnCommitted w (fe_turns env)) = Resolved (Inr r)"
    using r(1) i by (simp add: SwapFlow_def Let_def ctx)
  show ?thesis
    by (simp add: Swap_Run_def SwapFlow_def Let_def ctx Swap_WritePrepareIntent_def Swap_WriteNotifyCToDExport_def Swap_OnExportReady_def
        Swap_WritePrepareCSettlement_def a i guard_intent_def p(2) c guard_ref_def r(2))
qed

text \<open>C2. A whole trade completes: a swap session opened on a known market, whose own bootstrap gave it the public authorities and whose
  request is well formed, run against a serving node whose venue accepts the intent, reports any number of
  phases that are not final and then the committed export, prepares its intent with the venue's quote,
  watches exactly that intent, resolves to the venue's pointer bound to it, and returns a settlement that
  names the object key derived from that pointer and goes to 0x9999, whatever key and target the venue
  put into its answer.\<close>

theorem swap_session_completes:
  assumes opened: "OpenSwap sha256 v req t = (v', Inr s)" "sc_sessionID (sw_cap s) \<noteq> ZeroID"
    and req: "wf_SwapIntentRequest req" "sir_AmountIn req \<noteq> 0" "cs_market (v4_dex v') (sir_MarketID req) = Some pk" "wf_pool pk"
    and dex: "cs_grant (v4_dex v') AND AuthorityPublic = AuthorityPublic" "\<And>d. length (sha256 d) = 32"
    and venue: "venue_ok ve" "\<And>p. served_watch ve p = pi_IntentID p"
    and us: "\<forall>u \<in> set us. venue_ok u \<and> is_Phase (served_status u (sw_intentID s)) \<notin> {PhaseCommitted, PhaseRejected}"
    and fin: "venue_ok u" "is_Phase (served_status u (sw_intentID s)) = PhaseCommitted" "ref = is_Ref (served_status u (sw_intentID s))"
  shows "\<exists>x. Swap_Run sha256 (v4_dex v') s (honest_env sha256 nd rv cid ve (us @ [u])) =
      \<lparr>fs_Quote = Resolved (Inr (served_quote ve (quoteFor req))),
       fs_Intent = Resolved (Inr (prepared_for sha256 pk req (qres_AmountOut (served_quote ve (quoteFor req))))),
       fs_Watch = Resolved (Inr \<lparr>iwt_session = Some (v4_dex v'), iwt_intentID = sw_intentID s\<rparr>),
       fs_Committed = Resolved (Inr ref), fs_Settle = Resolved (Inr x)\<rparr> \<and>
    der_IntentID ref = sw_intentID s \<and> ss_ObjectKey x = ObjectKey sha256 ref \<and> ss_To x = addr9999"
proof -
  have s: "sw_req s = req" "sw_intentID s = pi_IntentID (prepared_for sha256 pk req 0)"
    using OpenSwap_Inr [OF opened(1)] by (auto simp: prepared_for_def)
  let ?env = "honest_env sha256 nd rv cid ve (us @ [u])"
  obtain x where x: "SwapFlow sha256 (v4_dex v') ?env req =
      \<lparr>fs_Quote = Resolved (Inr (served_quote ve (quoteFor req))),
       fs_Intent = Resolved (Inr (prepared_for sha256 pk req (qres_AmountOut (served_quote ve (quoteFor req))))),
       fs_Watch = Resolved (Inr \<lparr>iwt_session = Some (v4_dex v'), iwt_intentID = sw_intentID s\<rparr>),
       fs_Committed = Resolved (Inr ref), fs_Settle = Resolved (Inr x)\<rparr>"
    "der_IntentID ref = sw_intentID s" "ss_ObjectKey x = ObjectKey sha256 ref" "ss_To x = addr9999"
    using flow_completes [OF req(1,2,3,4) dex venue s(2) us fin] by blast
  have "Swap_Run sha256 (v4_dex v') s ?env = SwapFlow sha256 (v4_dex v') ?env (sw_req s)"
    by (rule run_eq_flow [where p = "prepared_for sha256 pk req (qres_AmountOut (served_quote ve (quoteFor req)))" and r = ref])
      (use opened_authorized [OF opened] x s in \<open>simp_all add: honest_env_def prepared_for_def\<close>)
  with x s(1) show ?thesis by (intro exI [of _ x]) simp
qed

section \<open>Concrete sessions\<close>

definition sample_v4 :: V4PrecompileSession where
  "sample_v4 = \<lparr>v4_dex = sample_session, v4_netID = 1, v4_cChain = replicate 32 1, v4_dChain = replicate 32 2, v4_addr = addr9999\<rparr>"

definition sample_scope :: V4ActionScope where
  "sample_scope = scopeFor sample_v4 ActionSwap (sir_Account sample_request) (DerivePoolKeyHash toy_hash sample_pool)
     (DeriveSwapParamsHash toy_hash True (sir_AmountIn sample_request)) (pi_IntentID (prepared_for toy_hash sample_pool sample_request 0))"

definition sample_core :: capCore where
  "sample_core = \<lparr>cc_tok = sample_token, cc_bits = AuthIntent OR AuthWatch OR AuthSettlement\<rparr>"

definition sample_dex :: clientSession where
  "sample_dex = sample_session\<lparr>cs_grants := (cs_grants sample_session)(sample_token \<mapsto>
     \<lparr>g_bits = AuthIntent OR AuthWatch OR AuthSettlement, g_revoked = False\<rparr>)\<rparr>"

definition sample_swap :: V4SwapSession where
  "sample_swap = \<lparr>sw_cap = newScopedCap toy_hash sample_core sample_scope, sw_req = sample_request,
     sw_intentID = pi_IntentID (prepared_for toy_hash sample_pool sample_request 0)\<rparr>"

lemma sample_issue:
  "issue sample_session (AuthIntent OR AuthWatch OR AuthSettlement) sample_token = (sample_dex, Inr sample_core)"
  by (simp add: issue_def sample_dex_def sample_core_def sample_token_def sample_session_def NewSession_def authority_defs)

lemma sample_opened: "OpenSwap toy_hash sample_v4 sample_request sample_token = (sample_v4\<lparr>v4_dex := sample_dex\<rparr>, Inr sample_swap)"
  using sample_request_facts(3)
  by (simp add: OpenSwap_def mint_def sample_issue Let_def sample_swap_def sample_scope_def prepared_for_def zeroForOneFor_def sample_v4_def)

lemma sample_new: "NewV4PrecompileSession (Some sample_session) 1 (replicate 32 1) (replicate 32 2) ZeroAccount = Inr sample_v4"
  by (simp add: NewV4PrecompileSession_def sample_v4_def)

lemma toy_session_id: "DeriveSessionID toy_hash s \<noteq> ZeroID"
proof -
  have "hd v4ScopeDomain = 108" "v4ScopeDomain \<noteq> []" by (simp_all add: v4ScopeDomain_def ascii_def)
  then have "hd (DeriveSessionID toy_hash s) = 108" by (simp add: DeriveSessionID_def scope_preimage_def toy_hash_def)
  moreover have "hd ZeroID = 0" by (simp add: ZeroID_def)
  ultimately show ?thesis by (auto dest: arg_cong [where f = hd])
qed

lemma sample_session_id: "sc_sessionID (sw_cap sample_swap) \<noteq> ZeroID"
  by (simp add: sample_swap_def newScopedCap_def toy_session_id)

lemma sample_dex_facts:
  "cs_market sample_dex = cs_market sample_session" "cs_grant sample_dex = cs_grant sample_session"
  by (simp_all add: sample_dex_def)

theorem swap_session_completes_witness:
  "\<exists>x. let fs = Swap_Run toy_hash sample_dex sample_swap (honest_env toy_hash (NewNode [110]) None [99] (sample_venue PhasePending)
        [sample_venue PhasePending, sample_venue PhaseMatching, sample_venue PhaseCommitted]);
      ref = sample_ref\<lparr>der_IntentID := sw_intentID sample_swap\<rparr>
    in OpenSwap toy_hash sample_v4 sample_request sample_token = (sample_v4\<lparr>v4_dex := sample_dex\<rparr>, Inr sample_swap) \<and>
       fs_Committed fs = Resolved (Inr ref) \<and> fs_Settle fs = Resolved (Inr x) \<and> ss_ObjectKey x = ObjectKey toy_hash ref \<and> ss_To x = addr9999"
proof -
  have "\<forall>u \<in> set [sample_venue PhasePending, sample_venue PhaseMatching]. venue_ok u \<and>
      is_Phase (served_status u (sw_intentID sample_swap)) \<notin> {PhaseCommitted, PhaseRejected}"
    by (simp add: phase_defs)
  from swap_session_completes [OF sample_opened sample_session_id sample_request_facts(1,2) _ wf_sample_pool _ length_toy_hash
      sample_venue_facts(1,2) [of PhasePending] this sample_venue_facts(1) [of PhaseCommitted] _ refl,
      where nd = "NewNode [110]" and rv = None and cid = "[99]"]
  show ?thesis using sample_request_facts(3,4) sample_opened by (auto simp: sample_dex_facts)
qed

theorem swap_session_bound_witness:
  "\<exists>x r. fs_Settle (Swap_Run toy_hash sample_dex sample_swap (honest_env toy_hash (NewNode [110]) None [99] (sample_venue PhasePending)
        [sample_venue PhaseCommitted])) = Resolved (Inr x) \<and>
     fs_Committed (Swap_Run toy_hash sample_dex sample_swap (honest_env toy_hash (NewNode [110]) None [99] (sample_venue PhasePending)
        [sample_venue PhaseCommitted])) = Resolved (Inr r) \<and> der_IntentID r = sw_intentID sample_swap"
proof -
  let ?env = "honest_env toy_hash (NewNode [110]) None [99] (sample_venue PhasePending) [sample_venue PhaseCommitted]"
  let ?ref = "sample_ref\<lparr>der_IntentID := sw_intentID sample_swap\<rparr>"
  have id: "sw_intentID sample_swap = pi_IntentID (prepared_for toy_hash sample_pool sample_request 0)" "sw_req sample_swap = sample_request"
    by (simp_all add: sample_swap_def)
  have m: "cs_market sample_dex (sir_MarketID sample_request) = Some sample_pool" "cs_grant sample_dex AND AuthorityPublic = AuthorityPublic"
    using sample_request_facts(3,4) by (simp_all add: sample_dex_facts)
  obtain x where x: "SwapFlow toy_hash sample_dex ?env sample_request =
      \<lparr>fs_Quote = Resolved (Inr (served_quote (sample_venue PhasePending) (quoteFor sample_request))),
       fs_Intent = Resolved (Inr (prepared_for toy_hash sample_pool sample_request (qres_AmountOut (served_quote (sample_venue PhasePending) (quoteFor sample_request))))),
       fs_Watch = Resolved (Inr \<lparr>iwt_session = Some sample_dex, iwt_intentID = sw_intentID sample_swap\<rparr>),
       fs_Committed = Resolved (Inr ?ref), fs_Settle = Resolved (Inr x)\<rparr>"
    using flow_completes [OF sample_request_facts(1,2) m(1) wf_sample_pool m(2) length_toy_hash sample_venue_facts(1,2) [of PhasePending] id(1) _
        sample_venue_facts(1) [of PhaseCommitted] _ refl, of "[]" "NewNode [110]" None "[99]"] by auto
  have "Swap_Run toy_hash sample_dex sample_swap ?env = SwapFlow toy_hash sample_dex ?env (sw_req sample_swap)"
    by (rule run_eq_flow [where p = "prepared_for toy_hash sample_pool sample_request (qres_AmountOut (served_quote (sample_venue PhasePending) (quoteFor sample_request)))" and r = ?ref])
      (use opened_authorized [OF sample_opened sample_session_id] x id in \<open>simp_all add: honest_env_def prepared_for_def\<close>)
  then have "fs_Settle (Swap_Run toy_hash sample_dex sample_swap ?env) = Resolved (Inr x)" using x id by simp
  with swap_session_bound [OF this] show ?thesis by blast
qed

theorem scope_confined_witness:
  "wf_scope sample_scope \<and> wf_scope (sample_scope\<lparr>sp_NetworkID := 2\<rparr>) \<and>
   authorizeScoped id sample_dex (Some (newScopedCap id sample_core sample_scope)) AuthWatch sample_scope = None \<and>
   authorizeScoped id sample_dex (Some (newScopedCap id sample_core sample_scope)) AuthWatch (sample_scope\<lparr>sp_NetworkID := 2\<rparr>) \<noteq> None"
proof -
  have wf: "wf_scope (sample_scope\<lparr>sp_NetworkID := k\<rparr>)" for k
    by (simp add: wf_scope_def sample_scope_def scopeFor_def sample_v4_def sample_request_def DerivePoolKeyHash_def DeriveSwapParamsHash_def prepared_for_def
        DeriveIntentID_def)
  have w: "wf_scope sample_scope" using wf [of "sp_NetworkID sample_scope"] by simp
  have a: "authorize sample_dex (Some sample_core) AuthWatch = None"
    by (simp add: authorize_def checkGrant_def sample_dex_def sample_core_def authority_defs)
  have "length (DeriveSessionID id sample_scope) = 226"
    using w by (simp add: DeriveSessionID_def scope_preimage_def wf_scope_def v4ScopeDomain_def ascii_def)
  then have "DeriveSessionID id sample_scope \<noteq> ZeroID" by (auto simp: ZeroID_def)
  moreover have "scope_preimage (sample_scope\<lparr>sp_NetworkID := 2\<rparr>) \<noteq> scope_preimage sample_scope"
    by (simp add: scope_preimage_def sample_scope_def scopeFor_def sample_v4_def)
  ultimately show ?thesis
    using scope_confined [OF w w, of id sample_dex sample_core AuthWatch]
      scope_confined [OF w wf [of 2], of id sample_dex sample_core AuthWatch] a w wf [of 2] by simp
qed

lemma sample_route_facts:
  "\<exists>v' s. OpenRoute toy_hash sample_v4 sample_route sample_token = (v', Inr s) \<and>
     (\<exists>p. Route_WritePrepareIntent toy_hash (v4_dex v') s = Resolved (Inr p)) \<and> cs_market (v4_dex v') = cs_market (v4_dex sample_v4)"
proof -
  have m: "cs_market sample_session sample_id = Some sample_pool" by (simp add: sample_session_def NewSession_def)
  show ?thesis
    by (simp add: OpenRoute_def firstMarket_def sample_route_def sample_v4_def m mint_def sample_issue Let_def Route_WritePrepareIntent_def gated_def
        authorizeSelf_def authorizeScoped_def newScopedCap_def toy_session_id authorize_def checkGrant_def sample_dex_def sample_core_def
        prepareRouteLocal_def)
qed

section \<open>Closing\<close>

lemma revoked_gate:
  assumes "OpenSwap sha256 v req t = (v', Inr s)" and "sc_sessionID (sw_cap s) \<noteq> ZeroID" and "need \<in> {AuthIntent, AuthWatch, AuthSettlement}"
  shows "authorizeSelf sha256 (Scoped_Close (v4_dex v') (sw_cap s)) (sw_cap s) need = Some ErrRevoked"
proof -
  obtain dex core scope where o: "issue (v4_dex v) (AuthIntent OR AuthWatch OR AuthSettlement) t = (dex, Inr core)" "v' = v\<lparr>v4_dex := dex\<rparr>"
    "sw_cap s = newScopedCap sha256 core scope"
    using OpenSwap_Inr [OF assms(1)] by (metis V4SwapSession.select_convs(1))
  have "(AuthIntent OR AuthWatch OR AuthSettlement) AND need = need" using assms(3) by (auto simp: authority_defs)
  then show ?thesis
    using o assms(2) by (auto simp: issue_cases authorizeSelf_def authorizeScoped_def newScopedCap_def authorize_def checkGrant_def Scoped_Close_def Revoke_def)
qed

text \<open>Closing a swap session stops its operations but not its watch: after the close every operation of the session, preparing,
  notifying, waiting for the export and settling, resolves to the revocation error without calling the
  peer; but a watch the session handed out earlier polls exactly as before, because it checks the client
  session's grant and not the revoked capability.\<close>

lemma closed_session:
  assumes "OpenSwap sha256 v req t = (v', Inr s)" and "sc_sessionID (sw_cap s) \<noteq> ZeroID"
    and "dex = Scoped_Close (v4_dex v') (sw_cap s)" and "iwt_session w = Some dex"
  shows "Swap_WritePrepareIntent sha256 dex s call = Resolved (Inl ErrRevoked) \<and>
    Swap_WriteNotifyCToDExport sha256 c1 c2 dex s call intent = Resolved (Inl ErrRevoked) \<and>
    Swap_OnExportReady sha256 dex s w ts = Resolved (Inl ErrRevoked) \<and>
    Swap_WritePrepareCSettlement sha256 c1 c2 dex s call ref = Resolved (Inl ErrRevoked) \<and>
    IntentWatch_Poll w call = IntentWatch_Poll (w\<lparr>iwt_session := Some (v4_dex v')\<rparr>) call \<and>
    IntentWatch_Poll w call = roundTrip (buildWatchPollRequest (iwt_intentID w)) call readIntentStatus"
proof -
  have g: "cs_grant dex = cs_grant (v4_dex v')" using assms(3) by (simp add: Scoped_Close_def Revoke_def split: option.splits)
  have "cs_grant (v4_dex v') AND AuthWatch = AuthWatch"
  proof -
    obtain dex' core where "issue (v4_dex v) (AuthIntent OR AuthWatch OR AuthSettlement) t = (dex', Inr core)" "v' = v\<lparr>v4_dex := dex'\<rparr>"
      using OpenSwap_Inr [OF assms(1)] by blast
    then have "cs_grant (v4_dex v') AND (AuthIntent OR AuthWatch OR AuthSettlement) = AuthIntent OR AuthWatch OR AuthSettlement" by (auto simp: issue_cases)
    then show ?thesis by (rule AND_trans) (simp add: authority_defs)
  qed
  then show ?thesis
    using revoked_gate [OF assms(1,2)] assms(3,4) g
    by (simp add: Swap_WritePrepareIntent_def Swap_WriteNotifyCToDExport_def Swap_OnExportReady_def Swap_WritePrepareCSettlement_def gated_def
        IntentWatch_Poll_def requireGrant_def)
qed

end
