(* ===== verification/V1_View.thy ===== *)
theory V1_View
  imports Zap_Builder
begin

text \<open>
  The typed layer of \<open>src/v1\<close>: schemas, views, fields, typed builders, singular and repeated
  nested objects, inline lists, the registry and the sequence combinators.

  A Go type parameter is used for its methods only, so a schema is a record of its kind, size and
  name and is passed where the code has \<open>var s S\<close>. A value of a field type \<open>T\<close> is its memory image on
  the little-endian host the package requires: one, two, four or eight bytes. The \<open>data\<close> slice of a
  view is \<^term>\<open>None\<close> when it is nil. A closure over a \<open>Setter\<close> is a function on the builder state.
  \<^term>\<open>None\<close> as a result is a panic.
\<close>

unbundle bit_operations_syntax

section \<open>Schemas\<close>

type_synonym KindByte = u8

record v1_schema =
  s_Kind :: KindByte
  s_Size :: int
  s_Name :: string

record SchemaError =
  se_Want :: KindByte
  se_Got :: KindByte
  se_Name :: string

definition hexByte :: "byte \<Rightarrow> string" where
  "hexByte b = (let hex = ''0123456789abcdef'' in ''0x'' @ [hex ! unat (drop_bit 4 b), hex ! unat (b AND 0x0f)])"

definition SchemaError_Error :: "SchemaError \<Rightarrow> string" where
  "SchemaError_Error e =
     ''zapv1: schema mismatch: want '' @ se_Name e @ '' (kind='' @ hexByte (se_Want e) @ ''), got kind='' @ hexByte (se_Got e)"

datatype v1_error = ZapErr zap_error | SchemaErr SchemaError

section \<open>Views\<close>

record View =
  v_data :: "bytes option"
  v_payload :: bytes
  v_rootOff :: int

record Raw =
  r_data :: "bytes option"
  r_payload :: bytes
  r_rootOff :: int

definition ZeroView :: View where
  "ZeroView = \<lparr>v_data = None, v_payload = [], v_rootOff = 0\<rparr>"

text \<open>Go's conversion to \<open>int32\<close>.\<close>

definition int32 :: "int \<Rightarrow> int" where
  "int32 x = sint (word_of_int x :: u32)"

definition AsView :: "Raw \<Rightarrow> View" where
  "AsView r = \<lparr>v_data = r_data r, v_payload = r_payload r, v_rootOff = r_rootOff r\<rparr>"

definition newSchemaError :: "u8 \<Rightarrow> u8 \<Rightarrow> string \<Rightarrow> SchemaError" where
  "newSchemaError want got name = \<lparr>se_Want = want, se_Got = got, se_Name = name\<rparr>"

definition RawFromSlices :: "bytes \<Rightarrow> int \<Rightarrow> int \<Rightarrow> Raw option" where
  "RawFromSlices data rootOff end1 = do {
     payload \<leftarrow> slice_at data rootOff end1;
     Some \<lparr>r_data = Some data, r_payload = payload, r_rootOff = int32 rootOff\<rparr> }"

definition WrapRaw :: "bytes \<Rightarrow> u8 \<Rightarrow> int \<Rightarrow> string \<Rightarrow> (v1_error + Raw) option" where
  "WrapRaw b wantKind size1 name =
     (case ParseHeader b of
        Inl err \<Rightarrow> Some (Inl (ZapErr err))
      | Inr (data, rootOff) \<Rightarrow>
          let end1 = rootOff + size1 in
          if rootOff < 0 \<or> int (length data) < end1 then Some (Inl (ZapErr ErrOutOfBounds))
          else do {
            got \<leftarrow> index_at data rootOff;
            if got \<noteq> wantKind then Some (Inl (SchemaErr (newSchemaError wantKind got name)))
            else map_option Inr (RawFromSlices data rootOff end1) })"

definition WrapRawUnchecked :: "bytes \<Rightarrow> int \<Rightarrow> (v1_error + Raw) option" where
  "WrapRawUnchecked b size1 =
     (case ParseHeader b of
        Inl err \<Rightarrow> Some (Inl (ZapErr err))
      | Inr (data, rootOff) \<Rightarrow>
          if rootOff < 0 \<or> int (length data) \<le> rootOff then Some (Inl (ZapErr ErrOutOfBounds))
          else
            let end1 = rootOff + size1 in
            if int (length data) < end1 then Some (Inl (ZapErr ErrOutOfBounds))
            else map_option Inr (RawFromSlices data rootOff end1))"

definition View_Bytes :: "View \<Rightarrow> bytes option" where
  "View_Bytes v = v_data v"

definition RootOff :: "View \<Rightarrow> int" where
  "RootOff v = v_rootOff v"

definition View_IsZero :: "View \<Rightarrow> bool" where
  "View_IsZero v \<longleftrightarrow> v_data v = None"

text \<open>A slice that may be nil, as the bytes an accessor sees.\<close>

definition or_nil :: "bytes option \<Rightarrow> bytes" where
  "or_nil d = (case d of None \<Rightarrow> [] | Some xs \<Rightarrow> xs)"

definition asObject :: "View \<Rightarrow> Object" where
  "asObject v = RootObjectAt (WrapBuffer (or_nil (v_data v))) (v_rootOff v)"

definition parseAndCheck :: "bytes \<Rightarrow> u8 \<Rightarrow> int \<Rightarrow> string \<Rightarrow> (v1_error + bytes \<times> int \<times> int) option" where
  "parseAndCheck b wantKind size1 name =
     (case ParseHeader b of
        Inl err \<Rightarrow> Some (Inl (ZapErr err))
      | Inr (data, rootOff) \<Rightarrow>
          if rootOff < 0 \<or> int (length data) \<le> rootOff then Some (Inl (ZapErr ErrOutOfBounds))
          else do {
            got \<leftarrow> index_at data rootOff;
            if got \<noteq> wantKind then Some (Inl (SchemaErr \<lparr>se_Want = wantKind, se_Got = got, se_Name = name\<rparr>))
            else
              let end1 = rootOff + size1 in
              if int (length data) < end1 then Some (Inl (ZapErr ErrOutOfBounds))
              else Some (Inr (data, rootOff, end1)) })"

definition parseUnchecked :: "bytes \<Rightarrow> int \<Rightarrow> v1_error + bytes \<times> int \<times> int" where
  "parseUnchecked b size1 =
     (case ParseHeader b of
        Inl err \<Rightarrow> Inl (ZapErr err)
      | Inr (data, rootOff) \<Rightarrow>
          if rootOff < 0 \<or> int (length data) \<le> rootOff then Inl (ZapErr ErrOutOfBounds)
          else
            let end1 = rootOff + size1 in
            if int (length data) < end1 then Inl (ZapErr ErrOutOfBounds)
            else Inr (data, rootOff, end1))"

text \<open>The struct literal of \<open>Wrap\<close> and \<open>WrapUnchecked\<close>: the payload is cut out of the buffer.\<close>

definition view_lit :: "bytes \<Rightarrow> int \<Rightarrow> int \<Rightarrow> View option" where
  "view_lit data lo hi = do {
     payload \<leftarrow> slice_at data lo hi;
     Some \<lparr>v_data = Some data, v_payload = payload, v_rootOff = int32 lo\<rparr> }"

definition Wrap :: "v1_schema \<Rightarrow> bytes \<Rightarrow> (v1_error + View) option" where
  "Wrap s b = do {
     r \<leftarrow> parseAndCheck b (s_Kind s) (s_Size s) (s_Name s);
     case r of
       Inl err \<Rightarrow> Some (Inl err)
     | Inr (data, rootOff, end1) \<Rightarrow> map_option Inr (view_lit data rootOff end1) }"

definition WrapUnchecked :: "v1_schema \<Rightarrow> bytes \<Rightarrow> (v1_error + View) option" where
  "WrapUnchecked s b =
     (case parseUnchecked b (s_Size s) of
        Inl err \<Rightarrow> Some (Inl err)
      | Inr (data, rootOff, end1) \<Rightarrow> map_option Inr (view_lit data rootOff end1))"

definition viewAt :: "bytes \<Rightarrow> int \<Rightarrow> int \<Rightarrow> View option" where
  "viewAt data off size1 =
     (let end1 = off + size1 in
      if off < 0 \<or> int (length data) < end1 then Some ZeroView else view_lit data off end1)"

section \<open>Fields\<close>

record v1_field =
  f_Offset :: u32

definition At :: "u32 \<Rightarrow> v1_field" where
  "At offset = \<lparr>f_Offset = offset\<rparr>"

text \<open>\<open>sz\<close> is \<open>unsafe.Sizeof(T)\<close>; the load copies that many bytes.\<close>

definition ReadPayload :: "nat \<Rightarrow> bytes \<Rightarrow> v1_field \<Rightarrow> bytes option" where
  "ReadPayload sz payload f =
     (let off = uint (f_Offset f) in
      if off < 0 \<or> int (length payload) < off + int sz then Some (replicate sz 0)
      else slice_at payload off (off + int sz))"

definition Read :: "nat \<Rightarrow> View \<Rightarrow> v1_field \<Rightarrow> bytes option" where
  "Read sz v f =
     (let off = uint (f_Offset f) in
      if off < 0 \<or> int (length (v_payload v)) < off + int sz then Some (replicate sz 0)
      else slice_at (v_payload v) off (off + int sz))"

record Setter =
  st_ob :: ObjectBuilder

definition writeAt :: "Builder \<Rightarrow> ObjectBuilder \<Rightarrow> u32 \<Rightarrow> bytes \<Rightarrow> Builder option" where
  "writeAt b ob offset val =
     (let off = uint offset in
      if length val = 1 then SetUint8 b ob off (hd val)
      else if length val = 2 then SetUint16 b ob off (u16_le val)
      else if length val = 4 then SetUint32 b ob off (u32_le val)
      else if length val = 8 then SetUint64 b ob off (u64_le val)
      else Some b)"

definition Write :: "Setter \<Rightarrow> v1_field \<Rightarrow> bytes \<Rightarrow> Builder \<Rightarrow> Builder option" where
  "Write s f val b = writeAt b (st_ob s) (f_Offset f) val"

definition SetterFrom :: "ObjectBuilder \<Rightarrow> Setter" where
  "SetterFrom ob = \<lparr>st_ob = ob\<rparr>"

definition WriteString :: "Setter \<Rightarrow> u32 \<Rightarrow> bytes \<Rightarrow> Builder \<Rightarrow> Builder option" where
  "WriteString s byteOffset v b = SetText b (st_ob s) (uint byteOffset) v"

definition v1_WriteBytes :: "Setter \<Rightarrow> u32 \<Rightarrow> bytes \<Rightarrow> Builder \<Rightarrow> Builder option" where
  "v1_WriteBytes s byteOffset v b = SetBytes b (st_ob s) (uint byteOffset) v"

section \<open>Builders\<close>

definition startBuild :: "int \<Rightarrow> u8 \<Rightarrow> (Builder \<times> ObjectBuilder) option" where
  "startBuild size1 kind = do {
     (b, ob) \<leftarrow> StartObject (NewBuilder (HeaderSize + size1)) size1;
     b1 \<leftarrow> SetUint8 b ob 0 kind;
     Some (b1, ob) }"

text \<open>A \<open>Builder[S]\<close> is the pair of its builder's state and its object builder.\<close>

definition NewBuilderFor :: "v1_schema \<Rightarrow> (Builder \<times> ObjectBuilder) option" where
  "NewBuilderFor s = startBuild (s_Size s) (s_Kind s)"

definition WriteB :: "ObjectBuilder \<Rightarrow> v1_field \<Rightarrow> bytes \<Rightarrow> Builder \<Rightarrow> Builder option" where
  "WriteB ob f val b = writeAt b ob (f_Offset f) val"

definition AsSetter :: "ObjectBuilder \<Rightarrow> Setter" where
  "AsSetter ob = \<lparr>st_ob = ob\<rparr>"

definition finishBuild :: "Builder \<Rightarrow> ObjectBuilder \<Rightarrow> int \<Rightarrow> (Raw \<times> bytes) option" where
  "finishBuild b ob size1 = do {
     let (b1, rootOff) = FinishAsRoot b ob;
     (b2, buf) \<leftarrow> Builder_Finish b1;
     let end1 = rootOff + size1;
     payload \<leftarrow> slice_at buf rootOff end1;
     Some (\<lparr>r_data = Some buf, r_payload = payload, r_rootOff = int32 rootOff\<rparr>, buf) }"

definition v1_Finish :: "v1_schema \<Rightarrow> Builder \<Rightarrow> ObjectBuilder \<Rightarrow> (View \<times> bytes) option" where
  "v1_Finish s b ob = do {
     (r, buf) \<leftarrow> finishBuild b ob (s_Size s);
     Some (AsView r, buf) }"

definition Build :: "v1_schema \<Rightarrow> (Setter \<Rightarrow> Builder \<Rightarrow> Builder option) \<Rightarrow> (View \<times> bytes) option" where
  "Build s init = do {
     (b, ob) \<leftarrow> StartObject (NewBuilder (HeaderSize + s_Size s)) (s_Size s);
     b1 \<leftarrow> SetUint8 b ob 0 (s_Kind s);
     b2 \<leftarrow> init \<lparr>st_ob = ob\<rparr> b1;
     let (b3, rootOff) = FinishAsRoot b2 ob;
     (b4, buf) \<leftarrow> Builder_Finish b3;
     v \<leftarrow> viewAt buf rootOff (s_Size s);
     Some (v, buf) }"

section \<open>Singular nested objects\<close>

definition NestedAt :: "v1_schema \<Rightarrow> View \<Rightarrow> u32 \<Rightarrow> View option" where
  "NestedAt n v offset =
     (case v_data v of
        None \<Rightarrow> Some ZeroView
      | Some data \<Rightarrow> do {
          nested \<leftarrow> Object_Object (asObject v) (uint offset);
          if Object_IsNull nested then Some ZeroView
          else
            let off = o_offset nested;
                end1 = off + s_Size n
            in if off < 0 \<or> int (length data) < end1 then Some ZeroView else view_lit data off end1 })"

definition WriteNested :: "v1_schema \<Rightarrow> v1_schema \<Rightarrow> Setter \<Rightarrow> u32 \<Rightarrow>
    (Setter \<Rightarrow> Builder \<Rightarrow> Builder option) \<Rightarrow> Builder \<Rightarrow> Builder option" where
  "WriteNested sParent n s byteOffset init b = do {
     b1 \<leftarrow> ReserveFixed b (st_ob s) (s_Size sParent);
     (b2, nob) \<leftarrow> StartObject b1 (s_Size n);
     b3 \<leftarrow> init \<lparr>st_ob = nob\<rparr> b2;
     let pos = ObjectBuilder_Finish nob;
     SetObject b3 (st_ob s) (uint byteOffset) pos }"

section \<open>Inline lists\<close>

record v1_List =
  vl_data :: "bytes option"
  vl_offset :: int
  vl_length :: int

definition ZeroList :: v1_List where
  "ZeroList = \<lparr>vl_data = None, vl_offset = 0, vl_length = 0\<rparr>"

definition v1_Len :: "v1_List \<Rightarrow> int" where
  "v1_Len l = vl_length l"

definition v1_List_IsZero :: "v1_List \<Rightarrow> bool" where
  "v1_List_IsZero l \<longleftrightarrow> vl_data l = None"

definition v1_List_At :: "v1_schema \<Rightarrow> v1_List \<Rightarrow> int \<Rightarrow> View option" where
  "v1_List_At e l i =
     (case vl_data l of
        None \<Rightarrow> Some ZeroView
      | Some data \<Rightarrow>
          if i < 0 \<or> vl_length l \<le> i then Some ZeroView
          else
            let stride = s_Size e;
                off = vl_offset l + i * stride
            in viewAt data off stride)"

text \<open>The loop of \<open>All\<close>, \<open>Payloads\<close> and \<open>Indexed\<close>: what is yielded from index \<open>i\<close> on to a consumer that
  never stops, \<open>emit1\<close> making the yielded value of the element's slice. A consumer that stops sees a
  prefix of it.\<close>

fun list_loop :: "(int \<Rightarrow> int \<Rightarrow> bytes \<Rightarrow> 'a) \<Rightarrow> bytes \<Rightarrow> int \<Rightarrow> int \<Rightarrow> nat \<Rightarrow> int \<Rightarrow> 'a list option" where
  "list_loop emit1 data startOff stride 0 i = Some []"
| "list_loop emit1 data startOff stride (Suc n) i =
     (let off = startOff + i * stride;
          end1 = off + stride
      in if int (length data) < end1 then Some []
         else do {
           payload \<leftarrow> slice_at data off end1;
           rest \<leftarrow> list_loop emit1 data startOff stride n (i + 1);
           Some (emit1 i off payload # rest) })"

definition v1_All :: "v1_schema \<Rightarrow> v1_List \<Rightarrow> View list option" where
  "v1_All e l =
     (case vl_data l of
        None \<Rightarrow> Some []
      | Some data \<Rightarrow> list_loop (\<lambda>i off p. \<lparr>v_data = Some data, v_payload = p, v_rootOff = int32 off\<rparr>)
          data (vl_offset l) (s_Size e) (nat (vl_length l)) 0)"

definition Payloads :: "v1_schema \<Rightarrow> v1_List \<Rightarrow> bytes list option" where
  "Payloads e l =
     (case vl_data l of
        None \<Rightarrow> Some []
      | Some data \<Rightarrow> list_loop (\<lambda>i off p. p) data (vl_offset l) (s_Size e) (nat (vl_length l)) 0)"

definition Indexed :: "v1_schema \<Rightarrow> v1_List \<Rightarrow> (int \<times> View) list option" where
  "Indexed e l =
     (case vl_data l of
        None \<Rightarrow> Some []
      | Some data \<Rightarrow> list_loop (\<lambda>i off p. (i, \<lparr>v_data = Some data, v_payload = p, v_rootOff = int32 off\<rparr>))
          data (vl_offset l) (s_Size e) (nat (vl_length l)) 0)"

definition rawListOffset :: "List \<Rightarrow> int" where
  "rawListOffset l = (if List_Len l = 0 then 0 else o_offset (List_Object l 0 1))"

definition ListAt :: "v1_schema \<Rightarrow> View \<Rightarrow> u32 \<Rightarrow> v1_List option" where
  "ListAt e v offset =
     (case v_data v of
        None \<Rightarrow> Some ZeroList
      | Some data \<Rightarrow> do {
          raw \<leftarrow> Object_ListStride (asObject v) (uint offset) (word_of_int (s_Size e));
          if List_IsNull raw then Some ZeroList
          else Some \<lparr>vl_data = Some data, vl_offset = int32 (rawListOffset raw), vl_length = int32 (List_Len raw)\<rparr> })"

record ElemSetter =
  es_stride :: int
  es_count :: int
  es_startPos :: int

definition ElemSetter_Append :: "ElemSetter \<Rightarrow> (Setter \<Rightarrow> Builder \<Rightarrow> Builder option) \<Rightarrow> Builder \<Rightarrow> (ElemSetter \<times> Builder) option" where
  "ElemSetter_Append es init b = do {
     (b1, ob) \<leftarrow> StartObject b (es_stride es);
     b2 \<leftarrow> init \<lparr>st_ob = ob\<rparr> b1;
     let pos = ObjectBuilder_Finish ob;
     let es1 = (if es_count es = 0 then es\<lparr>es_startPos := pos\<rparr> else es);
     Some (es1\<lparr>es_count := es_count es1 + 1\<rparr>, b2) }"

definition WriteList :: "v1_schema \<Rightarrow> v1_schema \<Rightarrow> Setter \<Rightarrow> u32 \<Rightarrow>
    (ElemSetter \<Rightarrow> Builder \<Rightarrow> (ElemSetter \<times> Builder) option) \<Rightarrow> Builder \<Rightarrow> Builder option" where
  "WriteList sParent e s byteOffset each b = do {
     b1 \<leftarrow> ReserveFixed b (st_ob s) (s_Size sParent);
     (es, b2) \<leftarrow> each \<lparr>es_stride = s_Size e, es_count = 0, es_startPos = 0\<rparr> b1;
     if es_count es = 0 then SetList b2 (st_ob s) (uint byteOffset) 0 0
     else SetList b2 (st_ob s) (uint byteOffset) (es_startPos es) (es_count es) }"

section \<open>Repeated nested objects\<close>

definition objPtrStride :: int where "objPtrStride = 4"

record ListNested =
  ln_data :: "bytes option"
  ln_offset :: int
  ln_length :: int

definition ZeroListNested :: ListNested where
  "ZeroListNested = \<lparr>ln_data = None, ln_offset = 0, ln_length = 0\<rparr>"

definition ListNested_Len :: "ListNested \<Rightarrow> int" where
  "ListNested_Len l = ln_length l"

definition ListNested_IsZero :: "ListNested \<Rightarrow> bool" where
  "ListNested_IsZero l \<longleftrightarrow> ln_data l = None"

definition ListNested_At :: "v1_schema \<Rightarrow> ListNested \<Rightarrow> int \<Rightarrow> View option" where
  "ListNested_At n l i =
     (case ln_data l of
        None \<Rightarrow> Some ZeroView
      | Some data \<Rightarrow>
          if i < 0 \<or> ln_length l \<le> i then Some ZeroView
          else
            let slotPos = ln_offset l + i * objPtrStride in
            if slotPos < 0 \<or> int (length data) < slotPos + objPtrStride then Some ZeroView
            else do {
              w \<leftarrow> get_u32 data slotPos;
              let rel = sint w;
              if rel = 0 then Some ZeroView
              else
                let target = slotPos + rel;
                    end1 = target + s_Size n
                in if target < HeaderSize \<or> int (length data) < end1 \<or> end1 < target then Some ZeroView
                   else view_lit data target end1 })"

fun ListNested_loop :: "v1_schema \<Rightarrow> ListNested \<Rightarrow> nat \<Rightarrow> int \<Rightarrow> View list option" where
  "ListNested_loop n l 0 i = Some []"
| "ListNested_loop n l (Suc k) i = do {
     v \<leftarrow> ListNested_At n l i;
     rest \<leftarrow> ListNested_loop n l k (i + 1);
     Some (v # rest) }"

definition ListNested_All :: "v1_schema \<Rightarrow> ListNested \<Rightarrow> View list option" where
  "ListNested_All n l = (if ln_data l = None then Some [] else ListNested_loop n l (nat (ln_length l)) 0)"

definition ListNestedAt :: "View \<Rightarrow> u32 \<Rightarrow> ListNested option" where
  "ListNestedAt v offset =
     (case v_data v of
        None \<Rightarrow> Some ZeroListNested
      | Some data \<Rightarrow> do {
          raw \<leftarrow> Object_ListStride (asObject v) (uint offset) (word_of_int objPtrStride);
          if List_IsNull raw then Some ZeroListNested
          else Some \<lparr>ln_data = Some data, ln_offset = int32 (rawListOffset raw), ln_length = int32 (List_Len raw)\<rparr> })"

text \<open>The positions \<open>NestedElemSetter\<close> records.\<close>

record NestedElemSetter =
  ne_positions :: "int list"

definition NestedElem_Append :: "v1_schema \<Rightarrow> NestedElemSetter \<Rightarrow> (Setter \<Rightarrow> Builder \<Rightarrow> Builder option) \<Rightarrow> Builder \<Rightarrow>
    (NestedElemSetter \<times> Builder) option" where
  "NestedElem_Append n es init b = do {
     (b1, ob) \<leftarrow> StartObject b (s_Size n);
     b2 \<leftarrow> init \<lparr>st_ob = ob\<rparr> b1;
     Some (es\<lparr>ne_positions := ne_positions es @ [ObjectBuilder_Finish ob]\<rparr>, b2) }"

fun add_ptrs :: "Builder \<Rightarrow> ListBuilder \<Rightarrow> int list \<Rightarrow> (Builder \<times> ListBuilder) option" where
  "add_ptrs b lb [] = Some (b, lb)"
| "add_ptrs b lb (p # ps) = do { (b1, lb1) \<leftarrow> AddObjectPtr b lb p; add_ptrs b1 lb1 ps }"

definition WriteListNested :: "v1_schema \<Rightarrow> Setter \<Rightarrow> u32 \<Rightarrow>
    (NestedElemSetter \<Rightarrow> Builder \<Rightarrow> (NestedElemSetter \<times> Builder) option) \<Rightarrow> Builder \<Rightarrow> Builder option" where
  "WriteListNested sParent s byteOffset each b = do {
     b1 \<leftarrow> ReserveFixed b (st_ob s) (s_Size sParent);
     (es, b2) \<leftarrow> each \<lparr>ne_positions = []\<rparr> b1;
     if ne_positions es = [] then SetList b2 (st_ob s) (uint byteOffset) 0 0
     else do {
       (b3, lb) \<leftarrow> StartList b2 objPtrStride;
       (b4, lb1) \<leftarrow> add_ptrs b3 lb (ne_positions es);
       let (listOffset, length1) = ListBuilder_Finish lb1;
       SetList b4 (st_ob s) (uint byteOffset) listOffset length1 } }"
section \<open>Registry\<close>

record Entry =
  e_Kind :: KindByte
  e_Name :: string
  e_Wrap :: "bytes \<Rightarrow> (v1_error + bytes \<times> int) option"

type_synonym Registry = "KindByte \<rightharpoonup> Entry"

definition NewRegistry :: Registry where
  "NewRegistry = Map.empty"

text \<open>The closure \<open>Register\<close> stores for a schema.\<close>

definition entry_wrap :: "KindByte \<Rightarrow> int \<Rightarrow> string \<Rightarrow> bytes \<Rightarrow> (v1_error + bytes \<times> int) option" where
  "entry_wrap kind size1 name b =
     (case ParseHeader b of
        Inl err \<Rightarrow> Some (Inl (ZapErr err))
      | Inr (data, rootOff) \<Rightarrow>
          if rootOff < 0 \<or> int (length data) \<le> rootOff then Some (Inl (ZapErr ErrOutOfBounds))
          else do {
            got \<leftarrow> index_at data rootOff;
            if got \<noteq> kind then Some (Inl (SchemaErr \<lparr>se_Want = kind, se_Got = got, se_Name = name\<rparr>))
            else if int (length data) < rootOff + size1 then Some (Inl (ZapErr ErrOutOfBounds))
            else Some (Inr (data, rootOff)) })"

definition Register :: "v1_schema \<Rightarrow> Registry \<Rightarrow> Registry option" where
  "Register s r =
     (let kind = s_Kind s; name = s_Name s; size1 = s_Size s;
          clash = (case r kind of None \<Rightarrow> False | Some existing \<Rightarrow> e_Name existing \<noteq> name)
      in if clash then None
         else Some (r(kind \<mapsto> \<lparr>e_Kind = kind, e_Name = name, e_Wrap = entry_wrap kind size1 name\<rparr>)))"

definition Lookup :: "Registry \<Rightarrow> KindByte \<Rightarrow> Entry option" where
  "Lookup r kind = r kind"

definition PeekKind :: "bytes \<Rightarrow> (v1_error + KindByte) option" where
  "PeekKind b =
     (case ParseHeader b of
        Inl err \<Rightarrow> Some (Inl (ZapErr err))
      | Inr (data, rootOff) \<Rightarrow>
          if rootOff < 0 \<or> int (length data) \<le> rootOff then Some (Inl (ZapErr ErrOutOfBounds))
          else map_option Inr (index_at data rootOff))"

definition WrapAs :: "v1_schema \<Rightarrow> bytes \<Rightarrow> (v1_error + View) option" where
  "WrapAs s b = Wrap s b"

section \<open>Sequences\<close>

text \<open>A push iterator runs a loop body on its elements until the body returns false. The body works on
  the state the loop's variables form; a combinator adds its own counter to that state.\<close>

type_synonym ('a, 's) Seq = "('a \<Rightarrow> 's \<Rightarrow> 's \<times> bool) \<Rightarrow> 's \<Rightarrow> 's"

definition Take :: "('a, int \<times> 's) Seq \<Rightarrow> int \<Rightarrow> ('a, 's) Seq" where
  "Take src n yield s =
     (if n \<le> 0 then s
      else snd (src (\<lambda>v (i, t). let (t', ok) = yield v t in
                       if \<not> ok then ((i, t'), False)
                       else ((i + 1, t'), \<not> n \<le> i + 1)) (0, s)))"

definition Filter :: "('a, 's) Seq \<Rightarrow> ('a \<Rightarrow> bool) \<Rightarrow> ('a, 's) Seq" where
  "Filter src pred yield = src (\<lambda>v t. if pred v then yield v t else (t, True))"

definition MapSeq :: "('a, 's) Seq \<Rightarrow> ('a \<Rightarrow> 'b) \<Rightarrow> ('b, 's) Seq" where
  "MapSeq src f yield = src (\<lambda>v t. yield (f v) t)"

definition Count :: "('a, int) Seq \<Rightarrow> int" where
  "Count src = src (\<lambda>v n. (n + 1, True)) 0"

definition Collect :: "('a, 'a list) Seq \<Rightarrow> 'a list" where
  "Collect src = src (\<lambda>v out. (out @ [v], True)) []"

text \<open>The sequence that yields the elements of a list.\<close>

fun seq_of :: "'a list \<Rightarrow> ('a, 's) Seq" where
  "seq_of [] yield s = s"
| "seq_of (x # xs) yield s = (let (s', ok) = yield x s in if ok then seq_of xs yield s' else s')"

lemma Take_seq_of: "Take (seq_of xs) n = seq_of (take (nat n) xs)"
proof (intro ext)
  fix yield :: "'a \<Rightarrow> 'b \<Rightarrow> 'b \<times> bool" and s
  let ?body = "\<lambda>v (i, t). let (t', ok) = yield v t in if \<not> ok then ((i, t'), False) else ((i + 1, t'), \<not> n \<le> i + 1)"
  have "snd (seq_of xs ?body (i, s)) = seq_of (take (nat (n - i)) xs) yield s" if "i < n" for i s
    using that
  proof (induction xs arbitrary: i s)
    case (Cons x xs)
    obtain s' ok where y: "yield x s = (s', ok)" by fastforce
    have k: "nat (n - i) = Suc (nat (n - (i + 1)))" using Cons.prems by simp
    show ?case
    proof (cases "n \<le> i + 1")
      case True
      then have "nat (n - (i + 1)) = 0" by simp
      then show ?thesis using True by (simp add: y k)
    qed (use Cons.IH [of "i + 1" s'] in \<open>simp add: y k\<close>)
  qed simp
  from this [of 0] show "Take (seq_of xs) n yield s = seq_of (take (nat n) xs) yield s"
    by (simp add: Take_def)
qed

lemma Filter_seq_of: "Filter (seq_of xs) pred = seq_of (filter pred xs)"
proof (intro ext)
  show "Filter (seq_of xs) pred yield s = seq_of (filter pred xs) yield s" for yield s
    unfolding Filter_def by (induction xs arbitrary: s) (simp_all split: prod.split)
qed

lemma Map_seq_of: "MapSeq (seq_of xs) f = seq_of (map f xs)"
proof (intro ext)
  show "MapSeq (seq_of xs) f yield s = seq_of (map f xs) yield s" for yield s
    unfolding MapSeq_def by (induction xs arbitrary: s) (simp_all split: prod.split)
qed

lemma Count_seq_of: "Count (seq_of xs) = int (length xs)"
proof -
  have "seq_of xs (\<lambda>v n. (n + 1, True)) k = k + int (length xs)" for k :: int
    by (induction xs arbitrary: k) simp_all
  then show ?thesis by (simp add: Count_def)
qed

lemma Collect_seq_of: "Collect (seq_of xs) = xs"
proof -
  have "seq_of xs (\<lambda>v out. (out @ [v], True)) ys = ys @ xs" for ys
    by (induction xs arbitrary: ys) simp_all
  then show ?thesis by (simp add: Collect_def)
qed

section \<open>Wrapping\<close>

lemma ParseHeader_bounds:
  assumes "ParseHeader b = Inr (data, rootOff)"
  shows "0 \<le> rootOff" "rootOff < 2 ^ 32" "16 \<le> length data" "length data \<le> length b" "int (length data) < 2 ^ 32"
proof -
  let ?s = "u32_le (take 4 (drop 12 b))"
  have i: "uint w < 16 \<longleftrightarrow> unat w < 16" "int n < uint w \<longleftrightarrow> n < unat w" for w :: u32 and n
    unfolding uint_int_unat by arith+
  have d: "data = take (unat ?s) b" "rootOff = uint (u32_le (take 4 (drop 8 b)))" "16 \<le> unat ?s" "unat ?s \<le> length b"
    using assms by (auto simp: ParseHeader_def parseHeaderImpl_def HeaderSize_def Let_def i split: if_splits)
  show "0 \<le> rootOff" "16 \<le> length data" "length data \<le> length b" using d by simp_all
  show "rootOff < 2 ^ 32" using uint_lt2p [of "u32_le (take 4 (drop 8 b))"] by (simp add: d(2))
  show "int (length data) < 2 ^ 32" using uint_lt2p [of ?s] d(4) by (simp add: d(1))
qed

lemma int32_id: "0 \<le> x \<Longrightarrow> x < 2 ^ 31 \<Longrightarrow> int32 x = x"
  by (simp add: int32_def word32_int(2))

text \<open>A view that lies in the buffer \<open>d\<close>: the payload is the part of \<open>d\<close> at the root offset.\<close>

definition view_in :: "bytes \<Rightarrow> View \<Rightarrow> bool" where
  "view_in d v \<longleftrightarrow> v_data v = Some d \<and> slice_at d (v_rootOff v) (v_rootOff v + int (length (v_payload v))) = Some (v_payload v)"

lemma view_lit_in:
  assumes "0 \<le> lo" and "lo \<le> hi" and "hi \<le> int (length d)" and "int (length d) < 2 ^ 31"
  shows "\<exists>v. view_lit d lo hi = Some v \<and> view_in d v \<and> v_rootOff v = lo \<and> int (length (v_payload v)) = hi - lo"
proof -
  obtain p where p: "slice_at d lo hi = Some p" using assms(1-3) by (simp add: slice_at_def)
  have "int (length p) = hi - lo" using slice_length [OF p] .
  moreover have "int32 lo = lo" using assms by (intro int32_id) linarith+
  ultimately show ?thesis using p unfolding view_lit_def view_in_def by simp
qed

section \<open>Views stay in their buffer\<close>

text \<open>\<open>in_buf d v\<close>: the view is zero or lies in \<open>d\<close>. The accessors keep this and never panic.\<close>

definition in_buf :: "bytes \<Rightarrow> View \<Rightarrow> bool" where
  "in_buf d v \<longleftrightarrow> v = ZeroView \<or> view_in d v"

lemma view_in_bounds:
  assumes "view_in d v"
  shows "0 \<le> v_rootOff v" "v_rootOff v + int (length (v_payload v)) \<le> int (length d)" "v_data v = Some d"
    "asObject v = \<lparr>o_msg = Some \<lparr>msg_data = d, msg_refs = None\<rparr>, o_offset = v_rootOff v\<rparr>"
  using assms by (auto simp: view_in_def slice_eq_Some_iff asObject_def RootObjectAt_def WrapBuffer_def or_nil_def)

lemma view_lit_in_buf:
  "0 \<le> lo \<Longrightarrow> lo \<le> hi \<Longrightarrow> hi \<le> int (length d) \<Longrightarrow> int (length d) < 2 ^ 31 \<Longrightarrow> \<exists>v. view_lit d lo hi = Some v \<and> in_buf d v"
  using view_lit_in [of lo hi d] unfolding in_buf_def by blast

lemma NestedAt_in:
  assumes "in_buf d v" and "int (length d) < 2 ^ 31" and "0 \<le> s_Size n"
  shows "\<exists>w. NestedAt n v o1 = Some w \<and> in_buf d w"
proof (cases "v = ZeroView")
  case True
  then show ?thesis by (simp add: NestedAt_def ZeroView_def in_buf_def)
next
  case False
  then have v: "view_in d v" using assms(1) by (simp add: in_buf_def)
  note vb = view_in_bounds [OF v]
  let ?pos = "v_rootOff v + uint o1"
  have pos: "0 \<le> ?pos" using vb(1) by simp
  have "\<exists>x. Object_Object (asObject v) (uint o1) = Some x \<and> (o_offset x = 0 \<or> 16 \<le> o_offset x)"
  proof (cases "int (length d) < ?pos + 4")
    case True
    then show ?thesis by (simp add: Object_Object_def vb(4) null_object_def)
  next
    case False
    then obtain r where "get_u32 d ?pos = Some r" using get_in_range(2) [OF pos, of d] by auto
    then show ?thesis
      using False by (auto simp: Object_Object_def vb(4) null_object_def Let_def HeaderSize_def)
  qed
  then obtain x where x: "Object_Object (asObject v) (uint o1) = Some x" "o_offset x = 0 \<or> 16 \<le> o_offset x" by blast
  show ?thesis
  proof (cases "o_offset x = 0 \<or> int (length d) < o_offset x + s_Size n")
    case True
    then show ?thesis using x(1) vb(3) by (auto simp: NestedAt_def Object_IsNull_def in_buf_def)
  next
    case False
    then show ?thesis
      using view_lit_in_buf [of "o_offset x" "o_offset x + s_Size n" d] x vb(3) assms(2,3)
      by (auto simp: NestedAt_def Object_IsNull_def Let_def)
  qed
qed

lemma word64_int: "0 \<le> x \<Longrightarrow> x < 2 ^ 64 \<Longrightarrow> uint (word_of_int x :: u64) = x"
  by (simp add: uint_word_of_int take_bit_int_eq_self)

text \<open>What \<open>ListStride\<close> guarantees of a list it returns.\<close>

lemma ListStride_in:
  assumes v: "view_in d v" and len: "int (length d) < 2 ^ 31"
  shows "\<exists>l. Object_ListStride (asObject v) (uint o1) k = Some l \<and> (List_IsNull l \<or>
     16 \<le> l_offset l \<and> 0 \<le> l_length l \<and> l_length l \<le> int (length d) \<and> l_offset l < int (length d) \<and>
     l_offset l + l_length l * uint k \<le> int (length d))"
proof -
  note vb = view_in_bounds [OF v]
  let ?pos = "v_rootOff v + uint o1"
  have pos: "0 \<le> ?pos" using vb(1) by simp
  show ?thesis
  proof (cases "int (length d) < ?pos + 8")
    case True
    then show ?thesis by (simp add: Object_ListStride_def vb(4) null_list_def List_IsNull_def)
  next
    case False
    then obtain r n where r: "get_u32 d ?pos = Some r" and n: "get_u32 d (?pos + 4) = Some n"
      using get_in_range(2) [of ?pos d] get_in_range(2) [of "?pos + 4" d] pos by auto
    let ?a = "?pos + sint r"
    have prod: "uint ((ucast n :: u64) * ucast k) = uint n * uint k"
    proof -
      have "uint n < 2 ^ 32" "uint k < 2 ^ 32" using uint_lt2p [of n] uint_lt2p [of k] by simp_all
      then have "uint n * uint k < 2 ^ 32 * 2 ^ 32" by (intro mult_strict_mono') simp_all
      moreover have "uint (ucast n :: u64) = uint n" "uint (ucast k :: u64) = uint k"
        using uint_lt2p [of n] uint_lt2p [of k] by (simp_all add: unsigned_ucast_eq take_bit_int_eq_self)
      ultimately show ?thesis by (simp add: uint_word_ariths(3))
    qed
    show ?thesis
    proof (cases "sint r = 0 \<or> ?a < 16 \<or> int (length d) \<le> ?a")
      case True
      then show ?thesis
        using False r n by (auto simp: Object_ListStride_def vb(4) Let_def HeaderSize_def null_list_def List_IsNull_def)
    next
      case a: False
      let ?rem = "word_of_int (int (length d) - ?a) :: u64"
      have rem: "uint ?rem = int (length d) - ?a"
        by (rule word64_int) (use a len in simp_all)
      have ld: "uint (word_of_int (int (length d)) :: u64) = int (length d)"
        by (rule word64_int) (use len in simp_all)
      have un: "uint (ucast n :: u64) = uint n"
        using uint_lt2p [of n] by (simp add: unsigned_ucast_eq take_bit_int_eq_self)
      show ?thesis
      proof (cases "k > 0")
        case k: True
        then have k1: "1 \<le> uint k" by (simp add: word_less_def)
        show ?thesis
        proof (cases "(ucast n :: u64) * ucast k > ?rem")
          case True
          then show ?thesis
            using False r n a k by (auto simp: Object_ListStride_def vb(4) Let_def HeaderSize_def null_list_def List_IsNull_def)
        next
          case fits: False
          then have f: "uint n * uint k \<le> int (length d) - ?a" using prod rem by (simp add: word_less_def not_less)
          have "uint n * 1 \<le> uint n * uint k" using k1 by (intro mult_left_mono) simp_all
          with f have "uint n \<le> int (length d)" using a by linarith
          then show ?thesis
            using False r n a k fits f by (auto simp: Object_ListStride_def vb(4) Let_def HeaderSize_def List_IsNull_def)
        qed
      next
        case k: False
        then have k0: "k = 0" by (simp add: word_less_def not_less uint_0_iff order_antisym)
        show ?thesis
        proof (cases "(ucast n :: u64) > word_of_int (int (length d))")
          case True
          then show ?thesis
            using False r n a k by (auto simp: Object_ListStride_def vb(4) Let_def HeaderSize_def null_list_def List_IsNull_def)
        next
          case fits: False
          then have "uint n \<le> int (length d)" using ld un by (simp add: word_less_def not_less)
          then show ?thesis
            using False r n a k0 fits by (auto simp: Object_ListStride_def vb(4) Let_def HeaderSize_def List_IsNull_def)
        qed
      qed
    qed
  qed
qed

definition list_in :: "bytes \<Rightarrow> int \<Rightarrow> v1_List \<Rightarrow> bool" where
  "list_in d stride l \<longleftrightarrow> l = ZeroList \<or>
     vl_data l = Some d \<and> 0 \<le> vl_offset l \<and> 0 \<le> vl_length l \<and> vl_offset l + vl_length l * stride \<le> int (length d)"

lemma rawListOffset_eq: "List_Len l \<noteq> 0 \<Longrightarrow> 0 \<le> l_length l \<Longrightarrow> rawListOffset l = l_offset l"
  by (simp add: rawListOffset_def List_Object_def List_Len_def)

lemma ListAt_in:
  assumes "in_buf d v" and len: "int (length d) < 2 ^ 31" and k: "0 \<le> s_Size e" "s_Size e < 2 ^ 32"
  shows "\<exists>l. ListAt e v o1 = Some l \<and> list_in d (s_Size e) l"
proof (cases "v = ZeroView")
  case True
  then show ?thesis by (simp add: ListAt_def ZeroView_def list_in_def)
next
  case False
  then have v: "view_in d v" using assms(1) by (simp add: in_buf_def)
  have uk: "uint (word_of_int (s_Size e) :: u32) = s_Size e" using k by (rule word32_int)
  obtain l where l: "Object_ListStride (asObject v) (uint o1) (word_of_int (s_Size e)) = Some l" and b: "List_IsNull l \<or>
     16 \<le> l_offset l \<and> 0 \<le> l_length l \<and> l_length l \<le> int (length d) \<and> l_offset l < int (length d) \<and>
     l_offset l + l_length l * s_Size e \<le> int (length d)"
    using ListStride_in [OF v len, of o1 "word_of_int (s_Size e)"] uk by auto
  show ?thesis
  proof (cases "List_IsNull l")
    case True
    then show ?thesis using l view_in_bounds(3) [OF v] by (simp add: ListAt_def list_in_def)
  next
    case False
    have "int32 (l_length l) = l_length l" by (rule int32_id) (use False b len in linarith)+
    moreover have "int32 (rawListOffset l) = rawListOffset l" "0 \<le> rawListOffset l"
      "rawListOffset l + l_length l * s_Size e \<le> int (length d)"
      using False b len rawListOffset_eq [of l] int32_id [of "l_offset l"] int32_id [of 0]
      by (cases "l_length l = 0"; simp add: rawListOffset_def List_Len_def List_Object_def)+
    ultimately show ?thesis
      using False b l view_in_bounds(3) [OF v] by (simp add: ListAt_def list_in_def List_Len_def)
  qed
qed

lemma viewAt_in:
  "0 \<le> k \<Longrightarrow> int (length d) < 2 ^ 31 \<Longrightarrow> \<exists>w. viewAt d off k = Some w \<and> in_buf d w"
  using view_lit_in_buf [of off "off + k" d] by (auto simp: viewAt_def in_buf_def Let_def)

lemma List_At_in:
  "list_in d (s_Size e) l \<Longrightarrow> int (length d) < 2 ^ 31 \<Longrightarrow> 0 \<le> s_Size e \<Longrightarrow> \<exists>w. v1_List_At e l i = Some w \<and> in_buf d w"
  using viewAt_in [of "s_Size e" d] by (auto simp: v1_List_At_def list_in_def ZeroList_def in_buf_def Let_def)

text \<open>The three iterators visit exactly the elements \<open>At\<close> gives, in order.\<close>

lemma list_loop_map:
  assumes "0 \<le> startOff" and "0 \<le> stride" and "0 \<le> i" and "startOff + (i + int n) * stride \<le> int (length d)"
  shows "list_loop g d startOff stride n i =
     Some (map (\<lambda>j. g (i + int j) (startOff + (i + int j) * stride)
       (the (slice_at d (startOff + (i + int j) * stride) (startOff + (i + int j) * stride + stride)))) [0..<n])"
  using assms
proof (induction n arbitrary: i)
  case (Suc n)
  have nn: "0 \<le> i * stride" "0 \<le> int n * stride" using Suc.prems by simp_all
  have "(i + int (Suc n)) * stride = i * stride + int n * stride + stride" by (simp add: algebra_simps)
  then have fit: "startOff + i * stride + stride \<le> int (length d)" "0 \<le> startOff + i * stride"
    using Suc.prems nn by linarith+
  then obtain p where p: "slice_at d (startOff + i * stride) (startOff + i * stride + stride) = Some p"
    using Suc.prems(2) by (simp add: slice_at_def)
  have "list_loop g d startOff stride n (i + 1) =
     Some (map (\<lambda>j. g (i + 1 + int j) (startOff + (i + 1 + int j) * stride)
       (the (slice_at d (startOff + (i + 1 + int j) * stride) (startOff + (i + 1 + int j) * stride + stride)))) [0..<n])"
    using Suc.prems by (intro Suc.IH) (simp_all add: add.assoc)
  then show ?case
    using fit p by (simp add: Let_def upt_conv_Cons add.assoc o_def map_Suc_upt [symmetric] del: upt_Suc)
qed simp

lemma At_element:
  assumes "list_in d (s_Size e) l" and "int (length d) < 2 ^ 31" and "0 \<le> s_Size e" and "0 \<le> i" "i < vl_length l"
  shows "v1_List_At e l i = Some \<lparr>v_data = Some d,
      v_payload = the (slice_at d (vl_offset l + i * s_Size e) (vl_offset l + i * s_Size e + s_Size e)),
      v_rootOff = int32 (vl_offset l + i * s_Size e)\<rparr>"
proof -
  have l: "vl_data l = Some d" "0 \<le> vl_offset l" "vl_offset l + vl_length l * s_Size e \<le> int (length d)"
    using assms(1,4,5) by (auto simp: list_in_def ZeroList_def)
  have "0 \<le> i * s_Size e" "(i + 1) * s_Size e \<le> vl_length l * s_Size e"
    using assms(3-5) by (simp_all add: mult_right_mono)
  then have fit: "0 \<le> vl_offset l + i * s_Size e" "vl_offset l + i * s_Size e + s_Size e \<le> int (length d)"
    using l by (simp_all add: algebra_simps)
  then obtain p where "slice_at d (vl_offset l + i * s_Size e) (vl_offset l + i * s_Size e + s_Size e) = Some p"
    using assms(3) by (simp add: slice_at_def)
  then show ?thesis
    using l assms(4,5) fit unfolding v1_List_At_def viewAt_def view_lit_def Let_def by (simp add: not_less [symmetric])
qed

lemma iterators_agree:
  assumes "list_in d (s_Size e) l" and "int (length d) < 2 ^ 31" and "0 \<le> s_Size e"
  shows "v1_All e l = Some (map (\<lambda>i. the (v1_List_At e l (int i))) [0..<nat (v1_Len l)])"
    and "Payloads e l = map_option (map v_payload) (v1_All e l)"
    and "Indexed e l = map_option (\<lambda>vs. zip (map int [0..<length vs]) vs) (v1_All e l)"
proof -
  show all: "v1_All e l = Some (map (\<lambda>i. the (v1_List_At e l (int i))) [0..<nat (v1_Len l)])"
  proof (cases "vl_data l")
    case None
    then have "vl_length l = 0" using assms(1) by (auto simp: list_in_def ZeroList_def)
    then show ?thesis using None by (simp add: v1_All_def v1_Len_def)
  next
    case (Some d')
    then have l: "d' = d" "0 \<le> vl_offset l" "0 \<le> vl_length l" "vl_offset l + vl_length l * s_Size e \<le> int (length d)"
      using assms(1) by (auto simp: list_in_def ZeroList_def)
    have "v1_All e l = Some (map (\<lambda>j. \<lparr>v_data = Some d, v_payload = the (slice_at d (vl_offset l + int j * s_Size e)
        (vl_offset l + int j * s_Size e + s_Size e)), v_rootOff = int32 (vl_offset l + int j * s_Size e)\<rparr>) [0..<nat (vl_length l)])"
      using Some l assms(3) by (simp add: v1_All_def list_loop_map)
    also have "\<dots> = Some (map (\<lambda>i. the (v1_List_At e l (int i))) [0..<nat (v1_Len l)])"
      using At_element [OF assms] by (simp add: v1_Len_def)
    finally show ?thesis .
  qed
  show "Payloads e l = map_option (map v_payload) (v1_All e l)"
    using assms(1,3) by (cases "vl_data l") (auto simp: v1_All_def Payloads_def list_in_def ZeroList_def list_loop_map)
  show "Indexed e l = map_option (\<lambda>vs. zip (map int [0..<length vs]) vs) (v1_All e l)"
    using assms(1,3)
    by (cases "vl_data l") (auto simp: v1_All_def Indexed_def list_in_def ZeroList_def list_loop_map zip_map1 zip_map2 zip_same_conv_map)
qed

definition nested_in :: "bytes \<Rightarrow> ListNested \<Rightarrow> bool" where
  "nested_in d l \<longleftrightarrow> l = ZeroListNested \<or> ln_data l = Some d \<and> 0 \<le> ln_offset l"

lemma ListNestedAt_in:
  assumes "in_buf d v" and len: "int (length d) < 2 ^ 31"
  shows "\<exists>l. ListNestedAt v o1 = Some l \<and> nested_in d l"
proof -
  let ?e = "\<lparr>s_Kind = 0, s_Size = objPtrStride, s_Name = ''''\<rparr>"
  obtain l where "ListAt ?e v o1 = Some l" "list_in d 4 l"
    using ListAt_in [OF assms(1) len, of ?e o1] by (auto simp: objPtrStride_def)
  then show ?thesis
    by (auto simp: ListAt_def ListNestedAt_def list_in_def nested_in_def ZeroList_def ZeroListNested_def
        split: option.splits Option.bind_splits if_splits)
qed

lemma ListNested_At_in:
  assumes "nested_in d l" and len: "int (length d) < 2 ^ 31" and "0 \<le> s_Size n"
  shows "\<exists>w. ListNested_At n l i = Some w \<and> in_buf d w"
proof (cases "l = ZeroListNested \<or> i < 0 \<or> ln_length l \<le> i \<or> int (length d) < ln_offset l + i * 4 + 4")
  case True
  then show ?thesis
    using assms(1) by (auto simp: ListNested_At_def nested_in_def ZeroListNested_def in_buf_def Let_def objPtrStride_def)
next
  case False
  then have l: "ln_data l = Some d" "0 \<le> ln_offset l" "0 \<le> i" using assms(1) by (auto simp: nested_in_def)
  let ?p = "ln_offset l + i * 4"
  obtain r where r: "get_u32 d ?p = Some r" using get_in_range(2) [of ?p d] l False by auto
  let ?t = "?p + sint r"
  show ?thesis
  proof (cases "sint r = 0 \<or> ?t < 16 \<or> int (length d) < ?t + s_Size n")
    case True
    then show ?thesis
      using False l r assms(3) by (auto simp: ListNested_At_def in_buf_def Let_def objPtrStride_def HeaderSize_def)
  next
    case in_range: False
    then obtain w where "view_lit d ?t (?t + s_Size n) = Some w" "in_buf d w"
      using view_lit_in_buf [of ?t "?t + s_Size n" d] assms(3) len by auto
    then show ?thesis
      using False in_range l r assms(3) by (auto simp: ListNested_At_def Let_def objPtrStride_def HeaderSize_def)
  qed
qed

definition schema_ok :: "v1_schema \<Rightarrow> bool" where
  "schema_ok s \<longleftrightarrow> 0 \<le> s_Size s \<and> s_Size s < 2 ^ 31"

text \<open>The views a program can reach from a view through the accessors.\<close>

inductive derived :: "View \<Rightarrow> View \<Rightarrow> bool" for v where
  self: "derived v v"
| nested: "derived v w \<Longrightarrow> schema_ok n \<Longrightarrow> NestedAt n w o1 = Some x \<Longrightarrow> derived v x"
| element: "derived v w \<Longrightarrow> schema_ok e \<Longrightarrow> ListAt e w o1 = Some l \<Longrightarrow> v1_List_At e l i = Some x \<Longrightarrow> derived v x"
| repeated: "derived v w \<Longrightarrow> schema_ok n \<Longrightarrow> ListNestedAt w o1 = Some ln \<Longrightarrow> ListNested_At n ln i = Some x \<Longrightarrow> derived v x"

text \<open>Every accessor of a view returns, for every field, every schema and every index.\<close>

definition total_view :: "View \<Rightarrow> bool" where
  "total_view w \<longleftrightarrow>
     (\<forall>k f. Read k w f \<noteq> None) \<and> (\<forall>o1. Object_Bytes (asObject w) (uint (o1 :: u32)) \<noteq> None) \<and>
     (\<forall>n o1. schema_ok n \<longrightarrow> NestedAt n w o1 \<noteq> None) \<and>
     (\<forall>e o1. schema_ok e \<longrightarrow> (\<exists>l. ListAt e w o1 = Some l \<and> (\<forall>i. v1_List_At e l i \<noteq> None) \<and>
        v1_All e l \<noteq> None \<and> Payloads e l \<noteq> None \<and> Indexed e l \<noteq> None)) \<and>
     (\<forall>n o1. schema_ok n \<longrightarrow> (\<exists>l. ListNestedAt w o1 = Some l \<and> (\<forall>i. ListNested_At n l i \<noteq> None) \<and> ListNested_All n l \<noteq> None))"

lemma Read_returns: "\<exists>x. Read k w f = Some x \<and> length x = k"
proof (cases "int (length (v_payload w)) < uint (f_Offset f) + int k")
  case False
  then obtain x where x: "slice_at (v_payload w) (uint (f_Offset f)) (uint (f_Offset f) + int k) = Some x"
    by (simp add: slice_at_def)
  then show ?thesis using slice_length [OF x] False by (simp add: Read_def)
qed (simp add: Read_def)

lemma Bytes_returns:
  assumes "in_buf d w"
  shows "Object_Bytes (asObject w) (uint (o1 :: u32)) \<noteq> None"
proof (cases "w = ZeroView")
  case True
  moreover have "0 < uint o1 + 4" using uint_ge_0 [of o1] by linarith
  ultimately show ?thesis
    by (simp add: asObject_def ZeroView_def or_nil_def Object_Bytes_def RootObjectAt_def WrapBuffer_def Let_def)
next
  case False
  then have v: "view_in d w" using assms by (simp add: in_buf_def)
  note vb = view_in_bounds [OF v]
  let ?p = "v_rootOff w + uint o1"
  have p: "0 \<le> ?p" using vb(1) by simp
  have g: "\<exists>r. get_u32 d ?p = Some r" if "?p + 4 \<le> int (length d)" using get_in_range(2) [OF p that] .
  have g4: "\<exists>r. get_u32 d (?p + 4) = Some r" if "?p + 8 \<le> int (length d)" using get_in_range(2) [of "?p + 4" d] p that by simp
  have s: "slice_at d (?p + uint r) (?p + uint r + uint n) \<noteq> None"
    if "?p + uint r + uint n \<le> int (length d)" for r n :: u32
    using p that by (simp add: slice_at_def)
  show ?thesis
    using g g4 s by (auto simp: Object_Bytes_def vb(4) Let_def not_less add.assoc)
qed

lemma ListNested_loop_returns:
  "(\<And>i. ListNested_At n l i \<noteq> None) \<Longrightarrow> ListNested_loop n l k i \<noteq> None"
proof (induction k arbitrary: i)
  case (Suc k)
  obtain x ys where "ListNested_At n l i = Some x" "ListNested_loop n l k (i + 1) = Some ys"
    using Suc.prems [of i] Suc.IH [OF Suc.prems, of "i + 1"] by blast
  then show ?case by simp
qed simp

lemma in_buf_total:
  assumes d: "in_buf d w" and len: "int (length d) < 2 ^ 31"
  shows "total_view w"
proof -
  have "\<exists>l. ListAt e w o1 = Some l \<and> (\<forall>i. v1_List_At e l i \<noteq> None) \<and>
        v1_All e l \<noteq> None \<and> Payloads e l \<noteq> None \<and> Indexed e l \<noteq> None" if "schema_ok e" for e o1
  proof -
    have e: "0 \<le> s_Size e" "s_Size e < 2 ^ 32" using that by (simp_all add: schema_ok_def)
    then obtain l where l: "ListAt e w o1 = Some l" "list_in d (s_Size e) l" using ListAt_in [OF d len] by blast
    have "v1_List_At e l i \<noteq> None" for i using List_At_in [OF l(2) len e(1), of i] by auto
    then show ?thesis using l(1) iterators_agree [OF l(2) len e(1)] by simp
  qed
  moreover have "\<exists>l. ListNestedAt w o1 = Some l \<and> (\<forall>i. ListNested_At n l i \<noteq> None) \<and> ListNested_All n l \<noteq> None"
    if "schema_ok n" for n o1
  proof -
    have n: "0 \<le> s_Size n" using that by (simp add: schema_ok_def)
    obtain l where l: "ListNestedAt w o1 = Some l" "nested_in d l" using ListNestedAt_in [OF d len] by blast
    have at: "ListNested_At n l i \<noteq> None" for i using ListNested_At_in [OF l(2) len n, of i] by auto
    then show ?thesis using l(1) ListNested_loop_returns [OF at] by (simp add: ListNested_All_def)
  qed
  moreover have "Read k w f \<noteq> None" for k f using Read_returns [of k w f] by auto
  moreover have "NestedAt n w o1 \<noteq> None" if "schema_ok n" for n o1
    using NestedAt_in [OF d len, of n o1] that by (auto simp: schema_ok_def)
  ultimately show ?thesis using Bytes_returns [OF d] unfolding total_view_def by blast
qed

lemma derived_in_buf:
  assumes "derived v w" and "in_buf d v" and len: "int (length d) < 2 ^ 31"
  shows "in_buf d w"
  using assms(1)
proof induction
  case self
  show ?case by (rule assms(2))
next
  case (nested w n o1 x)
  then show ?case using NestedAt_in [OF nested.IH len, of n o1] by (auto simp: schema_ok_def)
next
  case (element w e o1 l i x)
  have e: "0 \<le> s_Size e" "s_Size e < 2 ^ 32" using element.hyps(2) by (simp_all add: schema_ok_def)
  have "list_in d (s_Size e) l" using ListAt_in [OF element.IH len e, of o1] element.hyps(3) by simp
  from List_At_in [OF this len e(1), of i] show ?case using element.hyps(4) by simp
next
  case (repeated w n o1 ln i x)
  have "nested_in d ln" using ListNestedAt_in [OF repeated.IH len, of o1] repeated.hyps(3) by simp
  from ListNested_At_in [OF this len, of n i] show ?case using repeated.hyps(2,4) by (simp add: schema_ok_def)
qed

text \<open>The possible results of wrapping a buffer, for all the wrappers at once.\<close>

definition root_fits :: "bytes \<Rightarrow> u8 \<Rightarrow> int \<Rightarrow> bytes \<Rightarrow> int \<Rightarrow> bool" where
  "root_fits b kind size1 data rootOff \<longleftrightarrow>
     ParseHeader b = Inr (data, rootOff) \<and> rootOff < int (length data) \<and> data ! nat rootOff = kind \<and>
     rootOff + size1 \<le> int (length data)"

lemma parseAndCheck_iff:
  assumes "0 \<le> size1"
  shows "parseAndCheck b kind size1 name = Some (Inr (data, rootOff, end1)) \<longleftrightarrow>
    root_fits b kind size1 data rootOff \<and> end1 = rootOff + size1"
  and "\<exists>r. parseAndCheck b kind size1 name = Some r"
  using ParseHeader_bounds(1) [of b]
  by (auto simp: parseAndCheck_def root_fits_def index_at_def Let_def split: sum.splits)

lemma view_lit_fits:
  "root_fits b kind size1 data rootOff \<Longrightarrow> 0 \<le> size1 \<Longrightarrow> \<exists>v. view_lit data rootOff (rootOff + size1) = Some v \<and> v_data v = Some data"
  using ParseHeader_bounds(1) [of b data rootOff] by (auto simp: root_fits_def view_lit_def slice_at_def)

lemma Wrap_cases:
  assumes "0 \<le> s_Size s"
  shows "\<exists>r. Wrap s b = Some r"
    and "Wrap s b = Some (Inr v) \<longleftrightarrow> (\<exists>data rootOff. root_fits b (s_Kind s) (s_Size s) data rootOff \<and>
      view_lit data rootOff (rootOff + s_Size s) = Some v)"
proof -
  obtain r where r: "parseAndCheck b (s_Kind s) (s_Size s) (s_Name s) = Some r"
    using parseAndCheck_iff(2) [OF assms] by blast
  show "\<exists>r. Wrap s b = Some r"
  proof (cases r)
    case (Inr t)
    then obtain data rootOff end1 where t: "t = (data, rootOff, end1)" by (cases t) auto
    then have "root_fits b (s_Kind s) (s_Size s) data rootOff" "end1 = rootOff + s_Size s"
      using r Inr parseAndCheck_iff(1) [OF assms] by auto
    then show ?thesis using r Inr t view_lit_fits [OF _ assms, of b "s_Kind s" data rootOff] by (auto simp: Wrap_def)
  qed (use r in \<open>simp add: Wrap_def\<close>)
  show "Wrap s b = Some (Inr v) \<longleftrightarrow> (\<exists>data rootOff. root_fits b (s_Kind s) (s_Size s) data rootOff \<and>
      view_lit data rootOff (rootOff + s_Size s) = Some v)"
  proof (intro iffI)
    assume "Wrap s b = Some (Inr v)"
    then obtain data rootOff end1 where "parseAndCheck b (s_Kind s) (s_Size s) (s_Name s) = Some (Inr (data, rootOff, end1))"
      "view_lit data rootOff end1 = Some v"
      by (auto simp: Wrap_def split: Option.bind_splits sum.splits)
    then show "\<exists>data rootOff. root_fits b (s_Kind s) (s_Size s) data rootOff \<and> view_lit data rootOff (rootOff + s_Size s) = Some v"
      by (auto simp: parseAndCheck_iff(1) [OF assms])
  next
    assume "\<exists>data rootOff. root_fits b (s_Kind s) (s_Size s) data rootOff \<and> view_lit data rootOff (rootOff + s_Size s) = Some v"
    then obtain data rootOff where "parseAndCheck b (s_Kind s) (s_Size s) (s_Name s) = Some (Inr (data, rootOff, rootOff + s_Size s))"
      "view_lit data rootOff (rootOff + s_Size s) = Some v"
      by (auto simp: parseAndCheck_iff(1) [OF assms])
    then show "Wrap s b = Some (Inr v)" by (simp add: Wrap_def)
  qed
qed

text \<open>C5. Reading a typed message is safe whatever bytes arrive: wrapping any buffer below two gibibytes
  returns, with a view or an error, and every view a program can reach from the result, through nested
  objects, inline list elements and repeated objects to any depth and with any offsets and indices, is
  zero or lies inside the received buffer, and every accessor and iterator of it returns without a panic.\<close>

theorem v1_reads_safe:
  assumes "int (length b) < 2 ^ 31" and "schema_ok s"
  shows "\<exists>r. Wrap s b = Some r \<and>
    (\<forall>v w. r = Inr v \<and> derived v w \<longrightarrow> (\<exists>d. v_data v = Some d \<and> length d \<le> length b \<and> in_buf d w) \<and> total_view w)"
proof -
  have s: "0 \<le> s_Size s" using assms(2) by (simp add: schema_ok_def)
  obtain r where r: "Wrap s b = Some r" using Wrap_cases(1) [OF s] by blast
  have "(\<exists>d. v_data v = Some d \<and> length d \<le> length b \<and> in_buf d w) \<and> total_view w" if v: "r = Inr v" and w: "derived v w" for v w
  proof -
    obtain data rootOff where f: "root_fits b (s_Kind s) (s_Size s) data rootOff"
      and l: "view_lit data rootOff (rootOff + s_Size s) = Some v"
      using r v Wrap_cases(2) [OF s] by blast
    have h: "ParseHeader b = Inr (data, rootOff)" "rootOff + s_Size s \<le> int (length data)"
      using f by (simp_all add: root_fits_def)
    note hb = ParseHeader_bounds [OF h(1)]
    have len: "int (length data) < 2 ^ 31" using hb(4) assms(1) by linarith
    have "view_in data v" using view_lit_in [OF hb(1) _ h(2) len] l s by auto
    then have "in_buf data v" "v_data v = Some data" by (simp_all add: in_buf_def view_in_def)
    then show ?thesis using derived_in_buf [OF w _ len] in_buf_total [OF _ len] hb(4) by blast
  qed
  then show ?thesis using r by blast
qed

text \<open>A message with a nested object at offset 4 whose pointer leads to the last eight bytes.\<close>

definition sample_nested :: bytes where
  "sample_nested = Magic @ le16 1 @ le16 0 @ le32 16 @ le32 40 @ [7, 0, 0, 0] @ le32 12 @ le64 0 @ le64 99"

definition sample_schema :: v1_schema where
  "sample_schema = \<lparr>s_Kind = 7, s_Size = 8, s_Name = ''T''\<rparr>"

lemma sample_wraps:
  "Wrap sample_schema sample_nested = Some (Inr \<lparr>v_data = Some sample_nested, v_payload = take 8 (drop 16 sample_nested), v_rootOff = 16\<rparr>)"
  by code_simp

theorem v1_reads_safe_witness:
  "\<exists>v w. Wrap sample_schema sample_nested = Some (Inr v) \<and> derived v w \<and> total_view w \<and>
     NestedAt sample_schema v 4 = Some w \<and> Read 8 w (At 0) = Some (le64 99)"
proof -
  let ?v = "\<lparr>v_data = Some sample_nested, v_payload = take 8 (drop 16 sample_nested), v_rootOff = 16\<rparr>"
  let ?w = "\<lparr>v_data = Some sample_nested, v_payload = take 8 (drop 32 sample_nested), v_rootOff = 32\<rparr>"
  have n: "NestedAt sample_schema ?v 4 = Some ?w" by code_simp
  have s: "schema_ok sample_schema" "int (length sample_nested) < 2 ^ 31" by code_simp+
  have d: "derived ?v ?w" using derived.nested [OF derived.self s(1) n] .
  moreover have "Read 8 ?w (At 0) = Some (le64 99)" by code_simp
  ultimately show ?thesis
    using v1_reads_safe [OF s(2,1)] sample_wraps n by (intro exI [of _ ?v] exI [of _ ?w]) auto
qed

lemma PeekKind_iff:
  "PeekKind b = Some (Inr k) \<longleftrightarrow>
     (\<exists>data rootOff. ParseHeader b = Inr (data, rootOff) \<and> rootOff < int (length data) \<and> data ! nat rootOff = k)"
  using ParseHeader_bounds(1) [of b]
  by (auto simp: PeekKind_def index_at_def split: sum.splits)

lemma WrapRaw_iff:
  assumes "1 \<le> size1"
  shows "WrapRaw b kind size1 name = Some (Inr r) \<longleftrightarrow>
    (\<exists>data rootOff. root_fits b kind size1 data rootOff \<and> RawFromSlices data rootOff (rootOff + size1) = Some r)"
    and "\<exists>x. WrapRaw b kind size1 name = Some x"
proof -
  have "(WrapRaw b kind size1 name = Some (Inr r) \<longleftrightarrow>
      (\<exists>data rootOff. root_fits b kind size1 data rootOff \<and> RawFromSlices data rootOff (rootOff + size1) = Some r)) \<and>
    (\<exists>x. WrapRaw b kind size1 name = Some x)"
  proof (cases "ParseHeader b")
    case (Inl e)
    then show ?thesis by (simp add: WrapRaw_def root_fits_def)
  next
    case (Inr t)
    obtain data rootOff where t: "t = (data, rootOff)" by (cases t)
    have h: "0 \<le> rootOff" using ParseHeader_bounds(1) [OF Inr [unfolded t]] .
    have f: "root_fits b kind size1 d' o' \<longleftrightarrow> d' = data \<and> o' = rootOff \<and> data ! nat rootOff = kind \<and> rootOff + size1 \<le> int (length data)" for d' o'
      using assms by (auto simp: root_fits_def Inr t)
    show ?thesis
    proof (cases "int (length data) < rootOff + size1")
      case True
      then show ?thesis by (simp add: WrapRaw_def Inr t f)
    next
      case False
      then have "index_at data rootOff = Some (data ! nat rootOff)" using h assms by (simp add: index_at_def)
      moreover obtain x where "RawFromSlices data rootOff (rootOff + size1) = Some x"
        using h assms False by (simp add: RawFromSlices_def slice_at_def)
      ultimately show ?thesis using False h by (simp add: WrapRaw_def Inr t f)
    qed
  qed
  then show "WrapRaw b kind size1 name = Some (Inr r) \<longleftrightarrow>
      (\<exists>data rootOff. root_fits b kind size1 data rootOff \<and> RawFromSlices data rootOff (rootOff + size1) = Some r)"
    and "\<exists>x. WrapRaw b kind size1 name = Some x" by blast+
qed

lemma AsView_raw: "map_option AsView (RawFromSlices data lo hi) = view_lit data lo hi"
  by (simp add: RawFromSlices_def view_lit_def AsView_def map_option_bind o_def)

lemma WrapUnchecked_iff:
  "0 \<le> s_Size s \<Longrightarrow> WrapUnchecked s b = Some (Inr v) \<longleftrightarrow>
    (\<exists>data rootOff. ParseHeader b = Inr (data, rootOff) \<and> rootOff < int (length data) \<and>
      rootOff + s_Size s \<le> int (length data) \<and> view_lit data rootOff (rootOff + s_Size s) = Some v)"
  using ParseHeader_bounds(1) [of b]
  by (auto simp: WrapUnchecked_def parseUnchecked_def Let_def split: sum.splits)

lemma entry_wrap_iff:
  "entry_wrap kind size1 name b = Some (Inr (data, rootOff)) \<longleftrightarrow> root_fits b kind size1 data rootOff"
  using ParseHeader_bounds(1) [of b]
  by (auto simp: entry_wrap_def root_fits_def index_at_def split: sum.splits)

lemma Register_lookup:
  "Register s r = Some r' \<Longrightarrow>
     Lookup r' (s_Kind s) = Some \<lparr>e_Kind = s_Kind s, e_Name = s_Name s, e_Wrap = entry_wrap (s_Kind s) (s_Size s) (s_Name s)\<rparr>"
  "Register s r = Some r' \<Longrightarrow> k \<noteq> s_Kind s \<Longrightarrow> Lookup r' k = Lookup r k"
  by (auto simp: Register_def Lookup_def Let_def split: if_splits)

lemma Register_panics: "Register s r = None \<longleftrightarrow> (\<exists>e. Lookup r (s_Kind s) = Some e \<and> e_Name e \<noteq> s_Name s)"
  by (auto simp: Register_def Lookup_def Let_def split: option.splits)



text \<open>The agreement needs the kind byte: with a schema of size 0 and a root at the end of the buffer the
  shim constructor indexes past the end, where \<open>Wrap\<close> reports the bounds error. And the errors differ on
  a short object of another kind.\<close>

lemma WrapRaw_empty_panics:
  "WrapRaw (Magic @ le16 1 @ le16 0 @ le32 16 @ le32 16) 7 0 ''T'' = None"
  "Wrap \<lparr>s_Kind = 7, s_Size = 0, s_Name = ''T''\<rparr> (Magic @ le16 1 @ le16 0 @ le32 16 @ le32 16) = Some (Inl (ZapErr ErrOutOfBounds))"
  by code_simp+

lemma WrapRaw_other_error:
  "WrapRaw (Magic @ le16 1 @ le16 0 @ le32 16 @ le32 17 @ [9]) 7 8 ''T'' = Some (Inl (ZapErr ErrOutOfBounds))"
  "Wrap sample_schema (Magic @ le16 1 @ le16 0 @ le32 16 @ le32 17 @ [9]) =
     Some (Inl (SchemaErr \<lparr>se_Want = 7, se_Got = 9, se_Name = ''T''\<rparr>))"
  by code_simp+

end
