(* ===== verification/V1_Roundtrip.thy ===== *)
theory V1_Roundtrip
  imports V1_View
begin

text \<open>
  What the typed writers of \<open>src/v1\<close> build, the typed readers read: messages of any nesting are data
  (\<open>fval\<close>), \<open>put_fields\<close> writes them with the code's writers, \<open>reads\<close> reads them with the code's
  accessors. The proof goes through \<open>fields_at\<close>, the bytes a finished object and its tail consist of.
\<close>

section \<open>Messages as data\<close>

text \<open>The fields of an object: offsets with scalars, strings or byte slices, nested objects of a size,
  inline lists of elements of a size, and repeated nested objects.\<close>

datatype fval =
    Scalar bytes
  | Blob bytes
  | Sub nat "(nat \<times> fval) list"
  | Slots nat "(nat \<times> bytes) list list"
  | Subs nat "(nat \<times> fval) list list"

definition sch :: "nat \<Rightarrow> v1_schema" where
  "sch n = \<lparr>s_Kind = 0, s_Size = int n, s_Name = []\<rparr>"

lemma sch_Size [simp]: "s_Size (sch n) = int n"
  by (simp add: sch_def)

fun put_scalars :: "(nat \<times> bytes) list \<Rightarrow> Setter \<Rightarrow> Builder \<Rightarrow> Builder option" where
  "put_scalars [] st b = Some b"
| "put_scalars ((o1, v) # fs) st b = do { b1 \<leftarrow> Write st (At (of_nat o1)) v b; put_scalars fs st b1 }"

fun put_slots :: "(nat \<times> bytes) list list \<Rightarrow> ElemSetter \<Rightarrow> Builder \<Rightarrow> (ElemSetter \<times> Builder) option" where
  "put_slots [] es b = Some (es, b)"
| "put_slots (fs # fss) es b = do { (es1, b1) \<leftarrow> ElemSetter_Append es (put_scalars fs) b; put_slots fss es1 b1 }"

fun put_fields :: "nat \<Rightarrow> (nat \<times> fval) list \<Rightarrow> Setter \<Rightarrow> Builder \<Rightarrow> Builder option"
  and put_fval :: "nat \<Rightarrow> nat \<Rightarrow> fval \<Rightarrow> Setter \<Rightarrow> Builder \<Rightarrow> Builder option"
  and put_elems :: "nat \<Rightarrow> (nat \<times> fval) list list \<Rightarrow> NestedElemSetter \<Rightarrow> Builder \<Rightarrow> (NestedElemSetter \<times> Builder) option" where
  "put_fields n [] st b = Some b"
| "put_fields n ((o1, f) # fs) st b = do { b1 \<leftarrow> put_fval n o1 f st b; put_fields n fs st b1 }"
| "put_fval n o1 (Scalar v) st b = Write st (At (of_nat o1)) v b"
| "put_fval n o1 (Blob v) st b = v1_WriteBytes st (of_nat o1) v b"
| "put_fval n o1 (Sub k fs) st b = WriteNested (sch n) (sch k) st (of_nat o1) (\<lambda>st' b'. put_fields k fs st' b') b"
| "put_fval n o1 (Slots k fss) st b = WriteList (sch n) (sch k) st (of_nat o1) (put_slots fss) b"
| "put_fval n o1 (Subs k fss) st b = WriteListNested (sch n) st (of_nat o1) (\<lambda>es b'. put_elems k fss es b') b"
| "put_elems k [] es b = Some (es, b)"
| "put_elems k (fs # fss) es b = do {
     (es1, b1) \<leftarrow> NestedElem_Append (sch k) es (\<lambda>st' b'. put_fields k fs st' b') b;
     put_elems k fss es1 b1 }"

definition read_bytes :: "View \<Rightarrow> nat \<Rightarrow> bytes option option" where
  "read_bytes v o1 = Object_Bytes (asObject v) (int o1)"

fun reads_scalars :: "View \<Rightarrow> (nat \<times> bytes) list \<Rightarrow> bool" where
  "reads_scalars v [] \<longleftrightarrow> True"
| "reads_scalars v ((o1, x) # fs) \<longleftrightarrow> Read (length x) v (At (of_nat o1)) = Some x \<and> reads_scalars v fs"

fun reads_slots :: "nat \<Rightarrow> v1_List \<Rightarrow> int \<Rightarrow> (nat \<times> bytes) list list \<Rightarrow> bool" where
  "reads_slots k l i [] \<longleftrightarrow> True"
| "reads_slots k l i (fs # fss) \<longleftrightarrow>
     (case v1_List_At (sch k) l i of None \<Rightarrow> False | Some w \<Rightarrow> \<not> View_IsZero w \<and> reads_scalars w fs) \<and> reads_slots k l (i + 1) fss"

fun reads :: "View \<Rightarrow> (nat \<times> fval) list \<Rightarrow> bool"
  and reads_fval :: "View \<Rightarrow> nat \<Rightarrow> fval \<Rightarrow> bool"
  and reads_elems :: "nat \<Rightarrow> ListNested \<Rightarrow> int \<Rightarrow> (nat \<times> fval) list list \<Rightarrow> bool" where
  "reads v [] \<longleftrightarrow> True"
| "reads v ((o1, f) # fs) \<longleftrightarrow> reads_fval v o1 f \<and> reads v fs"
| "reads_fval v o1 (Scalar x) \<longleftrightarrow> Read (length x) v (At (of_nat o1)) = Some x"
| "reads_fval v o1 (Blob x) \<longleftrightarrow> read_bytes v o1 = Some (if x = [] then None else Some x)"
| "reads_fval v o1 (Sub k fs) \<longleftrightarrow>
     (case NestedAt (sch k) v (of_nat o1) of None \<Rightarrow> False | Some w \<Rightarrow> \<not> View_IsZero w \<and> reads w fs)"
| "reads_fval v o1 (Slots k fss) \<longleftrightarrow>
     (case ListAt (sch k) v (of_nat o1) of None \<Rightarrow> False | Some l \<Rightarrow> v1_Len l = int (length fss) \<and> reads_slots k l 0 fss)"
| "reads_fval v o1 (Subs k fss) \<longleftrightarrow>
     (case ListNestedAt v (of_nat o1) of None \<Rightarrow> False | Some l \<Rightarrow> ListNested_Len l = int (length fss) \<and> reads_elems k l 0 fss)"
| "reads_elems k l i [] \<longleftrightarrow> True"
| "reads_elems k l i (fs # fss) \<longleftrightarrow>
     (case ListNested_At (sch k) l i of None \<Rightarrow> False | Some w \<Rightarrow> \<not> View_IsZero w \<and> reads w fs) \<and> reads_elems k l (i + 1) fss"

text \<open>Which messages are well formed: a field lies in its object and fields do not overlap; a scalar has
  a width the builder stores; an element size is a multiple of eight, the builder's alignment.\<close>

fun fwidth :: "fval \<Rightarrow> nat" where
  "fwidth (Scalar v) = length v"
| "fwidth (Blob v) = 8"
| "fwidth (Sub k fs) = 4"
| "fwidth (Slots k fss) = 8"
| "fwidth (Subs k fss) = 8"

definition apart :: "nat \<Rightarrow> nat \<Rightarrow> nat \<Rightarrow> nat \<Rightarrow> bool" where
  "apart o1 w o2 w' \<longleftrightarrow> o1 + w \<le> o2 \<or> o2 + w' \<le> o1"

fun wf_scalars :: "nat \<Rightarrow> (nat \<times> bytes) list \<Rightarrow> bool" where
  "wf_scalars n [] \<longleftrightarrow> True"
| "wf_scalars n ((o1, v) # fs) \<longleftrightarrow> length v \<in> {1, 2, 4, 8} \<and> o1 + length v \<le> n \<and>
     (\<forall>(o2, w) \<in> set fs. apart o1 (length v) o2 (length w)) \<and> wf_scalars n fs"

fun wf_fields :: "nat \<Rightarrow> (nat \<times> fval) list \<Rightarrow> bool"
  and wf_fval :: "fval \<Rightarrow> bool"
  and wf_elems :: "nat \<Rightarrow> (nat \<times> fval) list list \<Rightarrow> bool" where
  "wf_fields n [] \<longleftrightarrow> True"
| "wf_fields n ((o1, f) # fs) \<longleftrightarrow> o1 + fwidth f \<le> n \<and> wf_fval f \<and>
     (\<forall>(o2, g) \<in> set fs. apart o1 (fwidth f) o2 (fwidth g)) \<and> wf_fields n fs"
| "wf_fval (Scalar v) \<longleftrightarrow> length v \<in> {1, 2, 4, 8}"
| "wf_fval (Blob v) \<longleftrightarrow> True"
| "wf_fval (Sub k fs) \<longleftrightarrow> 0 < k \<and> k < 2 ^ 31 \<and> wf_fields k fs"
| "wf_fval (Slots k fss) \<longleftrightarrow> 0 < k \<and> k < 2 ^ 31 \<and> 8 dvd k \<and> (\<forall>fs \<in> set fss. wf_scalars k fs)"
| "wf_fval (Subs k fss) \<longleftrightarrow> 0 < k \<and> k < 2 ^ 31 \<and> wf_elems k fss"
| "wf_elems k [] \<longleftrightarrow> True"
| "wf_elems k (fs # fss) \<longleftrightarrow> wf_fields k fs \<and> wf_elems k fss"

section \<open>The bytes of a finished object\<close>

definition bytes_at :: "bytes \<Rightarrow> int \<Rightarrow> bytes \<Rightarrow> bool" where
  "bytes_at d p xs \<longleftrightarrow> slice_at d p (p + int (length xs)) = Some xs"

definition ptr :: "int \<Rightarrow> int \<Rightarrow> bytes" where
  "ptr p q = le32 (word_of_int (q - p))"

fun scalars_at :: "bytes \<Rightarrow> int \<Rightarrow> (nat \<times> bytes) list \<Rightarrow> bool" where
  "scalars_at d p [] \<longleftrightarrow> True"
| "scalars_at d p ((o1, v) # fs) \<longleftrightarrow> bytes_at d (p + int o1) v \<and> scalars_at d p fs"

fun slots_at :: "bytes \<Rightarrow> int \<Rightarrow> nat \<Rightarrow> (nat \<times> bytes) list list \<Rightarrow> bool" where
  "slots_at d q k [] \<longleftrightarrow> True"
| "slots_at d q k (fs # fss) \<longleftrightarrow> q + int k \<le> int (length d) \<and> scalars_at d q fs \<and> slots_at d (q + int k) k fss"

text \<open>\<open>fields_at d p n fs\<close>: the object at \<open>p\<close> with a fixed section of \<open>n\<close> bytes has the fields \<open>fs\<close>, and what
  they point to lies behind the fixed section; \<open>lo\<close> is where the tail begins and \<open>s\<close> the slot.\<close>

fun fields_at :: "bytes \<Rightarrow> int \<Rightarrow> nat \<Rightarrow> (nat \<times> fval) list \<Rightarrow> bool"
  and field_at :: "bytes \<Rightarrow> int \<Rightarrow> int \<Rightarrow> fval \<Rightarrow> bool"
  and elems_at :: "bytes \<Rightarrow> int \<Rightarrow> int \<Rightarrow> nat \<Rightarrow> (nat \<times> fval) list list \<Rightarrow> bool" where
  "fields_at d p n [] \<longleftrightarrow> True"
| "fields_at d p n ((o1, f) # fs) \<longleftrightarrow> field_at d (p + int n) (p + int o1) f \<and> fields_at d p n fs"
| "field_at d lo s (Scalar v) \<longleftrightarrow> bytes_at d s v"
| "field_at d lo s (Blob v) \<longleftrightarrow>
     (if v = [] then bytes_at d s (le32 0 @ le32 0)
      else \<exists>q \<ge> lo. bytes_at d s (ptr s q @ le32 (of_nat (length v))) \<and> bytes_at d q v)"
| "field_at d lo s (Sub k fs) \<longleftrightarrow> (\<exists>q \<ge> lo. bytes_at d s (ptr s q) \<and> q + int k \<le> int (length d) \<and> fields_at d q k fs)"
| "field_at d lo s (Slots k fss) \<longleftrightarrow>
     (if fss = [] then bytes_at d s (le32 0 @ le32 0)
      else \<exists>q \<ge> lo. bytes_at d s (ptr s q @ le32 (of_nat (length fss))) \<and> slots_at d q k fss)"
| "field_at d lo s (Subs k fss) \<longleftrightarrow>
     (if fss = [] then bytes_at d s (le32 0 @ le32 0)
      else \<exists>q \<ge> lo. bytes_at d s (ptr s q @ le32 (of_nat (length fss))) \<and> elems_at d lo q k fss)"
| "elems_at d lo s k [] \<longleftrightarrow> True"
| "elems_at d lo s k (fs # fss) \<longleftrightarrow>
     (\<exists>q \<ge> lo. q \<noteq> s \<and> bytes_at d s (ptr s q) \<and> q + int k \<le> int (length d) \<and> fields_at d q k fs) \<and> elems_at d lo (s + 4) k fss"

text \<open>\<open>same_off W d d'\<close>: \<open>d'\<close> extends \<open>d\<close> and differs from it at positions in \<open>W\<close> only.\<close>

definition same_off :: "int set \<Rightarrow> bytes \<Rightarrow> bytes \<Rightarrow> bool" where
  "same_off W d d' \<longleftrightarrow> length d \<le> length d' \<and> (\<forall>i. 0 \<le> i \<and> i < int (length d) \<and> i \<notin> W \<longrightarrow> d' ! nat i = d ! nat i)"

lemma same_off_nth: "same_off W d d' \<Longrightarrow> 0 \<le> i \<Longrightarrow> i < int (length d) \<Longrightarrow> i \<notin> W \<Longrightarrow> d' ! nat i = d ! nat i"
  by (simp add: same_off_def)

lemma same_off_refl [simp]: "same_off W d d"
  by (simp add: same_off_def)

lemma same_off_trans: "same_off W d d' \<Longrightarrow> same_off W' d' d'' \<Longrightarrow> same_off (W \<union> W') d d''"
  by (auto simp: same_off_def)

lemma same_off_mono: "same_off W d d' \<Longrightarrow> W \<inter> {0..<int (length d)} \<subseteq> W' \<Longrightarrow> same_off W' d d'"
  by (auto simp: same_off_def)

lemma same_off_subset: "same_off W d d' \<Longrightarrow> W \<subseteq> W' \<Longrightarrow> same_off W' d d'"
  by (auto simp: same_off_def)

lemma same_off_append [simp]: "same_off W d (d @ ys)"
  by (auto simp: same_off_def nth_append nat_less_iff)

lemma same_off_lput:
  assumes "0 \<le> i" and "i + int (length xs) \<le> int (length d)"
  shows "same_off {i..<i + int (length xs)} d (lput d i xs)"
proof -
  have "lput d i xs ! nat j = d ! nat j" if "0 \<le> j" "j < int (length d)" "j \<notin> {i..<i + int (length xs)}" for j
  proof (cases "j < i")
    case True
    then show ?thesis using that assms by (simp add: lput_def nth_append)
  next
    case False
    then have j: "nat i + length xs \<le> nat j" "nat i \<le> length d" using that assms by auto
    have "lput d i xs = (take (nat i) d @ xs) @ drop (nat i + length xs) d" by (simp add: lput_def)
    moreover have "length (take (nat i) d @ xs) = nat i + length xs" using j(2) by simp
    ultimately have "lput d i xs ! nat j = drop (nat i + length xs) d ! (nat j - (nat i + length xs))"
      using j(1) nth_append_right by metis
    then show ?thesis using j that assms by (simp add: nth_drop)
  qed
  then show ?thesis using assms by (simp add: same_off_def)
qed

lemma bytes_at_same:
  assumes "bytes_at d p xs" and "same_off W d d'" and "\<And>i. p \<le> i \<Longrightarrow> i < p + int (length xs) \<Longrightarrow> i \<notin> W"
  shows "bytes_at d' p xs"
proof -
  have b: "0 \<le> p" "p + int (length xs) \<le> int (length d)" "xs = take (length xs) (drop (nat p) d)"
    using assms(1) by (simp_all add: bytes_at_def slice_eq_Some_iff)
  have l: "length d \<le> length d'" using assms(2) by (simp add: same_off_def)
  have "take (length xs) (drop (nat p) d') = xs"
  proof (rule nth_equalityI)
    show "length (take (length xs) (drop (nat p) d')) = length xs" using b(1,2) l by simp
    fix j assume "j < length (take (length xs) (drop (nat p) d'))"
    then have j: "j < length xs" by simp
    have "nat p \<le> length d" using b(1,2) by linarith
    then have "xs ! j = d ! (nat p + j)" using j by (subst b(3)) simp
    moreover have "d' ! nat (p + int j) = d ! nat (p + int j)"
      using assms(2) assms(3) [of "p + int j"] b(1,2) j by (simp add: same_off_def)
    moreover have "nat (p + int j) = nat p + j" using b(1) by simp
    ultimately show "take (length xs) (drop (nat p) d') ! j = xs ! j" using j b(1,2) l by simp
  qed
  then show ?thesis using b(1,2) l by (simp add: bytes_at_def slice_at_def)
qed

lemma scalars_at_same:
  "scalars_at d p fs \<Longrightarrow> same_off W d d' \<Longrightarrow> (\<And>i. p \<le> i \<Longrightarrow> i \<notin> W) \<Longrightarrow> scalars_at d' p fs"
proof (induction fs)
  case (Cons f fs)
  then show ?case by (cases f) (auto intro!: bytes_at_same [where W = W and d = d])
qed simp

lemma slots_at_same:
  "slots_at d q k fss \<Longrightarrow> same_off W d d' \<Longrightarrow> (\<And>i. q \<le> i \<Longrightarrow> i \<notin> W) \<Longrightarrow> slots_at d' q k fss"
proof (induction fss arbitrary: q)
  case (Cons fs fss)
  have "slots_at d' (q + int k) k fss" using Cons.prems by (intro Cons.IH) auto
  then show ?case
    using Cons.prems scalars_at_same [of d q fs W d'] by (auto simp: same_off_def [of W d d'])
qed simp

lemma at_same:
  "fields_at d p n fs \<Longrightarrow> same_off W d d' \<Longrightarrow> (\<And>i. p \<le> i \<Longrightarrow> i \<notin> W) \<Longrightarrow> fields_at d' p n fs"
  "field_at d lo s f \<Longrightarrow> same_off W d d' \<Longrightarrow> (\<And>i. lo \<le> i \<Longrightarrow> i \<notin> W) \<Longrightarrow> (\<And>i. s \<le> i \<Longrightarrow> i < s + int (fwidth f) \<Longrightarrow> i \<notin> W) \<Longrightarrow> field_at d' lo s f"
  "elems_at d lo s k fss \<Longrightarrow> same_off W d d' \<Longrightarrow> (\<And>i. lo \<le> i \<Longrightarrow> i \<notin> W) \<Longrightarrow> lo \<le> s \<Longrightarrow> elems_at d' lo s k fss"
proof (induction d p n fs and d lo s f and d lo s k fss rule: fields_at_field_at_elems_at.induct)
  case (2 d p n o1 f fs)
  then show ?case by auto
next
  case (3 d lo s v)
  then show ?case by (auto intro: bytes_at_same)
next
  case (4 d lo s v)
  show ?case
  proof (cases "v = []")
    case True
    then show ?thesis using 4 by (auto intro: bytes_at_same)
  next
    case False
    then obtain q where q: "lo \<le> q" "bytes_at d s (ptr s q @ le32 (of_nat (length v)))" "bytes_at d q v" using 4(1) by auto
    have "bytes_at d' s (ptr s q @ le32 (of_nat (length v)))"
      using q(2) 4(2) by (rule bytes_at_same) (use 4(4) in \<open>simp add: ptr_def\<close>)
    moreover have "bytes_at d' q v" using q(3) 4(2) by (rule bytes_at_same) (use 4(3) q(1) in simp)
    ultimately show ?thesis using False q(1) by auto
  qed
next
  case (5 d lo s k fs)
  then obtain q where q: "lo \<le> q" "bytes_at d s (ptr s q)" "q + int k \<le> int (length d)" "fields_at d q k fs" by auto
  have "bytes_at d' s (ptr s q)" using q(2) 5(3) by (rule bytes_at_same) (use 5(5) in \<open>simp add: ptr_def\<close>)
  moreover have "fields_at d' q k fs" using 5(1) [OF q(4)] q(1) 5(3,4) by auto
  ultimately show ?case using q 5(3) by (auto simp: same_off_def)
next
  case (6 d lo s k fss)
  show ?case
  proof (cases "fss = []")
    case True
    then show ?thesis using 6 by (auto intro: bytes_at_same)
  next
    case False
    then obtain q where q: "lo \<le> q" "bytes_at d s (ptr s q @ le32 (of_nat (length fss)))" "slots_at d q k fss" using 6(1) by auto
    have "bytes_at d' s (ptr s q @ le32 (of_nat (length fss)))"
      using q(2) 6(2) by (rule bytes_at_same) (use 6(4) in \<open>simp add: ptr_def\<close>)
    moreover have "slots_at d' q k fss" using q(3) 6(2) by (rule slots_at_same) (use 6(3) q(1) in simp)
    ultimately show ?thesis using False q(1) by auto
  qed
next
  case (7 d lo s k fss)
  show ?case
  proof (cases "fss = []")
    case True
    then show ?thesis using 7 by (auto intro: bytes_at_same)
  next
    case False
    then obtain q where q: "lo \<le> q" "bytes_at d s (ptr s q @ le32 (of_nat (length fss)))" "elems_at d lo q k fss" using 7(2) by auto
    have "bytes_at d' s (ptr s q @ le32 (of_nat (length fss)))"
      using q(2) 7(3) by (rule bytes_at_same) (use 7(5) in \<open>simp add: ptr_def\<close>)
    moreover have "elems_at d' lo q k fss" using 7(1) [OF False] q 7(3,4) by auto
    ultimately show ?thesis using False q(1) by auto
  qed
next
  case (9 d lo s k fs fss)
  then obtain q where q: "lo \<le> q" "q \<noteq> s" "bytes_at d s (ptr s q)" "q + int k \<le> int (length d)" "fields_at d q k fs"
    and r: "elems_at d lo (s + 4) k fss" by auto
  have "bytes_at d' s (ptr s q)" using q(3) 9(4) by (rule bytes_at_same) (use 9(5,6) in simp)
  moreover have "fields_at d' q k fs" using 9(1) q 9(4,5) by auto
  moreover have "elems_at d' lo (s + 4) k fss" using 9(2) r 9(4-6) by auto
  ultimately show ?case using q 9(4) by (auto simp: same_off_def)
qed simp_all

section \<open>Writing\<close>

text \<open>One call on an object builder: it stores its cell in its slot and appends its tail.\<close>

lemma write_op:
  assumes wf: "bwf b" and p: "0 \<le> ob_startPos ob" and op: "op_in sz op" and res: "ob_startPos ob + sz \<le> b_pos b"
  obtains b' where "run_op b ob op = Some b'" "bwf b'" "b_rootOffset b' = b_rootOffset b"
    "b_pos b' = b_pos b + int (length (op_tail op))"
    "same_off {ob_startPos ob + op_off op..<ob_startPos ob + op_off op + op_width op} (live b) (live b')"
    "bytes_at (live b') (ob_startPos ob + op_off op) (op_cell (ob_startPos ob + op_off op) (b_pos b) op)"
    "bytes_at (live b') (b_pos b) (op_tail op)"
proof -
  let ?s = "ob_startPos ob + op_off op"
  let ?c = "op_cell ?s (b_pos b) op"
  obtain b' where b': "run_op b ob op = Some b'" "bwf b'" "b_rootOffset b' = b_rootOffset b"
    "live b' = lput (live b @ op_tail op) ?s ?c"
    using run_op_live [OF wf p op res] pos_eq_live [OF wf] by (auto simp: becomes_def a_op_def)
  have s: "0 \<le> ?s" "?s + int (length ?c) \<le> int (length (live b))" "?s + int (length ?c) \<le> b_pos b"
    using op p res pos_eq_live [OF wf] by (simp_all add: op_in_def)
  then have s': "?s + int (length ?c) \<le> int (length (live b @ op_tail op))" by simp
  have pos: "b_pos b' = b_pos b + int (length (op_tail op))"
    using pos_eq_live [OF b'(2)] pos_eq_live [OF wf] length_lput [OF s(1) s'] b'(4) by simp
  have "same_off {?s..<?s + int (length ?c)} (live b @ op_tail op) (live b')"
    unfolding b'(4) by (rule same_off_lput [OF s(1) s'])
  from same_off_trans [OF same_off_append [of "{}"] this]
  have so: "same_off {?s..<?s + op_width op} (live b) (live b')" by simp
  have cell: "bytes_at (live b') ?s ?c"
    unfolding bytes_at_def b'(4) using slice_lput_same [OF s(1) s'] .
  have "bytes_at (live b') (b_pos b) (op_tail op)"
    unfolding bytes_at_def b'(4)
    using slice_lput_other [OF s(1) s', of "b_pos b + int (length (op_tail op))" "b_pos b"] s(3)
      slice_append_right [OF pos_eq_live [OF wf], of "op_tail op"] by simp
  with b'(1-3) pos so cell that show thesis by blast
qed

lemma uint_offset: "o1 < 2 ^ 31 \<Longrightarrow> uint (of_nat o1 :: u32) = int o1"
  using word32_int(1) [of "int o1"] by simp

text \<open>The operation a scalar write amounts to.\<close>

definition scalar_op :: "nat \<Rightarrow> bytes \<Rightarrow> field_op" where
  "scalar_op o1 v =
     (if length v = 1 then OpUint8 (int o1) (hd v) else if length v = 2 then OpUint16 (int o1) (u16_le v)
      else if length v = 4 then OpUint32 (int o1) (u32_le v) else OpUint64 (int o1) (u64_le v))"

lemma scalar_op_facts:
  assumes "length v \<in> {1, 2, 4, 8}"
  shows "op_off (scalar_op o1 v) = int o1" "op_cell s cur (scalar_op o1 v) = v" "op_tail (scalar_op o1 v) = []"
    "op_width (scalar_op o1 v) = int (length v)"
    "o1 < 2 ^ 31 \<Longrightarrow> Write st (At (of_nat o1)) v b = run_op b (st_ob st) (scalar_op o1 v)"
proof -
  have 1: "[hd v] = v" if "length v = 1" using that by (cases v) simp_all
  have wide: "length v = 2 \<or> length v = 4 \<or> length v = 8" if "length v \<noteq> 1" using assms that by simp
  show "op_off (scalar_op o1 v) = int o1" "op_tail (scalar_op o1 v) = []" by (simp_all add: scalar_op_def)
  show "op_cell s cur (scalar_op o1 v) = v" for s cur
    using 1 wide by (cases "length v = 1") (auto simp: scalar_op_def codec_roundtrip_bytes)
  from this [of 0 0] show "op_width (scalar_op o1 v) = int (length v)" by (simp add: op_width_def)
  show "Write st (At (of_nat o1)) v b = run_op b (st_ob st) (scalar_op o1 v)" if "o1 < 2 ^ 31"
    using wide uint_offset [OF that] by (cases "length v = 1") (auto simp: scalar_op_def Write_def writeAt_def At_def)
qed

definition slots_of :: "('a \<Rightarrow> nat) \<Rightarrow> int \<Rightarrow> (nat \<times> 'a) list \<Rightarrow> int set" where
  "slots_of w p fs = {i. \<exists>(o1, f) \<in> set fs. p + int o1 \<le> i \<and> i < p + int o1 + int (w f)}"

lemma slots_of_Nil [simp]: "slots_of w p [] = {}"
  by (simp add: slots_of_def)

lemma slots_of_Cons: "slots_of w p ((o1, f) # fs) = {p + int o1..<p + int o1 + int (w f)} \<union> slots_of w p fs"
  by (auto simp: slots_of_def)

lemma slots_apart:
  "\<forall>(o2, g) \<in> set fs. apart o1 n o2 (w g) \<Longrightarrow> p + int o1 \<le> i \<Longrightarrow> i < p + int o1 + int n \<Longrightarrow> i \<notin> slots_of w p fs"
  by (force simp: slots_of_def apart_def)

lemma put_scalars_fills:
  assumes "wf_scalars n fs" and "n < 2 ^ 31" and "bwf b" and "0 \<le> p" "p = ob_startPos (st_ob st)" and "p + int n \<le> b_pos b"
  shows "\<exists>b'. put_scalars fs st b = Some b' \<and> bwf b' \<and> b_rootOffset b' = b_rootOffset b \<and> b_pos b' = b_pos b \<and>
    same_off (slots_of length p fs) (live b) (live b') \<and> scalars_at (live b') p fs"
  using assms
proof (induction fs arbitrary: b)
  case (Cons f fs)
  obtain o1 v where f: "f = (o1, v)" by (cases f)
  have w: "length v \<in> {1, 2, 4, 8}" "o1 + length v \<le> n" "\<forall>(o2, w) \<in> set fs. apart o1 (length v) o2 (length w)" "wf_scalars n fs"
    using Cons.prems(1) by (simp_all add: f)
  have o1: "o1 < 2 ^ 31" using w(2) Cons.prems(2) by linarith
  note sf = scalar_op_facts [OF w(1), where ?o1.0 = o1]
  have "op_in (int n) (scalar_op o1 v)" using w(2) by (simp add: op_in_def sf)
  from write_op [OF Cons.prems(3) _ this, of "st_ob st"]
  obtain b1 where b1: "Write st (At (of_nat o1)) v b = Some b1" "bwf b1" "b_rootOffset b1 = b_rootOffset b" "b_pos b1 = b_pos b"
    "same_off {p + int o1..<p + int o1 + int (length v)} (live b) (live b1)" "bytes_at (live b1) (p + int o1) v"
    using Cons.prems(4-6) by (auto simp: sf sf(5) [OF o1])
  obtain b' where b': "put_scalars fs st b1 = Some b'" "bwf b'" "b_rootOffset b' = b_rootOffset b1" "b_pos b' = b_pos b1"
    "same_off (slots_of length p fs) (live b1) (live b')" "scalars_at (live b') p fs"
    using Cons.IH [OF w(4) Cons.prems(2) b1(2) Cons.prems(4,5)] b1(4) Cons.prems(6) by auto
  have "bytes_at (live b') (p + int o1) v"
    using bytes_at_same [OF b1(6) b'(5) slots_apart [OF w(3)]] .
  then show ?case
    using b1 b' same_off_trans [OF b1(5) b'(5)] by (simp add: f slots_of_Cons)
qed simp

text \<open>Starting an object: zero bytes up to the aligned position and through the fixed section.\<close>

lemma start_object:
  assumes "bwf b"
  shows "\<exists>b1 ob. StartObject b (int k) = Some (b1, ob) \<and> bwf b1 \<and> b_rootOffset b1 = b_rootOffset b \<and>
    ob_startPos ob = b_pos b + pad8 (b_pos b) \<and> b_pos b1 = b_pos b + pad8 (b_pos b) + int k \<and>
    live b1 = live b @ replicate (nat (pad8 (b_pos b) + int k)) 0"
proof -
  obtain b1 ob where s: "StartObject b (int k) = Some (b1, ob)" "bwf b1" "b_rootOffset b1 = b_rootOffset b"
    "ob_startPos ob = b_pos b + pad8 (b_pos b)" "live b1 = live b @ replicate (nat (pad8 (b_pos b) + int k)) 0"
    using StartObject_live [OF assms, of "int k"] by auto
  then show ?thesis
    using pos_eq_live [OF s(2)] pos_eq_live [OF assms] pad8_bounds(1) [of "b_pos b"] by simp
qed

lemma pad8_dvd: "8 dvd p + pad8 p"
  using align_dvd [of 8 p] by (simp add: pad8_def)

lemma pad8_0: "8 dvd p \<Longrightarrow> pad8 p = 0"
  by (auto simp: pad8_def dvd_eq_mod_eq_0)

lemma slots_of_within:
  "wf_scalars n fs \<Longrightarrow> slots_of length p fs \<subseteq> {p..<p + int n}"
proof (induction fs)
  case (Cons f fs)
  then show ?case by (cases f) (auto simp: slots_of_Cons)
qed simp

lemma same_off_fresh: "same_off W d d' \<Longrightarrow> W \<subseteq> {int (length d)..} \<Longrightarrow> same_off {} d d'"
  by (rule same_off_mono) auto

lemma append_slot:
  assumes fs: "wf_scalars k fs" and k: "k < 2 ^ 31" and b: "bwf b" "0 \<le> b_pos b" and es: "es_stride es = int k"
  shows "\<exists>es1 b2. ElemSetter_Append es (put_scalars fs) b = Some (es1, b2) \<and> bwf b2 \<and> b_rootOffset b2 = b_rootOffset b \<and>
    es_stride es1 = int k \<and> es_count es1 = es_count es + 1 \<and>
    es_startPos es1 = (if es_count es = 0 then b_pos b + pad8 (b_pos b) else es_startPos es) \<and>
    b_pos b2 = b_pos b + pad8 (b_pos b) + int k \<and> scalars_at (live b2) (b_pos b + pad8 (b_pos b)) fs \<and>
    same_off (slots_of length (b_pos b + pad8 (b_pos b)) fs) (live b @ replicate (nat (pad8 (b_pos b) + int k)) 0) (live b2) \<and>
    same_off {} (live b) (live b2)"
proof -
  let ?q = "b_pos b + pad8 (b_pos b)"
  have q: "0 \<le> ?q" "b_pos b \<le> ?q" using b(2) pad8_bounds(1) [of "b_pos b"] by linarith+
  obtain b1 ob where b1: "StartObject b (int k) = Some (b1, ob)" "bwf b1" "b_rootOffset b1 = b_rootOffset b"
    "ob_startPos ob = ?q" "b_pos b1 = ?q + int k" "live b1 = live b @ replicate (nat (pad8 (b_pos b) + int k)) 0"
    using start_object [OF b(1), of k] by blast
  obtain b2 where b2: "put_scalars fs \<lparr>st_ob = ob\<rparr> b1 = Some b2" "bwf b2" "b_rootOffset b2 = b_rootOffset b1" "b_pos b2 = b_pos b1"
    "same_off (slots_of length ?q fs) (live b1) (live b2)" "scalars_at (live b2) ?q fs"
    using put_scalars_fills [OF fs k b1(2) q(1), of "\<lparr>st_ob = ob\<rparr>"] b1(4,5) by auto
  define es1 where "es1 = (if es_count es = 0 then es\<lparr>es_startPos := ?q\<rparr> else es)\<lparr>es_count := es_count es + 1\<rparr>"
  have es1: "es_stride es1 = int k" "es_count es1 = es_count es + 1" "es_startPos es1 = (if es_count es = 0 then ?q else es_startPos es)"
    using es by (simp_all add: es1_def)
  have app: "ElemSetter_Append es (put_scalars fs) b = Some (es1, b2)"
    using b1(1,4) b2(1) es by (simp add: ElemSetter_Append_def ObjectBuilder_Finish_def Let_def es1_def)
  have "slots_of length ?q fs \<subseteq> {int (length (live b))..}"
    using slots_of_within [OF fs, of ?q] pos_eq_live [OF b(1)] q by auto
  moreover have "same_off (slots_of length ?q fs) (live b) (live b2)"
    using same_off_trans [OF same_off_append [of "{}" "live b"] b2(5) [unfolded b1(6)]] by simp
  ultimately have "same_off {} (live b) (live b2)" by (metis same_off_fresh)
  then show ?thesis using app es1 b1 b2 by auto
qed

lemma put_slots_fills:
  assumes "\<forall>fs \<in> set fss. wf_scalars k fs" and "8 dvd k" and "k < 2 ^ 31" and "bwf b" and "0 \<le> b_pos b"
    and "es_stride es = int k" and "0 \<le> es_count es"
  shows "\<exists>es' b'. put_slots fss es b = Some (es', b') \<and> bwf b' \<and> b_rootOffset b' = b_rootOffset b \<and>
    same_off {} (live b) (live b') \<and> es_count es' = es_count es + int (length fss) \<and>
    es_startPos es' = (if es_count es = 0 \<and> fss \<noteq> [] then b_pos b + pad8 (b_pos b) else es_startPos es) \<and>
    slots_at (live b') (b_pos b + pad8 (b_pos b)) k fss"
  using assms
proof (induction fss arbitrary: b es)
  case (Cons fs fss)
  let ?q = "b_pos b + pad8 (b_pos b)"
  have q: "0 \<le> ?q" using Cons.prems(5) pad8_bounds(1) [of "b_pos b"] by linarith
  have fs: "wf_scalars k fs" using Cons.prems(1) by simp
  obtain es1 b2 where app: "ElemSetter_Append es (put_scalars fs) b = Some (es1, b2)" and b2: "bwf b2" "b_rootOffset b2 = b_rootOffset b"
      "b_pos b2 = ?q + int k" "scalars_at (live b2) ?q fs" "same_off {} (live b) (live b2)"
    and es1: "es_stride es1 = int k" "es_count es1 = es_count es + 1" "es_startPos es1 = (if es_count es = 0 then ?q else es_startPos es)"
    using append_slot [OF fs Cons.prems(3-6)] by blast
  have "int 8 dvd int k" using Cons.prems(2) by (simp only: of_nat_dvd_iff)
  then have "8 dvd ?q + int k" using dvd_add [OF pad8_dvd [of "b_pos b"]] by simp
  then have p2: "b_pos b2 + pad8 (b_pos b2) = ?q + int k" "0 \<le> b_pos b2" using pad8_0 b2(3) q by simp_all
  obtain es' b' where b': "put_slots fss es1 b2 = Some (es', b')" "bwf b'" "b_rootOffset b' = b_rootOffset b2"
    "same_off {} (live b2) (live b')" "es_count es' = es_count es1 + int (length fss)"
    "es_startPos es' = es_startPos es1" "slots_at (live b') (?q + int k) k fss"
    using Cons.IH [OF _ Cons.prems(2,3) b2(1) p2(2) es1(1)] Cons.prems(1,7) es1(2) unfolding p2(1) by auto
  have "scalars_at (live b') ?q fs" using scalars_at_same [OF b2(4) b'(4)] by simp
  moreover have "?q + int k \<le> int (length (live b'))"
    using b'(4) pos_eq_live [OF b2(1)] b2(3) by (simp add: same_off_def)
  ultimately show ?case
    using app b' b2(2) same_off_trans [OF b2(5) b'(4)] es1(2,3) by auto
qed simp

fun ptrs :: "int \<Rightarrow> int list \<Rightarrow> bytes" where
  "ptrs s [] = []"
| "ptrs s (q # qs) = ptr s q @ ptrs (s + 4) qs"

lemma length_ptr [simp]: "length (ptr s q) = 4"
  by (simp add: ptr_def)

lemma add_ptrs_live:
  assumes "bwf b" and "\<forall>q \<in> set qs. q \<noteq> 0"
  shows "\<exists>b' lb'. add_ptrs b lb qs = Some (b', lb') \<and> bwf b' \<and> b_rootOffset b' = b_rootOffset b \<and>
    lb_startPos lb' = lb_startPos lb \<and> lb_count lb' = lb_count lb + int (length qs) \<and> live b' = live b @ ptrs (b_pos b) qs"
  using assms
proof (induction qs arbitrary: b lb)
  case (Cons q qs)
  obtain b1 where b1: "append_raw b (ptr (b_pos b) q) = Some b1" "bwf b1" "b_rootOffset b1 = b_rootOffset b"
    "live b1 = live b @ ptr (b_pos b) q"
    using append_live [OF Cons.prems(1), of "ptr (b_pos b) q"] by (auto simp: becomes_def)
  have pos: "b_pos b1 = b_pos b + 4" using pos_eq_live [OF b1(2)] pos_eq_live [OF Cons.prems(1)] b1(4) by simp
  have "AddObjectPtr b lb q = Some (b1, lb\<lparr>lb_count := lb_count lb + 1\<rparr>)"
    using b1(1) Cons.prems(2) by (simp add: AddObjectPtr_def ptr_def)
  moreover obtain b' lb' where "add_ptrs b1 (lb\<lparr>lb_count := lb_count lb + 1\<rparr>) qs = Some (b', lb')" "bwf b'" "b_rootOffset b' = b_rootOffset b1"
    "lb_startPos lb' = lb_startPos lb" "lb_count lb' = lb_count lb + 1 + int (length qs)" "live b' = live b1 @ ptrs (b_pos b1) qs"
    using Cons.IH [OF b1(2), of "lb\<lparr>lb_count := lb_count lb + 1\<rparr>"] Cons.prems(2) by auto
  ultimately show ?case using b1 pos by simp
qed simp

lemma elems_at_ptrs:
  assumes "list_all2 (\<lambda>q fs. lo \<le> q \<and> q < lim \<and> q + int k \<le> int (length d) \<and> fields_at d q k fs) qs fss"
    and "lim \<le> s" and "s = int (length xs)" and "d = xs @ ptrs s qs @ ys"
  shows "elems_at d lo s k fss"
  using assms
proof (induction qs fss arbitrary: s xs rule: list_all2_induct)
  case (Cons q fs qs fss)
  have "bytes_at d s (ptr s q)" using Cons.prems by (simp add: bytes_at_def slice_at_def)
  moreover have "elems_at d lo (s + 4) k fss"
    using Cons.prems by (intro Cons.IH [where xs = "xs @ ptr s q"]) simp_all
  ultimately show ?case using Cons.hyps(1) Cons.prems(1) by (auto intro!: exI [of _ q])
qed simp

text \<open>\<open>fills b r W Q\<close>: the program \<open>r\<close> run on \<open>b\<close> returns, changes what was live in \<open>W\<close> only, and
  establishes \<open>Q\<close> of the live bytes.\<close>

definition fills :: "Builder \<Rightarrow> Builder option \<Rightarrow> int set \<Rightarrow> (bytes \<Rightarrow> bool) \<Rightarrow> bool" where
  "fills b r W Q \<longleftrightarrow> (\<exists>b'. r = Some b' \<and> bwf b' \<and> b_rootOffset b' = b_rootOffset b \<and> same_off W (live b) (live b') \<and> Q (live b'))"

lemma same_off_pos: "bwf b \<Longrightarrow> bwf b' \<Longrightarrow> same_off W (live b) (live b') \<Longrightarrow> b_pos b \<le> b_pos b'"
  by (simp add: pos_eq_live same_off_def)

lemma reserved: "ob_startPos ob + int n \<le> b_pos b \<Longrightarrow> ReserveFixed b ob (s_Size (sch n)) = Some b"
  by (simp add: ReserveFixed_def ensureField_def)

text \<open>An initialiser of objects with a fixed section of \<open>k\<close> bytes and the fields \<open>fs\<close>.\<close>

definition inits :: "(Setter \<Rightarrow> Builder \<Rightarrow> Builder option) \<Rightarrow> nat \<Rightarrow> (nat \<times> fval) list \<Rightarrow> bool" where
  "inits init k fs \<longleftrightarrow> (\<forall>st b. bwf b \<longrightarrow> 0 < ob_startPos (st_ob st) \<longrightarrow> ob_startPos (st_ob st) + int k \<le> b_pos b \<longrightarrow>
     fills b (init st b) {ob_startPos (st_ob st)..<ob_startPos (st_ob st) + int k} (\<lambda>d. fields_at d (ob_startPos (st_ob st)) k fs))"

lemma init_object:
  assumes "bwf b" and "0 < b_pos b" and "inits init k fs"
  shows "\<exists>b1 ob b2. StartObject b (int k) = Some (b1, ob) \<and> init \<lparr>st_ob = ob\<rparr> b1 = Some b2 \<and>
    ob_startPos ob = b_pos b + pad8 (b_pos b) \<and> bwf b2 \<and> b_rootOffset b2 = b_rootOffset b \<and>
    same_off {} (live b) (live b2) \<and> ob_startPos ob + int k \<le> int (length (live b2)) \<and> fields_at (live b2) (ob_startPos ob) k fs"
proof -
  let ?q = "b_pos b + pad8 (b_pos b)"
  have q: "0 < ?q" "b_pos b \<le> ?q" using assms(2) pad8_bounds(1) [of "b_pos b"] by linarith+
  obtain b1 ob where b1: "StartObject b (int k) = Some (b1, ob)" "bwf b1" "b_rootOffset b1 = b_rootOffset b"
    "ob_startPos ob = ?q" "b_pos b1 = ?q + int k" "live b1 = live b @ replicate (nat (pad8 (b_pos b) + int k)) 0"
    using start_object [OF assms(1), of k] by blast
  obtain b2 where b2: "init \<lparr>st_ob = ob\<rparr> b1 = Some b2" "bwf b2" "b_rootOffset b2 = b_rootOffset b1"
    "same_off {?q..<?q + int k} (live b1) (live b2)" "fields_at (live b2) ?q k fs"
    using assms(3) b1(2,4,5) q(1) unfolding inits_def fills_def by force
  have "same_off {?q..<?q + int k} (live b) (live b2)"
    using same_off_trans [OF same_off_append [of "{}" "live b"] b2(4) [unfolded b1(6)]] by simp
  moreover have "{?q..<?q + int k} \<subseteq> {int (length (live b))..}" using pos_eq_live [OF assms(1)] q(2) by auto
  ultimately have "same_off {} (live b) (live b2)" by (rule same_off_fresh)
  moreover have "?q + int k \<le> int (length (live b2))"
    using same_off_pos [OF b1(2) b2(2,4)] b1(5) pos_eq_live [OF b2(2)] by simp
  ultimately show ?thesis
    using b1 b2 by (intro exI [of _ b1] exI [of _ ob] exI [of _ b2]) simp
qed

lemma write_slot:
  assumes "bwf b" and "0 \<le> ob_startPos ob" and "ob_startPos ob + int n \<le> b_pos b" and "op_in (int n) op" and "op_tail op = []"
  shows "fills b (run_op b ob op) {ob_startPos ob + op_off op..<ob_startPos ob + op_off op + op_width op}
     (\<lambda>d. bytes_at d (ob_startPos ob + op_off op) (op_cell (ob_startPos ob + op_off op) (b_pos b) op))"
  using write_op [OF assms(1,2,4,3)] unfolding fills_def by metis

lemma WriteNested_fills:
  assumes b: "bwf b" and p: "0 < ob_startPos (st_ob st)" "ob_startPos (st_ob st) + int n \<le> b_pos b"
    and o1: "o1 + 4 \<le> n" "n < 2 ^ 31" and init: "inits init k fs"
  shows "fills b (WriteNested (sch n) (sch k) st (of_nat o1) init b)
    {ob_startPos (st_ob st) + int o1..<ob_startPos (st_ob st) + int o1 + 4}
    (\<lambda>d. field_at d (ob_startPos (st_ob st) + int n) (ob_startPos (st_ob st) + int o1) (Sub k fs))"
proof -
  let ?p = "ob_startPos (st_ob st)"
  have "0 < b_pos b" using p by linarith
  then obtain b1 ob b2 where i: "StartObject b (int k) = Some (b1, ob)" "init \<lparr>st_ob = ob\<rparr> b1 = Some b2"
    "ob_startPos ob = b_pos b + pad8 (b_pos b)" "bwf b2" "b_rootOffset b2 = b_rootOffset b"
    "same_off {} (live b) (live b2)" "ob_startPos ob + int k \<le> int (length (live b2))" "fields_at (live b2) (ob_startPos ob) k fs"
    using init_object [OF b _ init] by blast
  let ?q = "ob_startPos ob" and ?op = "OpObject (int o1) (ob_startPos ob)"
  have q: "?p + int n \<le> ?q" "0 < ?q" using i(3) p pad8_bounds(1) [of "b_pos b"] by linarith+
  have in2: "op_in (int n) ?op" using o1 by (simp add: op_in_def)
  have pos2: "?p + int n \<le> b_pos b2" using same_off_pos [OF b i(4,6)] p(2) by linarith
  obtain b3 where b3: "run_op b2 (st_ob st) ?op = Some b3" "bwf b3" "b_rootOffset b3 = b_rootOffset b2"
    "same_off {?p + int o1..<?p + int o1 + 4} (live b2) (live b3)" "bytes_at (live b3) (?p + int o1) (ptr (?p + int o1) ?q)"
    using write_slot [OF i(4) _ pos2 in2] p(1) q(2) by (auto simp: fills_def ptr_def)
  have u: "uint (of_nat o1 :: u32) = int o1" using o1 by (intro uint_offset) linarith
  have "WriteNested (sch n) (sch k) st (of_nat o1) init b = Some b3"
    using reserved [OF p(2)] i(1,2) b3(1) u by (simp add: WriteNested_def ObjectBuilder_Finish_def)
  moreover have "fields_at (live b3) ?q k fs"
    using i(8) b3(4) by (rule at_same(1)) (use q o1 in auto)
  moreover have "?q + int k \<le> int (length (live b3))" using i(7) b3(4) by (simp add: same_off_def)
  ultimately show ?thesis
    using b3 i(5) q(1) same_off_trans [OF i(6) b3(4)] unfolding fills_def by auto
qed

lemma WriteList_fills:
  assumes b: "bwf b" and p: "0 < ob_startPos (st_ob st)" "ob_startPos (st_ob st) + int n \<le> b_pos b"
    and o1: "o1 + 8 \<le> n" "n < 2 ^ 31" and wf: "wf_fval (Slots k fss)"
  shows "fills b (WriteList (sch n) (sch k) st (of_nat o1) (put_slots fss) b)
    {ob_startPos (st_ob st) + int o1..<ob_startPos (st_ob st) + int o1 + 8}
    (\<lambda>d. field_at d (ob_startPos (st_ob st) + int n) (ob_startPos (st_ob st) + int o1) (Slots k fss))"
proof -
  let ?p = "ob_startPos (st_ob st)" and ?es = "\<lparr>es_stride = int k, es_count = 0, es_startPos = 0\<rparr>"
  let ?q = "b_pos b + pad8 (b_pos b)"
  have "0 \<le> b_pos b" using p by linarith
  then obtain es b2 where i: "put_slots fss ?es b = Some (es, b2)" "bwf b2" "b_rootOffset b2 = b_rootOffset b"
    "same_off {} (live b) (live b2)" "es_count es = int (length fss)" "es_startPos es = (if fss \<noteq> [] then ?q else 0)"
    "slots_at (live b2) ?q k fss"
    using put_slots_fills [OF _ _ _ b, of fss k ?es] wf by auto
  let ?op = "OpList (int o1) (es_startPos es) (es_count es)"
  have q: "?p + int n \<le> ?q" "0 < ?q" using p pad8_bounds(1) [of "b_pos b"] by linarith+
  have in2: "op_in (int n) ?op" using o1 by (simp add: op_in_def)
  have pos2: "?p + int n \<le> b_pos b2" using same_off_pos [OF b i(2,4)] p(2) by linarith
  obtain b3 where b3: "run_op b2 (st_ob st) ?op = Some b3" "bwf b3" "b_rootOffset b3 = b_rootOffset b2"
    "same_off {?p + int o1..<?p + int o1 + 8} (live b2) (live b3)"
    "bytes_at (live b3) (?p + int o1) (op_cell (?p + int o1) (b_pos b2) ?op)"
    using write_slot [OF i(2) _ pos2 in2] p(1) by (auto simp: fills_def)
  have u: "uint (of_nat o1 :: u32) = int o1" using o1 by (intro uint_offset) linarith
  have "WriteList (sch n) (sch k) st (of_nat o1) (put_slots fss) b = Some b3"
    using reserved [OF p(2)] i(1,5,6) b3(1) u by (auto simp: WriteList_def)
  moreover have "slots_at (live b3) ?q k fss"
    using i(7) b3(4) by (rule slots_at_same) (use q o1 in auto)
  ultimately show ?thesis
    using b3 i(3,5,6) q same_off_trans [OF i(4) b3(4)] unfolding fills_def by (auto simp: ptr_def)
qed

text \<open>The elements of a repeated object field: where they are, and the pointer array behind them.\<close>

definition elems_done :: "nat \<Rightarrow> (nat \<times> fval) list list \<Rightarrow> (NestedElemSetter \<Rightarrow> Builder \<Rightarrow> (NestedElemSetter \<times> Builder) option) \<Rightarrow> bool" where
  "elems_done k fss each \<longleftrightarrow> (\<forall>es b. bwf b \<longrightarrow> 0 < b_pos b \<longrightarrow>
     (\<exists>es' b' qs. each es b = Some (es', b') \<and> bwf b' \<and> b_rootOffset b' = b_rootOffset b \<and> same_off {} (live b) (live b') \<and>
        ne_positions es' = ne_positions es @ qs \<and>
        list_all2 (\<lambda>q fs. b_pos b \<le> q \<and> q < b_pos b' \<and> q + int k \<le> int (length (live b')) \<and> fields_at (live b') q k fs) qs fss))"

lemma elems_doneD:
  "elems_done k fss each \<Longrightarrow> bwf b \<Longrightarrow> 0 < b_pos b \<Longrightarrow>
     \<exists>es' b' qs. each es b = Some (es', b') \<and> bwf b' \<and> b_rootOffset b' = b_rootOffset b \<and> same_off {} (live b) (live b') \<and>
        ne_positions es' = ne_positions es @ qs \<and>
        list_all2 (\<lambda>q fs. b_pos b \<le> q \<and> q < b_pos b' \<and> q + int k \<le> int (length (live b')) \<and> fields_at (live b') q k fs) qs fss"
  by (simp add: elems_done_def)

lemma elems_done_Nil: "elems_done k [] (\<lambda>es b. Some (es, b))"
  by (simp add: elems_done_def)

lemma elems_done_Cons:
  assumes init: "inits init k fs" and k: "0 < k" and rest: "elems_done k fss each"
  shows "elems_done k (fs # fss) (\<lambda>es b. do { (es1, b1) \<leftarrow> NestedElem_Append (sch k) es init b; each es1 b1 })"
  unfolding elems_done_def
proof (intro allI impI)
  fix es :: NestedElemSetter and b assume b: "bwf b" "0 < b_pos b"
  obtain b1 ob b2 where i: "StartObject b (int k) = Some (b1, ob)" "init \<lparr>st_ob = ob\<rparr> b1 = Some b2"
    "ob_startPos ob = b_pos b + pad8 (b_pos b)" "bwf b2" "b_rootOffset b2 = b_rootOffset b"
    "same_off {} (live b) (live b2)" "ob_startPos ob + int k \<le> int (length (live b2))" "fields_at (live b2) (ob_startPos ob) k fs"
    using init_object [OF b init] by blast
  let ?q = "ob_startPos ob" and ?es = "es\<lparr>ne_positions := ne_positions es @ [ob_startPos ob]\<rparr>"
  have app: "NestedElem_Append (sch k) es init b = Some (?es, b2)"
    using i(1,2) by (simp add: NestedElem_Append_def ObjectBuilder_Finish_def)
  have pos: "b_pos b \<le> b_pos b2" using same_off_pos [OF b(1) i(4,6)] .
  obtain es' b' qs where r: "each ?es b2 = Some (es', b')" "bwf b'" "b_rootOffset b' = b_rootOffset b2" "same_off {} (live b2) (live b')"
    "ne_positions es' = ne_positions ?es @ qs"
    "list_all2 (\<lambda>q fs. b_pos b2 \<le> q \<and> q < b_pos b' \<and> q + int k \<le> int (length (live b')) \<and> fields_at (live b') q k fs) qs fss"
    using elems_doneD [OF rest i(4), of ?es] pos b(2) by auto
  have l: "length (live b2) \<le> length (live b')" using r(4) by (simp add: same_off_def)
  have "fields_at (live b') ?q k fs" using at_same(1) [OF i(8) r(4)] by simp
  moreover have "b_pos b \<le> ?q" using i(3) pad8_bounds(1) [of "b_pos b"] by linarith
  moreover have "?q + int k \<le> int (length (live b'))" "?q < b_pos b'" using i(7) l k pos_eq_live [OF r(2)] by linarith+
  moreover have "list_all2 (\<lambda>q fs. b_pos b \<le> q \<and> q < b_pos b' \<and> q + int k \<le> int (length (live b')) \<and> fields_at (live b') q k fs) qs fss"
    using r(6) pos by (elim list_all2_mono) auto
  ultimately show "\<exists>es' b' qs. (do { (es1, b1) \<leftarrow> NestedElem_Append (sch k) es init b; each es1 b1 }) = Some (es', b') \<and> bwf b' \<and>
      b_rootOffset b' = b_rootOffset b \<and> same_off {} (live b) (live b') \<and> ne_positions es' = ne_positions es @ qs \<and>
      list_all2 (\<lambda>q fs. b_pos b \<le> q \<and> q < b_pos b' \<and> q + int k \<le> int (length (live b')) \<and> fields_at (live b') q k fs) qs (fs # fss)"
    using app r same_off_trans [OF i(6) r(4)] i(5)
    by (intro exI [of _ es'] exI [of _ b'] exI [of _ "?q # qs"]) simp
qed

lemma WriteListNested_fills:
  assumes b: "bwf b" and p: "0 < ob_startPos (st_ob st)" "ob_startPos (st_ob st) + int n \<le> b_pos b"
    and o1: "o1 + 8 \<le> n" "n < 2 ^ 31" and each: "elems_done k fss each"
  shows "fills b (WriteListNested (sch n) st (of_nat o1) each b)
    {ob_startPos (st_ob st) + int o1..<ob_startPos (st_ob st) + int o1 + 8}
    (\<lambda>d. field_at d (ob_startPos (st_ob st) + int n) (ob_startPos (st_ob st) + int o1) (Subs k fss))"
proof -
  let ?p = "ob_startPos (st_ob st)" and ?lo = "ob_startPos (st_ob st) + int n"
  have "0 < b_pos b" using p by linarith
  then obtain es b2 qs where i: "each \<lparr>ne_positions = []\<rparr> b = Some (es, b2)" "bwf b2" "b_rootOffset b2 = b_rootOffset b"
    "same_off {} (live b) (live b2)" "ne_positions es = qs"
    "list_all2 (\<lambda>q fs. b_pos b \<le> q \<and> q < b_pos b2 \<and> q + int k \<le> int (length (live b2)) \<and> fields_at (live b2) q k fs) qs fss"
    using elems_doneD [OF each b, of "\<lparr>ne_positions = []\<rparr>"] by auto
  have u: "uint (of_nat o1 :: u32) = int o1" using o1 by (intro uint_offset) linarith
  have pos2: "b_pos b \<le> b_pos b2" using same_off_pos [OF b i(2,4)] .
  have len: "length qs = length fss" using list_all2_lengthD [OF i(6)] .
  have op: "op_in (int n) (OpList (int o1) x y)" for x y using o1 by (simp add: op_in_def)
  show ?thesis
  proof (cases "fss = []")
    case True
    then have "WriteListNested (sch n) st (of_nat o1) each b = run_op b2 (st_ob st) (OpList (int o1) 0 0)"
      using reserved [OF p(2)] i(1,5) len u by (simp add: WriteListNested_def)
    moreover have "?p + int n \<le> b_pos b2" using pos2 p(2) by linarith
    ultimately obtain b3 where "WriteListNested (sch n) st (of_nat o1) each b = Some b3" "bwf b3" "b_rootOffset b3 = b_rootOffset b2"
      "same_off {?p + int o1..<?p + int o1 + 8} (live b2) (live b3)" "bytes_at (live b3) (?p + int o1) (le32 0 @ le32 0)"
      using write_slot [OF i(2) _ _ op, of "st_ob st" 0 0] p(1) by (auto simp: fills_def)
    then show ?thesis using True i(3) same_off_trans [OF i(4)] by (fastforce simp: fills_def)
  next
    case False
    obtain b3 where b3: "align b2 8 = Some b3" "bwf b3" "b_rootOffset b3 = b_rootOffset b2"
      "live b3 = live b2 @ replicate (nat (pad8 (b_pos b2))) 0"
      using align_live [OF i(2), of 8] by (auto simp: becomes_def pad8_def)
    have pos3: "b_pos b3 = b_pos b2 + pad8 (b_pos b2)" "b_pos b2 \<le> b_pos b3"
      using pos_eq_live [OF b3(2)] pos_eq_live [OF i(2)] b3(4) pad8_bounds(1) [of "b_pos b2"] by simp_all
    have nz: "\<forall>q \<in> set qs. q \<noteq> 0" 
    proof
      fix q assume "q \<in> set qs"
      then obtain j where "j < length qs" "q = qs ! j" by (metis in_set_conv_nth)
      then have "b_pos b \<le> q" using list_all2_nthD [OF i(6)] by blast
      then show "q \<noteq> 0" using \<open>0 < b_pos b\<close> by linarith
    qed
    obtain b4 lb where b4: "add_ptrs b3 \<lparr>lb_startPos = b_pos b3, lb_count = 0\<rparr> qs = Some (b4, lb)" "bwf b4" "b_rootOffset b4 = b_rootOffset b3"
      "lb_startPos lb = b_pos b3" "lb_count lb = int (length fss)" "live b4 = live b3 @ ptrs (b_pos b3) qs"
      using add_ptrs_live [OF b3(2) nz, of "\<lparr>lb_startPos = b_pos b3, lb_count = 0\<rparr>"] len by auto
    have s24: "same_off {} (live b2) (live b4)" unfolding b4(6) b3(4) append.assoc by (rule same_off_append)
    have w: "WriteListNested (sch n) st (of_nat o1) each b = run_op b4 (st_ob st) (OpList (int o1) (b_pos b3) (int (length fss)))"
      using reserved [OF p(2)] i(1,5) len False u b3(1) b4(1,4,5)
      by (auto simp: WriteListNested_def StartList_def Alignment_def ListBuilder_Finish_def)
    have pos4: "?p + int n \<le> b_pos b4" using same_off_pos [OF i(2) b4(2) s24] pos2 p(2) by linarith
    obtain b5 where b5: "WriteListNested (sch n) st (of_nat o1) each b = Some b5" "bwf b5" "b_rootOffset b5 = b_rootOffset b4"
      "same_off {?p + int o1..<?p + int o1 + 8} (live b4) (live b5)"
      "bytes_at (live b5) (?p + int o1) (ptr (?p + int o1) (b_pos b3) @ le32 (of_nat (length fss)))"
      using write_slot [OF b4(2) _ pos4 op, of "b_pos b3" "int (length fss)"] p pos2 pos3(2) False w
      by (auto simp: fills_def ptr_def)
    have "list_all2 (\<lambda>q fs. ?lo \<le> q \<and> q < b_pos b2 \<and> q + int k \<le> int (length (live b4)) \<and> fields_at (live b4) q k fs) qs fss"
      using i(6)
    proof (rule list_all2_mono)
      fix q fs assume h: "b_pos b \<le> q \<and> q < b_pos b2 \<and> q + int k \<le> int (length (live b2)) \<and> fields_at (live b2) q k fs"
      then have "fields_at (live b4) q k fs" using at_same(1) [OF _ s24] by simp
      then show "?lo \<le> q \<and> q < b_pos b2 \<and> q + int k \<le> int (length (live b4)) \<and> fields_at (live b4) q k fs"
        using h p(2) s24 by (simp add: same_off_def)
    qed
    then have "elems_at (live b4) ?lo (b_pos b3) k fss"
      by (rule elems_at_ptrs [where ys = "[]"]) (use pos3(2) pos_eq_live [OF b3(2)] b4(6) in simp_all)
    then have "elems_at (live b5) ?lo (b_pos b3) k fss"
      using b5(4) by (rule at_same(3)) (use o1 p(2) pos2 pos3(2) in auto)
    moreover have "?lo \<le> b_pos b3" using p(2) pos2 pos3(2) by linarith
    moreover have "same_off {?p + int o1..<?p + int o1 + 8} (live b) (live b5)"
      using same_off_trans [OF same_off_trans [OF i(4) s24] b5(4)] by simp
    ultimately show ?thesis
      using b5 b4(3) b3(3) i(3) False unfolding fills_def by auto
  qed
qed

lemma fields_within: "wf_fields n fs \<Longrightarrow> slots_of fwidth p fs \<subseteq> {p..<p + int n}"
proof (induction fs)
  case (Cons f fs)
  then show ?case by (cases f) (auto simp: slots_of_Cons)
qed simp

lemma WriteBytes_fills:
  assumes b: "bwf b" and p: "0 < ob_startPos (st_ob st)" "ob_startPos (st_ob st) + int n \<le> b_pos b"
    and o1: "o1 + 8 \<le> n" "n < 2 ^ 31"
  shows "fills b (v1_WriteBytes st (of_nat o1) v b)
    {ob_startPos (st_ob st) + int o1..<ob_startPos (st_ob st) + int o1 + 8}
    (\<lambda>d. field_at d (ob_startPos (st_ob st) + int n) (ob_startPos (st_ob st) + int o1) (Blob v))"
proof -
  let ?op = "OpBytes (int o1) v"
  have u: "uint (of_nat o1 :: u32) = int o1" using o1 by (intro uint_offset) linarith
  have "op_in (int n) ?op" using o1 by (simp add: op_in_def)
  from write_op [OF b _ this p(2)] p(1)
  obtain b' where b': "run_op b (st_ob st) ?op = Some b'" "bwf b'" "b_rootOffset b' = b_rootOffset b"
    "same_off {ob_startPos (st_ob st) + int o1..<ob_startPos (st_ob st) + int o1 + 8} (live b) (live b')"
    "bytes_at (live b') (ob_startPos (st_ob st) + int o1) (op_cell (ob_startPos (st_ob st) + int o1) (b_pos b) ?op)"
    "bytes_at (live b') (b_pos b) v"
    by auto
  then show ?thesis using u p(2) by (auto simp: fills_def v1_WriteBytes_def ptr_def)
qed

lemma inits_put:
  assumes "wf_fields k fs"
    and "\<And>st b. bwf b \<Longrightarrow> 0 < ob_startPos (st_ob st) \<Longrightarrow> ob_startPos (st_ob st) + int k \<le> b_pos b \<Longrightarrow>
      fills b (put_fields k fs st b) (slots_of fwidth (ob_startPos (st_ob st)) fs) (\<lambda>d. fields_at d (ob_startPos (st_ob st)) k fs)"
  shows "inits (\<lambda>st b. put_fields k fs st b) k fs"
  unfolding inits_def
proof (intro allI impI)
  fix st :: Setter and b assume "bwf b" "0 < ob_startPos (st_ob st)" "ob_startPos (st_ob st) + int k \<le> b_pos b"
  from assms(2) [OF this]
  show "fills b (put_fields k fs st b) {ob_startPos (st_ob st)..<ob_startPos (st_ob st) + int k} (\<lambda>d. fields_at d (ob_startPos (st_ob st)) k fs)"
    using fields_within [OF assms(1), of "ob_startPos (st_ob st)"] unfolding fills_def by (auto intro: same_off_subset)
qed

lemma put_fills:
  "wf_fields n fs \<Longrightarrow> n < 2 ^ 31 \<Longrightarrow> bwf b \<Longrightarrow> 0 < ob_startPos (st_ob st) \<Longrightarrow> ob_startPos (st_ob st) + int n \<le> b_pos b \<Longrightarrow>
     fills b (put_fields n fs st b) (slots_of fwidth (ob_startPos (st_ob st)) fs) (\<lambda>d. fields_at d (ob_startPos (st_ob st)) n fs)"
  "wf_fval f \<Longrightarrow> o1 + fwidth f \<le> m \<Longrightarrow> m < 2 ^ 31 \<Longrightarrow> bwf b \<Longrightarrow> 0 < ob_startPos (st_ob st) \<Longrightarrow> ob_startPos (st_ob st) + int m \<le> b_pos b \<Longrightarrow>
     fills b (put_fval m o1 f st b) {ob_startPos (st_ob st) + int o1..<ob_startPos (st_ob st) + int o1 + int (fwidth f)}
       (\<lambda>d. field_at d (ob_startPos (st_ob st) + int m) (ob_startPos (st_ob st) + int o1) f)"
  "wf_elems k fss \<Longrightarrow> 0 < k \<Longrightarrow> k < 2 ^ 31 \<Longrightarrow> elems_done k fss (put_elems k fss)"
proof (induction n fs and f and k fss arbitrary: st b and o1 m st b and rule: wf_fields_wf_fval_wf_elems.induct)
  case (1 n)
  then show ?case by (simp add: fills_def)
next
  case (2 n o1 f fs)
  let ?p = "ob_startPos (st_ob st)"
  have w: "o1 + fwidth f \<le> n" "wf_fval f" "\<forall>(o2, g) \<in> set fs. apart o1 (fwidth f) o2 (fwidth g)" "wf_fields n fs" using 2(3) by simp_all
  obtain b1 where b1: "put_fval n o1 f st b = Some b1" "bwf b1" "b_rootOffset b1 = b_rootOffset b"
    "same_off {?p + int o1..<?p + int o1 + int (fwidth f)} (live b) (live b1)" "field_at (live b1) (?p + int n) (?p + int o1) f"
    using 2(1) [OF w(2,1) 2(4-7)] by (auto simp: fills_def)
  have "?p + int n \<le> b_pos b1" using same_off_pos [OF 2(5) b1(2,4)] 2(7) by linarith
  then obtain b' where b': "put_fields n fs st b1 = Some b'" "bwf b'" "b_rootOffset b' = b_rootOffset b1"
    "same_off (slots_of fwidth ?p fs) (live b1) (live b')" "fields_at (live b') ?p n fs"
    using 2(2) [OF w(4) 2(4) b1(2) 2(6)] by (auto simp: fills_def)
  have "field_at (live b') (?p + int n) (?p + int o1) f"
    using b1(5) b'(4)
  proof (rule at_same(2))
    show "i \<notin> slots_of fwidth ?p fs" if "?p + int n \<le> i" for i using fields_within [OF w(4), of ?p] that by auto
    show "i \<notin> slots_of fwidth ?p fs" if "?p + int o1 \<le> i" "i < ?p + int o1 + int (fwidth f)" for i
      using slots_apart [OF w(3) that] .
  qed
  then show ?case using b1 b' same_off_trans [OF b1(4) b'(4)] by (simp add: fills_def slots_of_Cons)
next
  case (3 v)
  then have w: "length v \<in> {1, 2, 4, 8}" "o1 < 2 ^ 31" by auto
  note sf = scalar_op_facts [OF w(1), where ?o1.0 = o1]
  have "op_in (int m) (scalar_op o1 v)" using 3 by (simp add: op_in_def sf)
  from write_slot [OF 3(4) _ 3(6) this sf(3)] show ?case using 3(5) by (simp add: sf sf(5) [OF w(2)])
next
  case (4 v)
  then show ?case using WriteBytes_fills [OF 4(4,5,6)] by simp
next
  case (5 k fs)
  have "inits (\<lambda>st' b'. put_fields k fs st' b') k fs" using 5(1,2) by (intro inits_put) simp_all
  then show ?case using WriteNested_fills [OF 5(5,6,7)] 5(3,4) by simp
next
  case (6 k fss)
  then show ?case using WriteList_fills [OF 6(4,5,6)] by simp
next
  case (7 k fss)
  then show ?case using WriteListNested_fills [OF 7(5,6,7)] by simp
next
  case (8 k)
  then show ?case using elems_done_Nil by simp
next
  case (9 k fs fss)
  have "inits (\<lambda>st' b'. put_fields k fs st' b') k fs" using 9(1,3,5) by (intro inits_put) simp_all
  from elems_done_Cons [OF this 9(4) 9(2)] show ?case using 9(3-5) by simp
qed

section \<open>Reading\<close>

text \<open>The view of the object at \<open>p\<close> with a fixed section of \<open>n\<close> bytes.\<close>

definition is_view :: "bytes \<Rightarrow> int \<Rightarrow> nat \<Rightarrow> View \<Rightarrow> bool" where
  "is_view d p n v \<longleftrightarrow> view_in d v \<and> v_rootOff v = p \<and> length (v_payload v) = n \<and> 16 \<le> p"

lemma is_view_lit:
  "16 \<le> q \<Longrightarrow> q + int k \<le> int (length d) \<Longrightarrow> int (length d) < 2 ^ 31 \<Longrightarrow>
     \<exists>w. view_lit d q (q + int k) = Some w \<and> is_view d q k w \<and> \<not> View_IsZero w"
  using view_lit_in [of q "q + int k" d] by (auto simp: is_view_def view_in_def View_IsZero_def)

lemma is_view_bounds:
  assumes "is_view d p n v"
  shows "slice_at d p (p + int n) = Some (v_payload v)" "p + int n \<le> int (length d)" "v_data v = Some d"
    "asObject v = \<lparr>o_msg = Some \<lparr>msg_data = d, msg_refs = None\<rparr>, o_offset = p\<rparr>" "16 \<le> p"
  using assms view_in_bounds [of d v] by (auto simp: is_view_def view_in_def)

lemma Read_at:
  assumes v: "is_view d p n v" and x: "bytes_at d (p + int o1) x" and o1: "o1 + length x \<le> n" "n < 2 ^ 31"
  shows "Read (length x) v (At (of_nat o1)) = Some x"
proof -
  have u: "uint (of_nat o1 :: u32) = int o1" using o1 by (intro uint_offset) linarith
  have "slice_at (v_payload v) (int o1) (int o1 + int (length x)) = Some x"
    using slice_within [OF is_view_bounds(1) [OF v], of "p + int o1" "p + int o1 + int (length x)"] x o1(1)
    by (simp add: bytes_at_def)
  moreover have "length (v_payload v) = n" using v by (simp add: is_view_def)
  ultimately show ?thesis using o1(1) u by (simp add: Read_def At_def)
qed

lemma reads_scalars_at:
  "is_view d p n v \<Longrightarrow> n < 2 ^ 31 \<Longrightarrow> wf_scalars n fs \<Longrightarrow> scalars_at d p fs \<Longrightarrow> reads_scalars v fs"
proof (induction fs)
  case (Cons f fs)
  then show ?case using Read_at [OF Cons.prems(1)] by (cases f) auto
qed simp

lemma ptr_get:
  assumes "bytes_at d s (ptr s q)" and "- (2 ^ 31) \<le> q - s" "q - s < 2 ^ 31"
  obtains w where "get_u32 d s = Some w" "sint w = q - s"
  using assms word32_int(2) [of "q - s"] by (auto simp: bytes_at_def ptr_def get_u32_def)

lemma pair_get:
  assumes "bytes_at d s (ptr s q @ le32 c)"
  shows "get_u32 d s = Some (word_of_int (q - s))" "get_u32 d (s + 4) = Some c"
  using get_u32_pair [of d s "word_of_int (q - s)" c] assms by (simp_all add: bytes_at_def ptr_def)

lemma zero_get:
  assumes "bytes_at d s (le32 0 @ le32 0)"
  shows "get_u32 d s = Some 0" "s + 8 \<le> int (length d)"
  using get_u32_pair [of d s 0 0] assms slice_in_range [of d s "s + 8"] by (simp_all add: bytes_at_def)

lemma NestedAt_at:
  assumes v: "is_view d p n v" and len: "int (length d) < 2 ^ 31" and q: "p + int n \<le> q" and o1: "o1 + 4 \<le> n" "n < 2 ^ 31"
    and s: "bytes_at d (p + int o1) (ptr (p + int o1) q)" and k: "0 < k" "q + int k \<le> int (length d)"
  shows "\<exists>w. NestedAt (sch k) v (of_nat o1) = Some w \<and> is_view d q k w \<and> \<not> View_IsZero w"
proof -
  note vb = is_view_bounds [OF v]
  have u: "uint (of_nat o1 :: u32) = int o1" using o1 by (intro uint_offset) linarith
  let ?s = "p + int o1"
  have d: "?s + 4 \<le> q" "q < 2 ^ 31" "0 \<le> ?s" "16 \<le> q" using q o1 vb(5) k len by linarith+
  then obtain w where w: "get_u32 d ?s = Some w" "sint w = q - ?s" using ptr_get [OF s] by auto
  obtain x where x: "view_lit d q (q + int k) = Some x" "is_view d q k x" "\<not> View_IsZero x"
    using is_view_lit [OF d(4) k(2) len] by blast
  have "Object_Object (asObject v) (int o1) = Some \<lparr>o_msg = Some \<lparr>msg_data = d, msg_refs = None\<rparr>, o_offset = q\<rparr>"
    using w d k len by (simp add: Object_Object_def vb(4) Let_def HeaderSize_def)
  then show ?thesis using x u d k vb(3) by (simp add: NestedAt_def Object_IsNull_def)
qed

lemma uint_ucast64: "uint (ucast x :: u64) = uint (x :: u32)"
  using uint_lt2p [of x] by (simp add: unsigned_ucast_eq take_bit_int_eq_self)

text \<open>The list field at a slot, for both kinds of lists.\<close>

lemma ListStride_at:
  assumes v: "is_view d p n v" and len: "int (length d) < 2 ^ 31" and q: "p + int n \<le> q" and o1: "o1 + 8 \<le> n" "n < 2 ^ 31"
    and s: "bytes_at d (p + int o1) (ptr (p + int o1) q @ le32 (of_nat c))" and c: "0 < c" "0 < k" "k < 2 ^ 31" "q + int c * int k \<le> int (length d)"
  shows "\<exists>raw. Object_ListStride (asObject v) (int o1) (word_of_int (int k)) = Some raw \<and> \<not> List_IsNull raw \<and>
    int32 (rawListOffset raw) = q \<and> int32 (List_Len raw) = int c"
proof -
  note vb = is_view_bounds [OF v]
  let ?s = "p + int o1"
  have ck: "int c * 1 \<le> int c * int k" using c(2) by (intro mult_left_mono) simp_all
  then have d: "?s + 8 \<le> q" "q < 2 ^ 31" "0 \<le> ?s" "16 \<le> q" "int c < 2 ^ 31" "q < int (length d)"
    using q o1 vb(5) c len by linarith+
  have g: "get_u32 d ?s = Some (word_of_int (q - ?s))" "get_u32 d (?s + 4) = Some (of_nat c)" using pair_get [OF s] .
  have w: "sint (word_of_int (q - ?s) :: u32) = q - ?s" using d by (intro word32_int(2)) linarith+
  have uc: "uint (of_nat c :: u32) = int c" using d(5) by (intro uint_offset) simp
  have uk: "uint (word_of_int (int k) :: u32) = int k" using c(3) by (intro word32_int(1)) simp_all
  have prod: "uint ((ucast (of_nat c :: u32) :: u64) * ucast (word_of_int (int k) :: u32)) = int c * int k"
  proof -
    have "int c * int k < 2 ^ 64" using c(4) len d(4) by simp
    moreover have "uint (ucast (of_nat c :: u32) :: u64) = int c" "uint (ucast (word_of_int (int k) :: u32) :: u64) = int k"
      using uc uk uint_ucast64 by metis+
    ultimately show ?thesis by (simp add: uint_word_ariths(3))
  qed
  have rem: "uint (word_of_int (int (length d) - q) :: u64) = int (length d) - q"
    by (rule word64_int) (use d(4,6) len in simp_all)
  have fits: "\<not> (ucast (of_nat c :: u32) :: u64) * ucast (word_of_int (int k) :: u32) > word_of_int (int (length d) - q)"
    using prod rem c(4) by (simp only: word_less_def not_less)
  have pos: "(word_of_int (int k) :: u32) > 0" using uk c(2) by (simp only: word_less_def uint_0_eq)
  have "Object_ListStride (asObject v) (int o1) (word_of_int (int k)) =
      Some \<lparr>l_msg = Some \<lparr>msg_data = d, msg_refs = None\<rparr>, l_offset = q, l_length = int c\<rparr>"
  proof -
    have a: "?s + (q - ?s) = q" by simp
    show ?thesis
      unfolding Object_ListStride_def vb(4)
      using g w d fits pos uc by (simp only: Let_def HeaderSize_def a Object.select_convs Message.select_convs Option.bind.simps) auto
  qed
  then show ?thesis
    using c(1) d int32_id [of q] int32_id [of "int c"]
    by (simp add: List_IsNull_def rawListOffset_def List_Len_def List_Object_def)
qed

lemma null_list_at:
  assumes v: "is_view d p n v" and s: "bytes_at d (p + int o1) (le32 0 @ le32 0)"
  shows "Object_ListStride (asObject v) (int o1) k = Some null_list"
  using zero_get [OF s] by (simp add: Object_ListStride_def is_view_bounds(4) [OF v] Let_def)

lemma Bytes_at:
  assumes v: "is_view d p n v" and len: "int (length d) < 2 ^ 31" and o1: "o1 + 8 \<le> n"
    and f: "field_at d (p + int n) (p + int o1) (Blob x)"
  shows "read_bytes v o1 = Some (if x = [] then None else Some x)"
proof (cases "x = []")
  case True
  then have "bytes_at d (p + int o1) (le32 0 @ le32 0)" using f by simp
  then show ?thesis
    using True zero_get [of d "p + int o1"] by (simp add: read_bytes_def Object_Bytes_def is_view_bounds(4) [OF v] Let_def)
next
  case False
  note vb = is_view_bounds [OF v]
  let ?s = "p + int o1"
  obtain q where q: "p + int n \<le> q" "bytes_at d ?s (ptr ?s q @ le32 (of_nat (length x)))" "bytes_at d q x" using f False by auto
  have e: "q + int (length x) \<le> int (length d)" using q(3) slice_in_range by (simp add: bytes_at_def)
  have d: "0 < q - ?s" "q - ?s < 2 ^ 31" "?s + 8 \<le> int (length d)" "int (length x) < 2 ^ 31" "16 \<le> q" "0 \<le> ?s"
    using q(1) e o1 vb(2,5) len by linarith+
  have u: "uint (word_of_int (q - ?s) :: u32) = q - ?s" "(word_of_int (q - ?s) :: u32) \<noteq> 0"
    using d by (intro word32_int(1) word32_ne_0; simp)+
  have ul: "uint (of_nat (length x) :: u32) = int (length x)" using d(4) by (intro uint_offset) simp
  have a: "?s + (q - ?s) = q" by simp
  have "Object_Bytes (asObject v) (int o1) = Some (Some x)"
    unfolding Object_Bytes_def vb(4)
    using pair_get [OF q(2)] u ul d e q(3) [unfolded bytes_at_def]
    by (simp only: Let_def HeaderSize_def Object.select_convs Message.select_convs Option.bind.simps a) auto
  then show ?thesis using False by (simp add: read_bytes_def)
qed

lemma slots_at_end: "slots_at d q k fss \<Longrightarrow> fss \<noteq> [] \<Longrightarrow> q + int (length fss) * int k \<le> int (length d)"
proof (induction fss arbitrary: q)
  case (Cons fs fss)
  then show ?case
  proof (cases "fss = []")
    case False
    then show ?thesis using Cons.IH [of "q + int k"] Cons.prems by (simp add: algebra_simps)
  qed simp
qed simp

lemma reads_slots_at:
  assumes "vl_data l = Some d" and "slots_at d (vl_offset l + i * int k) k fss" and "16 \<le> vl_offset l" and "0 \<le> i"
    and "i + int (length fss) \<le> vl_length l" and "int (length d) < 2 ^ 31" and "k < 2 ^ 31" and "\<forall>fs \<in> set fss. wf_scalars k fs"
  shows "reads_slots k l i fss"
  using assms
proof (induction fss arbitrary: i)
  case (Cons fs fss)
  let ?q = "vl_offset l + i * int k"
  have q: "16 \<le> ?q" "?q + int k \<le> int (length d)" "scalars_at d ?q fs" "slots_at d (vl_offset l + (i + 1) * int k) k fss"
    using Cons.prems(2-4) by (simp_all add: algebra_simps add_increasing2)
  obtain w where w: "view_lit d ?q (?q + int k) = Some w" "is_view d ?q k w" "\<not> View_IsZero w"
    using is_view_lit [OF q(1,2) Cons.prems(6)] by blast
  have "v1_List_At (sch k) l i = Some w"
    using w(1) q(1,2) Cons.prems(1,4,5) by (simp add: v1_List_At_def viewAt_def Let_def)
  moreover have "reads_scalars w fs" using reads_scalars_at [OF w(2) Cons.prems(7)] q(3) Cons.prems(8) by simp
  moreover have "reads_slots k l (i + 1) fss" using Cons.prems q(4) by (intro Cons.IH) simp_all
  ultimately show ?case using w(3) by simp
qed simp

lemma elems_at_end: "elems_at d lo s k fss \<Longrightarrow> fss \<noteq> [] \<Longrightarrow> s + int (length fss) * 4 \<le> int (length d)"
proof (induction fss arbitrary: s)
  case (Cons fs fss)
  have "s + 4 \<le> int (length d)" using Cons.prems slice_in_range by (fastforce simp: bytes_at_def)
  then show ?case using Cons.IH [of "s + 4"] Cons.prems by (cases "fss = []") simp_all
qed simp

lemma ListNested_At_at:
  assumes l: "ln_data l = Some d" "16 \<le> ln_offset l" and i: "0 \<le> i" "i < ln_length l" and len: "int (length d) < 2 ^ 31"
    and s: "s = ln_offset l + 4 * i" and q: "16 \<le> q" "q \<noteq> s" "bytes_at d s (ptr s q)" "q + int k \<le> int (length d)"
  shows "\<exists>w. ListNested_At (sch k) l i = Some w \<and> is_view d q k w \<and> \<not> View_IsZero w"
proof -
  have e: "s + 4 \<le> int (length d)" "0 \<le> s" using q(3) slice_in_range l(2) i(1) s by (fastforce simp: bytes_at_def)+
  obtain w where w: "get_u32 d s = Some w" "sint w = q - s" using ptr_get [OF q(3)] e q(1,4) len by auto
  obtain x where x: "view_lit d q (q + int k) = Some x" "is_view d q k x" "\<not> View_IsZero x"
    using is_view_lit [OF q(1,4) len] by blast
  have p: "ln_offset l + i * 4 = s" using s by simp
  have "ListNested_At (sch k) l i = Some x"
    using l(1) i w x(1) e q by (simp add: ListNested_At_def objPtrStride_def p HeaderSize_def)
  then show ?thesis using x by blast
qed

lemma reads_at:
  "wf_fields n fs \<Longrightarrow> n < 2 ^ 31 \<Longrightarrow> is_view d p n v \<Longrightarrow> fields_at d p n fs \<Longrightarrow> int (length d) < 2 ^ 31 \<Longrightarrow> reads v fs"
  "wf_fval f \<Longrightarrow> o1 + fwidth f \<le> m \<Longrightarrow> m < 2 ^ 31 \<Longrightarrow> is_view d p m v \<Longrightarrow> field_at d (p + int m) (p + int o1) f \<Longrightarrow>
     int (length d) < 2 ^ 31 \<Longrightarrow> reads_fval v o1 f"
  "wf_elems k fss \<Longrightarrow> 0 < k \<Longrightarrow> k < 2 ^ 31 \<Longrightarrow> elems_at d lo (ln_offset l + 4 * i) k fss \<Longrightarrow> ln_data l = Some d \<Longrightarrow> 16 \<le> lo \<Longrightarrow> lo \<le> ln_offset l \<Longrightarrow>
     0 \<le> i \<Longrightarrow> i + int (length fss) \<le> ln_length l \<Longrightarrow> int (length d) < 2 ^ 31 \<Longrightarrow> reads_elems k l i fss"
proof (induction n fs and f and k fss arbitrary: p v and o1 m p v and lo l i rule: wf_fields_wf_fval_wf_elems.induct)
  case (2 n o1 f fs)
  then show ?case by auto
next
  case (3 x)
  then show ?case using Read_at [OF 3(4)] by simp
next
  case (4 x)
  then show ?case using Bytes_at [OF 4(4,6)] by simp
next
  case (5 k fs)
  then obtain q where q: "p + int m \<le> q" "bytes_at d (p + int o1) (ptr (p + int o1) q)" "q + int k \<le> int (length d)" "fields_at d q k fs"
    by auto
  obtain w where w: "NestedAt (sch k) v (of_nat o1) = Some w" "is_view d q k w" "\<not> View_IsZero w"
    using NestedAt_at [OF 5(5,7) q(1) _ 5(4) q(2) _ q(3)] 5(2,3) by auto
  have "reads w fs" using 5(1) [OF _ _ w(2) q(4) 5(7)] 5(2) by simp
  then show ?case using w by simp
next
  case (6 k fss)
  have o1: "o1 + 8 \<le> m" "uint (of_nat o1 :: u32) = int o1" using 6(2,3) by (simp_all add: uint_offset)
  note vd = is_view_bounds(3) [OF 6(4)]
  show ?case
  proof (cases "fss = []")
    case True
    then have "ListAt (sch k) v (of_nat o1) = Some ZeroList"
      using null_list_at [OF 6(4)] 6(5) o1 vd by (simp add: ListAt_def null_list_def List_IsNull_def)
    then show ?thesis using True by (simp add: v1_Len_def ZeroList_def)
  next
    case False
    then obtain q where q: "p + int m \<le> q" "bytes_at d (p + int o1) (ptr (p + int o1) q @ le32 (of_nat (length fss)))" "slots_at d q k fss"
      using 6(5) by auto
    have e: "q + int (length fss) * int k \<le> int (length d)" using slots_at_end [OF q(3) False] .
    obtain raw where raw: "Object_ListStride (asObject v) (int o1) (word_of_int (int k)) = Some raw" "\<not> List_IsNull raw"
      "int32 (rawListOffset raw) = q" "int32 (List_Len raw) = int (length fss)"
      using ListStride_at [OF 6(4,6) q(1) o1(1) 6(3) q(2) _ _ _ e] 6(1) False by auto
    let ?l = "\<lparr>vl_data = Some d, vl_offset = q, vl_length = int (length fss)\<rparr>"
    have "ListAt (sch k) v (of_nat o1) = Some ?l"
      using raw o1(2) vd by (simp add: ListAt_def)
    moreover have "reads_slots k ?l 0 fss"
      by (rule reads_slots_at [where d = d]) (use q 6(1,6) is_view_bounds(5) [OF 6(4)] in simp_all)
    ultimately show ?thesis by (simp add: v1_Len_def)
  qed
next
  case (7 k fss)
  have o1: "o1 + 8 \<le> m" "uint (of_nat o1 :: u32) = int o1" using 7(3,4) by (simp_all add: uint_offset)
  note vd = is_view_bounds(3) [OF 7(5)]
  show ?case
  proof (cases "fss = []")
    case True
    then have "ListNestedAt v (of_nat o1) = Some ZeroListNested"
      using null_list_at [OF 7(5)] 7(6) o1 vd by (simp add: ListNestedAt_def null_list_def List_IsNull_def)
    then show ?thesis using True by (simp add: ListNested_Len_def ZeroListNested_def)
  next
    case False
    then obtain q where q: "p + int m \<le> q" "bytes_at d (p + int o1) (ptr (p + int o1) q @ le32 (of_nat (length fss)))" "elems_at d (p + int m) q k fss"
      using 7(6) by auto
    have e: "q + int (length fss) * int 4 \<le> int (length d)" using elems_at_end [OF q(3) False] by simp
    obtain raw where raw: "Object_ListStride (asObject v) (int o1) (word_of_int (int 4)) = Some raw" "\<not> List_IsNull raw"
      "int32 (rawListOffset raw) = q" "int32 (List_Len raw) = int (length fss)"
      using ListStride_at [OF 7(5,7) q(1) o1(1) 7(4) q(2) _ _ _ e] False by auto
    let ?l = "\<lparr>ln_data = Some d, ln_offset = q, ln_length = int (length fss)\<rparr>"
    have "ListNestedAt v (of_nat o1) = Some ?l"
      using raw o1(2) vd by (simp add: ListNestedAt_def objPtrStride_def)
    moreover have "reads_elems k ?l 0 fss"
      using 7(1) [of "p + int m" ?l 0] 7(2,7) q is_view_bounds(5) [OF 7(5)] by simp
    ultimately show ?thesis by (simp add: ListNested_Len_def)
  qed
next
  case (9 k fs fss)
  then obtain q where q: "lo \<le> q" "q \<noteq> ln_offset l + 4 * i" "bytes_at d (ln_offset l + 4 * i) (ptr (ln_offset l + 4 * i) q)"
    "q + int k \<le> int (length d)" "fields_at d q k fs" and r: "elems_at d lo (ln_offset l + 4 * (i + 1)) k fss"
    by (auto simp: algebra_simps)
  obtain w where w: "ListNested_At (sch k) l i = Some w" "is_view d q k w" "\<not> View_IsZero w"
    using ListNested_At_at [OF 9(7) _ 9(10) _ 9(12) refl _ q(2-4)] 9(8,9,11) q(1) by auto
  have "reads w fs" using 9(1) [OF _ 9(5) w(2) q(5) 9(12)] 9(3) by simp
  moreover have "reads_elems k l (i + 1) fss" using 9(2) [OF _ 9(4,5) r 9(7,8,9)] 9(3,10,11,12) by simp
  ultimately show ?case using w by simp
qed simp_all

section \<open>Whole messages\<close>

lemma same_off_take:
  assumes "same_off W d d'" and "k \<le> length d" and "\<And>i. i < int k \<Longrightarrow> i \<notin> W"
  shows "take k d' = take k d"
proof (rule nth_equalityI)
  have l: "length d \<le> length d'" using assms(1) by (simp add: same_off_def)
  then show "length (take k d') = length (take k d)" using assms(2) by simp
  fix i assume "i < length (take k d')"
  then have i: "i < k" by simp
  then have "d' ! nat (int i) = d ! nat (int i)"
    using same_off_nth [OF assms(1), of "int i"] assms(2,3) by simp
  then show "take k d' ! i = take k d ! i" using i by simp
qed

lemma bytes_at_byte: "0 \<le> p \<Longrightarrow> bytes_at d p [x] \<longleftrightarrow> p < int (length d) \<and> d ! nat p = x"
  by (cases "drop (nat p) d") (auto simp: bytes_at_def slice_at_def nat_add_distrib Cons_nth_drop_Suc [symmetric] nat_less_iff)

definition mkind :: "u8 \<Rightarrow> nat \<Rightarrow> string \<Rightarrow> v1_schema" where
  "mkind kd n nm = \<lparr>s_Kind = kd, s_Size = int n, s_Name = nm\<rparr>"

lemma Wrap_root:
  "root_fits out kd (int n) out 16 \<Longrightarrow> view_lit out 16 (16 + int n) = Some v \<Longrightarrow> Wrap (mkind kd n nm) out = Some (Inr v)"
  using Wrap_cases(2) [of "mkind kd n nm" out v] by (auto simp: mkind_def)

text \<open>Up to the finish: the kind byte is the first field of the root object.\<close>

lemma root_filled:
  assumes wf: "wf_fields n ((0, Scalar [kd]) # fs)" and n: "n < 2 ^ 31"
  shows "\<exists>b1 ob b2. startBuild (int n) kd = Some (b1, ob) \<and> put_fields n fs \<lparr>st_ob = ob\<rparr> b1 = Some b2 \<and>
    ob_startPos ob = 16 \<and> bwf b2 \<and> hdr_ok (live b2) \<and> 16 + int n \<le> int (length (live b2)) \<and>
    fields_at (live b2) 16 n ((0, Scalar [kd]) # fs)"
proof -
  let ?b = "NewBuilder (HeaderSize + int n)"
  have b: "bwf ?b" "b_pos ?b = 16" "hdr_ok (live ?b)" "pad8 16 = 0"
    using NewBuilder_facts [of "HeaderSize + int n"] by (simp_all add: builder_ready_def pad8_0)
  have "inits (\<lambda>st b. put_fields n ((0, Scalar [kd]) # fs) st b) n ((0, Scalar [kd]) # fs)"
    using put_fills(1) [OF wf n] by (intro inits_put wf)
  from init_object [OF b(1) _ this] obtain b0 ob b2 where s: "StartObject ?b (int n) = Some (b0, ob)"
    "put_fields n ((0, Scalar [kd]) # fs) \<lparr>st_ob = ob\<rparr> b0 = Some b2" "ob_startPos ob = 16" "bwf b2"
    "same_off {} (live ?b) (live b2)" "16 + int n \<le> int (length (live b2))" "fields_at (live b2) 16 n ((0, Scalar [kd]) # fs)"
    using b(2,4) by auto
  have "writeAt b0 ob 0 [kd] = SetUint8 b0 ob 0 kd" by (simp add: writeAt_def)
  with s(2) obtain b1 where b1: "SetUint8 b0 ob 0 kd = Some b1" "put_fields n fs \<lparr>st_ob = ob\<rparr> b1 = Some b2"
    by (auto simp: Write_def At_def bind_eq_Some_conv)
  have "take 6 (live b2) = take 6 (live ?b)" using same_off_take [OF s(5)] pos_eq_live [OF b(1)] b(2) by simp
  then have "hdr_ok (live b2)" using hdr_ok_take b(3) by blast
  then show ?thesis using s b1 by (simp add: startBuild_def)
qed

lemma root_finished:
  assumes b2: "bwf b2" "hdr_ok (live b2)" "16 + int n \<le> int (length (live b2))" and ob: "ob_startPos ob = 16"
  shows "\<exists>b3 b4 out. FinishAsRoot b2 ob = (b3, 16) \<and> Builder_Finish b3 = Some (b4, out) \<and> length out = length (live b2) \<and>
    same_off {8..<16} (live b2) out \<and> (int (length out) < 2 ^ 31 \<longrightarrow> ParseHeader out = Inr (out, 16))"
proof -
  let ?b3 = "b2\<lparr>b_rootOffset := 16\<rparr>"
  let ?h = "le32 (word_of_int 16) @ le32 (word_of_int (int (length (live b2))))"
  let ?out = "lput (live b2) 8 ?h"
  have b3: "FinishAsRoot b2 ob = (?b3, 16)" "bwf ?b3" "live ?b3 = live b2"
    using b2(1) ob by (simp_all add: FinishAsRoot_def Let_def ObjectBuilder_Finish_def bwf_def live_def)
  have l: "16 \<le> length (live b2)" using b2(3) by simp
  obtain b4 where b4: "Builder_Finish ?b3 = Some (b4, ?out)"
    using Builder_Finish_live [OF b3(2)] pos_eq_live [OF b2(1)] b3(3) l by auto
  have len: "length ?out = length (live b2)" using l by simp
  moreover have "same_off {8..<16} (live b2) ?out" using same_off_lput [of 8 ?h "live b2"] l by simp
  moreover have "ParseHeader ?out = Inr (?out, 16)" if "int (length ?out) < 2 ^ 31"
    using finished_parses [OF b2(2) l _ _ _ refl, of 16] that len
    by (auto simp: parse_header_agrees Message_Bytes_def)
  ultimately show ?thesis using b3(1) b4 by blast
qed


text \<open>A sample message: its bytes are few.\<close>

definition sample :: "(nat \<times> fval) list" where
  "sample = [(1, Scalar [42]), (8, Blob [104, 105]), (16, Sub 16 [(0, Scalar [1, 0, 0, 0]), (8, Blob [33])]),
     (24, Slots 8 [[(0, [5])], [(0, [6])]])]"

lemma sample_small: "map_option (\<lambda>(v, buf). length buf < 1000) (Build (mkind 7 32 []) (put_fields 32 sample)) = Some True"
  by code_simp


section \<open>Elements whose size is not a multiple of eight\<close>

text \<open>Two elements: the second one starts at the next multiple of eight, not at the stride.\<close>

definition two :: "u8 \<Rightarrow> u8 \<Rightarrow> (nat \<times> bytes) list list" where
  "two x y = [[(0, [x])], [(0, [y])]]"

lemma put_two:
  assumes k: "0 < k" "k < 2 ^ 31" "\<not> 8 dvd k" and b: "bwf b" "0 \<le> b_pos b" and q: "q = b_pos b + pad8 (b_pos b)"
  shows "\<exists>es b'. put_slots (two x y) \<lparr>es_stride = int k, es_count = 0, es_startPos = 0\<rparr> b = Some (es, b') \<and> bwf b' \<and>
    es_count es = 2 \<and> es_startPos es = q \<and> same_off {} (live b) (live b') \<and>
    bytes_at (live b') (q + int k) [0] \<and> q + 2 * int k \<le> int (length (live b'))"
proof -
  let ?es = "\<lparr>es_stride = int k, es_count = 0, es_startPos = 0\<rparr>"
  have wf: "wf_scalars k [(0, [z])]" for z using k(1) by simp
  have q0: "0 \<le> q" using b(2) pad8_bounds(1) [of "b_pos b"] q by linarith
  obtain es1 b2 where 1: "ElemSetter_Append ?es (put_scalars [(0, [x])]) b = Some (es1, b2)" "bwf b2" "es_stride es1 = int k"
    "es_count es1 = 1" "es_startPos es1 = q" "b_pos b2 = q + int k" "same_off {} (live b) (live b2)"
    using append_slot [OF wf k(2) b, of ?es x] q by auto
  define r where "r = b_pos b2 + pad8 (b_pos b2)"
  have "0 \<le> b_pos b2" using 1(6) q0 by simp
  then obtain es2 b3 where 2: "ElemSetter_Append es1 (put_scalars [(0, [y])]) b2 = Some (es2, b3)" "bwf b3" "es_count es2 = 2"
    "es_startPos es2 = q" "b_pos b3 = r + int k" "same_off {r..<r + 1} (live b2 @ replicate (nat (pad8 (b_pos b2) + int k)) 0) (live b3)"
    "same_off {} (live b2) (live b3)"
    using append_slot [OF wf k(2) 1(2) _ 1(3), of y] 1(4,5) unfolding r_def by (auto simp: slots_of_Cons)
  have "\<not> 8 dvd q + int k"
  proof
    assume "8 dvd q + int k"
    then have "int 8 dvd int k" using pad8_dvd [of "b_pos b"] q by (simp add: dvd_add_right_iff)
    then show False using k(3) by (simp only: of_nat_dvd_iff)
  qed
  then have r: "q + int k < r" using pad8_bounds(1) [of "b_pos b2"] pad8_dvd [of "b_pos b2"] 1(6) unfolding r_def
    by (cases "pad8 (b_pos b2) = 0") auto
  have l2: "int (length (live b2)) = q + int k" using pos_eq_live [OF 1(2)] 1(6) by simp
  then have l2': "length (live b2) = nat (q + int k)" by linarith
  have "live b3 ! nat (q + int k) = (live b2 @ replicate (nat (pad8 (b_pos b2) + int k)) 0) ! nat (q + int k)"
    using same_off_nth [OF 2(6), of "q + int k"] r l2 q0 k(1) r_def 1(6) by simp
  also have "\<dots> = 0" using l2' k(1) pad8_bounds(1) [of "b_pos b2"] by (simp add: nth_append)
  finally have "bytes_at (live b3) (q + int k) [0]"
    using bytes_at_byte [of "q + int k" "live b3" 0] pos_eq_live [OF 2(2)] 2(5) r q0 by simp
  moreover have "q + 2 * int k \<le> int (length (live b3))" using pos_eq_live [OF 2(2)] 2(5) r by simp
  moreover have "put_slots (two x y) ?es b = Some (es2, b3)" using 1(1) 2(1) by (simp add: two_def)
  ultimately show ?thesis using 2 same_off_trans [OF 1(7) 2(7)] by auto
qed

lemma two_written:
  assumes k: "0 < k" "k < 2 ^ 31" "\<not> 8 dvd k"
  shows "\<exists>b1 ob b2 q. startBuild 16 kd = Some (b1, ob) \<and> put_fields 16 [(8, Slots k (two x y))] \<lparr>st_ob = ob\<rparr> b1 = Some b2 \<and>
    ob_startPos ob = 16 \<and> bwf b2 \<and> hdr_ok (live b2) \<and> 32 \<le> q \<and> bytes_at (live b2) 16 [kd] \<and>
    bytes_at (live b2) 24 (ptr 24 q @ le32 2) \<and> bytes_at (live b2) (q + int k) [0] \<and> q + 2 * int k \<le> int (length (live b2))"
proof -
  obtain b1 ob where s: "startBuild 16 kd = Some (b1, ob)" "ob_startPos ob = 16" "bwf b1" "hdr_ok (live b1)"
    "32 \<le> int (length (live b1))" "bytes_at (live b1) 16 [kd]"
    using root_filled [of 16 kd "[]"] by auto
  define q where "q = b_pos b1 + pad8 (b_pos b1)"
  have pos: "32 \<le> b_pos b1" "32 \<le> q" using s(5) pos_eq_live [OF s(3)] pad8_bounds(1) [of "b_pos b1"] by (simp_all add: q_def)
  then obtain es b2 where p: "put_slots (two x y) \<lparr>es_stride = int k, es_count = 0, es_startPos = 0\<rparr> b1 = Some (es, b2)" "bwf b2"
    "es_count es = 2" "es_startPos es = q" "same_off {} (live b1) (live b2)" "bytes_at (live b2) (q + int k) [0]"
    "q + 2 * int k \<le> int (length (live b2))"
    using put_two [OF k s(3) _ q_def, of x y] by auto
  have "ob_startPos ob + int 16 \<le> b_pos b2" using same_off_pos [OF s(3) p(2,5)] pos s(2) by linarith
  from write_slot [OF p(2) _ this, of "OpList 8 q 2"] obtain b3 where b3: "run_op b2 ob (OpList 8 q 2) = Some b3" "bwf b3"
    "same_off {24..<32} (live b2) (live b3)" "bytes_at (live b3) 24 (ptr 24 q @ le32 2)"
    using s(2) pos by (auto simp: fills_def op_in_def ptr_def)
  have so: "same_off {24..<32} (live b1) (live b3)" using same_off_trans [OF p(5) b3(3)] by simp
  have "take 6 (live b3) = take 6 (live b1)" using so by (rule same_off_take) (use s(5) in auto)
  then have "hdr_ok (live b3)" using hdr_ok_take s(4) by blast
  moreover have "bytes_at (live b3) 16 [kd]" using s(6) so by (rule bytes_at_same) auto
  moreover have "bytes_at (live b3) (q + int k) [0]" using p(6) b3(3) by (rule bytes_at_same) (use pos in auto)
  moreover have "q + 2 * int k \<le> int (length (live b3))" using p(7) b3(3) by (simp add: same_off_def)
  moreover have "put_fields 16 [(8, Slots k (two x y))] \<lparr>st_ob = ob\<rparr> b1 = Some b3"
    using reserved [of ob 16 b1] pos(1) s(2) p(1,3,4) b3(1) by (simp add: WriteList_def)
  ultimately show ?thesis using s(1,2) b3 pos(2) by blast
qed

text \<open>C28. The elements of an inline list are misread when their size is not a multiple of eight: the writer
  starts every element with \<open>StartObject\<close>, which aligns it to eight bytes, while the reader finds the elements
  at multiples of their size. For every such size, with two elements of one byte each, whatever
  the bytes are, the message builds, \<open>Wrap\<close> accepts it, and the list has length two, but the second element
  reads as the zero byte of the padding.\<close>

theorem unaligned_elements_misread:
  assumes k: "0 < k" "k < 2 ^ 31" "\<not> 8 dvd k"
  shows "\<exists>v buf. Build (mkind kd 16 nm) (put_fields 16 [(8, Slots k (two x y))]) = Some (v, buf) \<and>
    (int (length buf) < 2 ^ 31 \<longrightarrow> Wrap (mkind kd 16 nm) buf = Some (Inr v) \<and>
      (\<exists>l w. ListAt (sch k) v 8 = Some l \<and> v1_Len l = 2 \<and> v1_List_At (sch k) l 1 = Some w \<and> \<not> View_IsZero w \<and>
        Read 1 w (At 0) = Some [0]))"
proof -
  obtain b1 ob b2 q where s: "startBuild 16 kd = Some (b1, ob)" "put_fields 16 [(8, Slots k (two x y))] \<lparr>st_ob = ob\<rparr> b1 = Some b2"
      "ob_startPos ob = 16" and b2: "bwf b2" "hdr_ok (live b2)" and q: "32 \<le> q" "bytes_at (live b2) 16 [kd]"
      "bytes_at (live b2) 24 (ptr 24 q @ le32 2)" "bytes_at (live b2) (q + int k) [0]" "q + 2 * int k \<le> int (length (live b2))"
    using two_written [OF k, of kd x y] by blast
  have "16 + int 16 \<le> int (length (live b2))" using q(1,5) by simp
  then obtain b3 b4 out where o: "FinishAsRoot b2 ob = (b3, 16)" "Builder_Finish b3 = Some (b4, out)" "length out = length (live b2)"
    "same_off {8..<16} (live b2) out" "int (length out) < 2 ^ 31 \<Longrightarrow> ParseHeader out = Inr (out, 16)"
    using root_finished [OF b2 _ s(3)] by blast
  have d: "bytes_at out 16 [kd]" "bytes_at out 24 (ptr 24 q @ le32 2)" "bytes_at out (q + int k) [0]" "q + 2 * int k \<le> int (length out)"
    using q bytes_at_same [OF q(2) o(4)] bytes_at_same [OF q(3) o(4)] bytes_at_same [OF q(4) o(4)] o(3) by simp_all
  obtain v where v: "view_lit out 16 (16 + int 16) = Some v"
    using d(4) q(1) by (auto simp: view_lit_def slice_at_def)
  have "Build (mkind kd 16 nm) (put_fields 16 [(8, Slots k (two x y))]) = Some (v, out)"
    using s o v d(4) q(1) by (auto simp: Build_def startBuild_def mkind_def viewAt_def Let_def bind_eq_Some_conv)
  moreover have "Wrap (mkind kd 16 nm) out = Some (Inr v)" if "int (length out) < 2 ^ 31"
  proof -
    have "root_fits out kd 16 out 16" using o(5) [OF that] d(1,4) q(1) by (simp add: root_fits_def bytes_at_byte)
    then show ?thesis using Wrap_root [of out kd 16 v nm] v by simp
  qed
  moreover have "\<exists>l w. ListAt (sch k) v 8 = Some l \<and> v1_Len l = 2 \<and> v1_List_At (sch k) l 1 = Some w \<and> \<not> View_IsZero w \<and>
      Read 1 w (At 0) = Some [0]" if len: "int (length out) < 2 ^ 31"
  proof -
    have iv: "is_view out 16 16 v" using is_view_lit [of 16 16 out] d(4) q(1) len v by auto
    obtain raw where raw: "Object_ListStride (asObject v) 8 (word_of_int (int k)) = Some raw" "\<not> List_IsNull raw"
      "int32 (rawListOffset raw) = q" "int32 (List_Len raw) = 2"
      using ListStride_at [OF iv len, of q 8 2 k] d q(1) k by auto
    then have l: "ListAt (sch k) v 8 = Some \<lparr>vl_data = Some out, vl_offset = q, vl_length = 2\<rparr>"
      using is_view_bounds(3) [OF iv] by (simp add: ListAt_def)
    obtain w where w: "view_lit out (q + int k) (q + int k + int k) = Some w" "is_view out (q + int k) k w" "\<not> View_IsZero w"
      using is_view_lit [of "q + int k" k out] d(4) q(1) len by auto
    then have "v1_List_At (sch k) \<lparr>vl_data = Some out, vl_offset = q, vl_length = 2\<rparr> 1 = Some w"
      using d(4) q(1) by (simp add: v1_List_At_def viewAt_def Let_def)
    moreover have "Read 1 w (At 0) = Some [0]" using Read_at [OF w(2), of 0 "[0]"] d(3) k by simp
    ultimately show ?thesis using l w(3) by (auto simp: v1_Len_def)
  qed
  ultimately show ?thesis by blast
qed

lemma two_small: "map_option (\<lambda>(v, buf). length buf < 1000) (Build (mkind 7 16 []) (put_fields 16 [(8, Slots 4 (two 5 6))])) = Some True"
  by code_simp

theorem unaligned_elements_misread_witness:
  "\<exists>v buf l w. Build (mkind 7 16 []) (put_fields 16 [(8, Slots 4 (two 5 6))]) = Some (v, buf) \<and> Wrap (mkind 7 16 []) buf = Some (Inr v) \<and>
     ListAt (sch 4) v 8 = Some l \<and> v1_Len l = 2 \<and> v1_List_At (sch 4) l 1 = Some w \<and> Read 1 w (At 0) = Some [0]"
  using unaligned_elements_misread [of 4 7 "[]" 5 6] two_small by fastforce

end
