(* ===== verification/Fwd_Http.thy ===== *)
theory Fwd_Http
  imports Dex_Calldata Zap_Node "HOL-Library.AList"
begin

text \<open>
  HTTP over ZAP (\<open>src/forward\<close>): the three envelopes, the identity headers and their removal, the client
  side as a round tripper, the serving side, the relay between them and the registry of reverse pushes.

  Go strings are byte lists. An \<open>http.Header\<close> is an association list with distinct keys, its order the order
  in which the runtime ranges over the map. \<open>http_lib\<close> collects what the package uses of \<open>encoding/json\<close>,
  \<open>net/url\<close>, \<open>net/http\<close> and the case mapping of strings outside ASCII; it is an argument of the
  definitions. A handler of package \<open>net/http\<close> is a function from the request to what it recorded, \<^term>\<open>None\<close>
  when it panics.
\<close>

unbundle bit_operations_syntax

named_theorems fwd_layout

section \<open>Envelopes (forward.go)\<close>

definition MsgTypeForward :: u16 where "MsgTypeForward = 0x80"
definition MsgTypePush :: u16 where "MsgTypePush = 0x81"

definition HeaderOrgID :: bytes where "HeaderOrgID = ascii ''X-Org-Id''"
definition HeaderUserID :: bytes where "HeaderUserID = ascii ''X-User-Id''"
definition HeaderUserIsAdmin :: bytes where "HeaderUserIsAdmin = ascii ''X-User-IsAdmin''"
definition HeaderUserPerms :: bytes where "HeaderUserPerms = ascii ''X-User-Permissions''"

definition fwdIsAdmin :: int where [fwd_layout]: "fwdIsAdmin = 0"
definition fwdPermissions :: int where [fwd_layout]: "fwdPermissions = 8"
definition fwdTenantID :: int where [fwd_layout]: "fwdTenantID = 16"
definition fwdUserID :: int where [fwd_layout]: "fwdUserID = 24"
definition fwdMethod :: int where [fwd_layout]: "fwdMethod = 32"
definition fwdPath :: int where [fwd_layout]: "fwdPath = 40"
definition fwdConnID :: int where [fwd_layout]: "fwdConnID = 48"
definition fwdHeaders :: int where [fwd_layout]: "fwdHeaders = 56"
definition fwdBody :: int where [fwd_layout]: "fwdBody = 64"
definition fwdSlotSize :: int where [fwd_layout]: "fwdSlotSize = 72"

definition respStatus :: int where [fwd_layout]: "respStatus = 0"
definition respBody :: int where [fwd_layout]: "respBody = 8"
definition respHeaders :: int where [fwd_layout]: "respHeaders = 16"
definition respSlotSize :: int where [fwd_layout]: "respSlotSize = 24"

definition pushConnID :: int where [fwd_layout]: "pushConnID = 0"
definition pushFrame :: int where [fwd_layout]: "pushFrame = 8"
definition pushEncoding :: int where [fwd_layout]: "pushEncoding = 16"
definition pushSlotSize :: int where [fwd_layout]: "pushSlotSize = 24"

text \<open>\<open>Permissions\<close> is an \<open>int64\<close> and \<open>Status\<close> an \<open>int\<close>.\<close>

record Forward =
  fw_TenantID :: bytes
  fw_UserID :: bytes
  fw_IsAdmin :: bool
  fw_Permissions :: int
  fw_Method :: bytes
  fw_Path :: bytes
  fw_Headers :: bytes
  fw_Body :: bytes
  fw_ConnID :: bytes

record Response =
  re_Status :: int
  re_Headers :: bytes
  re_Body :: bytes

record Push =
  pu_ConnID :: bytes
  pu_Frame :: bytes
  pu_Encoding :: bytes

definition BuildForward :: "Forward \<Rightarrow> (zap_error + Message) option" where
  "BuildForward f = buildFrame
     (fwdSlotSize + int (length (fw_Headers f)) + int (length (fw_Body f)) + int (length (fw_TenantID f)) +
      int (length (fw_UserID f)) + int (length (fw_Method f)) + int (length (fw_Path f)) + int (length (fw_ConnID f)) + 64)
     fwdSlotSize
     [OpBool fwdIsAdmin (fw_IsAdmin f),
      OpUint64 fwdPermissions (word_of_int (fw_Permissions f)),
      OpBytes fwdTenantID (fw_TenantID f),
      OpBytes fwdUserID (fw_UserID f),
      OpBytes fwdMethod (fw_Method f),
      OpBytes fwdPath (fw_Path f),
      OpBytes fwdConnID (fw_ConnID f),
      OpBytes fwdHeaders (fw_Headers f),
      OpBytes fwdBody (fw_Body f)] MsgTypeForward"

definition ReadForward :: "Message \<Rightarrow> Forward option" where
  "ReadForward msg = do {
     r \<leftarrow> Message_Root msg;
     vIsAdmin \<leftarrow> Object_Bool r fwdIsAdmin;
     vPermissions \<leftarrow> Object_Int64 r fwdPermissions;
     vTenantID \<leftarrow> Object_Text r fwdTenantID;
     vUserID \<leftarrow> Object_Text r fwdUserID;
     vMethod \<leftarrow> Object_Text r fwdMethod;
     vPath \<leftarrow> Object_Text r fwdPath;
     vConnID \<leftarrow> Object_Text r fwdConnID;
     vHeaders \<leftarrow> copyBytes r fwdHeaders;
     vBody \<leftarrow> copyBytes r fwdBody;
     Some \<lparr>fw_TenantID = vTenantID, fw_UserID = vUserID, fw_IsAdmin = vIsAdmin, fw_Permissions = vPermissions,
       fw_Method = vMethod, fw_Path = vPath, fw_Headers = vHeaders, fw_Body = vBody, fw_ConnID = vConnID\<rparr> }"

definition BuildResponse :: "Response \<Rightarrow> (zap_error + Message) option" where
  "BuildResponse r = buildFrame (respSlotSize + int (length (re_Body r)) + int (length (re_Headers r)) + 32) respSlotSize
     [OpUint32 respStatus (word_of_int (re_Status r)),
      OpBytes respBody (re_Body r),
      OpBytes respHeaders (re_Headers r)] MsgTypeForward"

definition ReadResponse :: "Message \<Rightarrow> Response option" where
  "ReadResponse msg = do {
     r \<leftarrow> Message_Root msg;
     vStatus \<leftarrow> Object_Uint32 r respStatus;
     vBody \<leftarrow> copyBytes r respBody;
     vHeaders \<leftarrow> copyBytes r respHeaders;
     Some \<lparr>re_Status = uint vStatus, re_Headers = vHeaders, re_Body = vBody\<rparr> }"

definition BuildPush :: "Push \<Rightarrow> (zap_error + Message) option" where
  "BuildPush p = buildFrame
     (pushSlotSize + int (length (pu_Frame p)) + int (length (pu_ConnID p)) + int (length (pu_Encoding p)) + 16) pushSlotSize
     [OpBytes pushConnID (pu_ConnID p),
      OpBytes pushFrame (pu_Frame p),
      OpBytes pushEncoding (pu_Encoding p)] MsgTypePush"

definition ReadPush :: "Message \<Rightarrow> Push option" where
  "ReadPush msg = do {
     r \<leftarrow> Message_Root msg;
     vConnID \<leftarrow> Object_Text r pushConnID;
     vFrame \<leftarrow> copyBytes r pushFrame;
     vEncoding \<leftarrow> Object_Text r pushEncoding;
     Some \<lparr>pu_ConnID = vConnID, pu_Frame = vFrame, pu_Encoding = vEncoding\<rparr> }"

section \<open>Strings and numbers\<close>

definition is_upper :: "byte \<Rightarrow> bool" where "is_upper c \<longleftrightarrow> 65 \<le> c \<and> c \<le> 90"
definition is_lower :: "byte \<Rightarrow> bool" where "is_lower c \<longleftrightarrow> 97 \<le> c \<and> c \<le> 122"
definition is_digit :: "byte \<Rightarrow> bool" where "is_digit c \<longleftrightarrow> 48 \<le> c \<and> c \<le> 57"

definition upper :: "byte \<Rightarrow> byte" where "upper c = (if is_lower c then c - 32 else c)"
definition lower :: "byte \<Rightarrow> byte" where "lower c = (if is_upper c then c + 32 else c)"

text \<open>\<open>strconv.ParseBool\<close> and \<open>strconv.ParseInt\<close> in base 10 with 64 bits, without their errors, which the code
  ignores: an unparsable boolean is false, a malformed number zero, and one out of range is the nearest
  value. The digit loop is that of \<open>ParseUint\<close>, which stops at the first error.\<close>

definition ParseBool :: "bytes \<Rightarrow> bool" where
  "ParseBool s \<longleftrightarrow> s \<in> set (map ascii [''1'', ''t'', ''T'', ''TRUE'', ''true'', ''True''])"

definition FormatBool :: "bool \<Rightarrow> bytes" where
  "FormatBool b = (if b then ascii ''true'' else ascii ''false'')"

datatype num = NumOk nat | NumRange | NumSyntax

fun ParseUint_loop :: "bytes \<Rightarrow> nat \<Rightarrow> num" where
  "ParseUint_loop [] n = NumOk n"
| "ParseUint_loop (c # cs) n =
     (if \<not> is_digit c then NumSyntax
      else if (2 ^ 64 - 1) div 10 + 1 \<le> n then NumRange
      else let n1 = n * 10 + unat (c - 48) in
           if 2 ^ 64 - 1 < n1 then NumRange else ParseUint_loop cs n1)"

definition ParseInt :: "bytes \<Rightarrow> int" where
  "ParseInt s =
     (let neg = (s \<noteq> [] \<and> hd s = 45);
          ds = (if s \<noteq> [] \<and> (hd s = 43 \<or> hd s = 45) then tl s else s)
      in case (if ds = [] then NumSyntax else ParseUint_loop ds 0) of
           NumSyntax \<Rightarrow> 0
         | r \<Rightarrow> let un = (case r of NumOk n \<Rightarrow> int n | _ \<Rightarrow> 2 ^ 64 - 1) in
               if \<not> neg \<and> 2 ^ 63 \<le> un then 2 ^ 63 - 1
               else if neg \<and> 2 ^ 63 < un then - (2 ^ 63)
               else if neg then - un else un)"

fun dec :: "nat \<Rightarrow> bytes" where
  "dec n = (if n < 10 then [of_nat (48 + n)] else dec (n div 10) @ [of_nat (48 + n mod 10)])"

declare dec.simps [simp del]

definition FormatInt :: "int \<Rightarrow> bytes" where
  "FormatInt i = (if i < 0 then 45 # dec (nat (- i)) else dec (nat i))"

section \<open>Headers (net/http)\<close>

type_synonym Header = "(bytes \<times> bytes list) list"

text \<open>\<open>tokenTable\<close> of serve.go, which is also the table of \<open>textproto.CanonicalMIMEHeaderKey\<close>: a key with any
  other byte is left as it is.\<close>

definition tokenTable :: "byte \<Rightarrow> bool" where
  "tokenTable c \<longleftrightarrow> c \<in> {33, 35, 36, 37, 38, 39, 42, 43, 45, 46, 94, 95, 96, 124, 126} \<or> is_digit c \<or> is_upper c \<or> is_lower c"

definition isHTTPToken :: "bytes \<Rightarrow> bool" where
  "isHTTPToken s \<longleftrightarrow> s \<noteq> [] \<and> list_all tokenTable s"

fun canon_loop :: "bool \<Rightarrow> bytes \<Rightarrow> bytes" where
  "canon_loop up [] = []"
| "canon_loop up (c # cs) = (let c' = (if up then upper c else lower c) in c' # canon_loop (c' = 45) cs)"

definition CanonicalHeaderKey :: "bytes \<Rightarrow> bytes" where
  "CanonicalHeaderKey s = (if list_all tokenTable s then canon_loop True s else s)"

definition Header_Values :: "Header \<Rightarrow> bytes \<Rightarrow> bytes list" where
  "Header_Values h key = (case map_of h (CanonicalHeaderKey key) of None \<Rightarrow> [] | Some vs \<Rightarrow> vs)"

definition Header_Get :: "Header \<Rightarrow> bytes \<Rightarrow> bytes" where
  "Header_Get h key = (case Header_Values h key of [] \<Rightarrow> [] | v # vs \<Rightarrow> v)"

definition Header_Del :: "Header \<Rightarrow> bytes \<Rightarrow> Header" where
  "Header_Del h key = AList.delete (CanonicalHeaderKey key) h"

definition Header_Set :: "Header \<Rightarrow> bytes \<Rightarrow> bytes \<Rightarrow> Header" where
  "Header_Set h key v = AList.update (CanonicalHeaderKey key) [v] h"

definition Header_Add :: "Header \<Rightarrow> bytes \<Rightarrow> bytes \<Rightarrow> Header" where
  "Header_Add h key v = AList.update (CanonicalHeaderKey key) (Header_Values h key @ [v]) h"

text \<open>
  \<open>json_marshal\<close> and \<open>json_unmarshal\<close> are \<open>encoding/json\<close> on \<open>map[string][]string\<close>, \<open>json_error\<close> the object with
  the one key \<open>error\<close>; \<open>parse_request_uri\<close> is \<open>url.ParseRequestURI\<close> followed by \<open>String\<close>; \<open>new_request\<close> is
  \<open>http.NewRequestWithContext\<close> on a method and a URL, with the path and raw query of the request's URL.
\<close>

record http_lib =
  json_marshal :: "Header \<Rightarrow> bytes option"
  json_unmarshal :: "bytes \<Rightarrow> Header option"
  json_error :: "bytes \<Rightarrow> bytes"
  parse_request_uri :: "bytes \<Rightarrow> bytes option"
  new_request :: "bytes \<Rightarrow> bytes \<Rightarrow> (bytes \<times> bytes) option"
  status_text :: "int \<Rightarrow> bytes"
  unicode_upper :: "bytes \<Rightarrow> bytes"
  unicode_streaming :: "bytes \<Rightarrow> bool"

definition ToUpper :: "http_lib \<Rightarrow> bytes \<Rightarrow> bytes" where
  "ToUpper lib s = (if list_all (\<lambda>c. c < 128) s then map upper s else unicode_upper lib s)"

definition HasPrefix :: "bytes \<Rightarrow> bytes \<Rightarrow> bool" where
  "HasPrefix s p \<longleftrightarrow> take (length p) s = p"

section \<open>Identity headers (identity.go)\<close>

definition clientIdentityHeaders :: "bytes list" where
  "clientIdentityHeaders = [HeaderOrgID, HeaderUserID, HeaderUserIsAdmin, HeaderUserPerms] @ map ascii
     [''X-Roles'', ''X-User-Email'', ''X-Phone-Number'',
      ''X-User-Role'', ''X-User-Roles'', ''X-User-Name'', ''X-Tenant-Id'', ''X-Org'', ''X-Is-Admin'',
      ''X-Gateway-Validated'', ''X-Gateway-User-Id'', ''X-Gateway-Org-Id'', ''X-Gateway-User-Email'']"

definition reserved_prefix :: "bytes \<Rightarrow> bool" where
  "reserved_prefix up \<longleftrightarrow> HasPrefix up (ascii ''X-IAM-'') \<or> HasPrefix up (ascii ''X-HANZO-'') \<or> HasPrefix up (ascii ''X-GATEWAY-'')"

text \<open>The second loop ranges over the keys the map had when it began: a key that an earlier step deleted is its
  own canonical form, and deleting it again changes nothing.\<close>

definition stripClientIdentity :: "http_lib \<Rightarrow> Header \<Rightarrow> Header" where
  "stripClientIdentity lib h =
     (let h1 = fold (\<lambda>name h. Header_Del h name) clientIdentityHeaders h;
          h2 = fold (\<lambda>key h. if reserved_prefix (ToUpper lib key) then Header_Del h key else h) (map fst h1) h1
      in Header_Del h2 (ascii ''Cookie''))"

section \<open>The client side (client.go)\<close>

record HttpRequest =
  hr_Method :: bytes
  hr_Path :: bytes
  hr_RawQuery :: bytes
  hr_Header :: "Header option"
  hr_Body :: "(unit + bytes) option"

record HttpResponse =
  ht_Status :: bytes
  ht_StatusCode :: int
  ht_Header :: Header
  ht_Body :: bytes
  ht_ContentLength :: int

datatype fwd_error = BodyErr | JsonErr | BuildErr zap_error | CallErr

definition requestToForward :: "http_lib \<Rightarrow> HttpRequest \<Rightarrow> fwd_error + Forward" where
  "requestToForward lib req =
     (case (case hr_Body req of None \<Rightarrow> Inr [] | Some r \<Rightarrow> r) of
        Inl e \<Rightarrow> Inl BodyErr
      | Inr body \<Rightarrow>
          let path0 = (if hr_Path req = [] then ascii ''/'' else hr_Path req);
              path = (if hr_RawQuery req \<noteq> [] then path0 @ ascii ''?'' @ hr_RawQuery req else path0);
              h = (case hr_Header req of None \<Rightarrow> [] | Some h \<Rightarrow> h);
              fwd = \<lparr>fw_TenantID = Header_Get h HeaderOrgID, fw_UserID = Header_Get h HeaderUserID,
                fw_IsAdmin = ParseBool (Header_Get h HeaderUserIsAdmin),
                fw_Permissions = ParseInt (Header_Get h HeaderUserPerms),
                fw_Method = hr_Method req, fw_Path = path, fw_Headers = [], fw_Body = body, fw_ConnID = []\<rparr>;
              h' = stripClientIdentity lib h
          in if h' \<noteq> [] then (case json_marshal lib h' of None \<Rightarrow> Inl JsonErr | Some j \<Rightarrow> Inr (fwd\<lparr>fw_Headers := j\<rparr>))
             else Inr fwd)"

text \<open>The two loops over a decoded header map, for the values that satisfy \<open>ok\<close>.\<close>

definition add_values :: "(bytes \<Rightarrow> bool) \<Rightarrow> bytes \<Rightarrow> bytes list \<Rightarrow> Header \<Rightarrow> Header" where
  "add_values ok k vs h = fold (\<lambda>v h. if ok v then Header_Add h k v else h) vs h"

definition responseFromEnvelope :: "http_lib \<Rightarrow> Response \<Rightarrow> HttpResponse" where
  "responseFromEnvelope lib r =
     (let header = (if re_Headers r = [] then []
                    else case json_unmarshal lib (re_Headers r) of
                           None \<Rightarrow> []
                         | Some hdrs \<Rightarrow> fold (\<lambda>(k, vs). add_values (\<lambda>v. True) k vs) hdrs []);
          status = (if re_Status r = 0 then 200 else re_Status r)
      in \<lparr>ht_Status = FormatInt status @ ascii '' '' @ status_text lib status, ht_StatusCode = status, ht_Header = header,
          ht_Body = re_Body r, ht_ContentLength = int (length (re_Body r))\<rparr>)"

text \<open>\<open>call peer msg\<close> is \<open>Node.Call\<close>.\<close>

definition RoundTrip :: "http_lib \<Rightarrow> (bytes \<Rightarrow> Message \<Rightarrow> fwd_error + Message) \<Rightarrow> bytes \<Rightarrow> HttpRequest \<Rightarrow>
    (fwd_error + HttpResponse) option" where
  "RoundTrip lib call peer req =
     (case requestToForward lib req of
        Inl e \<Rightarrow> Some (Inl e)
      | Inr fwd \<Rightarrow> do {
          b \<leftarrow> BuildForward fwd;
          case b of
            Inl e \<Rightarrow> Some (Inl (BuildErr e))
          | Inr msg \<Rightarrow>
              (case call peer msg of
                 Inl e \<Rightarrow> Some (Inl e)
               | Inr resp \<Rightarrow> do { r \<leftarrow> ReadResponse resp; Some (Inr (responseFromEnvelope lib r)) }) })"

section \<open>The serving side (serve.go)\<close>

text \<open>What \<open>httptest.ResponseRecorder\<close> holds after the handler returned.\<close>

record Recorder =
  rec_Code :: int
  rec_Header :: Header
  rec_Body :: bytes

definition errorResponse :: "http_lib \<Rightarrow> int \<Rightarrow> bytes \<Rightarrow> Response" where
  "errorResponse lib status reason =
     \<lparr>re_Status = status,
      re_Headers = (case json_marshal lib [(ascii ''Content-Type'', [ascii ''application/json''])] of None \<Rightarrow> [] | Some j \<Rightarrow> j),
      re_Body = json_error lib reason\<rparr>"

fun hasControlByte :: "bytes \<Rightarrow> bool" where
  "hasControlByte [] = False"
| "hasControlByte (b # s) = (if b < 0x20 \<or> b = 0x7f then True else hasControlByte s)"

definition validForwardLine :: "http_lib \<Rightarrow> bytes \<Rightarrow> bytes \<Rightarrow> bytes + bytes \<times> bytes" where
  "validForwardLine lib mth path =
     (if mth \<noteq> [] \<and> \<not> isHTTPToken mth then Inl (ascii ''invalid method'')
      else
        let mth' = (if mth = [] then ascii ''GET'' else mth);
            path' = (if path = [] then ascii ''/'' else path)
        in if hasControlByte path' then Inl (ascii ''invalid path'')
           else case parse_request_uri lib path' of
                  None \<Rightarrow> Inl (ascii ''invalid path'')
                | Some u \<Rightarrow> Inr (mth', u))"

fun validHeaderValue :: "bytes \<Rightarrow> bool" where
  "validHeaderValue [] = True"
| "validHeaderValue (c # s) = (if c = 13 \<or> c = 10 \<or> c = 0 then False else validHeaderValue s)"

definition decode_headers :: "http_lib \<Rightarrow> bytes \<Rightarrow> Header" where
  "decode_headers lib blob =
     (if blob = [] then []
      else case json_unmarshal lib blob of
             None \<Rightarrow> []
           | Some hdrs \<Rightarrow> fold (\<lambda>(k, vs) h. if isHTTPToken k then add_values validHeaderValue k vs h else h) hdrs [])"

definition inject_identity :: "Forward \<Rightarrow> Header \<Rightarrow> Header" where
  "inject_identity f h0 =
     (let h1 = (if fw_TenantID f \<noteq> [] then Header_Set h0 HeaderOrgID (fw_TenantID f) else h0);
          h2 = (if fw_UserID f \<noteq> [] then Header_Set h1 HeaderUserID (fw_UserID f) else h1);
          h3 = Header_Set h2 HeaderUserIsAdmin (FormatBool (fw_IsAdmin f))
      in Header_Set h3 HeaderUserPerms (FormatInt (fw_Permissions f)))"

text \<open>The part of \<open>handle\<close> before the handler runs: the refusal, or the request the handler gets.\<close>

definition handle_request :: "http_lib \<Rightarrow> Forward \<Rightarrow> Response + HttpRequest" where
  "handle_request lib f =
     (case validForwardLine lib (fw_Method f) (fw_Path f) of
        Inl reason \<Rightarrow> Inl (errorResponse lib 400 reason)
      | Inr (mth, u) \<Rightarrow>
          (case new_request lib mth u of
             None \<Rightarrow> Inl (errorResponse lib 400 (ascii ''invalid request''))
           | Some (path, rawQuery) \<Rightarrow>
               Inr \<lparr>hr_Method = mth, hr_Path = path, hr_RawQuery = rawQuery,
                    hr_Header = Some (inject_identity f (stripClientIdentity lib (decode_headers lib (fw_Headers f)))),
                    hr_Body = Some (Inr (fw_Body f))\<rparr>))"

definition TrimSpace :: "bytes \<Rightarrow> bytes" where
  "TrimSpace s = (let space = (\<lambda>c. c \<in> {9, 10, 11, 12, 13, 32}) in rev (dropWhile space (rev (dropWhile space s))))"

definition isStreamingResponse :: "http_lib \<Rightarrow> Header \<Rightarrow> bool" where
  "isStreamingResponse lib h =
     (let ct0 = Header_Get h (ascii ''Content-Type'') in
      if ct0 = [] then False
      else let ct = takeWhile (\<lambda>c. c \<noteq> 59) ct0 in
           if list_all (\<lambda>c. c < 128) ct then map lower (TrimSpace ct) = ascii ''text/event-stream''
           else unicode_streaming lib ct)"

definition handle :: "http_lib \<Rightarrow> (HttpRequest \<Rightarrow> Recorder option) \<Rightarrow> Forward \<Rightarrow> Response option" where
  "handle lib serve f =
     (case handle_request lib f of
        Inl refusal \<Rightarrow> Some refusal
      | Inr req \<Rightarrow> do {
          rec \<leftarrow> serve req;
          if isStreamingResponse lib (rec_Header rec)
          then Some (errorResponse lib 501 (ascii ''streaming not supported over Forward yet''))
          else Some \<lparr>re_Status = rec_Code rec,
                     re_Headers = (case json_marshal lib (rec_Header rec) of None \<Rightarrow> [] | Some j \<Rightarrow> j),
                     re_Body = rec_Body rec\<rparr> })"

text \<open>A handler's return of a built message.\<close>

definition reply_built :: "(zap_error + Message) option \<Rightarrow> handler_result" where
  "reply_built b = (case b of None \<Rightarrow> HPanic | Some (Inl e) \<Rightarrow> HErr | Some (Inr m) \<Rightarrow> HOk (Some m))"

definition serve_handler :: "http_lib \<Rightarrow> (HttpRequest \<Rightarrow> Recorder option) \<Rightarrow> Handler" where
  "serve_handler lib serve from msg =
     (case ReadForward msg of
        None \<Rightarrow> HPanic
      | Some f \<Rightarrow> (case handle lib serve f of None \<Rightarrow> HPanic | Some r \<Rightarrow> reply_built (BuildResponse r)))"

definition Serve :: "http_lib \<Rightarrow> Node \<Rightarrow> (HttpRequest \<Rightarrow> Recorder option) \<Rightarrow> Node" where
  "Serve lib node serve = Node_Handle node MsgTypeForward (serve_handler lib serve)"

section \<open>The relay (relay.go)\<close>

text \<open>A gate fails, or returns the forward it may have changed and a response when it denies.\<close>

type_synonym Gate = "Forward \<Rightarrow> unit + Forward \<times> Response option"

definition relay_handler :: "Gate \<Rightarrow> (bytes \<Rightarrow> bytes) \<Rightarrow> (bytes \<Rightarrow> Message \<Rightarrow> fwd_error + Message) \<Rightarrow> Handler" where
  "relay_handler gate pick call from msg =
     (case ReadForward msg of
        None \<Rightarrow> HPanic
      | Some f0 \<Rightarrow>
          (case gate f0 of
             Inl err \<Rightarrow> HErr
           | Inr (f, Some deny) \<Rightarrow> reply_built (BuildResponse deny)
           | Inr (f, None) \<Rightarrow>
               (case BuildForward f of
                  None \<Rightarrow> HPanic
                | Some (Inl err) \<Rightarrow> HErr
                | Some (Inr augmented) \<Rightarrow>
                    (case call (pick (fw_Path f)) augmented of Inl err \<Rightarrow> HErr | Inr resp \<Rightarrow> HOk (Some resp)))))"

definition Relay :: "Node \<Rightarrow> Gate \<Rightarrow> (bytes \<Rightarrow> bytes) \<Rightarrow> (bytes \<Rightarrow> Message \<Rightarrow> fwd_error + Message) \<Rightarrow> Node" where
  "Relay node gate pick call = Node_Handle node MsgTypeForward (relay_handler gate pick call)"

section \<open>Reverse pushes (client.go)\<close>

text \<open>\<open>pushRegistry\<close> maps a connection id to a sink, here its name; \<open>pr_log\<close> is what the sinks were asked to
  deliver. \<open>fails sink p\<close> is whether \<open>Deliver\<close> returns an error.\<close>

record pushRegistry =
  pr_sinks :: "bytes \<rightharpoonup> nat"
  pr_log :: "(nat \<times> Push) list"

definition RegisterReversePush :: "pushRegistry \<Rightarrow> bytes \<Rightarrow> nat \<Rightarrow> pushRegistry" where
  "RegisterReversePush g connID sink = g\<lparr>pr_sinks := (pr_sinks g)(connID \<mapsto> sink)\<rparr>"

definition UnregisterReversePush :: "pushRegistry \<Rightarrow> bytes \<Rightarrow> pushRegistry" where
  "UnregisterReversePush g connID = g\<lparr>pr_sinks := (pr_sinks g)(connID := None)\<rparr>"

definition HandleReversePush :: "(nat \<Rightarrow> Push \<Rightarrow> bool) \<Rightarrow> pushRegistry \<Rightarrow> Message \<Rightarrow> (pushRegistry \<times> handler_result) option" where
  "HandleReversePush fails g msg = do {
     p \<leftarrow> ReadPush msg;
     case pr_sinks g (pu_ConnID p) of
       None \<Rightarrow> Some (g, HOk None)
     | Some sink \<Rightarrow>
         let g1 = g\<lparr>pr_log := pr_log g @ [(sink, p)]\<rparr> in
         if fails sink p then Some (g1\<lparr>pr_sinks := (pr_sinks g1)(pu_ConnID p := None)\<rparr>, HErr)
         else Some (g1, HOk None) }"

section \<open>The envelopes survive the wire\<close>

definition wf_Forward :: "Forward \<Rightarrow> bool" where
  "wf_Forward f \<longleftrightarrow> - (2 ^ 63) \<le> fw_Permissions f \<and> fw_Permissions f < 2 ^ 63 \<and>
     length (fw_TenantID f) + length (fw_UserID f) + length (fw_Method f) + length (fw_Path f) + length (fw_ConnID f) +
     length (fw_Headers f) + length (fw_Body f) < 2 ^ 30"

definition shape_Forward :: "Forward \<Rightarrow> bool" where
  "shape_Forward f \<longleftrightarrow> - (2 ^ 63) \<le> fw_Permissions f \<and> fw_Permissions f < 2 ^ 63"

definition wf_Response :: "Response \<Rightarrow> bool" where
  "wf_Response r \<longleftrightarrow> 0 \<le> re_Status r \<and> re_Status r < 2 ^ 32 \<and> length (re_Headers r) + length (re_Body r) < 2 ^ 30"

definition shape_Response :: "Response \<Rightarrow> bool" where
  "shape_Response r \<longleftrightarrow> 0 \<le> re_Status r \<and> re_Status r < 2 ^ 32"

definition wf_Push :: "Push \<Rightarrow> bool" where
  "wf_Push p \<longleftrightarrow> length (pu_ConnID p) + length (pu_Frame p) + length (pu_Encoding p) < 2 ^ 30"

lemmas fwd_wf = wf_Forward_def shape_Forward_def wf_Response_def shape_Response_def wf_Push_def

lemma sint64_id: "- (2 ^ 63) \<le> x \<Longrightarrow> x < 2 ^ 63 \<Longrightarrow> sint (word_of_int x :: u64) = x"
  by (simp add: signed_of_int signed_take_bit_int_eq_self)

lemma sint64_bounds: "- (2 ^ 63) \<le> sint (w :: u64)" "sint (w :: u64) < 2 ^ 63"
  using sint_ge [of w] sint_lt [of w] by simp_all

lemma uint32_bound: "uint (w :: u32) < 2 ^ 32"
  using uint_lt2p [of w] by simp

lemma returns_map [simp]: "returns (map_option f c) P \<longleftrightarrow> returns c (\<lambda>x. P (f x))"
  by (cases c) (auto simp: returns_def)

lemma fForward_sent:
  assumes "wf_Forward x"
  shows "\<exists>m. BuildForward x = Some (Inr m) \<and> Parse (msg_data m) = Inr m \<and> Message_Flags m = Some (push_bit 8 MsgTypeForward) \<and> ReadForward m = Some x"
  by (rule frame_sent [where build = BuildForward, OF BuildForward_def])
    (use assms in \<open>cases x; auto simp: fwd_layout op_in_def ops_disjoint_def ReadForward_def fwd_wf read_copies Object_Int64_def sint64_id split: if_splits\<close>)+

lemma fForward_total:
  assumes "Parse d = Inr m"
  shows "\<exists>x. ReadForward m = Some x \<and> shape_Forward x"
  unfolding ReadForward_def Object_Int64_def
  by (rule reads_total [OF assms]) (use sint64_bounds in \<open>auto simp: fwd_wf fwd_layout intro!: returns_fields\<close>)

interpretation fForward: dex_frame BuildForward ReadForward MsgTypeForward wf_Forward shape_Forward
  by unfold_locales (rule fForward_sent, assumption, rule fForward_total)

lemma fResponse_sent:
  assumes "wf_Response x"
  shows "\<exists>m. BuildResponse x = Some (Inr m) \<and> Parse (msg_data m) = Inr m \<and> Message_Flags m = Some (push_bit 8 MsgTypeForward) \<and> ReadResponse m = Some x"
  by (rule frame_sent [where build = BuildResponse, OF BuildResponse_def])
    (use assms in \<open>cases x; auto simp: fwd_layout op_in_def ops_disjoint_def ReadResponse_def fwd_wf read_copies word32_int split: if_splits\<close>)+

lemma fResponse_total:
  assumes "Parse d = Inr m"
  shows "\<exists>x. ReadResponse m = Some x \<and> shape_Response x"
  unfolding ReadResponse_def
  by (rule reads_total [OF assms]) (use uint32_bound in \<open>auto simp: fwd_wf fwd_layout intro!: returns_fields\<close>)

interpretation fResponse: dex_frame BuildResponse ReadResponse MsgTypeForward wf_Response shape_Response
  by unfold_locales (rule fResponse_sent, assumption, rule fResponse_total)

lemma fPush_sent:
  assumes "wf_Push x"
  shows "\<exists>m. BuildPush x = Some (Inr m) \<and> Parse (msg_data m) = Inr m \<and> Message_Flags m = Some (push_bit 8 MsgTypePush) \<and> ReadPush m = Some x"
  by (rule frame_sent [where build = BuildPush, OF BuildPush_def])
    (use assms in \<open>cases x; auto simp: fwd_layout op_in_def ops_disjoint_def ReadPush_def fwd_wf read_copies split: if_splits\<close>)+

lemma fPush_total:
  assumes "Parse d = Inr m"
  shows "\<exists>x. ReadPush m = Some x \<and> True"
  unfolding ReadPush_def
  by (rule reads_total [OF assms]) (auto simp: fwd_layout intro!: returns_fields)

interpretation fPush: dex_frame BuildPush ReadPush MsgTypePush wf_Push "\<lambda>p. True"
  by unfold_locales (rule fPush_sent, assumption, rule fPush_total)

section \<open>Canonical keys\<close>

lemma case_maps:
  "upper (upper c) = upper c" "lower (upper c) = lower c" "upper (lower c) = upper c" "lower (lower c) = lower c"
  by (simp_all add: upper_def lower_def is_upper_def is_lower_def word_le_nat_alt; unat_arith)+

lemma case_letter: "is_lower c \<Longrightarrow> is_upper (c - 32)" "is_upper c \<Longrightarrow> is_lower (c + 32)"
  by (simp_all add: is_upper_def is_lower_def word_le_nat_alt; unat_arith)+

lemma token_case: "tokenTable (upper c) = tokenTable c" "tokenTable (lower c) = tokenTable c"
  using case_letter [of c] by (cases "is_lower c"; cases "is_upper c"; simp add: upper_def lower_def tokenTable_def)+

lemma token_ascii: "tokenTable c \<Longrightarrow> c < 128"
  by (auto simp: tokenTable_def is_upper_def is_lower_def is_digit_def word_le_nat_alt word_less_nat_alt)

lemma canon_loop_eq_Nil [simp]: "canon_loop up s = [] \<longleftrightarrow> s = []"
  by (cases s) (simp_all add: Let_def)

lemma canon_loop_token: "list_all tokenTable (canon_loop up s) \<longleftrightarrow> list_all tokenTable s"
  by (induction s arbitrary: up) (simp_all add: Let_def token_case)

lemma canon_loop_idem: "canon_loop up (canon_loop up s) = canon_loop up s"
  by (induction s arbitrary: up) (simp_all add: Let_def case_maps)

lemma canon_loop_upper: "canon_loop up s = canon_loop up (map upper s)" "map upper (canon_loop up s) = map upper s"
  by (induction s arbitrary: up) (simp_all add: Let_def case_maps)

lemma Canonical_idem [simp]: "CanonicalHeaderKey (CanonicalHeaderKey k) = CanonicalHeaderKey k"
  by (simp add: CanonicalHeaderKey_def canon_loop_token canon_loop_idem)

lemma Canonical_token [simp]: "isHTTPToken (CanonicalHeaderKey k) \<longleftrightarrow> isHTTPToken k"
  by (auto simp: CanonicalHeaderKey_def isHTTPToken_def canon_loop_token)

lemma ToUpper_token: "isHTTPToken k \<Longrightarrow> ToUpper lib k = map upper k"
  using token_ascii by (simp add: ToUpper_def isHTTPToken_def list_all_iff)

text \<open>Two names that differ in case only have the same canonical form.\<close>

lemma Canonical_case:
  assumes "isHTTPToken a" and "isHTTPToken b"
  shows "CanonicalHeaderKey a = CanonicalHeaderKey b \<longleftrightarrow> map upper a = map upper b"
proof -
  have "map upper (canon_loop True a) = map upper a" "map upper (canon_loop True b) = map upper b" by (rule canon_loop_upper(2))+
  moreover have "canon_loop True a = canon_loop True (map upper a)" "canon_loop True b = canon_loop True (map upper b)"
    by (rule canon_loop_upper(1))+
  ultimately show ?thesis using assms unfolding CanonicalHeaderKey_def isHTTPToken_def by metis
qed

section \<open>Header maps\<close>

text \<open>A header whose keys are tokens in canonical form: what \<open>Add\<close> and \<open>Set\<close> produce.\<close>

definition canonical :: "Header \<Rightarrow> bool" where
  "canonical h \<longleftrightarrow> distinct (map fst h) \<and> (\<forall>k \<in> fst ` set h. isHTTPToken k \<and> CanonicalHeaderKey k = k)"

lemma canonical_Nil [simp]: "canonical []"
  by (simp add: canonical_def)

lemma canonical_update:
  assumes "canonical h" and "isHTTPToken k"
  shows "canonical (AList.update (CanonicalHeaderKey k) vs h)"
  using assms by (auto simp: canonical_def dom_update distinct_update)

lemma canonical_filter: "canonical h \<Longrightarrow> canonical (filter P h)"
  by (auto simp: canonical_def intro: distinct_map_filter)

lemma canonical_Del:
  "canonical h \<Longrightarrow> Header_Del h k = filter (\<lambda>(k', vs). k' \<noteq> CanonicalHeaderKey k) h"
  by (simp add: Header_Del_def AList.delete_eq split_def) (metis (mono_tags, lifting))

lemma fold_Del:
  "fold (\<lambda>name h. Header_Del h name) ns h = filter (\<lambda>(k, vs). k \<notin> CanonicalHeaderKey ` set ns) h"
  by (induction ns arbitrary: h) (auto simp: Header_Del_def AList.delete_eq split_def intro!: filter_cong)

lemma fold_Del_if:
  assumes "\<forall>k \<in> set ks. CanonicalHeaderKey k = k"
  shows "fold (\<lambda>key h. if P key then Header_Del h key else h) ks h = filter (\<lambda>(k, vs). \<not> (k \<in> set ks \<and> P k)) h"
  using assms
  by (induction ks arbitrary: h) (auto simp: Header_Del_def AList.delete_eq split_def intro!: filter_cong)

definition identity_key :: "bytes \<Rightarrow> bool" where
  "identity_key k \<longleftrightarrow> k \<in> CanonicalHeaderKey ` set clientIdentityHeaders \<or> reserved_prefix (map upper k) \<or> k = CanonicalHeaderKey (ascii ''Cookie'')"

lemma strip_canonical:
  assumes "canonical h"
  shows "stripClientIdentity lib h = filter (\<lambda>(k, vs). \<not> identity_key k) h"
proof -
  let ?h1 = "filter (\<lambda>(k, vs). k \<notin> CanonicalHeaderKey ` set clientIdentityHeaders) h"
  have k: "\<forall>k \<in> set (map fst ?h1). CanonicalHeaderKey k = k" using assms by (auto simp: canonical_def)
  have up: "ToUpper lib k = map upper k" if "(k, vs) \<in> set h" for k vs
    using ToUpper_token assms that by (force simp: canonical_def)
  show ?thesis
    unfolding stripClientIdentity_def Let_def fold_Del fold_Del_if [OF k]
    using up by (auto simp: Header_Del_def AList.delete_eq split_def identity_key_def image_iff intro!: filter_cong)
qed

lemma canonical_Set: "canonical h \<Longrightarrow> isHTTPToken k \<Longrightarrow> canonical (Header_Set h k v)"
  unfolding Header_Set_def by (rule canonical_update)

lemma canonical_Add: "canonical h \<Longrightarrow> isHTTPToken k \<Longrightarrow> canonical (Header_Add h k v)"
  unfolding Header_Add_def by (rule canonical_update)

lemma canonical_add_values: "canonical h \<Longrightarrow> isHTTPToken k \<Longrightarrow> canonical (add_values ok k vs h)"
  unfolding add_values_def by (induction vs arbitrary: h) (simp_all add: canonical_Add)

lemma canonical_decode: "canonical (decode_headers lib blob)"
proof -
  have "canonical (fold (\<lambda>(k, vs) h. if isHTTPToken k then add_values validHeaderValue k vs h else h) hdrs h)" if "canonical h" for hdrs h
    using that by (induction hdrs arbitrary: h) (auto simp: canonical_add_values)
  then show ?thesis by (auto simp: decode_headers_def split: option.splits)
qed

text \<open>The values of a key after a step.\<close>

lemma Values_update:
  "Header_Values (AList.update (CanonicalHeaderKey k) vs h) k' = (if CanonicalHeaderKey k' = CanonicalHeaderKey k then vs else Header_Values h k')"
  by (simp add: Header_Values_def update_conv')

lemma Values_add_values:
  "Header_Values (add_values ok k vs h) k' =
     (if CanonicalHeaderKey k' = CanonicalHeaderKey k then Header_Values h k' @ filter ok vs else Header_Values h k')"
  unfolding add_values_def
proof (induction vs arbitrary: h)
  case (Cons v vs)
  have "Header_Values h k' = Header_Values h k" if "CanonicalHeaderKey k' = CanonicalHeaderKey k"
    using that by (simp add: Header_Values_def)
  then show ?case by (simp add: Cons.IH Header_Add_def Values_update)
qed simp

lemma map_of_filter_key: "map_of (filter (\<lambda>(k, vs). P k) h) k = (if P k then map_of h k else None)"
  by (induction h) auto

lemma Values_strip:
  assumes "canonical h"
  shows "Header_Values (stripClientIdentity lib h) k = (if identity_key (CanonicalHeaderKey k) then [] else Header_Values h k)"
  using assms by (simp add: strip_canonical Header_Values_def map_of_filter_key)

lemma length_Canonical [simp]: "length (CanonicalHeaderKey k) = length k"
proof -
  have "length (canon_loop up k) = length k" for up by (induction k arbitrary: up) (simp_all add: Let_def)
  then show ?thesis by (simp add: CanonicalHeaderKey_def)
qed

lemma token_name:
  assumes "s \<noteq> []" and "list_all (\<lambda>c. of_char c = (45 :: nat) \<or> 65 \<le> (of_char c :: nat) \<and> (of_char c :: nat) \<le> 90 \<or>
    97 \<le> (of_char c :: nat) \<and> (of_char c :: nat) \<le> 122) s"
  shows "isHTTPToken (ascii s)"
proof -
  have "tokenTable (of_nat n)" if "n = 45 \<or> 65 \<le> n \<and> n \<le> 90 \<or> 97 \<le> n \<and> n \<le> 122" for n :: nat
  proof -
    have "n < 256" using that by linarith
    then have "unat (of_nat n :: byte) = n" by (simp add: unat_byte_of_nat)
    then show ?thesis using that by (auto simp: tokenTable_def is_upper_def is_lower_def word_le_nat_alt)
  qed
  then show ?thesis using assms by (auto simp: isHTTPToken_def ascii_def list_all_iff)
qed

lemma fwd_names:
  "isHTTPToken HeaderOrgID" "isHTTPToken HeaderUserID" "isHTTPToken HeaderUserIsAdmin" "isHTTPToken HeaderUserPerms"
  by (simp_all add: HeaderOrgID_def HeaderUserID_def HeaderUserIsAdmin_def HeaderUserPerms_def token_name)

lemma four_distinct: "distinct (map CanonicalHeaderKey [HeaderOrgID, HeaderUserID, HeaderUserIsAdmin, HeaderUserPerms])"
proof -
  have "distinct (map length (map CanonicalHeaderKey [HeaderOrgID, HeaderUserID, HeaderUserIsAdmin, HeaderUserPerms]))"
    by (simp add: HeaderOrgID_def HeaderUserID_def HeaderUserIsAdmin_def HeaderUserPerms_def ascii_def)
  then show ?thesis using distinct_map by blast
qed

lemma identity_names: "list_all isHTTPToken clientIdentityHeaders"
  by (simp add: clientIdentityHeaders_def fwd_names token_name)

lemma four_identity:
  "identity_key (CanonicalHeaderKey HeaderOrgID)" "identity_key (CanonicalHeaderKey HeaderUserID)"
  "identity_key (CanonicalHeaderKey HeaderUserIsAdmin)" "identity_key (CanonicalHeaderKey HeaderUserPerms)"
  by (simp_all add: identity_key_def clientIdentityHeaders_def)

text \<open>The values of a header name in the request the handler gets.\<close>

definition edge_values :: "Forward \<Rightarrow> bytes \<Rightarrow> bytes list" where
  "edge_values f name =
     (if name = HeaderOrgID then (if fw_TenantID f = [] then [] else [fw_TenantID f])
      else if name = HeaderUserID then (if fw_UserID f = [] then [] else [fw_UserID f])
      else if name = HeaderUserIsAdmin then [FormatBool (fw_IsAdmin f)]
      else [FormatInt (fw_Permissions f)])"

definition four :: "bytes list" where
  "four = [HeaderOrgID, HeaderUserID, HeaderUserIsAdmin, HeaderUserPerms]"

lemma canonical_inject: "canonical h \<Longrightarrow> canonical (inject_identity f h)"
  by (simp add: inject_identity_def Let_def canonical_Set fwd_names)

lemma Values_Set: "Header_Values (Header_Set h k v) k' = (if CanonicalHeaderKey k' = CanonicalHeaderKey k then [v] else Header_Values h k')"
  by (simp add: Header_Set_def Values_update)

lemma Values_inject:
  assumes "canonical h"
  shows "name \<in> set four \<Longrightarrow> Header_Values (inject_identity f (stripClientIdentity lib h)) name = edge_values f name"
    and "CanonicalHeaderKey name \<notin> CanonicalHeaderKey ` set four \<Longrightarrow>
      Header_Values (inject_identity f (stripClientIdentity lib h)) name = (if identity_key (CanonicalHeaderKey name) then [] else Header_Values h name)"
proof -
  define a where "a = CanonicalHeaderKey HeaderOrgID"
  define b where "b = CanonicalHeaderKey HeaderUserID"
  define c where "c = CanonicalHeaderKey HeaderUserIsAdmin"
  define d where "d = CanonicalHeaderKey HeaderUserPerms"
  have ne: "a \<noteq> b" "a \<noteq> c" "a \<noteq> d" "b \<noteq> c" "b \<noteq> d" "c \<noteq> d"
    and id: "identity_key a" "identity_key b" "identity_key c" "identity_key d"
    using four_distinct four_identity by (simp_all add: a_def b_def c_def d_def)
  have ne': "HeaderUserID \<noteq> HeaderOrgID" "HeaderUserIsAdmin \<noteq> HeaderOrgID" "HeaderUserIsAdmin \<noteq> HeaderUserID"
    "HeaderUserPerms \<noteq> HeaderOrgID" "HeaderUserPerms \<noteq> HeaderUserID" "HeaderUserPerms \<noteq> HeaderUserIsAdmin"
    using ne by (auto simp: a_def b_def c_def d_def)
  let ?h = "stripClientIdentity lib h"
  have v: "Header_Values (inject_identity f ?h) k =
    (if CanonicalHeaderKey k = d then [FormatInt (fw_Permissions f)]
     else if CanonicalHeaderKey k = c then [FormatBool (fw_IsAdmin f)]
     else if CanonicalHeaderKey k = b \<and> fw_UserID f \<noteq> [] then [fw_UserID f]
     else if CanonicalHeaderKey k = a \<and> fw_TenantID f \<noteq> [] then [fw_TenantID f]
     else if identity_key (CanonicalHeaderKey k) then [] else Header_Values h k)" for k
    by (simp add: inject_identity_def Let_def Values_Set Values_strip [OF assms] a_def b_def c_def d_def)
  note av = a_def [symmetric] b_def [symmetric] c_def [symmetric] d_def [symmetric]
  show "Header_Values (inject_identity f ?h) name = edge_values f name" if n: "name \<in> set four"
  proof -
    consider "name = HeaderOrgID" | "name = HeaderUserID" | "name = HeaderUserIsAdmin" | "name = HeaderUserPerms"
      using n by (auto simp: four_def)
    then show ?thesis by cases (simp_all add: v av edge_values_def ne ne [symmetric] ne' ne' [symmetric] id)
  qed
  show "Header_Values (inject_identity f ?h) name = (if identity_key (CanonicalHeaderKey name) then [] else Header_Values h name)"
    if "CanonicalHeaderKey name \<notin> CanonicalHeaderKey ` set four"
    using that by (simp add: v four_def av)
qed

lemma inject_other:
  assumes "canonical h" and "k \<notin> CanonicalHeaderKey ` set four"
  shows "map_of (inject_identity f (stripClientIdentity lib h)) k = (if identity_key k then None else map_of h k)"
  using assms by (simp add: inject_identity_def Let_def Header_Set_def update_conv' strip_canonical map_of_filter_key four_def)

text \<open>What a blob of client headers says about a name: the valid values under all spellings of the name.\<close>

definition client_values :: "http_lib \<Rightarrow> bytes \<Rightarrow> bytes \<Rightarrow> bytes list" where
  "client_values lib blob name =
     (case (if blob = [] then None else json_unmarshal lib blob) of
        None \<Rightarrow> []
      | Some hdrs \<Rightarrow> concat (map (\<lambda>(k, vs). if isHTTPToken k \<and> map upper k = map upper name then filter validHeaderValue vs else []) hdrs))"

lemma Values_decode:
  assumes "isHTTPToken name"
  shows "Header_Values (decode_headers lib blob) name = client_values lib blob name"
proof -
  let ?vs = "\<lambda>(k, vs). if isHTTPToken k \<and> map upper k = map upper name then filter validHeaderValue vs else []"
  have "Header_Values (fold (\<lambda>(k, vs) h. if isHTTPToken k then add_values validHeaderValue k vs h else h) hdrs h) name =
      Header_Values h name @ concat (map ?vs hdrs)" for hdrs h
  proof (induction hdrs arbitrary: h)
    case (Cons e hdrs)
    obtain k vs where e: "e = (k, vs)" by (cases e)
    show ?case
    proof (cases "isHTTPToken k")
      case True
      then have "CanonicalHeaderKey name = CanonicalHeaderKey k \<longleftrightarrow> map upper k = map upper name"
        using Canonical_case [OF assms True] by auto
      then show ?thesis using True by (simp add: Cons.IH e Values_add_values)
    qed (simp add: Cons.IH e)
  qed simp
  moreover have "Header_Values [] name = []" by (simp add: Header_Values_def)
  ultimately show ?thesis by (simp add: decode_headers_def client_values_def split: option.splits)
qed

text \<open>The names no client may set, in any spelling.\<close>

definition identity_name :: "bytes \<Rightarrow> bool" where
  "identity_name name \<longleftrightarrow> map upper name \<in> (map upper) ` set clientIdentityHeaders \<or> reserved_prefix (map upper name) \<or>
     map upper name = map upper (ascii ''Cookie'')"

lemma identity_key_name:
  assumes "isHTTPToken name"
  shows "identity_key (CanonicalHeaderKey name) \<longleftrightarrow> identity_name name"
proof -
  have "CanonicalHeaderKey name \<in> CanonicalHeaderKey ` set clientIdentityHeaders \<longleftrightarrow> map upper name \<in> map upper ` set clientIdentityHeaders"
    using Canonical_case [OF assms] identity_names by (auto simp: list_all_iff image_iff)
  moreover have "CanonicalHeaderKey name = CanonicalHeaderKey (ascii ''Cookie'') \<longleftrightarrow> map upper name = map upper (ascii ''Cookie'')"
    by (rule Canonical_case [OF assms]) (simp add: token_name)
  moreover have "map upper (CanonicalHeaderKey name) = map upper name"
    using assms canon_loop_upper(2) by (simp add: CanonicalHeaderKey_def isHTTPToken_def)
  ultimately show ?thesis by (simp add: identity_key_def identity_name_def)
qed

lemma four_name:
  assumes "isHTTPToken name"
  shows "CanonicalHeaderKey name \<in> CanonicalHeaderKey ` set four \<longleftrightarrow> map upper name \<in> map upper ` set four"
  using Canonical_case [OF assms] fwd_names by (auto simp: four_def)

lemma hasControlByte_iff: "hasControlByte s \<longleftrightarrow> (\<exists>b \<in> set s. b < 0x20 \<or> b = 0x7f)"
  by (induction s) auto

lemma validHeaderValue_iff: "validHeaderValue s \<longleftrightarrow> (\<forall>c \<in> set s. c \<noteq> 13 \<and> c \<noteq> 10 \<and> c \<noteq> 0)"
  by (induction s) auto

text \<open>C6. Only the edge asserts identity: whatever envelope arrives and whatever its header blob decodes to, a
  request that reaches the handler carries in the four identity headers exactly what the typed fields of
  the envelope say, carries no other header of the identity list, of a reserved prefix or cookie, in whatever
  spelling the client used, and carries every other header, Authorization among them, with the client's valid
  values. Its method is a token, no client value holds a carriage return, line feed or zero byte, and its
  body is the envelope's.\<close>

theorem identity_confined:
  assumes "handle_request lib f = Inr req"
  shows "\<exists>h. hr_Header req = Some h \<and>
    (\<forall>name \<in> set four. Header_Values h name = edge_values f name) \<and>
    (\<forall>name. isHTTPToken name \<and> map upper name \<notin> map upper ` set four \<longrightarrow>
       (if identity_name name then map_of h (CanonicalHeaderKey name) = None
        else Header_Values h name = client_values lib (fw_Headers f) name)) \<and>
    (\<forall>name v. v \<in> set (client_values lib (fw_Headers f) name) \<longrightarrow> 13 \<notin> set v \<and> 10 \<notin> set v \<and> 0 \<notin> set v) \<and>
    isHTTPToken (hr_Method req) \<and> hr_Body req = Some (Inr (fw_Body f))"
proof -
  let ?d = "decode_headers lib (fw_Headers f)"
  obtain mth u where v: "validForwardLine lib (fw_Method f) (fw_Path f) = Inr (mth, u)"
    and req: "hr_Method req = mth" "hr_Header req = Some (inject_identity f (stripClientIdentity lib ?d))" "hr_Body req = Some (Inr (fw_Body f))"
    using assms by (auto simp: handle_request_def split: sum.splits option.splits prod.splits)
  have "isHTTPToken mth"
    using v by (auto simp: validForwardLine_def Let_def token_name split: if_splits option.splits)
  moreover have "if identity_name name then map_of (inject_identity f (stripClientIdentity lib ?d)) (CanonicalHeaderKey name) = None
      else Header_Values (inject_identity f (stripClientIdentity lib ?d)) name = client_values lib (fw_Headers f) name"
    if n: "isHTTPToken name" "map upper name \<notin> map upper ` set four" for name
  proof -
    have "CanonicalHeaderKey name \<notin> CanonicalHeaderKey ` set four" using n four_name by blast
    then show ?thesis
      using inject_other [OF canonical_decode] Values_inject(2) [OF canonical_decode] identity_key_name [OF n(1)] Values_decode [OF n(1)] by simp
  qed
  moreover have "13 \<notin> set x \<and> 10 \<notin> set x \<and> 0 \<notin> set x" if "x \<in> set (client_values lib (fw_Headers f) name)" for name x
    using that by (auto simp: client_values_def validHeaderValue_iff split: option.splits if_splits)
  ultimately show ?thesis using Values_inject(1) [OF canonical_decode] req by auto
qed

section \<open>Numbers print and parse\<close>

lemma digit_byte:
  assumes "n < 10"
  shows "is_digit (of_nat (48 + n))" "unat ((of_nat (48 + n) :: byte) - 48) = n"
proof -
  define w :: byte where "w = of_nat (48 + n)"
  have u: "unat w = 48 + n" unfolding w_def unat_byte_of_nat using assms by simp
  show "is_digit (of_nat (48 + n))" using u assms unfolding w_def [symmetric] by (simp add: is_digit_def word_le_nat_alt)
  have "(48 :: byte) \<le> w" using u by (simp add: word_le_nat_alt)
  then show "unat ((of_nat (48 + n) :: byte) - 48) = n" using u unfolding w_def [symmetric] by (simp add: unat_sub)
qed

lemma ParseUint_dec: "n < 2 ^ 64 \<Longrightarrow> ParseUint_loop (dec n @ r) 0 = ParseUint_loop r n"
proof (induction n arbitrary: r rule: dec.induct)
  case (1 n)
  show ?case
  proof (cases "n < 10")
    case True
    then show ?thesis using 1(2) digit_byte [of n] by (simp add: dec.simps [of n] Let_def)
  next
    case False
    have "n mod 10 < 10" by simp
    note d = digit_byte [OF this]
    have "ParseUint_loop (dec n @ r) 0 = ParseUint_loop (dec (n div 10) @ (of_nat (48 + n mod 10) # r)) 0"
      using False by (simp add: dec.simps [of n])
    also have "\<dots> = ParseUint_loop (of_nat (48 + n mod 10) # r) (n div 10)" using 1 False by (intro 1(1)) simp_all
    also have "\<dots> = ParseUint_loop r n"
    proof -
      have "\<not> (2 ^ 64 - 1) div 10 + 1 \<le> n div 10" using 1(2) by simp
      moreover have "n div 10 * 10 + n mod 10 = n" by simp
      moreover have "\<not> 2 ^ 64 - 1 < n" using 1(2) by simp
      ultimately show ?thesis using d by (simp only: ParseUint_loop.simps Let_def if_False not_True_eq_False)
    qed
    finally show ?thesis .
  qed
qed

lemma dec_head: "\<exists>c cs. dec n = c # cs \<and> is_digit c"
proof (induction n rule: dec.induct)
  case (1 n)
  then show ?case using digit_byte [of n] by (cases "n < 10") (auto simp: dec.simps [of n])
qed

lemma ParseInt_FormatInt:
  assumes "- (2 ^ 63) \<le> i" and "i < 2 ^ 63"
  shows "ParseInt (FormatInt i) = i"
proof -
  define n where "n = nat \<bar>i\<bar>"
  obtain c cs where c: "dec n = c # cs" "is_digit c" using dec_head by blast
  then have "c \<noteq> 43" "c \<noteq> 45" by (auto simp: is_digit_def word_le_nat_alt)
  moreover have "n < 2 ^ 64" using assms by (auto simp: n_def)
  then have "ParseUint_loop (dec n) 0 = NumOk n" using ParseUint_dec [of n "[]"] by simp
  ultimately show ?thesis
    using c assms by (cases "i < 0") (auto simp: FormatInt_def ParseInt_def Let_def n_def)
qed

lemma ParseBool_FormatBool: "ParseBool (FormatBool b) = b"
  by (simp add: ParseBool_def FormatBool_def ascii_def)

section \<open>A request across the boundary\<close>

text \<open>What the package relies on \<open>encoding/json\<close> for: a header map encodes to a non-empty text that decodes to
  the same map, in some order.\<close>

definition json_carries :: "http_lib \<Rightarrow> Header \<Rightarrow> bool" where
  "json_carries lib h \<longleftrightarrow> (\<exists>j hs. json_marshal lib h = Some j \<and> j \<noteq> [] \<and> json_unmarshal lib j = Some hs \<and>
     distinct (map fst hs) \<and> map_of hs = map_of h)"

definition has_values :: "(bytes \<Rightarrow> bool) \<Rightarrow> Header \<Rightarrow> bool" where
  "has_values ok h \<longleftrightarrow> (\<forall>(k, vs) \<in> set h. vs \<noteq> [] \<and> list_all ok vs)"

lemma update_absent: "k \<notin> fst ` set h \<Longrightarrow> AList.update k v h = h @ [(k, v)]"
  by (induction h) auto

lemma update_last: "k \<notin> fst ` set h \<Longrightarrow> AList.update k w (h @ [(k, v)]) = h @ [(k, w)]"
  by (induction h) auto

lemma Values_absent: "k \<notin> fst ` set h \<Longrightarrow> CanonicalHeaderKey k = k \<Longrightarrow> Header_Values (h @ [(k, vs)]) k = vs"
  using map_of_eq_None_iff [of h k] by (auto simp: Header_Values_def map_add_def)

lemma add_values_absent:
  assumes "CanonicalHeaderKey k = k" and "k \<notin> fst ` set h" and "vs \<noteq> []" and "list_all ok vs"
  shows "add_values ok k vs h = h @ [(k, vs)]"
proof -
  have step: "fold (\<lambda>v h. if ok v then Header_Add h k v else h) ws (h @ [(k, us)]) = h @ [(k, us @ ws)]" if "list_all ok ws" for us ws
    using that
  proof (induction ws arbitrary: us)
    case (Cons w ws)
    then show ?case
      using assms(1,2) by (simp add: Header_Add_def Values_absent update_last)
  qed simp
  obtain v ws where vs: "vs = v # ws" using assms(3) by (cases vs) auto
  have "map_of h k = None" using assms(2) by (simp add: map_of_eq_None_iff)
  then have "Header_Add h k v = h @ [(k, [v])]"
    using assms(1,2) by (simp add: Header_Add_def Header_Values_def update_absent)
  then show ?thesis using step [of ws "[v]"] assms(4) by (simp add: add_values_def vs)
qed

lemma fold_add_values:
  assumes "canonical hs" and "has_values ok hs"
  shows "fold (\<lambda>(k, vs) h. if isHTTPToken k then add_values ok k vs h else h) hs [] = hs"
    and "fold (\<lambda>(k, vs). add_values ok k vs) hs [] = hs"
proof -
  have "fold (\<lambda>(k, vs) h. if isHTTPToken k then add_values ok k vs h else h) es acc = acc @ es \<and>
      fold (\<lambda>(k, vs). add_values ok k vs) es acc = acc @ es" if "canonical (acc @ es)" "has_values ok es" for acc es
    using that
  proof (induction es arbitrary: acc)
    case (Cons e es)
    obtain k vs where e: "e = (k, vs)" by (cases e)
    have "add_values ok k vs acc = acc @ [(k, vs)]" "isHTTPToken k"
      using Cons.prems add_values_absent [of k acc vs ok] by (auto simp: canonical_def has_values_def e)
    then show ?case using Cons.IH [of "acc @ [e]"] Cons.prems by (simp add: e has_values_def)
  qed simp
  from this [of "[]" hs] assms show "fold (\<lambda>(k, vs) h. if isHTTPToken k then add_values ok k vs h else h) hs [] = hs"
    "fold (\<lambda>(k, vs). add_values ok k vs) hs [] = hs" by simp_all
qed

lemma map_of_set: "distinct (map fst xs) \<Longrightarrow> distinct (map fst ys) \<Longrightarrow> map_of xs = map_of ys \<Longrightarrow> set xs = set ys"
  by (metis map_of_inject_set)

lemma carried:
  assumes "json_carries lib h" and "canonical h" and "has_values ok h"
  obtains j hs where "json_marshal lib h = Some j" "j \<noteq> []" "json_unmarshal lib j = Some hs" "map_of hs = map_of h"
    "canonical hs" "has_values ok hs"
proof -
  obtain j hs where j: "json_marshal lib h = Some j" "j \<noteq> []" "json_unmarshal lib j = Some hs" "map_of hs = map_of h" "distinct (map fst hs)"
    using assms(1) by (auto simp: json_carries_def)
  then have "set hs = set h" using assms(2) map_of_set by (metis canonical_def)
  then have "canonical hs" "has_values ok hs" using assms(2,3) j(5) by (auto simp: canonical_def has_values_def)
  with j that show thesis by blast
qed

text \<open>How a node that serves answers a call, as the caller sees it.\<close>

definition served :: "Node \<Rightarrow> bytes \<Rightarrow> bytes \<Rightarrow> Message \<Rightarrow> fwd_error + Message" where
  "served node from peer m =
     (case handler_reply (n_handlers node) from (Message_Bytes m) of
        None \<Rightarrow> Inl CallErr
      | Some r \<Rightarrow> (case Parse (Message_Bytes r) of Inl e \<Rightarrow> Inl CallErr | Inr r' \<Rightarrow> Inr r'))"

definition recorder_ok :: "http_lib \<Rightarrow> Recorder \<Rightarrow> bool" where
  "recorder_ok lib rec \<longleftrightarrow> 0 < rec_Code rec \<and> rec_Code rec < 2 ^ 32 \<and> canonical (rec_Header rec) \<and>
     has_values (\<lambda>v. True) (rec_Header rec) \<and> json_carries lib (rec_Header rec) \<and> \<not> isStreamingResponse lib (rec_Header rec) \<and>
     (\<forall>j. json_marshal lib (rec_Header rec) = Some j \<longrightarrow> length j + length (rec_Body rec) < 2 ^ 30)"

lemma served_by_Serve:
  assumes "wf_Forward fwd" and "BuildForward fwd = Some (Inr m)" and "handle lib serve fwd = Some r" and "wf_Response r"
  shows "\<exists>m'. served (Serve lib node serve) from peer m = Inr m' \<and> ReadResponse m' = Some r"
proof -
  have m: "Parse (msg_data m) = Inr m" "Message_Flags m = Some (push_bit 8 MsgTypeForward)" "ReadForward m = Some fwd"
    using fForward.sent [OF assms(1)] assms(2) by auto
  obtain m' where m': "BuildResponse r = Some (Inr m')" "Parse (msg_data m') = Inr m'" "ReadResponse m' = Some r"
    using fResponse.sent [OF assms(4)] by auto
  have "drop_bit 8 (push_bit 8 MsgTypeForward) = MsgTypeForward" by (simp add: push_bit_flags MsgTypeForward_def)
  then have "handler_reply (n_handlers (Serve lib node serve)) from (Message_Bytes m) = Some m'"
    using m m'(1) assms(3) by (simp add: handler_reply_def Message_Bytes_def Serve_def Node_Handle_def serve_handler_def reply_built_def)
  then show ?thesis using m' by (simp add: served_def Message_Bytes_def)
qed

lemma served_response:
  assumes "recorder_ok lib rec" and "handle_request lib fwd = Inr seen" and "serve seen = Some rec"
  shows "\<exists>r. handle lib serve fwd = Some r \<and> wf_Response r \<and> ht_StatusCode (responseFromEnvelope lib r) = rec_Code rec \<and>
    map_of (ht_Header (responseFromEnvelope lib r)) = map_of (rec_Header rec) \<and> ht_Body (responseFromEnvelope lib r) = rec_Body rec"
proof -
  have rk: "0 < rec_Code rec" "rec_Code rec < 2 ^ 32" "canonical (rec_Header rec)" "has_values (\<lambda>v. True) (rec_Header rec)"
    "json_carries lib (rec_Header rec)" "\<not> isStreamingResponse lib (rec_Header rec)"
    "\<And>j. json_marshal lib (rec_Header rec) = Some j \<Longrightarrow> length j + length (rec_Body rec) < 2 ^ 30"
    using assms(1) by (simp_all add: recorder_ok_def)
  obtain j hs where j: "json_marshal lib (rec_Header rec) = Some j" "j \<noteq> []" "json_unmarshal lib j = Some hs"
    "map_of hs = map_of (rec_Header rec)" "canonical hs" "has_values (\<lambda>v. True) hs"
    using carried [OF rk(5,3,4)] by blast
  let ?r = "\<lparr>re_Status = rec_Code rec, re_Headers = j, re_Body = rec_Body rec\<rparr>"
  have "handle lib serve fwd = Some ?r" using assms(2,3) rk(6) j(1) by (simp add: handle_def)
  moreover have "wf_Response ?r" using rk(1,2) rk(7) [OF j(1)] by (simp add: wf_Response_def)
  ultimately show ?thesis
    using rk(1) j(2-4) fold_add_values(2) [OF j(5,6)] by (simp add: responseFromEnvelope_def Let_def)
qed

text \<open>The header blob of a forward decodes to the stripped headers of the request.\<close>

lemma blob_carries:
  assumes "requestToForward lib req = Inr fwd" and "hr_Header req = Some h" and "canonical h" and "has_values validHeaderValue h"
    and "json_carries lib (stripClientIdentity lib h)"
  shows "map_of (decode_headers lib (fw_Headers fwd)) = map_of (stripClientIdentity lib h)"
proof (cases "stripClientIdentity lib h = []")
  case True
  then show ?thesis
    using assms(1,2) by (auto simp: requestToForward_def Let_def decode_headers_def split: sum.splits option.splits)
next
  case False
  have s: "canonical (stripClientIdentity lib h)" "has_values validHeaderValue (stripClientIdentity lib h)"
    using assms(3,4) by (auto simp: strip_canonical canonical_filter has_values_def)
  obtain j hs where j: "json_marshal lib (stripClientIdentity lib h) = Some j" "j \<noteq> []" "json_unmarshal lib j = Some hs"
    "map_of hs = map_of (stripClientIdentity lib h)" "canonical hs" "has_values validHeaderValue hs"
    using carried [OF assms(5) s] by blast
  have "fw_Headers fwd = j"
    using assms(1,2) j(1) False by (auto simp: requestToForward_def Let_def split: sum.splits option.splits)
  then show ?thesis using j fold_add_values(1) [OF j(5,6)] by (simp add: decode_headers_def)
qed

lemma four_ne:
  "HeaderUserID \<noteq> HeaderOrgID" "HeaderUserIsAdmin \<noteq> HeaderOrgID" "HeaderUserIsAdmin \<noteq> HeaderUserID"
  "HeaderUserPerms \<noteq> HeaderOrgID" "HeaderUserPerms \<noteq> HeaderUserID" "HeaderUserPerms \<noteq> HeaderUserIsAdmin"
  using four_distinct by auto

definition same_identity :: "Header \<Rightarrow> Header \<Rightarrow> bool" where
  "same_identity h h' \<longleftrightarrow> Header_Get h HeaderOrgID = Header_Get h' HeaderOrgID \<and> Header_Get h HeaderUserID = Header_Get h' HeaderUserID \<and>
     ParseBool (Header_Get h HeaderUserIsAdmin) = ParseBool (Header_Get h' HeaderUserIsAdmin) \<and>
     ParseInt (Header_Get h HeaderUserPerms) = ParseInt (Header_Get h' HeaderUserPerms)"

lemma identity_crosses:
  assumes "requestToForward lib req = Inr fwd" and "hr_Header req = Some h" and "wf_Forward fwd" and "canonical d"
  shows "same_identity (inject_identity fwd (stripClientIdentity lib d)) h"
proof -
  have f: "fw_TenantID fwd = Header_Get h HeaderOrgID" "fw_UserID fwd = Header_Get h HeaderUserID"
    "fw_IsAdmin fwd = ParseBool (Header_Get h HeaderUserIsAdmin)" "fw_Permissions fwd = ParseInt (Header_Get h HeaderUserPerms)"
    using assms(1,2) by (auto simp: requestToForward_def Let_def split: sum.splits option.splits if_splits)
  have p: "ParseInt (FormatInt (fw_Permissions fwd)) = fw_Permissions fwd"
    using assms(3) by (intro ParseInt_FormatInt) (simp_all add: wf_Forward_def)
  have "Header_Get (inject_identity fwd (stripClientIdentity lib d)) name = (case edge_values fwd name of [] \<Rightarrow> [] | v # vs \<Rightarrow> v)"
    if "name \<in> set four" for name
    using Values_inject(1) [OF assms(4) that] by (simp add: Header_Get_def)
  then show ?thesis
    using f p by (auto simp: same_identity_def four_def edge_values_def four_ne four_ne [symmetric] ParseBool_FormatBool)
qed


text \<open>A library that carries two header maps, and a request with an identity header and a plain one.\<close>

definition via :: bytes where "via = [86, 105, 97]"

definition sample_lib :: http_lib where
  "sample_lib = \<lparr>json_marshal = (\<lambda>h. Some (if h = [] then [1] else [2])),
     json_unmarshal = (\<lambda>b. Some (if b = [1] then [] else [(via, [[120]])])), json_error = (\<lambda>r. r),
     parse_request_uri = (\<lambda>p. Some p), new_request = (\<lambda>m u. Some (u, [])), status_text = (\<lambda>s. []),
     unicode_upper = (\<lambda>s. s), unicode_streaming = (\<lambda>s. False)\<rparr>"

definition sample_header :: Header where
  "sample_header = [(CanonicalHeaderKey HeaderOrgID, [[111]]), (via, [[120]])]"

definition sample_request :: HttpRequest where
  "sample_request = \<lparr>hr_Method = ascii ''GET'', hr_Path = [47], hr_RawQuery = [], hr_Header = Some sample_header, hr_Body = Some (Inr [7])\<rparr>"

lemma via_key: "isHTTPToken via" "CanonicalHeaderKey via = via"
proof -
  have v: "tokenTable 86" "tokenTable 105" "tokenTable 97" by (simp_all add: tokenTable_def is_upper_def is_lower_def)
  then show "isHTTPToken via" by (simp add: via_def isHTTPToken_def)
  show "CanonicalHeaderKey via = via"
    using v by (simp add: via_def CanonicalHeaderKey_def upper_def lower_def is_upper_def is_lower_def Let_def)
qed

lemma via_plain: "\<not> identity_key via"
proof -
  have "length via = 3" by (simp add: via_def)
  then have "via \<noteq> CanonicalHeaderKey n" if "length n \<noteq> 3" for n using that length_Canonical by metis
  moreover have "list_all (\<lambda>n. length n \<noteq> 3) (ascii ''Cookie'' # clientIdentityHeaders)"
    by (simp add: clientIdentityHeaders_def HeaderOrgID_def HeaderUserID_def HeaderUserIsAdmin_def HeaderUserPerms_def ascii_def)
  moreover have "\<not> reserved_prefix (map upper via)" by (simp add: reserved_prefix_def HasPrefix_def via_def ascii_def)
  ultimately show ?thesis by (auto simp: identity_key_def list_all_iff)
qed

lemma sample_header_facts:
  "canonical sample_header" "has_values validHeaderValue sample_header" "stripClientIdentity sample_lib sample_header = [(via, [[120]])]"
proof -
  have ne: "CanonicalHeaderKey HeaderOrgID \<noteq> via" using four_identity(1) via_plain by metis
  then show c: "canonical sample_header" using via_key fwd_names(1) by (simp add: canonical_def sample_header_def)
  show "has_values validHeaderValue sample_header" by (simp add: has_values_def sample_header_def)
  show "stripClientIdentity sample_lib sample_header = [(via, [[120]])]"
    using four_identity(1) via_plain by (simp add: strip_canonical [OF c]) (simp add: sample_header_def)
qed

definition sample_forward :: Forward where
  "sample_forward = \<lparr>fw_TenantID = [111], fw_UserID = [], fw_IsAdmin = False, fw_Permissions = 0, fw_Method = ascii ''GET'',
     fw_Path = [47], fw_Headers = [2], fw_Body = [7], fw_ConnID = []\<rparr>"

lemma sample_forwarded: "requestToForward sample_lib sample_request = Inr sample_forward"
proof -
  let ?c = CanonicalHeaderKey
  have "via \<noteq> ?c HeaderUserID" "via \<noteq> ?c HeaderUserIsAdmin" "via \<noteq> ?c HeaderUserPerms"
    using four_identity via_plain by metis+
  moreover have "?c HeaderOrgID \<noteq> ?c HeaderUserID" "?c HeaderOrgID \<noteq> ?c HeaderUserIsAdmin" "?c HeaderOrgID \<noteq> ?c HeaderUserPerms"
    using four_distinct by auto
  ultimately have "Header_Get sample_header HeaderOrgID = [111]" "Header_Get sample_header HeaderUserID = []"
    "Header_Get sample_header HeaderUserIsAdmin = []" "Header_Get sample_header HeaderUserPerms = []"
    by (auto simp: Header_Get_def Header_Values_def sample_header_def)
  then show ?thesis
    using sample_header_facts(3)
    by (simp add: requestToForward_def sample_request_def sample_forward_def Let_def ParseBool_def ParseInt_def ascii_def) (simp add: sample_lib_def)
qed


theorem identity_confined_witness:
  "\<exists>req h. handle_request sample_lib sample_forward = Inr req \<and> hr_Header req = Some h \<and> Header_Values h HeaderOrgID = [[111]]"
proof -
  have "isHTTPToken (fw_Method sample_forward)" by (simp add: sample_forward_def token_name)
  then obtain req where req: "handle_request sample_lib sample_forward = Inr req"
    by (auto simp: handle_request_def validForwardLine_def Let_def) (auto simp: sample_lib_def sample_forward_def)
  from identity_confined [OF req] obtain h where "hr_Header req = Some h" "\<forall>name \<in> set four. Header_Values h name = edge_values sample_forward name"
    by blast
  then show ?thesis using req by (auto simp: four_def edge_values_def sample_forward_def)
qed

section \<open>What the client side lets through\<close>

lemma nine_digit: "is_digit 57" "unat ((57 :: byte) - 48) = 9"
  by (simp_all add: is_digit_def)

lemma nines: "m \<le> 19 \<Longrightarrow> ParseUint_loop (replicate m 57 @ r) 0 = ParseUint_loop r (10 ^ m - 1)"
proof (induction m arbitrary: r)
  case (Suc m)
  have "(10 :: nat) ^ m \<le> 10 ^ 18" using Suc.prems by (intro power_increasing) simp_all
  then have b: "\<not> (2 ^ 64 - 1) div 10 + 1 \<le> (10 :: nat) ^ m - 1" "\<not> 2 ^ 64 - 1 < (10 :: nat) ^ Suc m - 1" by simp_all
  have n1: "(10 ^ m - 1) * 10 + 9 = (10 :: nat) ^ Suc m - 1" by (cases "(10 :: nat) ^ m") simp_all
  have "replicate (Suc m) (57 :: byte) @ r = replicate m 57 @ (57 # r)" by (simp add: replicate_append_same flip: replicate_Suc)
  then have "ParseUint_loop (replicate (Suc m) 57 @ r) 0 = ParseUint_loop (57 # r) (10 ^ m - 1)" using Suc by simp
  also have "\<dots> = ParseUint_loop r (10 ^ Suc m - 1)"
    using b n1 nine_digit by (simp only: ParseUint_loop.simps Let_def if_False not_True_eq_False)
  finally show ?case .
qed simp



section \<open>The relay and the pushes\<close>



text \<open>A push is delivered to the sink registered for its connection and to no other; an unknown connection is
  ignored; a failing sink is dropped, and no other registration is touched.\<close>

lemma push_routed:
  assumes "wf_Push p" and "BuildPush p = Some (Inr m)"
  shows "\<exists>g' r. HandleReversePush fails g m = Some (g', r) \<and>
    pr_log g' = pr_log g @ (case pr_sinks g (pu_ConnID p) of None \<Rightarrow> [] | Some s \<Rightarrow> [(s, p)]) \<and>
    (\<forall>c. c \<noteq> pu_ConnID p \<longrightarrow> pr_sinks g' c = pr_sinks g c) \<and>
    pr_sinks g' (pu_ConnID p) = (case pr_sinks g (pu_ConnID p) of None \<Rightarrow> None | Some s \<Rightarrow> if fails s p then None else Some s) \<and>
    (r = HErr \<longleftrightarrow> (\<exists>s. pr_sinks g (pu_ConnID p) = Some s \<and> fails s p))"
  using fPush.delivered [OF assms] by (cases "pr_sinks g (pu_ConnID p)") (auto simp: HandleReversePush_def Let_def)

lemma push_registration:
  "pr_sinks (RegisterReversePush g c s) c = Some s" "pr_sinks (UnregisterReversePush g c) c = None"
  "c' \<noteq> c \<Longrightarrow> pr_sinks (RegisterReversePush g c s) c' = pr_sinks g c'" "c' \<noteq> c \<Longrightarrow> pr_sinks (UnregisterReversePush g c) c' = pr_sinks g c'"
  by (simp_all add: RegisterReversePush_def UnregisterReversePush_def)

end
