(* ===== verification/Spec2Isabelle.thy ===== *)
theory Spec2Isabelle
  imports Zap_Prelude Zap_Wire Zap_Builder Zap_Bufpool Zap_Codec Zap_Node PQ_Frames PQ_Stores PQ_Keys PQ_Session PQ_Handshake PQ_Agreement Zap_PQConn
    Zap_Identity Zap_Router Zap_Schema Dex_Wire Dex_Calldata Dex_Session Dex_V4 V1_Roundtrip Fwd_Http
begin

text \<open>
  Verification of ZAP, the zero-copy message protocol of the Go module \<open>luxfi/zap\<close> (sources under \<open>src/\<close>).

  \<^bold>\<open>The program.\<close> A message is a 16-byte header and a payload of objects, lists and byte strings reached by relative
  pointers; \<open>zap.go\<close> reads it in place and \<open>builder.go\<close> writes it. Nodes (\<open>node.go\<close>) exchange length-prefixed
  messages over connections, correlate requests with responses and dispatch on a type byte in the flags; received
  frames live in pooled, reference-counted buffers (\<open>bufpool.go\<close>). A connection can be wrapped by a post-quantum
  handshake and its record layer (\<open>handshake/\<close>, \<open>conn_pq.go\<close>). On top are a router over interfaces, schemas and EVM types, the
  typed views and builders of \<open>v1/\<close>, the DEX sessions of \<open>dexsession/\<close> and HTTP over ZAP of \<open>forward/\<close>.

  \<^bold>\<open>Conventions.\<close> A byte is an \<open>8 word\<close>, fixed-width integers are words, Go's \<open>int\<close> is \<open>int\<close>. A method that changes its
  receiver takes the old state and returns the new one. A result of type \<open>option\<close> is \<open>None\<close> where the code panics; an error is the
  left side of a sum. Clock readings, random values, closures and the peer's bytes are arguments. Cryptography
  (SHA-2, SHA-3, SHAKE, HKDF, ML-DSA, ML-KEM, X25519, AES-GCM) and the parts of \<open>encoding/json\<close>, \<open>net/url\<close> and \<open>net/http\<close> that
  \<open>forward/\<close> uses are parameters; what is assumed of them is a named hypothesis of the theorem that uses it, and its witness
  instantiates them.

  \<^bold>\<open>The theories.\<close>
  \<^item> \<open>Zap_Prelude\<close>: byte codecs, bounds-checked slices, the error monad.
  \<^item> \<open>Zap_Wire\<close> (\<open>zap.go\<close>): \<open>Parse\<close>, \<open>ParseHeader\<close> and all readers. No reader panics on a parsed message, whatever its bytes
    are, and what pointers resolve to lies inside the message.
  \<^item> \<open>Zap_Builder\<close> (\<open>builder.go\<close>): all writers and the builder pool. Every operation is an append to, or an overwrite in, the
    live prefix of the buffer; from that, built messages read back, for objects and for lists, and pooled builders
    write the same bytes as fresh ones.
  \<^item> \<open>Zap_Bufpool\<close> (\<open>bufpool.go\<close>): slabs, references and pools with the steps of all connections as a transition
    relation; a referenced frame keeps its bytes.
  \<^item> \<open>Zap_Codec\<close> (\<open>node_codec.go\<close>, framing of \<open>node.go\<close>): frames arrive in order and the pooled reader refines the plain one.
  \<^item> \<open>Zap_Node\<close> (\<open>node.go\<close>): the dispatch loop as an inductive relation, calls, the connection table. The loop ends and
    answers every frame, a call gets its own answer, the table never holds a foreign connection.
  \<^item> \<open>PQ_Frames\<close>, \<open>PQ_Stores\<close>, \<open>PQ_Keys\<close>, \<open>PQ_Session\<close>, \<open>PQ_Handshake\<close>, \<open>PQ_Agreement\<close> (\<open>handshake/\<close>): frame codecs, replay
    cache and key store, transcript and key schedule, the record layer, both handshake roles. Delivery, nonce uniqueness,
    replay refusal, authentication of each side, resumption; this theory puts them together as one channel.
  \<^item> \<open>Zap_PQConn\<close> (\<open>conn_pq.go\<close>), \<open>Zap_Identity\<close> (\<open>identity_pq.go\<close>, \<open>pq_attestation.go\<close>), \<open>Zap_Router\<close> (\<open>router.go\<close>, \<open>interface.go\<close>),
    \<open>Zap_Schema\<close> (\<open>schema.go\<close>, \<open>evm.go\<close>): the byte stream over a session, registrations and attestations, least-cost
    routing with and without a concurrent registration, layouts of declared structs.
  \<^item> \<open>Dex_Wire\<close>, \<open>Dex_Calldata\<close>, \<open>Dex_Session\<close>, \<open>Dex_V4\<close> (\<open>dexsession/\<close>): frames, calldata, capabilities, swap and route sessions and
    their event streams. Frames survive the wire, intent ids are derivable from the calldata, capabilities are
    exact and sessions stay bound to their own intent.
  \<^item> \<open>V1_View\<close> (\<open>v1/\<close>): schemas, views, fields, builders, nested objects, lists, registry, iterators; every view reachable
    from untrusted bytes stays in the buffer. \<open>V1_Roundtrip\<close>: messages as data of any nesting are written by the typed writers and
    read back by the typed readers.
  \<^item> \<open>Fwd_Http\<close> (\<open>forward/\<close>): envelopes, identity headers, round tripper, serving handler, relay, pushes; only the edge
    asserts identity, and requests and responses cross the boundary.

  \<^bold>\<open>Interfaces.\<close> Locales state what a client relies on and are interpreted on the model: element writers and readers of lists
  (\<open>list_elem\<close>), streams of length-prefixed frames (\<open>frame_stream\<close>), handshake frame bodies (\<open>frame_codec\<close>), and messages that
  survive the wire (\<open>dex_frame\<close>, for every DEX frame and every envelope of \<open>forward/\<close>).

  \<^bold>\<open>Bounds and fuel.\<close> Round trips assume what the 32-bit fields of the format can hold: messages below two gibibytes, variable parts of a
  frame below one, payloads within the frame limit. Loops over a connection are inductive relations or
  recursions on the length of the input, and that they return is proved; \<open>read_frames\<close> takes the length of the
  stream as fuel, which every frame shortens. A watch that polls a peer takes the list of the peer's answers.

  \<^bold>\<open>Not modelled.\<close> Of \<open>node.go\<close>: listening, start-up, mDNS and logging, which are I/O around the modelled operations. QUIC
  (\<open>quic/\<close>, \<open>node_quic.go\<close>): its behaviour is that of the third-party QUIC and TLS libraries, streams and timers.
  \<open>network.go\<close>, \<open>transport.go\<close>, \<open>transport/\<close>, \<open>mdns/\<close>: choice and opening of sockets, kernel-bypass drivers in C, multicast
  discovery, in four languages. \<open>zapclient/\<close>, \<open>mcp/\<close>, \<open>zapweb/\<close>: peer discovery with timers, subprocesses with JSON, a
  browser and a web-socket server, all over \<open>Node.Call\<close>. \<open>v1/codegen/\<close>: a generator that prints Go source through templates,
  and its output; \<open>v1/pool.go\<close>: a typed wrapper of \<open>sync.Pool\<close>. \<open>examples/\<close>, \<open>bench/\<close>, \<open>tools/\<close>: programs that only call the rest.
  Data races are modelled where the code has them outside a lock (\<open>Zap_Router\<close>) and as interleavings of whole
  operations elsewhere; the zeroing of secrets and read deadlines are left out.
\<close>

section \<open>The secure channel, end to end\<close>

text \<open>C1. Two honest sides get a working channel: an initiator and a responder with compatible
  policies, each reading what the other writes, complete the full handshake and consume everything.
  Each ends with the other's identity as its peer. Whatever either then sends arrives at the other
  complete, in order and unchanged, unless 255 rekeys have used up the epochs. The resumption key the
  initiator caches is one the responder's store will redeem for this client.\<close>

theorem pq_channel:
  assumes "sha3_len c" and "hkdf_ok c" and "signer c pkI skI" and "signer c pkR skR" and "dh_ok c xI xR" and "kem_ok c kp (en_encap enR)"
    and "en_clientRand enI = Some rnd" and "length rnd = ClientRandLen" and "en_x25519 enI = Some xI" and "en_mlkem enI = Some kp"
    and "en_x25519 enR = Some xR"
    and "i_Local i = Some \<lparr>id_PublicKey = Some pkI, id_PrivateKey = Some skI\<rparr>" and "i_Suite i \<in> {0, SuiteX25519MLKEM}"
    and "SuiteX25519MLKEM \<in> set (i_schemes i)" and "length (i_schemes i) + 2014 \<le> MaxFrameBody"
    and "case i_Resume i of None \<Rightarrow> True | Some p \<Rightarrow> cp_Until p \<le> now"
    and "case i_Expected i of None \<Rightarrow> True | Some e \<Rightarrow> Identity_ID c (Some e) = sha3 c pkR"
    and "rs_Local rs = Some \<lparr>id_PublicKey = Some pkR, id_PrivateKey = Some skR\<rparr>" and "acceptsSuite rs SuiteX25519MLKEM"
    and "strict (rs_Profile rs) \<longrightarrow> cache \<noteq> None \<and> i_mode i \<noteq> PQModeClassicalPermitted \<and> list_all Suite_IsValid (i_schemes i)"
    and "gate_open ck cache (of_int now) (sha3 c pkI) rnd"
    and "aead_ok c"
  shows "\<exists>outI outR sI sR st. Initiator_Run c i enI now tEnd clI (rw_at outR []) = (rw_at [] outI, Inr sI) \<and>
    Responder_Run c rs enR ck clR \<lparr>rp_rw = rw_at outI [], rp_cache = cache, rp_psk = psk\<rparr> = (st, Inr sR) \<and>
    rp_rw st = rw_at [] outR \<and> s_peerID sI = sha3 c pkR \<and> s_peerID sR = sha3 c pkI \<and>
    (\<forall>s r sends. (s, r) \<in> {(sI, sR), (sR, sI)} \<longrightarrow> (\<forall>(t, p) \<in> set sends. payload_fits p) \<longrightarrow>
      (\<exists>s1 r1 w ps e. send_all c s sends = Some (s1, ps, e) \<and> rw_out (s_rw s1) = rw_out (s_rw s) @ w \<and>
        recv_n c (feed r w) (length ps) = Some (r1, ps, None) \<and>
        (e = None \<and> ps = map snd sends \<or> e = Some ErrEpochExhausted \<and> prefix ps (map snd sends) \<and> 255 \<le> length ps))) \<and>
    (\<forall>ps t. psk = Some ps \<and> t \<le> ck_issue ck + ps_ttl ps \<longrightarrow>
       (\<exists>cp ps'. s_clientPSK sI = Some cp \<and> rp_psk st = Some ps' \<and> snd (Redeem ps' t (cp_ID cp)) = Some (cp_PSK cp, sha3 c pkI)))"
proof -
  from full_run [OF assms(1-21), of tEnd clI clR psk] obtain outI outR sI sR st where
    run: "Initiator_Run c i enI now tEnd clI (rw_at outR []) = (rw_at [] outI, Inr sI)"
      "Responder_Run c rs enR ck clR \<lparr>rp_rw = rw_at outI [], rp_cache = cache, rp_psk = psk\<rparr> = (st, Inr sR)"
      "rp_rw st = rw_at [] outR" "s_peerID sI = sha3 c pkR" "s_peerID sR = sha3 c pkI"
    and syn: "synced sI sR" "synced sR sI" "sendEpoch sI = 0" "sendEpoch sR = 0"
    and psk: "\<forall>ps t. psk = Some ps \<and> t \<le> ck_issue ck + ps_ttl ps \<longrightarrow>
       (\<exists>cp ps'. s_clientPSK sI = Some cp \<and> rp_psk st = Some ps' \<and> snd (Redeem ps' t (cp_ID cp)) = Some (cp_PSK cp, sha3 c pkI))"
    by (elim exE conjE) (rule that; assumption)
  have del: "\<forall>s r sends. (s, r) \<in> {(sI, sR), (sR, sI)} \<longrightarrow> (\<forall>(t, p) \<in> set sends. payload_fits p) \<longrightarrow>
      (\<exists>s1 r1 w ps e. send_all c s sends = Some (s1, ps, e) \<and> rw_out (s_rw s1) = rw_out (s_rw s) @ w \<and>
        recv_n c (feed r w) (length ps) = Some (r1, ps, None) \<and>
        (e = None \<and> ps = map snd sends \<or> e = Some ErrEpochExhausted \<and> prefix ps (map snd sends) \<and> 255 \<le> length ps))"
  proof (intro allI impI)
    fix s r sends
    assume sr: "(s, r) \<in> {(sI, sR), (sR, sI)}" and fits: "\<forall>(t :: int, p) \<in> set sends. payload_fits p"
    have "synced s r" "sendEpoch s = 0" using sr syn by auto
    from synced_delivers [OF this assms(22,2) fits]
    show "\<exists>s1 r1 w ps e. send_all c s sends = Some (s1, ps, e) \<and> rw_out (s_rw s1) = rw_out (s_rw s) @ w \<and>
        recv_n c (feed r w) (length ps) = Some (r1, ps, None) \<and>
        (e = None \<and> ps = map snd sends \<or> e = Some ErrEpochExhausted \<and> prefix ps (map snd sends) \<and> 255 \<le> length ps)"
      by blast
  qed
  show ?thesis
    by (rule exI [of _ outI], rule exI [of _ outR], rule exI [of _ sI], rule exI [of _ sR], rule exI [of _ st]) (intro conjI run del psk)
qed

theorem pq_channel_witness:
  "\<exists>outI outR sI sR st. Initiator_Run toy_crypto (toy_init None) (toy_en 1) 5 6 False (rw_at outR []) = (rw_at [] outI, Inr sI) \<and>
    Responder_Run toy_crypto toy_resp (toy_en 2) toy_ck False
      \<lparr>rp_rw = rw_at outI [], rp_cache = Some (NewReplayCache 0), rp_psk = Some NewPSKStore\<rparr> = (st, Inr sR) \<and>
    s_peerID sI = toy_sha3 (toy_pk 2) \<and> s_peerID sR = toy_sha3 (toy_pk 1) \<and>
    (\<exists>s1 r1 w. send_all toy_crypto sI [(7, [1, 2]), (8, [3])] = Some (s1, [[1, 2], [3]], None) \<and>
       recv_n toy_crypto (feed sR w) 2 = Some (r1, [[1, 2], [3]], None))"
proof -
  have pol: "SuiteX25519MLKEM \<in> set (i_schemes (toy_init None))" "length (i_schemes (toy_init None)) + 2014 \<le> MaxFrameBody"
    "case i_Resume (toy_init None) of None \<Rightarrow> True | Some p \<Rightarrow> cp_Until p \<le> 5" "i_Suite (toy_init None) \<in> {0, SuiteX25519MLKEM}"
    "case i_Expected (toy_init None) of None \<Rightarrow> True | Some e \<Rightarrow> Identity_ID toy_crypto (Some e) = sha3 toy_crypto (toy_pk 2)"
    "strict (rs_Profile toy_resp) \<longrightarrow> Some (NewReplayCache 0) \<noteq> None \<and> i_mode (toy_init None) \<noteq> PQModeClassicalPermitted \<and>
       list_all Suite_IsValid (i_schemes (toy_init None))"
    by (simp_all add: toy_sel MaxFrameBody_def)
  have kem: "kem_ok toy_crypto (replicate MLKEM768PubLen 1, [1]) (en_encap (toy_en 2))" by (rule toy_kem) simp
  obtain outI outR sI sR st where run: "Initiator_Run toy_crypto (toy_init None) (toy_en 1) 5 6 False (rw_at outR []) = (rw_at [] outI, Inr sI)"
    "Responder_Run toy_crypto toy_resp (toy_en 2) toy_ck False
      \<lparr>rp_rw = rw_at outI [], rp_cache = Some (NewReplayCache 0), rp_psk = Some NewPSKStore\<rparr> = (st, Inr sR)"
    "s_peerID sI = sha3 toy_crypto (toy_pk 2)" "s_peerID sR = sha3 toy_crypto (toy_pk 1)"
    and del: "\<forall>s r sends. (s, r) \<in> {(sI, sR), (sR, sI)} \<longrightarrow> (\<forall>(t, p) \<in> set sends. payload_fits p) \<longrightarrow>
      (\<exists>s1 r1 w ps e. send_all toy_crypto s sends = Some (s1, ps, e) \<and> rw_out (s_rw s1) = rw_out (s_rw s) @ w \<and>
        recv_n toy_crypto (feed r w) (length ps) = Some (r1, ps, None) \<and>
        (e = None \<and> ps = map snd sends \<or> e = Some ErrEpochExhausted \<and> prefix ps (map snd sends) \<and> 255 \<le> length ps))"
    using pq_channel [OF toy_sha3_len toy_hkdf_ok toy_signer [OF toy_sel(14)] toy_signer [OF toy_sel(14)] toy_dh kem toy_sel(8) length_replicate
      toy_sel(9,10,9,1) pol(4,1,2,3,5) toy_sel(7) toy_accepts pol(6) toy_gate toy_aead_ok, of 6 False False "Some NewPSKStore"]
    by (elim exE conjE) (rule that; assumption)
  have fits: "\<forall>(t, p) \<in> set [(7 :: int, [1, 2]), (8, [3])]. payload_fits p" by (simp add: payload_fits_def MaxFrameBody_def)
  have "(sI, sR) \<in> {(sI, sR), (sR, sI)}" by simp
  from del [THEN spec, THEN spec, THEN spec, THEN mp, THEN mp, OF this fits] obtain s1 r1 w ps e where d: "send_all toy_crypto sI [(7, [1, 2]), (8, [3])] = Some (s1, ps, e)"
    "recv_n toy_crypto (feed sR w) (length ps) = Some (r1, ps, None)"
    "e = None \<and> ps = map snd [(7 :: int, [1, 2]), (8, [3])] \<or> e = Some ErrEpochExhausted \<and> prefix ps (map snd [(7 :: int, [1, 2]), (8, [3])]) \<and> 255 \<le> length ps"
    by (elim exE conjE) (rule that; assumption)
  have "e = None \<and> ps = [[1, 2], [3]]" using d(3) prefix_length_le [of ps] by fastforce
  then have d': "send_all toy_crypto sI [(7, [1, 2]), (8, [3])] = Some (s1, [[1, 2], [3]], None)"
    "recv_n toy_crypto (feed sR w) 2 = Some (r1, [[1, 2], [3]], None)" using d(1,2) by (simp_all add: numeral_2_eq_2)
  show ?thesis using run(3,4) unfolding toy_sel(13)
    by (intro exI [of _ outI] exI [of _ outR] exI [of _ sI] exI [of _ sR] exI [of _ st] exI [of _ s1] exI [of _ r1] exI [of _ w] conjI run d')
qed

end
